(* ===== verification/Prelude.thy ===== *)
theory Prelude
  imports Main "HOL-Library.Word"
begin

section \<open>Prelude: machine integers, kernel computations, shared automation\<close>

text \<open>
  What every component of the NexOS model shares: names for the machine integers of
  \<^verbatim>\<open>kernel/include/types.h\<close>, the identities of the kernel's locks and sleep channels, the
  type of a kernel computation with its three outcomes (it returns, it panics, it goes to
  sleep), the combinators the models are written with, a weakest-precondition reading of
  those combinators, and the little-endian layout of integers in byte arrays.
\<close>

unbundle bit_operations_syntax

type_synonym u8 = "8 word"
type_synonym u16 = "16 word"
type_synonym u32 = "32 word"
type_synonym u64 = "64 word"

text \<open>
  The C casts of system-call arguments and results: \<open>(int)x\<close> of a 64-bit register keeps the
  low 32 bits and reads them as two's complement; \<open>(uint64)i\<close> sign-extends.
\<close>

definition c_int :: "u64 \<Rightarrow> int" where
  "c_int x = sint (ucast x :: u32)"

definition to_u64 :: "int \<Rightarrow> u64" where
  "to_u64 i = word_of_int i"

subsection \<open>Locks, sleep channels\<close>

text \<open>
  A sleep lock of the kernel is the lock of an inode of the inode table or of a buffer of the
  buffer cache. A spin lock is named by the object it protects. A sleep channel is the
  address the code passes to \<open>sleep\<close> and \<open>wakeup\<close>.
\<close>

datatype slid = InodeLock nat | BufLock nat

datatype lockid =
    KmemLock | PidLock | WaitLock | ProcLock nat | ItableLock | FtableLock | ConsLock
  | TicksLock | PipeLock u64 | BcacheLock | SleepLock slid | DiskLock

datatype chan =
    ChProc nat | ChTicks | ChCons | ChPipeRead u64 | ChPipeWrite u64 | ChSleep slid
  | ChDiskFree | ChBuf nat

subsection \<open>Kernel computations\<close>

text \<open>
  A call of a kernel function either returns a value and a new state, or halts the machine in
  \<open>panic\<close> with a message, or suspends the calling process: \<open>Sleeps ch s\<close> is a call that has
  entered \<open>sleep\<close> on channel \<open>ch\<close> and has given up the processor in state \<open>s\<close>, \<open>Leaves s\<close> one
  that has given it up in \<open>yield\<close> or for good in \<open>exit\<close>.
\<close>

datatype ('a, 's) outcome = Ret 'a 's | Panic string | Sleeps chan 's | Leaves 's

type_synonym ('s, 'a) kern = "'s \<Rightarrow> ('a, 's) outcome"

abbreviation ret :: "'a \<Rightarrow> ('s, 'a) kern" where
  "ret v \<equiv> Ret v"

definition bnd :: "('s, 'a) kern \<Rightarrow> ('a \<Rightarrow> ('s, 'b) kern) \<Rightarrow> ('s, 'b) kern" where
  "bnd m f = (\<lambda>s. case m s of Ret v t \<Rightarrow> f v t | Panic e \<Rightarrow> Panic e
     | Sleeps c t \<Rightarrow> Sleeps c t | Leaves t \<Rightarrow> Leaves t)"

definition thn :: "('s, 'a) kern \<Rightarrow> ('s, 'b) kern \<Rightarrow> ('s, 'b) kern" where
  "thn m n = bnd m (\<lambda>_. n)"

definition panic :: "string \<Rightarrow> ('s, 'a) kern" where
  "panic e = (\<lambda>_. Panic e)"

definition gets :: "('s \<Rightarrow> 'a) \<Rightarrow> ('s, 'a) kern" where
  "gets f = (\<lambda>s. Ret (f s) s)"

definition modify :: "('s \<Rightarrow> 's) \<Rightarrow> ('s, unit) kern" where
  "modify f = (\<lambda>s. Ret () (f s))"

definition whenk :: "bool \<Rightarrow> ('s, unit) kern \<Rightarrow> ('s, unit) kern" where
  "whenk b m = (if b then m else ret ())"

fun for_each :: "'i list \<Rightarrow> ('i \<Rightarrow> ('s, unit) kern) \<Rightarrow> ('s, unit) kern" where
  "for_each [] f = ret ()"
| "for_each (i # is) f = thn (f i) (for_each is f)"

text \<open>
  A loop over an index range whose body may leave the function early: \<open>search\<close> runs the body
  for each index until it yields a value.
\<close>

fun search :: "'i list \<Rightarrow> ('i \<Rightarrow> ('s, 'a option) kern) \<Rightarrow> ('s, 'a option) kern" where
  "search [] f = ret None"
| "search (i # is) f =
     bnd (f i) (\<lambda>r. case r of Some v \<Rightarrow> ret (Some v) | None \<Rightarrow> search is f)"

lemma panic_apply [simp]: "panic e s = Panic e"
  by (simp add: panic_def)

lemma gets_apply [simp]: "gets f s = Ret (f s) s"
  by (simp add: gets_def)

lemma modify_apply [simp]: "modify f s = Ret () (f s)"
  by (simp add: modify_def)

lemma whenk_apply [simp]: "whenk b m s = (if b then m s else Ret () s)"
  by (simp add: whenk_def)

lemma bnd_apply:
  "bnd m f s = (case m s of Ret v t \<Rightarrow> f v t | Panic e \<Rightarrow> Panic e
     | Sleeps c t \<Rightarrow> Sleeps c t | Leaves t \<Rightarrow> Leaves t)"
  by (simp add: bnd_def)

lemma thn_apply:
  "thn m n s = (case m s of Ret v t \<Rightarrow> n t | Panic e \<Rightarrow> Panic e
     | Sleeps c t \<Rightarrow> Sleeps c t | Leaves t \<Rightarrow> Leaves t)"
  by (simp add: thn_def bnd_def)

lemmas run_simps = bnd_apply thn_apply

lemma bnd_run: "m s = Ret v t \<Longrightarrow> bnd m f s = f v t"
  by (simp add: bnd_apply)

lemma thn_run: "m s = Ret v t \<Longrightarrow> thn m n s = n t"
  by (simp add: thn_apply)

lemma bnd_Ret_iff [simp]:
  "bnd m f s = Ret w u \<longleftrightarrow> (\<exists>v t. m s = Ret v t \<and> f v t = Ret w u)"
  by (simp add: bnd_def split: outcome.splits)

lemma thn_Ret_iff [simp]:
  "thn m n s = Ret w u \<longleftrightarrow> (\<exists>v t. m s = Ret v t \<and> n t = Ret w u)"
  by (simp add: thn_def)

text \<open>Facts that evaluate the concrete states the examples start from.\<close>

named_theorems demos "definitions of the example states"

subsection \<open>Weakest preconditions\<close>

text \<open>
  \<open>wp m Q s\<close>: the call returns and its result satisfies \<open>Q\<close> (so it neither panics nor
  sleeps). \<open>wlp m Q s\<close>: if the call returns, its result satisfies \<open>Q\<close>.
\<close>

definition wp :: "('s, 'a) kern \<Rightarrow> ('a \<Rightarrow> 's \<Rightarrow> bool) \<Rightarrow> 's \<Rightarrow> bool" where
  "wp m Q s = (case m s of Ret v t \<Rightarrow> Q v t | _ \<Rightarrow> False)"

definition wlp :: "('s, 'a) kern \<Rightarrow> ('a \<Rightarrow> 's \<Rightarrow> bool) \<Rightarrow> 's \<Rightarrow> bool" where
  "wlp m Q s = (case m s of Ret v t \<Rightarrow> Q v t | _ \<Rightarrow> True)"

named_theorems wps "weakest preconditions of the combinators"

lemma wp_ret [wps]: "wp (ret v) Q s = Q v s"
  by (simp add: wp_def)

lemma wp_gets [wps]: "wp (gets f) Q s = Q (f s) s"
  by (simp add: wp_def)

lemma wp_modify [wps]: "wp (modify f) Q s = Q () (f s)"
  by (simp add: wp_def)

lemma wp_panic [wps]: "wp (panic e) Q s = False"
  by (simp add: wp_def)

lemma wp_bnd [wps]: "wp (bnd m f) Q s = wp m (\<lambda>v. wp (f v) Q) s"
  by (simp add: wp_def bnd_def split: outcome.splits)

lemma wp_thn [wps]: "wp (thn m n) Q s = wp m (\<lambda>_. wp n Q) s"
  by (simp add: thn_def wps)

lemma wp_whenk [wps]: "wp (whenk b m) Q s = (if b then wp m Q s else Q () s)"
  by (simp add: wp_def)

lemma wp_if [wps]: "wp (if b then m else n) Q s = (if b then wp m Q s else wp n Q s)"
  by simp

lemma wp_mono: "wp m P s \<Longrightarrow> (\<And>v t. P v t \<Longrightarrow> Q v t) \<Longrightarrow> wp m Q s"
  by (auto simp: wp_def split: outcome.splits)

lemma wpD: "wp m Q s \<Longrightarrow> \<exists>v t. m s = Ret v t \<and> Q v t"
  by (auto simp: wp_def split: outcome.splits)

lemma wpI: "m s = Ret v t \<Longrightarrow> Q v t \<Longrightarrow> wp m Q s"
  by (simp add: wp_def)

lemma wlp_ret [wps]: "wlp (ret v) Q s = Q v s"
  by (simp add: wlp_def)

lemma wlp_gets [wps]: "wlp (gets f) Q s = Q (f s) s"
  by (simp add: wlp_def)

lemma wlp_modify [wps]: "wlp (modify f) Q s = Q () (f s)"
  by (simp add: wlp_def)

lemma wlp_panic [wps]: "wlp (panic e) Q s = True"
  by (simp add: wlp_def)

lemma wlp_bnd [wps]: "wlp (bnd m f) Q s = wlp m (\<lambda>v. wlp (f v) Q) s"
  by (simp add: wlp_def bnd_def split: outcome.splits)

lemma wlp_thn [wps]: "wlp (thn m n) Q s = wlp m (\<lambda>_. wlp n Q) s"
  by (simp add: thn_def wps)

lemma wlp_whenk [wps]: "wlp (whenk b m) Q s = (if b then wlp m Q s else Q () s)"
  by (simp add: wlp_def)

lemma wlp_if [wps]: "wlp (if b then m else n) Q s = (if b then wlp m Q s else wlp n Q s)"
  by simp

lemma wlp_mono: "wlp m P s \<Longrightarrow> (\<And>v t. P v t \<Longrightarrow> Q v t) \<Longrightarrow> wlp m Q s"
  by (auto simp: wlp_def split: outcome.splits)

lemma wlpD: "wlp m Q s \<Longrightarrow> m s = Ret v t \<Longrightarrow> Q v t"
  by (simp add: wlp_def)

lemma wlpI: "(\<And>v t. m s = Ret v t \<Longrightarrow> Q v t) \<Longrightarrow> wlp m Q s"
  by (auto simp: wlp_def split: outcome.splits)

lemma wlp_for_each:
  assumes "P s" and "\<And>i t. i \<in> set is \<Longrightarrow> P t \<Longrightarrow> wlp (f i) (\<lambda>_. P) t"
  shows "wlp (for_each is f) (\<lambda>_. P) s"
  using assms
proof (induction "is" arbitrary: s)
  case Nil
  then show ?case by (simp add: wps)
next
  case (Cons i "is")
  have rest: "wlp (for_each is f) (\<lambda>_. P) t" if "P t" for t
    using that Cons.prems(2) by (intro Cons.IH) auto
  have "wlp (f i) (\<lambda>_. P) s" using Cons.prems by simp
  then show ?case
    by (auto simp: wps intro: rest elim: wlp_mono)
qed

subsection \<open>What a call leaves alone\<close>

text \<open>
  \<open>after m s t\<close>: the call \<open>m\<close> from state \<open>s\<close> reaches \<open>t\<close>, where it has returned or has given up
  the processor. \<open>steps R m\<close>: every such pair of states is related by \<open>R\<close>.
\<close>

definition after :: "('s, 'a) kern \<Rightarrow> 's \<Rightarrow> 's \<Rightarrow> bool" where
  "after m s t \<longleftrightarrow> (\<exists>v. m s = Ret v t) \<or> (\<exists>c. m s = Sleeps c t) \<or> m s = Leaves t"

definition steps :: "('s \<Rightarrow> 's \<Rightarrow> bool) \<Rightarrow> ('s, 'a) kern \<Rightarrow> bool" where
  "steps R m \<longleftrightarrow> (\<forall>s t. after m s t \<longrightarrow> R s t)"

lemma stepsD: "steps R m \<Longrightarrow> after m s t \<Longrightarrow> R s t"
  by (simp add: steps_def)

lemma stepsI: "(\<And>s t. after m s t \<Longrightarrow> R s t) \<Longrightarrow> steps R m"
  by (simp add: steps_def)

lemma after_simps [simp]:
  "after (ret v) s t \<longleftrightarrow> t = s" "after (gets f) s t \<longleftrightarrow> t = s" "after (panic e) s t \<longleftrightarrow> False"
  "after (modify g) s t \<longleftrightarrow> t = g s"
  by (auto simp: after_def)

lemma after_bnd:
  "after (bnd m f) s t \<Longrightarrow> after m s t \<or> (\<exists>v u. m s = Ret v u \<and> after (f v) u t)"
  by (auto simp: after_def bnd_def split: outcome.splits)

subsection \<open>Integers in byte arrays\<close>

text \<open>
  RISC-V is little-endian: the on-disk records and the page-table entries in memory are read
  and written least significant byte first.
\<close>

definition le16 :: "u16 \<Rightarrow> u8 list" where
  "le16 w = [ucast w, ucast (drop_bit 8 w)]"

definition le32 :: "u32 \<Rightarrow> u8 list" where
  "le32 w = map (\<lambda>i. ucast (drop_bit (8 * i) w)) [0, 1, 2, 3]"

definition le64 :: "u64 \<Rightarrow> u8 list" where
  "le64 w = map (\<lambda>i. ucast (drop_bit (8 * i) w)) [0, 1, 2, 3, 4, 5, 6, 7]"

fun of_le :: "u8 list \<Rightarrow> 'a::len word" where
  "of_le [] = 0"
| "of_le (b # bs) = ucast b OR push_bit 8 (of_le bs)"

lemma length_le [simp]:
  "length (le16 w) = 2" "length (le32 v) = 4" "length (le64 x) = 8"
  by (simp_all add: le16_def le32_def le64_def)

declare of_le.simps [simp del]

lemma of_le_Nil [simp]: "of_le [] = 0"
  by (simp add: of_le.simps)

lemma bit_of_le:
  "bit (of_le bs :: 'a::len word) n \<longleftrightarrow>
     n < LENGTH('a) \<and> n div 8 < length bs \<and> bit (bs ! (n div 8)) (n mod 8)"
proof (induction bs arbitrary: n)
  case Nil
  then show ?case by simp
next
  case (Cons b bs)
  show ?case
  proof (cases "n < 8")
    case True
    then show ?thesis by (auto simp: bit_simps of_le.simps)
  next
    case False
    then have "n div 8 = Suc ((n - 8) div 8)" "n mod 8 = (n - 8) mod 8"
      by (simp_all add: div_if mod_if)
    moreover have "\<not> bit b n"
      using False bit_imp_le_length [of b n] by auto
    ultimately show ?thesis
      using False Cons.IH [of "n - 8"] by (auto simp: bit_simps of_le.simps)
  qed
qed

lemma nth_map_drop_bit:
  "n < LENGTH('a) \<Longrightarrow> bit (ucast (drop_bit (8 * (n div 8)) (w :: 'a::len word)) :: u8) (n mod 8)
     \<longleftrightarrow> bit w n"
  by (simp add: bit_simps)

lemma of_le_le16 [simp]: "of_le (le16 w) = w"
proof (rule bit_word_eqI)
  fix n
  assume "n < LENGTH(16)"
  then have "n div 8 \<in> {0, 1}" by auto
  with \<open>n < LENGTH(16)\<close> show "bit (of_le (le16 w) :: u16) n = bit w n"
    using nth_map_drop_bit [of n w] by (auto simp: bit_of_le le16_def)
qed

lemma of_le_le32 [simp]: "of_le (le32 w) = w"
proof (rule bit_word_eqI)
  fix n
  assume n: "n < LENGTH(32)"
  then have "n div 8 < 4" by simp
  then have "n div 8 \<in> {0, 1, 2, 3}" by auto
  with n show "bit (of_le (le32 w) :: u32) n = bit w n"
    using nth_map_drop_bit [of n w] by (auto simp: bit_of_le le32_def)
qed

lemma of_le_le64 [simp]: "of_le (le64 w) = w"
proof (rule bit_word_eqI)
  fix n
  assume n: "n < LENGTH(64)"
  then have "n div 8 < 8" by simp
  then have "n div 8 \<in> {0, 1, 2, 3, 4, 5, 6, 7}" by auto
  with n show "bit (of_le (le64 w) :: u64) n = bit w n"
    using nth_map_drop_bit [of n w] by (auto simp: bit_of_le le64_def)
qed

subsection \<open>Word arithmetic\<close>

lemma unat_of_nat_small: "n < 2 ^ LENGTH('a) \<Longrightarrow> unat (of_nat n :: 'a::len word) = n"
  by (simp add: unsigned_of_nat take_bit_nat_eq_self)

lemma unat64_of_nat: "n < 18446744073709551616 \<Longrightarrow> unat (of_nat n :: u64) = n"
  by (rule unat_of_nat_small) simp

lemma unat32_of_nat: "n < 4294967296 \<Longrightarrow> unat (of_nat n :: u32) = n"
  by (rule unat_of_nat_small) simp

lemma unat64_less: "unat (x :: u64) < 18446744073709551616"
  using unsigned_less [of x] by simp

lemma unat32_less: "unat (x :: u32) < 4294967296"
  using unsigned_less [of x] by simp

lemma unat_add_small:
  "unat a + unat b < 2 ^ LENGTH('a) \<Longrightarrow> unat (a + b :: 'a::len word) = unat a + unat b"
  by (simp add: unat_word_ariths)

lemma unat_sub_small: "b \<le> a \<Longrightarrow> unat (a - b :: 'a::len word) = unat a - unat b"
  by (simp add: unat_sub)

lemma unat64_add_nat:
  "unat a + n < 18446744073709551616 \<Longrightarrow> unat (a + of_nat n :: u64) = unat a + n"
  using unat_add_small [of a "of_nat n"] by (simp add: unat64_of_nat)

lemma unat_ucast_32_64 [simp]: "unat (ucast (x :: u32) :: u64) = unat x"
  using unat32_less [of x] by (simp add: unsigned_ucast_eq take_bit_nat_eq_self)

subsection \<open>Lists\<close>

lemma nth_list_update_if:
  "j < length xs \<Longrightarrow> xs[i := x] ! j = (if i = j then x else xs ! j)"
  by (simp add: nth_list_update)

lemma fold_update_map:
  "n \<le> length xs \<Longrightarrow>
     fold (\<lambda>i ys. ys[i := g (ys ! i)]) [0..<n] xs = map g (take n xs) @ drop n xs"
proof (induction n)
  case 0
  then show ?case by simp
next
  case (Suc n)
  then have "drop n xs = xs ! n # drop (Suc n) xs"
    by (simp add: Cons_nth_drop_Suc)
  with Suc show ?case
    by (simp add: take_Suc_conv_app_nth list_update_append nth_append)
qed

lemma map_upt_update:
  "i < n \<Longrightarrow> (map f [0..<n])[i := x] = map (f(i := x)) [0..<n]"
  by (rule nth_equalityI) (auto simp: nth_list_update)

lemma take_update_nth:
  "length bs = n \<Longrightarrow> i + length xs \<le> n \<Longrightarrow>
     take (length xs) (drop i (take i bs @ xs @ drop (i + length xs) bs)) = xs"
  by simp

end
