(* ===== verification/Machine.thy ===== *)
theory Machine
  imports Prelude
begin

unbundle bit_operations_syntax

section \<open>Machine mode: \<^verbatim>\<open>kernel/arch/riscv/start.c\<close> and the registers of \<^verbatim>\<open>kernel/include/riscv.h\<close>\<close>

text \<open>
  The control and status registers as the fields of a record, each with the accessors the header has
  for it: a register keeps the value written to it. \<open>sie\<close> and \<open>sip\<close> are kept apart from the
  machine-mode registers they are views of in hardware. Memory and the timer are 64-bit cells at
  their addresses. \<open>start\<close> runs in machine mode and ends with the return to supervisor mode.
\<close>

datatype mode = UMode | SMode | MMode

record machine =
  mode_of :: mode
  pc :: u64
  mstatus :: u64
  mie :: u64
  mtvec :: u64
  mscratch :: u64
  mepc :: u64
  satp_reg :: u64
  sscratch :: u64
  medeleg :: u64
  mideleg :: u64
  sie_reg :: u64
  sstatus_reg :: u64
  stvec_reg :: u64
  scause :: u64
  sepc_reg :: u64
  stval :: u64
  sip :: u64
  mhartid :: u64
  pmpaddr0 :: u64
  pmpcfg0 :: u64
  cells :: "u64 \<Rightarrow> u64"

definition r_mstatus :: "machine \<Rightarrow> u64" where "r_mstatus m = mstatus m"
definition w_mstatus :: "u64 \<Rightarrow> machine \<Rightarrow> machine" where "w_mstatus x m = m\<lparr>mstatus := x\<rparr>"
definition r_mie :: "machine \<Rightarrow> u64" where "r_mie m = mie m"
definition w_mie :: "u64 \<Rightarrow> machine \<Rightarrow> machine" where "w_mie x m = m\<lparr>mie := x\<rparr>"
definition w_mtvec :: "u64 \<Rightarrow> machine \<Rightarrow> machine" where "w_mtvec x m = m\<lparr>mtvec := x\<rparr>"
definition w_mscratch :: "u64 \<Rightarrow> machine \<Rightarrow> machine" where "w_mscratch x m = m\<lparr>mscratch := x\<rparr>"
definition w_mepc :: "u64 \<Rightarrow> machine \<Rightarrow> machine" where "w_mepc x m = m\<lparr>mepc := x\<rparr>"
definition w_satp :: "u64 \<Rightarrow> machine \<Rightarrow> machine" where "w_satp x m = m\<lparr>satp_reg := x\<rparr>"
definition r_satp :: "machine \<Rightarrow> u64" where "r_satp m = satp_reg m"
definition w_sscratch :: "u64 \<Rightarrow> machine \<Rightarrow> machine" where "w_sscratch x m = m\<lparr>sscratch := x\<rparr>"
definition w_medeleg :: "u64 \<Rightarrow> machine \<Rightarrow> machine" where "w_medeleg x m = m\<lparr>medeleg := x\<rparr>"
definition w_mideleg :: "u64 \<Rightarrow> machine \<Rightarrow> machine" where "w_mideleg x m = m\<lparr>mideleg := x\<rparr>"
definition r_sie :: "machine \<Rightarrow> u64" where "r_sie m = sie_reg m"
definition w_sie :: "u64 \<Rightarrow> machine \<Rightarrow> machine" where "w_sie x m = m\<lparr>sie_reg := x\<rparr>"
definition r_sstatus :: "machine \<Rightarrow> u64" where "r_sstatus m = sstatus_reg m"
definition w_sstatus :: "u64 \<Rightarrow> machine \<Rightarrow> machine" where "w_sstatus x m = m\<lparr>sstatus_reg := x\<rparr>"
definition w_stvec :: "u64 \<Rightarrow> machine \<Rightarrow> machine" where "w_stvec x m = m\<lparr>stvec_reg := x\<rparr>"
definition r_scause :: "machine \<Rightarrow> u64" where "r_scause m = scause m"
definition r_sepc :: "machine \<Rightarrow> u64" where "r_sepc m = sepc_reg m"
definition r_stval :: "machine \<Rightarrow> u64" where "r_stval m = stval m"
definition w_sepc :: "u64 \<Rightarrow> machine \<Rightarrow> machine" where "w_sepc x m = m\<lparr>sepc_reg := x\<rparr>"
definition r_sip :: "machine \<Rightarrow> u64" where "r_sip m = sip m"
definition w_sip :: "u64 \<Rightarrow> machine \<Rightarrow> machine" where "w_sip x m = m\<lparr>sip := x\<rparr>"
definition r_mhartid :: "machine \<Rightarrow> u64" where "r_mhartid m = mhartid m"
definition w_pmpaddr0 :: "u64 \<Rightarrow> machine \<Rightarrow> machine" where "w_pmpaddr0 x m = m\<lparr>pmpaddr0 := x\<rparr>"
definition w_pmpcfg0 :: "u64 \<Rightarrow> machine \<Rightarrow> machine" where "w_pmpcfg0 x m = m\<lparr>pmpcfg0 := x\<rparr>"

lemmas csr_defs = r_mstatus_def w_mstatus_def r_mie_def w_mie_def w_mtvec_def w_mscratch_def w_mepc_def w_satp_def
  r_satp_def w_sscratch_def w_medeleg_def w_mideleg_def r_sie_def w_sie_def r_sstatus_def w_sstatus_def w_stvec_def
  r_scause_def r_sepc_def r_stval_def w_sepc_def r_sip_def w_sip_def r_mhartid_def w_pmpaddr0_def w_pmpcfg0_def

definition MSTATUS_MPP_MASK :: u64 where "MSTATUS_MPP_MASK = push_bit 11 3"
definition MSTATUS_MPP_S :: u64 where "MSTATUS_MPP_S = push_bit 11 1"
definition MSTATUS_MIE :: u64 where "MSTATUS_MIE = push_bit 3 1"
definition MSTATUS_MPIE :: u64 where "MSTATUS_MPIE = push_bit 7 1"
definition SIE_SSIE :: u64 where "SIE_SSIE = push_bit 1 1"
definition SIE_STIE :: u64 where "SIE_STIE = push_bit 5 1"
definition SIE_SEIE :: u64 where "SIE_SEIE = push_bit 9 1"
definition SSTATUS_SIE :: u64 where "SSTATUS_SIE = push_bit 1 1"
definition MIE_MTIE :: u64 where "MIE_MTIE = push_bit 7 1"

subsection \<open>Interrupts of the hart\<close>

definition csr_intr_on :: "machine \<Rightarrow> machine" where
  "csr_intr_on m = w_sstatus (r_sstatus m OR SSTATUS_SIE) m"

definition csr_intr_off :: "machine \<Rightarrow> machine" where
  "csr_intr_off m = w_sstatus (r_sstatus m AND NOT SSTATUS_SIE) m"

definition csr_intr_get :: "machine \<Rightarrow> bool" where
  "csr_intr_get m \<longleftrightarrow> r_sstatus m AND SSTATUS_SIE \<noteq> 0"

lemma sstatus_sie: "x AND SSTATUS_SIE \<noteq> 0 \<longleftrightarrow> bit x 1"
  using and_exp_eq_0_iff_not_bit [of x 1] by (simp add: SSTATUS_SIE_def push_bit_of_1)

text \<open>The flag \<open>sie\<close> of the other theories is the bit these functions set, clear and read.\<close>

lemma csr_intr:
  "csr_intr_get (csr_intr_on m)" "\<not> csr_intr_get (csr_intr_off m)"
  "n \<noteq> 1 \<Longrightarrow> bit (sstatus_reg (csr_intr_on m)) n = bit (sstatus_reg m) n"
  "n \<noteq> 1 \<Longrightarrow> bit (sstatus_reg (csr_intr_off m)) n = bit (sstatus_reg m) n"
  unfolding csr_intr_get_def sstatus_sie
  by (auto simp: csr_intr_on_def csr_intr_off_def csr_defs SSTATUS_SIE_def bit_simps dest: bit_imp_le_length)

subsection \<open>The timer and the start of a hart\<close>

definition CLINT :: u64 where "CLINT = 0x02000000"

definition CLINT_MTIMECMP :: "int \<Rightarrow> u64" where
  "CLINT_MTIMECMP hart = CLINT + 0x4000 + 8 * word_of_int hart"

definition CLINT_MTIME :: u64 where "CLINT_MTIME = CLINT + 0xBFF8"

definition TIMER_INTERVAL :: u64 where "TIMER_INTERVAL = 1000000"

text \<open>
  \<open>timer_scratch\<close> is an array of five 64-bit cells per hart; its address and that of the assembly
  entry \<open>timervec\<close> come from the linker.
\<close>

definition hart_id :: "machine \<Rightarrow> int" where
  "hart_id m = sint (ucast (r_mhartid m) :: u32)"

definition timerinit :: "u64 \<Rightarrow> u64 \<Rightarrow> machine \<Rightarrow> machine" where
  "timerinit timer_scratch timervec m =
     (let h = hart_id m;
          scratch = timer_scratch + 40 * word_of_int h;
          m = m\<lparr>cells := (cells m)(scratch + 24 := CLINT_MTIMECMP h)\<rparr>;
          m = m\<lparr>cells := (cells m)(scratch + 32 := TIMER_INTERVAL)\<rparr>;
          m = w_mscratch scratch m;
          m = w_mtvec timervec m;
          mtimecmp = cells m (scratch + 24);
          m = m\<lparr>cells := (cells m)(mtimecmp := cells m CLINT_MTIME + cells m (scratch + 32))\<rparr>;
          m = w_mie (r_mie m OR MIE_MTIE) m
      in w_mstatus (r_mstatus m OR MSTATUS_MIE OR MSTATUS_MPIE) m)"

text \<open>
  The instruction \<open>mret\<close>: to the mode in \<open>MPP\<close> and the address in \<open>mepc\<close>, the machine's interrupt
  enable taken from \<open>MPIE\<close>.
\<close>

definition mode_bits :: "u64 \<Rightarrow> mode" where
  "mode_bits x = (if x = 0 then UMode else if x = 1 then SMode else MMode)"

definition mret :: "machine \<Rightarrow> machine" where
  "mret m = m\<lparr>mode_of := mode_bits (drop_bit 11 (mstatus m) AND 3), pc := mepc m,
     mstatus := (let x = mstatus m AND NOT MSTATUS_MPP_MASK in
       (if bit (mstatus m) 7 then x OR MSTATUS_MIE else x AND NOT MSTATUS_MIE) OR MSTATUS_MPIE)\<rparr>"

definition start_config :: "u64 \<Rightarrow> machine \<Rightarrow> machine" where
  "start_config main m =
     (let x = r_mstatus m;
          x = x AND NOT MSTATUS_MPP_MASK;
          x = x OR MSTATUS_MPP_S;
          m = w_mstatus x m;
          m = w_mepc main m;
          m = w_satp 0 m;
          m = w_medeleg 0xffff m;
          m = w_mideleg 0xffff m;
          m = w_sie (r_sie m OR SIE_SEIE OR SIE_STIE OR SIE_SSIE) m;
          m = w_pmpaddr0 0x3fffffffffffff m
      in w_pmpcfg0 0xf m)"

definition start :: "u64 \<Rightarrow> u64 \<Rightarrow> u64 \<Rightarrow> machine \<Rightarrow> machine" where
  "start main timer_scratch timervec m = mret (timerinit timer_scratch timervec (start_config main m))"

text \<open>
  After \<open>start\<close> the hart runs \<open>main\<close> in supervisor mode without paging, every trap is delegated, the
  machine timer is enabled and set one interval ahead.
\<close>

lemma start_hands_over:
  fixes main timervec :: u64
  assumes sc: "timer_scratch + 40 * word_of_int (hart_id m) = sc"
    and "CLINT_MTIME \<notin> {sc + 24, sc + 32}"
  defines "t \<equiv> start main timer_scratch timervec m"
  shows "mode_of t = SMode" "pc t = main" "satp_reg t = 0" "medeleg t = 0xffff" "mideleg t = 0xffff"
    "bit (mstatus t) 3" "bit (mie t) 7" "mtvec t = timervec" "mscratch t = sc"
    "cells t (CLINT_MTIMECMP (hart_id m)) = cells m CLINT_MTIME + TIMER_INTERVAL"
proof -
  let ?h = "hart_id m" and ?c = "start_config main m"
  have c: "mstatus ?c = (mstatus m AND NOT MSTATUS_MPP_MASK) OR MSTATUS_MPP_S" "mepc ?c = main" "satp_reg ?c = 0"
    "medeleg ?c = 0xffff" "mideleg ?c = 0xffff" "hart_id ?c = hart_id m" "cells ?c = cells m"
    by (simp_all add: start_config_def Let_def csr_defs hart_id_def)
  let ?u = "timerinit timer_scratch timervec ?c"
  have u: "mstatus ?u = mstatus ?c OR MSTATUS_MIE OR MSTATUS_MPIE" "mepc ?u = main" "satp_reg ?u = 0"
    "medeleg ?u = 0xffff" "mideleg ?u = 0xffff" "mie ?u = mie ?c OR MIE_MTIE" "mtvec ?u = timervec" "mscratch ?u = sc"
    using c sc by (simp_all add: timerinit_def Let_def csr_defs)
  have ne: "sc + 24 \<noteq> sc + 32" by simp
  have "cells ?u = (let f = (cells m)(sc + 24 := CLINT_MTIMECMP ?h, sc + 32 := TIMER_INTERVAL) in
      f(CLINT_MTIMECMP ?h := f CLINT_MTIME + TIMER_INTERVAL))"
    using ne by (simp add: timerinit_def Let_def csr_defs c sc)
  then have cells: "cells ?u (CLINT_MTIMECMP ?h) = cells m CLINT_MTIME + TIMER_INTERVAL"
    using assms(2) by (simp add: Let_def)
  have m2: "(3 :: u64) = mask 2" by (simp add: mask_eq_exp_minus_1)
  have three: "bit (3 :: u64) n \<longleftrightarrow> n = 0 \<or> n = 1" for n unfolding m2 bit_mask_iff by auto
  have bits: "bit MSTATUS_MPP_MASK n \<longleftrightarrow> n = 11 \<or> n = 12" "bit MSTATUS_MPP_S n \<longleftrightarrow> n = 11"
    "bit MSTATUS_MIE n \<longleftrightarrow> n = 3" "bit MSTATUS_MPIE n \<longleftrightarrow> n = 7" for n
    unfolding MSTATUS_MPP_MASK_def MSTATUS_MPP_S_def MSTATUS_MIE_def MSTATUS_MPIE_def bit_push_bit_iff three bit_1_iff
    by auto
  have mpp: "drop_bit 11 (mstatus ?u) AND 3 = 1"
  proof (rule bit_word_eqI)
    fix n assume "n < LENGTH(64)"
    show "bit (drop_bit 11 (mstatus ?u) AND 3) n = bit (1 :: u64) n"
      unfolding bit_and_iff bit_drop_bit_eq comp_def three u(1) c(1) bit_or_iff bit_not_iff bits bit_1_iff by auto
  qed
  have "bit (mstatus ?u) 7" by (simp add: u(1) bit_or_iff bits)
  then show "bit (mstatus t) 3" by (simp add: t_def start_def mret_def bit_or_iff bits)
  show "mode_of t = SMode" by (simp add: t_def start_def mret_def mpp mode_bits_def)
  show "bit (mie t) 7" by (simp add: t_def start_def mret_def u MIE_MTIE_def bit_simps)
  show "pc t = main" "satp_reg t = 0" "medeleg t = 0xffff" "mideleg t = 0xffff" "mtvec t = timervec" "mscratch t = sc"
    "cells t (CLINT_MTIMECMP ?h) = cells m CLINT_MTIME + TIMER_INTERVAL"
    by (simp_all add: t_def start_def mret_def u cells)
qed

end
