(* ===== verification/Memory.thy ===== *)
theory Memory
  imports Prelude
begin

section \<open>Physical memory and \<^verbatim>\<open>kernel/lib/string.c\<close>\<close>

text \<open>
  Physical memory is a map from addresses to bytes. \<open>memset\<close> and \<open>memmove\<close> are the loops of
  \<^verbatim>\<open>kernel/lib/string.c\<close>; what they do is given by closed forms, and \<open>memmove\<close> is shown to
  copy the source as it was before the call even when the two ranges overlap. The 64-bit
  loads and stores the compiler emits for page-table entries, trap-frame fields and
  free-list links are the little-endian views of eight bytes.
\<close>

type_synonym memory = "u64 \<Rightarrow> u8"

subsection \<open>memset, memmove\<close>

definition memset :: "memory \<Rightarrow> u64 \<Rightarrow> int \<Rightarrow> u32 \<Rightarrow> memory" where
  "memset m dst c n =
     fold (\<lambda>i m. m(dst + of_nat i := word_of_int c)) [0..<unat n] m"

definition memmove :: "memory \<Rightarrow> u64 \<Rightarrow> u64 \<Rightarrow> u32 \<Rightarrow> memory" where
  "memmove m dst src n =
     (if src < dst \<and> dst < src + ucast n
      then fold (\<lambda>i m. m(dst + of_nat i - 1 := m (src + of_nat i - 1))) (rev [1..<Suc (unat n)]) m
      else fold (\<lambda>i m. m(dst + of_nat i := m (src + of_nat i))) [0..<unat n] m)"

lemma addr_eq_iff:
  fixes a x :: u64
  assumes "n < 18446744073709551616"
  shows "x = a + of_nat n \<longleftrightarrow> unat (x - a) = n"
proof
  assume "x = a + of_nat n"
  then show "unat (x - a) = n" using assms by (simp add: unat64_of_nat)
next
  assume "unat (x - a) = n"
  then have "of_nat (unat (x - a)) = (of_nat n :: u64)" by simp
  then have "x - a = of_nat n" by simp
  then show "x = a + of_nat n" by (simp add: algebra_simps)
qed

lemma fold_set_apply:
  fixes a x :: u64
  assumes "n \<le> 18446744073709551616"
  shows "fold (\<lambda>i m. m(a + of_nat i := c)) [0..<n] m x = (if unat (x - a) < n then c else m x)"
  using assms
proof (induction n)
  case 0
  then show ?case by simp
next
  case (Suc n)
  then show ?case using addr_eq_iff [of n x a] by (auto simp: less_Suc_eq)
qed

lemma memset_apply:
  "memset m a c n x = (if unat (x - a) < unat n then word_of_int c else m x)"
proof -
  have "unat n \<le> 18446744073709551616" using unat32_less [of n] by simp
  then show ?thesis by (simp add: memset_def fold_set_apply)
qed

text \<open>
  The copy loops. A loop that writes every destination byte once and never reads a byte it has
  already written leaves the byte of the old memory there.
\<close>

lemma fold_copy_apply:
  fixes d e :: u64
  assumes "distinct js" and "\<forall>j \<in> set js. j < 18446744073709551616"
    and "\<And>k. k < length js \<Longrightarrow> \<forall>j \<in> set (take k js). unat (e + of_nat (js ! k) - d) \<noteq> j"
  shows "fold (\<lambda>i m. m(d + of_nat i := m (e + of_nat i))) js m x =
     (if unat (x - d) \<in> set js then m (e + (x - d)) else m x)"
  using assms
proof (induction js arbitrary: x rule: rev_induct)
  case Nil
  then show ?case by simp
next
  case (snoc j js)
  have pre: "\<forall>i \<in> set (take k js). unat (e + of_nat (js ! k) - d) \<noteq> i" if "k < length js" for k
    using snoc.prems(3) [of k] that by (simp add: nth_append)
  have IH: "fold (\<lambda>i m. m(d + of_nat i := m (e + of_nat i))) js m y =
     (if unat (y - d) \<in> set js then m (e + (y - d)) else m y)" for y
    by (rule snoc.IH) (use snoc.prems(1,2) pre in auto)
  have last: "unat (e + of_nat j - d) \<notin> set js"
    using snoc.prems(3) [of "length js"] by auto
  have j: "x = d + of_nat j \<longleftrightarrow> unat (x - d) = j"
    using snoc.prems(2) by (intro addr_eq_iff) simp
  have "fold (\<lambda>i m. m(d + of_nat i := m (e + of_nat i))) (js @ [j]) m x =
     (if unat (x - d) = j then fold (\<lambda>i m. m(d + of_nat i := m (e + of_nat i))) js m (e + of_nat j)
      else fold (\<lambda>i m. m(d + of_nat i := m (e + of_nat i))) js m x)"
    using j by simp
  also have "\<dots> = (if unat (x - d) \<in> set (js @ [j]) then m (e + (x - d)) else m x)"
    unfolding IH using last j snoc.prems(1) by auto
  finally show ?case .
qed

lemma unat_diff_word:
  fixes a b :: u64
  shows "unat (a - b) = (if b \<le> a then unat a - unat b
     else 18446744073709551616 + unat a - unat b)"
  by (auto simp: unat_sub_if_size word_size word_le_nat_alt)

lemma memmove_forward:
  fixes src dst :: u64 and n :: u32
  assumes n: "unat src + unat n < 2 ^ 64" and no: "\<not> (src < dst \<and> dst < src + ucast n)"
    and k: "k < unat n" and j: "j < k"
  shows "unat (src + of_nat k - dst) \<noteq> j"
proof
  assume eq: "unat (src + of_nat k - dst) = j"
  have "unat src + k < 18446744073709551616" using n k by simp
  then have k64: "unat (src + of_nat k) = unat src + k" by (rule unat64_add_nat)
  have end_eq: "unat (src + ucast n) = unat src + unat n"
    using n by (subst unat_add_small) simp_all
  have "unat dst = unat src + (k - j)"
    using eq j k k64 n unat64_less [of dst] by (auto simp: unat_diff_word word_le_nat_alt split: if_splits)
  then have "src < dst \<and> dst < src + ucast n"
    unfolding word_less_nat_alt end_eq using j k by linarith
  with no show False by simp
qed

lemma memmove_backward:
  fixes src dst :: u64 and n :: u32
  assumes n: "unat dst + unat n \<le> 2 ^ 64" and lt: "src < dst"
    and i: "0 < i" "i \<le> unat n" and j: "i < j" "j \<le> unat n"
  shows "unat (src + of_nat i - dst) \<noteq> j"
proof -
  have "unat src + i < 18446744073709551616"
    using n i lt by (simp add: word_less_nat_alt)
  then have "unat (src + of_nat i) = unat src + i" by (rule unat64_add_nat)
  then show ?thesis
    using n i j lt by (auto simp: unat_diff_word word_le_nat_alt word_less_nat_alt)
qed

lemma unat_pred_range:
  fixes a :: u64
  assumes "n < 18446744073709551616"
  shows "unat (a + 1) \<in> {1..<Suc n} \<longleftrightarrow> unat a < n"
proof (cases "unat a + 1 < 18446744073709551616")
  case True
  then show ?thesis using unat64_add_nat [of a 1] by auto
next
  case False
  then have "unat a = 18446744073709551615" using unat64_less [of a] by simp
  then show ?thesis using assms by (simp add: unat_word_ariths)
qed

text \<open>Copying from the last byte down, and from the first byte up.\<close>

lemma copy_down:
  fixes m :: memory and src dst x :: u64 and n :: u32
  assumes "unat dst + unat n \<le> 2 ^ 64" and "src \<le> dst"
  shows "fold (\<lambda>i m. m(dst + of_nat i - 1 := m (src + of_nat i - 1))) (rev [1..<Suc (unat n)]) m x =
     (if unat (x - dst) < unat n then m (src + (x - dst)) else m x)"
proof -
  let ?js = "rev [1..<Suc (unat n)]"
  have n64: "unat n < 18446744073709551616"
    using unat32_less [of n] by simp
  have "fold (\<lambda>i m. m((dst - 1) + of_nat i := m ((src - 1) + of_nat i))) ?js m x =
     (if unat (x - (dst - 1)) \<in> set ?js then m ((src - 1) + (x - (dst - 1))) else m x)"
  proof (rule fold_copy_apply)
    fix k
    assume k: "k < length ?js"
    have ne: "unat (src + of_nat (unat n - k) - dst) \<noteq> j" if "j \<in> {unat n - k <..unat n}" for j
    proof (cases "src = dst")
      case True
      have "unat (of_nat (unat n - k) :: u64) = unat n - k" using n64 by (intro unat64_of_nat) simp
      then show ?thesis using True that by simp
    next
      case False
      then show ?thesis using k that assms by (intro memmove_backward) auto
    qed
    have sub: "set (take k ?js) \<subseteq> {unat n - k <..unat n}"
      using k by (auto simp: take_rev drop_upt simp del: upt_Suc)
    have kth: "?js ! k = unat n - k"
      using k by (simp add: rev_nth del: upt_Suc)
    have shift: "src - 1 + of_nat i - (dst - 1) = src + of_nat i - dst" for i
      by simp
    show "\<forall>j \<in> set (take k ?js). unat (src - 1 + of_nat (?js ! k) - (dst - 1)) \<noteq> j"
      unfolding kth shift using sub by (intro ballI ne) (rule subsetD)
  qed (use n64 in auto)
  moreover have "x - (dst - 1) = (x - dst) + 1" "src - 1 + (x - dst + 1) = src + (x - dst)"
    by simp_all
  ultimately show ?thesis
    using unat_pred_range [OF n64, of "x - dst"] by (simp add: algebra_simps del: upt_Suc)
qed

lemma copy_up:
  fixes m :: memory and src dst x :: u64 and n :: u32
  assumes "unat src + unat n < 2 ^ 64" and "\<not> (src < dst \<and> dst < src + ucast n)"
  shows "fold (\<lambda>i m. m(dst + of_nat i := m (src + of_nat i))) [0..<unat n] m x =
     (if unat (x - dst) < unat n then m (src + (x - dst)) else m x)"
proof -
  have n64: "unat n < 18446744073709551616"
    using unat32_less [of n] by simp
  have "fold (\<lambda>i m. m(dst + of_nat i := m (src + of_nat i))) [0..<unat n] m x =
     (if unat (x - dst) \<in> set [0..<unat n] then m (src + (x - dst)) else m x)"
    by (rule fold_copy_apply) (use n64 memmove_forward [OF assms] in auto)
  then show ?thesis by simp
qed

lemma memmove_apply:
  assumes "unat src + unat n < 2 ^ 64" and "unat dst + unat n \<le> 2 ^ 64"
  shows "memmove m dst src n x =
     (if unat (x - dst) < unat n then m (src + (x - dst)) else m x)"
proof (cases "src < dst \<and> dst < src + ucast n")
  case True
  then have "src \<le> dst" by (simp add: order_less_imp_le)
  with True show ?thesis using copy_down [OF assms(2), of src m x] by (simp add: memmove_def del: upt_Suc)
next
  case False
  then show ?thesis using copy_up [OF assms(1) False, of m x] by (auto simp: memmove_def)
qed

subsection \<open>Loads and stores\<close>

definition load_bytes :: "memory \<Rightarrow> u64 \<Rightarrow> nat \<Rightarrow> u8 list" where
  "load_bytes m a n = map (\<lambda>i. m (a + of_nat i)) [0..<n]"

definition store_bytes :: "memory \<Rightarrow> u64 \<Rightarrow> u8 list \<Rightarrow> memory" where
  "store_bytes m a bs = (\<lambda>x. if unat (x - a) < length bs then bs ! unat (x - a) else m x)"

definition load64 :: "memory \<Rightarrow> u64 \<Rightarrow> u64" where
  "load64 m a = of_le (load_bytes m a 8)"

definition store64 :: "memory \<Rightarrow> u64 \<Rightarrow> u64 \<Rightarrow> memory" where
  "store64 m a v = store_bytes m a (le64 v)"

text \<open>Two address ranges that do not meet, addresses taken modulo the address space.\<close>

definition disj :: "u64 \<Rightarrow> nat \<Rightarrow> u64 \<Rightarrow> nat \<Rightarrow> bool" where
  "disj a n b k \<longleftrightarrow> n \<le> unat (b - a) \<and> k \<le> unat (a - b)"

lemma disj_sym: "disj a n b k \<longleftrightarrow> disj b k a n"
  by (auto simp: disj_def)

lemma disj_nat:
  assumes "unat a + n \<le> unat b \<or> unat b + k \<le> unat a"
    and "unat a + n \<le> 18446744073709551616" and "unat b + k \<le> 18446744073709551616"
    and "0 < n" and "0 < k"
  shows "disj a n b k"
  using assms by (auto simp: disj_def unat_diff_word word_le_nat_alt)

lemma disj_notin:
  assumes "disj a n b k" and "i < k"
  shows "\<not> unat (b + of_nat i - a) < n"
proof -
  have "unat (b - a) + unat (a - b) \<le> 18446744073709551616"
    using unat64_less [of a] unat64_less [of b]
    by (cases "unat a" "unat b" rule: linorder_cases)
      (auto simp: unat_diff_word word_le_nat_alt)
  then have "unat (b - a) + i < 18446744073709551616"
    using assms by (simp add: disj_def)
  then have "unat ((b - a) + of_nat i) = unat (b - a) + i"
    by (rule unat64_add_nat)
  moreover have "b + of_nat i - a = (b - a) + of_nat i" by simp
  ultimately have "unat (b + of_nat i - a) = unat (b - a) + i"
    by (simp only:)
  then show ?thesis using assms(1) by (simp add: disj_def)
qed

lemma length_load_bytes [simp]: "length (load_bytes m a n) = n"
  by (simp add: load_bytes_def)

lemma load_store_bytes_same:
  "length bs = n \<Longrightarrow> n \<le> 18446744073709551616 \<Longrightarrow> load_bytes (store_bytes m a bs) a n = bs"
  by (rule nth_equalityI) (auto simp: load_bytes_def store_bytes_def unat64_of_nat)

lemma load_store_bytes_disj:
  "disj a (length bs) b n \<Longrightarrow> load_bytes (store_bytes m a bs) b n = load_bytes m b n"
  using disj_notin [of a "length bs" b n] by (auto simp: load_bytes_def store_bytes_def)

lemma load64_store64_same [simp]: "load64 (store64 m a v) a = v"
  by (simp add: load64_def store64_def load_store_bytes_same)

lemma load64_store64_disj: "disj a 8 b 8 \<Longrightarrow> load64 (store64 m a v) b = load64 m b"
  by (simp add: load64_def store64_def load_store_bytes_disj)

lemma load64_cong:
  "(\<And>i. i < 8 \<Longrightarrow> m (a + of_nat i) = m' (a + of_nat i)) \<Longrightarrow> load64 m a = load64 m' a"
  unfolding load64_def load_bytes_def by (intro arg_cong [where f = of_le] map_cong) auto

lemma load64_memset_disj:
  "disj p (unat n) a 8 \<Longrightarrow> load64 (memset m p c n) a = load64 m a"
  by (rule load64_cong) (simp add: memset_apply disj_notin)

lemma of_le_zeros: "of_le (replicate n 0) = (0 :: 'a::len word)"
  by (rule bit_word_eqI) (auto simp: bit_of_le)

lemma load64_memset_zero:
  assumes "unat (a - p) + 8 \<le> unat n"
  shows "load64 (memset m p 0 n) a = 0"
proof -
  have "unat (a + of_nat i - p) < unat n" if "i < 8" for i
  proof -
    have "unat (a - p) + i < 18446744073709551616"
      using assms that unat32_less [of n] by simp
    from unat64_add_nat [OF this] have "unat (a + of_nat i - p) = unat (a - p) + i"
      by (simp add: algebra_simps)
    with assms that show ?thesis by simp
  qed
  then have "load_bytes (memset m p 0 n) a 8 = replicate 8 0"
    by (intro nth_equalityI) (auto simp: load_bytes_def memset_apply)
  then show ?thesis by (simp add: load64_def of_le_zeros)
qed

end
