(* ===== verification/Systems.thy ===== *)
theory Systems
  imports Prelude
begin

section \<open>Interfaces: transition systems, bounded queues\<close>

text \<open>
  The interfaces several components share, as locales: a system whose steps keep an
  invariant, and a bounded first-in first-out queue seen through the list of its elements.
  Each is interpreted on the kernel's own definitions in the theory of the component that
  provides it.
\<close>

subsection \<open>Transition systems with an inductive invariant\<close>

locale safe_system =
  fixes start :: "'s \<Rightarrow> bool"
    and step :: "'s \<Rightarrow> 's \<Rightarrow> bool"
    and inv :: "'s \<Rightarrow> bool"
  assumes start_inv: "start s \<Longrightarrow> inv s"
    and step_inv: "step s t \<Longrightarrow> inv s \<Longrightarrow> inv t"
begin

lemma steps_inv: "step\<^sup>*\<^sup>* s t \<Longrightarrow> inv s \<Longrightarrow> inv t"
  by (induction rule: rtranclp_induct) (auto intro: step_inv)

lemma reachable_inv: "start s \<Longrightarrow> step\<^sup>*\<^sup>* s t \<Longrightarrow> inv t"
  using start_inv steps_inv by blast

end

subsection \<open>Frames\<close>

text \<open>
  A reflexive and transitive relation between the states before and after, kept by every call
  that is built from calls that keep it.
\<close>

locale step_frame =
  fixes R :: "'s \<Rightarrow> 's \<Rightarrow> bool"
  assumes frame_refl: "R s s"
    and frame_trans: "R s t \<Longrightarrow> R t u \<Longrightarrow> R s u"
begin

lemma steps_ret: "steps R (ret v)"
  by (simp add: steps_def frame_refl)

lemma steps_gets: "steps R (gets f)"
  by (simp add: steps_def frame_refl)

lemma steps_panic: "steps R (panic e)"
  by (simp add: steps_def)

lemma steps_modify: "(\<And>s. R s (f s)) \<Longrightarrow> steps R (modify f)"
  by (simp add: steps_def)

lemma steps_bnd:
  assumes "steps R m" and "\<And>v. steps R (f v)"
  shows "steps R (bnd m f)"
proof (rule stepsI)
  fix s t
  assume "after (bnd m f) s t"
  from after_bnd [OF this] show "R s t"
  proof
    assume "after m s t"
    with assms(1) show ?thesis by (rule stepsD)
  next
    assume "\<exists>v u. m s = Ret v u \<and> after (f v) u t"
    then obtain v u where "m s = Ret v u" "after (f v) u t" by blast
    then show ?thesis
      using stepsD [OF assms(1), of s u] stepsD [OF assms(2), of v u t] frame_trans
      by (auto simp: after_def)
  qed
qed

lemma steps_thn: "steps R m \<Longrightarrow> steps R n \<Longrightarrow> steps R (thn m n)"
  unfolding thn_def by (rule steps_bnd)

lemma steps_whenk: "steps R m \<Longrightarrow> steps R (whenk b m)"
  by (simp add: whenk_def steps_ret)

lemma steps_if: "(b \<Longrightarrow> steps R m) \<Longrightarrow> (\<not> b \<Longrightarrow> steps R n) \<Longrightarrow> steps R (if b then m else n)"
  by simp

lemma steps_option:
  "steps R m \<Longrightarrow> (\<And>v. steps R (f v)) \<Longrightarrow> steps R (case x of None \<Rightarrow> m | Some v \<Rightarrow> f v)"
  by (cases x) simp_all

lemma steps_for_each: "(\<And>i. i \<in> set is \<Longrightarrow> steps R (f i)) \<Longrightarrow> steps R (for_each is f)"
  by (induction "is") (auto intro: steps_ret steps_thn)

lemma steps_search: "(\<And>i. i \<in> set is \<Longrightarrow> steps R (f i)) \<Longrightarrow> steps R (search is f)"
proof (induction "is")
  case (Cons i "is")
  have "steps R (case r of Some v \<Rightarrow> ret (Some v) | None \<Rightarrow> search is f)" for r :: "'b option"
    using Cons by (intro steps_option) (auto intro: steps_ret)
  then show ?case using Cons.prems [of i] by (auto intro: steps_bnd)
qed (simp add: steps_ret)

lemmas steps_base = steps_ret steps_gets steps_panic
lemmas steps_comp = steps_bnd steps_thn steps_whenk steps_if steps_option steps_for_each steps_search

end

subsection \<open>Bounded queues\<close>

text \<open>
  A queue of capacity \<open>cap\<close>: \<open>contents\<close> is the list of its elements, oldest first. The laws
  are what the two ring buffers of the kernel promise to their clients; the client lemmas
  are first-in first-out order and the bound on the number of elements over whole runs.
\<close>

locale bounded_queue =
  fixes cap :: nat
    and enq :: "'a \<Rightarrow> 'q \<Rightarrow> 'q"
    and deq :: "'q \<Rightarrow> 'q"
    and front :: "'q \<Rightarrow> 'a"
    and contents :: "'q \<Rightarrow> 'a list"
    and ok :: "'q \<Rightarrow> bool"
  assumes enq_contents: "ok q \<Longrightarrow> length (contents q) < cap \<Longrightarrow> contents (enq x q) = contents q @ [x]"
    and enq_ok: "ok q \<Longrightarrow> length (contents q) < cap \<Longrightarrow> ok (enq x q)"
    and front_contents: "ok q \<Longrightarrow> contents q \<noteq> [] \<Longrightarrow> front q = hd (contents q)"
    and deq_contents: "ok q \<Longrightarrow> contents q \<noteq> [] \<Longrightarrow> contents (deq q) = tl (contents q)"
    and deq_ok: "ok q \<Longrightarrow> contents q \<noteq> [] \<Longrightarrow> ok (deq q)"
    and bounded: "ok q \<Longrightarrow> length (contents q) \<le> cap"
begin

lemma enq_all_contents:
  "ok q \<Longrightarrow> length (contents q) + length xs \<le> cap \<Longrightarrow>
     ok (fold enq xs q) \<and> contents (fold enq xs q) = contents q @ xs"
  by (induction xs arbitrary: q) (auto simp: enq_contents enq_ok)

lemma deq_all_contents:
  "ok q \<Longrightarrow> n \<le> length (contents q) \<Longrightarrow>
     ok ((deq ^^ n) q) \<and> contents ((deq ^^ n) q) = drop n (contents q)"
proof (induction n)
  case 0
  then show ?case by simp
next
  case (Suc n)
  then have IH: "ok ((deq ^^ n) q)" "contents ((deq ^^ n) q) = drop n (contents q)"
    by simp_all
  with Suc.prems have "contents ((deq ^^ n) q) \<noteq> []" by simp
  with IH show ?case by (simp add: deq_ok deq_contents drop_Suc tl_drop)
qed

lemma front_after_deqs:
  "ok q \<Longrightarrow> n < length (contents q) \<Longrightarrow> front ((deq ^^ n) q) = contents q ! n"
  using deq_all_contents [of q n] front_contents [of "(deq ^^ n) q"] by (simp add: hd_drop_conv_nth)

lemma fifo:
  "ok q \<Longrightarrow> contents q = [] \<Longrightarrow> length xs \<le> cap \<Longrightarrow> i < length xs \<Longrightarrow>
     front ((deq ^^ i) (fold enq xs q)) = xs ! i"
  using enq_all_contents [of q xs] front_after_deqs [of "fold enq xs q" i] by simp

end

subsection \<open>Ring buffers with free-running counters\<close>

text \<open>
  The console and the pipes keep a read and a write counter of 32 bits that run freely and are
  reduced modulo the capacity at each access, a divisor of \<open>2 ^ 32\<close>. \<open>ring\<close> lists the elements
  between two counters.
\<close>

definition ring_slot :: "nat \<Rightarrow> u32 \<Rightarrow> nat \<Rightarrow> nat" where
  "ring_slot cap r i = unat (r + of_nat i) mod cap"

definition ring :: "nat \<Rightarrow> 'a list \<Rightarrow> u32 \<Rightarrow> u32 \<Rightarrow> 'a list" where
  "ring cap buf r w = map (\<lambda>i. buf ! ring_slot cap r i) [0..<unat (w - r)]"

lemma map_upt_Suc: "map f [0..<Suc n] = f 0 # map (\<lambda>i. f (Suc i)) [0..<n]"
proof -
  have "[0..<Suc n] = 0 # map Suc [0..<n]" unfolding map_Suc_upt by (rule upt_conv_Cons) simp
  then show ?thesis by (simp only: list.map map_map o_def)
qed

lemma map_upt_add: "map f [0..<a + b] = map f [0..<a] @ map (\<lambda>i. f (a + i)) [0..<b]"
  by (induction b) simp_all

lemma length_ring [simp]: "length (ring cap buf r w) = unat (w - r)"
  by (simp add: ring_def)

lemma ring_empty [simp]: "ring cap buf r r = []"
  by (simp add: ring_def)

lemma ring_eq_Nil [simp]: "ring cap buf r w = [] \<longleftrightarrow> r = w"
  by (auto simp: ring_def unat_eq_zero)

lemma ring_slot_eq:
  assumes "cap dvd 2 ^ 32"
  shows "ring_slot cap r i = (unat r + i) mod cap"
proof -
  have "unat (r + of_nat i) = (unat r + i) mod 2 ^ 32"
    by (simp add: unat_word_ariths unsigned_of_nat take_bit_eq_mod mod_simps)
  then show ?thesis
    using assms by (simp add: ring_slot_def mod_mod_cancel)
qed

lemma ring_slot_inj:
  assumes "cap dvd 2 ^ 32" and "i < cap" and "j < cap" and "i \<noteq> j"
  shows "ring_slot cap r i \<noteq> ring_slot cap r j"
proof
  assume "ring_slot cap r i = ring_slot cap r j"
  then have "(int (unat r) + int i) mod int cap = (int (unat r) + int j) mod int cap"
    unfolding ring_slot_eq [OF assms(1)] by (metis of_nat_add zmod_int)
  then have "int cap dvd int i - int j"
    by (simp add: mod_eq_dvd_iff)
  moreover have "\<bar>int i - int j\<bar> < int cap" using assms by auto
  ultimately show False
    using assms(4) dvd_imp_le_int [of "int i - int j" "int cap"] by auto
qed

lemma ring_slot_less: "0 < cap \<Longrightarrow> ring_slot cap r i < cap"
  by (simp add: ring_slot_def)

lemma unat_succ_diff:
  fixes r w :: u32
  assumes "unat (w - r) < n" and "n < 2 ^ 32"
  shows "unat (w + 1 - r) = Suc (unat (w - r))"
proof -
  have "unat (w - r + 1) = unat (w - r) + unat (1 :: u32)"
    using assms by (intro unat_add_small) simp
  then show ?thesis by (simp add: diff_add_eq)
qed

lemma unat_diff_succ:
  fixes r w :: u32
  assumes "r \<noteq> w"
  shows "unat (w - r) = Suc (unat (w - (r + 1)))"
proof -
  have "1 \<le> w - r" using assms by (simp add: word_le_nat_alt Suc_le_eq unat_gt_0)
  then have "unat (w - r - 1) = unat (w - r) - 1" by (subst unat_sub_small) simp_all
  moreover have "w - r - 1 = w - (r + 1)" by simp
  moreover have "unat (w - r) \<noteq> 0" using assms by (simp add: unat_eq_zero)
  ultimately show ?thesis by simp
qed

text \<open>An element stored at the write counter is the last, and disturbs none of the others.\<close>

lemma ring_put:
  assumes "cap dvd 2 ^ 32" and "cap < 2 ^ 32" and "length buf = cap" and "unat (w - r) < cap"
  shows "ring cap (buf[unat w mod cap := x]) r (w + 1) = ring cap buf r w @ [x]"
proof -
  let ?n = "unat (w - r)"
  have slot: "ring_slot cap r ?n = unat w mod cap"
    by (simp add: ring_slot_def)
  have other: "ring_slot cap r i \<noteq> unat w mod cap" if "i < ?n" for i
    using ring_slot_inj [OF assms(1), of i ?n r] that assms(4) slot by simp
  have pos: "0 < cap" using assms(4) by simp
  have "unat (w + 1 - r) = Suc ?n"
    using unat_succ_diff [OF assms(4,2)] .
  then have "ring cap (buf[unat w mod cap := x]) r (w + 1) =
      map (\<lambda>i. buf[unat w mod cap := x] ! ring_slot cap r i) [0..<?n] @ [x]"
    using slot assms(3) pos by (simp add: ring_def)
  moreover have "buf[unat w mod cap := x] ! ring_slot cap r i = buf ! ring_slot cap r i" if "i < ?n" for i
    using other [OF that] by (intro nth_list_update_neq) auto
  ultimately show ?thesis
    by (simp add: ring_def)
qed

lemma ring_Cons:
  assumes "r \<noteq> w"
  shows "ring cap buf r w = buf ! (unat r mod cap) # ring cap buf (r + 1) w"
proof -
  have "ring_slot cap r (Suc i) = ring_slot cap (r + 1) i" for i
    by (simp add: ring_slot_def add_ac)
  then have "map (\<lambda>i. buf ! ring_slot cap r i) [0..<Suc n] =
      buf ! ring_slot cap r 0 # map (\<lambda>i. buf ! ring_slot cap (r + 1) i) [0..<n]" for n
    unfolding map_upt_Suc by simp
  from this [of "unat (w - (r + 1))"] show ?thesis
    unfolding ring_def unat_diff_succ [OF assms] by (simp add: ring_slot_def)
qed

text \<open>A counter between two others splits the ring.\<close>

lemma ring_split:
  assumes "unat (w - r) \<le> unat (e - r)"
  shows "ring cap buf r e = ring cap buf r w @ ring cap buf w e"
proof -
  have "unat (e - w) = unat ((e - r) - (w - r))" by simp
  also have "\<dots> = unat (e - r) - unat (w - r)"
    using assms by (intro unat_sub_small) (simp add: word_le_nat_alt)
  finally have n: "unat (e - r) = unat (w - r) + unat (e - w)" using assms by simp
  have "r + of_nat (unat (w - r) + i) = w + of_nat i" for i
    by simp
  then have "ring_slot cap r (unat (w - r) + i) = ring_slot cap w i" for i
    unfolding ring_slot_def by presburger
  then show ?thesis
    unfolding ring_def n by (simp add: map_upt_add)
qed

lemma unat_pred_diff:
  fixes r w :: u32
  assumes "r \<noteq> w"
  shows "unat (w - r) = Suc (unat (w - 1 - r))"
  using unat_diff_succ [OF assms] by (simp add: diff_diff_eq add.commute)

lemma ring_snoc:
  assumes "r \<noteq> w"
  shows "ring cap buf r w = ring cap buf r (w - 1) @ [buf ! (unat (w - 1) mod cap)]"
proof -
  have "ring cap buf (w - 1) w = [buf ! (unat (w - 1) mod cap)]"
    using ring_Cons [of "w - 1" w cap buf] by simp
  with ring_split [of "w - 1" r w cap buf] unat_pred_diff [OF assms] show ?thesis by simp
qed

subsection \<open>Allocators\<close>

text \<open>
  What a page allocator promises to the code that builds page tables and process images: the
  pool is a list of distinct units, an allocation hands out the head of the pool or null when
  the pool is empty, a free puts a unit back. The client lemmas follow runs of allocations.
\<close>

fun collect :: "nat \<Rightarrow> ('s, 'a) kern \<Rightarrow> ('s, 'a list) kern" where
  "collect 0 m = ret []"
| "collect (Suc n) m = bnd m (\<lambda>v. bnd (collect n m) (\<lambda>vs. ret (v # vs)))"

locale page_allocator =
  fixes alloc :: "('s, 'p) kern"
    and free :: "'p \<Rightarrow> ('s, unit) kern"
    and null :: 'p
    and pool :: "'s \<Rightarrow> 'p list \<Rightarrow> bool"
    and usable :: "'s \<Rightarrow> 'p \<Rightarrow> bool"
  assumes alloc_next: "pool s (p # ps) \<Longrightarrow>
      \<exists>t. alloc s = Ret p t \<and> pool t ps \<and> usable t p \<and> p \<notin> set ps \<and> p \<noteq> null"
    and alloc_empty: "pool s [] \<Longrightarrow> alloc s = Ret null s"
    and free_unit: "pool s ps \<Longrightarrow> usable s p \<Longrightarrow> p \<notin> set ps \<Longrightarrow>
      \<exists>t. free p s = Ret () t \<and> pool t (p # ps)"
    and usable_step: "alloc s = Ret q t \<Longrightarrow> pool s ps \<Longrightarrow> usable s p \<Longrightarrow> usable t p"
begin

lemma alloc_distinct: "pool s ps \<Longrightarrow> distinct ps"
proof (induction ps arbitrary: s)
  case Nil
  then show ?case by simp
next
  case (Cons p ps)
  from alloc_next [OF Cons.prems] Cons.IH show ?case by auto
qed

lemma collect_alloc:
  "pool s ps \<Longrightarrow> n \<le> length ps \<Longrightarrow>
     \<exists>t. collect n alloc s = Ret (take n ps) t \<and> pool t (drop n ps)"
proof (induction n arbitrary: s ps)
  case 0
  then show ?case by simp
next
  case (Suc n)
  then obtain p qs where ps: "ps = p # qs" by (cases ps) auto
  with Suc.prems alloc_next obtain u where u: "alloc s = Ret p u" "pool u qs" by blast
  from Suc.IH [OF u(2)] Suc.prems(2) ps obtain t
    where t: "collect n alloc u = Ret (take n qs) t" "pool t (drop n qs)" by auto
  with u ps show ?case by (simp add: run_simps)
qed

lemma collect_exhausted:
  "pool s ps \<Longrightarrow> \<exists>t. collect (length ps + k) alloc s = Ret (ps @ replicate k null) t \<and> pool t []"
proof (induction ps arbitrary: s)
  case Nil
  then show ?case
    by (induction k) (auto simp: run_simps alloc_empty)
next
  case (Cons p ps)
  obtain u where u: "alloc s = Ret p u" "pool u ps" using alloc_next [OF Cons.prems] by blast
  from Cons.IH [OF u(2)] u(1) show ?case by (auto simp: run_simps)
qed

lemma free_alloc:
  "pool s ps \<Longrightarrow> usable s p \<Longrightarrow> p \<notin> set ps \<Longrightarrow>
     \<exists>t u. free p s = Ret () t \<and> alloc t = Ret p u \<and> pool u ps"
  using free_unit alloc_next by meson

end

subsection \<open>Block stores\<close>

text \<open>
  What the file system asks of the layer below it: reading a block yields the contents of the
  view and leaves the view alone, modifying a block changes that block of the view only. The
  client lemmas follow sequences of modifications.
\<close>

locale block_store =
  fixes rd :: "'k \<Rightarrow> ('s, 'd) kern"
    and md :: "'k \<Rightarrow> ('d \<Rightarrow> 'd) \<Rightarrow> ('s, unit) kern"
    and view :: "'s \<Rightarrow> 'k \<Rightarrow> 'd"
    and ok :: "'s \<Rightarrow> bool"
    and fits :: "'d \<Rightarrow> bool"
  assumes rd_view: "ok s \<Longrightarrow> \<exists>t. rd k s = Ret (view s k) t \<and> ok t \<and> view t = view s"
    and md_view: "ok s \<Longrightarrow> fits (f (view s k)) \<Longrightarrow>
      \<exists>t. md k f s = Ret () t \<and> ok t \<and> view t = (view s)(k := f (view s k))"
begin

lemma read_after_modify:
  assumes "ok s" and "fits (f (view s k))"
  shows "\<exists>t. bnd (md k f) (\<lambda>_. rd j) s = Ret (if j = k then f (view s k) else view s j) t \<and> ok t"
proof -
  obtain u where u: "md k f s = Ret () u" "ok u" "view u = (view s)(k := f (view s k))"
    using md_view [of s f k] assms by blast
  obtain t where "rd j u = Ret (view u j) t" "ok t" using rd_view [OF u(2)] by blast
  with u show ?thesis by (auto simp: bnd_apply)
qed

lemma modify_all:
  assumes "ok s" and "\<forall>(k, f) \<in> set ms. \<forall>d. fits (f d)"
  shows "\<exists>t. for_each ms (\<lambda>(k, f). md k f) s = Ret () t \<and> ok t \<and>
    view t = fold (\<lambda>(k, f) v. v(k := f (v k))) ms (view s)"
  using assms
proof (induction ms arbitrary: s)
  case Nil
  then show ?case by simp
next
  case (Cons m ms)
  obtain k f where m: "m = (k, f)" by (cases m)
  obtain u where u: "md k f s = Ret () u" "ok u" "view u = (view s)(k := f (view s k))"
    using md_view [of s f k] Cons.prems m by auto
  from Cons.IH [OF u(2)] Cons.prems(2) u m show ?case by (auto simp: thn_apply)
qed

end

end
