(* ===== verification/Locks.thy ===== *)
theory Locks
  imports Systems
begin

section \<open>Spin locks and interrupt nesting: spinlock.c, intr.c\<close>

text \<open>
  First the code at the level of one hart: the interrupt-nesting counter of
  \<^verbatim>\<open>kernel/core/intr.c\<close>. Then all harts together, as a step relation whose steps are the
  memory accesses of \<open>acquire\<close> and \<open>release\<close> in \<^verbatim>\<open>kernel/core/spinlock.c\<close>; mutual exclusion
  and the agreement of the nesting counter with the set of held locks are invariants. The
  other theories use the view of one hart that this justifies: the set \<open>held\<close> of the spin
  locks it holds.
\<close>

subsection \<open>push_off and pop_off\<close>

record cpu =
  noff :: int
  intena :: bool
  sie :: bool

definition push_off :: "cpu \<Rightarrow> cpu" where
  "push_off c =
     (let old = sie c; c = c\<lparr>sie := False\<rparr>;
          c = (if noff c = 0 then c\<lparr>intena := old\<rparr> else c)
      in c\<lparr>noff := noff c + 1\<rparr>)"

definition pop_off :: "cpu \<Rightarrow> (unit, cpu) outcome" where
  "pop_off c =
     (if sie c then Panic ''pop_off - interruptible''
      else if noff c < 1 then Panic ''pop_off''
      else let c = c\<lparr>noff := noff c - 1\<rparr>
           in Ret () (if noff c = 0 \<and> intena c then c\<lparr>sie := True\<rparr> else c))"

text \<open>Interrupts are off whenever the counter is positive.\<close>

definition cpu_ok :: "cpu \<Rightarrow> bool" where
  "cpu_ok c \<longleftrightarrow> 0 \<le> noff c \<and> (0 < noff c \<longrightarrow> \<not> sie c)"

fun push_offs :: "nat \<Rightarrow> cpu \<Rightarrow> cpu" where
  "push_offs 0 c = c"
| "push_offs (Suc n) c = push_offs n (push_off c)"

fun pop_offs :: "nat \<Rightarrow> cpu \<Rightarrow> (unit, cpu) outcome" where
  "pop_offs 0 c = Ret () c"
| "pop_offs (Suc n) c = bnd (pop_offs n) (\<lambda>_. pop_off) c"

lemma push_off_ok: "cpu_ok c \<Longrightarrow> cpu_ok (push_off c)"
  by (auto simp: cpu_ok_def push_off_def Let_def)

lemma pop_off_ok: "cpu_ok c \<Longrightarrow> wlp pop_off (\<lambda>_. cpu_ok) c"
  by (auto simp: wlp_def cpu_ok_def pop_off_def Let_def)

lemma pop_off_push_off_nested:
  "cpu_ok c \<Longrightarrow> 0 < noff c \<Longrightarrow> pop_off (push_off c) = Ret () c"
  by (simp add: cpu_ok_def push_off_def pop_off_def Let_def)

lemma pop_off_push_off_outer:
  "cpu_ok c \<Longrightarrow> noff c = 0 \<Longrightarrow> pop_off (push_off c) = Ret () (c\<lparr>intena := sie c\<rparr>)"
  by (simp add: cpu_ok_def push_off_def pop_off_def Let_def)

lemma pop_off_push_off:
  "cpu_ok c \<Longrightarrow> pop_off (push_off c) = Ret () (if noff c = 0 then c\<lparr>intena := sie c\<rparr> else c)"
  using pop_off_push_off_nested [of c] pop_off_push_off_outer [of c] by (auto simp: cpu_ok_def)

lemma pop_offs_push_offs:
  assumes "cpu_ok c"
  shows "pop_offs n (push_offs n c) =
     Ret () (if noff c = 0 \<and> 0 < n then c\<lparr>intena := sie c\<rparr> else c)"
  using assms
proof (induction n arbitrary: c)
  case 0
  then show ?case by simp
next
  case (Suc n)
  have pos: "noff (push_off c) \<noteq> 0"
    using Suc.prems by (simp add: cpu_ok_def push_off_def Let_def)
  have "pop_offs n (push_offs n (push_off c)) = Ret () (push_off c)"
    using Suc.IH [OF push_off_ok [OF Suc.prems]] pos by simp
  then have "pop_offs (Suc n) (push_offs (Suc n) c) = pop_off (push_off c)"
    by (simp add: bnd_apply)
  with Suc.prems show ?case by (simp add: pop_off_push_off)
qed

subsection \<open>All harts: the steps of acquire and release\<close>

text \<open>
  \<open>struct spinlock\<close> (the debugging name is left out) and the program points of a hart inside
  \<open>acquire\<close> and \<open>release\<close>: after \<open>push_off\<close>, in the test-and-set loop; after the winning
  test-and-set, before \<open>lk->cpu = c\<close>; after \<open>lk->cpu = 0\<close>, before the word is cleared; and
  after a panic.
\<close>

record spinlock =
  locked :: u32
  lkcpu :: "nat option"

datatype point = Running | Spinning lockid | Taken lockid | Leaving lockid | Dead

record smp =
  cpus :: "nat \<Rightarrow> cpu"
  spin :: "lockid \<Rightarrow> spinlock"
  pcs :: "nat \<Rightarrow> point"

definition initlock :: "spinlock" where
  "initlock = \<lparr>locked = 0, lkcpu = None\<rparr>"

definition holding :: "smp \<Rightarrow> nat \<Rightarrow> lockid \<Rightarrow> bool" where
  "holding m h l \<longleftrightarrow> locked (spin m l) \<noteq> 0 \<and> lkcpu (spin m l) = Some h"

definition goto :: "nat \<Rightarrow> point \<Rightarrow> smp \<Rightarrow> smp" where
  "goto h p m = m\<lparr>pcs := (pcs m)(h := p)\<rparr>"

definition set_cpu :: "nat \<Rightarrow> cpu \<Rightarrow> smp \<Rightarrow> smp" where
  "set_cpu h c m = m\<lparr>cpus := (cpus m)(h := c)\<rparr>"

definition set_spin :: "lockid \<Rightarrow> spinlock \<Rightarrow> smp \<Rightarrow> smp" where
  "set_spin l k m = m\<lparr>spin := (spin m)(l := k)\<rparr>"

text \<open>
  \<open>acquire\<close>: turn interrupts off, panic if this hart already holds the lock, test-and-set
  until the old value is 0, record the owner.
\<close>

inductive smp_step :: "smp \<Rightarrow> smp \<Rightarrow> bool" where
  acquire_enter: "pcs m h = Running \<Longrightarrow> \<not> holding m h l \<Longrightarrow>
     smp_step m (goto h (Spinning l) (set_cpu h (push_off (cpus m h)) m))"
| acquire_panic: "pcs m h = Running \<Longrightarrow> holding m h l \<Longrightarrow>
     smp_step m (goto h Dead (set_cpu h (push_off (cpus m h)) m))"
| test_and_set_fails: "pcs m h = Spinning l \<Longrightarrow> locked (spin m l) \<noteq> 0 \<Longrightarrow>
     smp_step m (set_spin l ((spin m l)\<lparr>locked := 1\<rparr>) m)"
| test_and_set_wins: "pcs m h = Spinning l \<Longrightarrow> locked (spin m l) = 0 \<Longrightarrow>
     smp_step m (goto h (Taken l) (set_spin l ((spin m l)\<lparr>locked := 1\<rparr>) m))"
| set_owner: "pcs m h = Taken l \<Longrightarrow>
     smp_step m (goto h Running (set_spin l ((spin m l)\<lparr>lkcpu := Some h\<rparr>) m))"
| release_enter: "pcs m h = Running \<Longrightarrow> holding m h l \<Longrightarrow>
     smp_step m (goto h (Leaving l) (set_spin l ((spin m l)\<lparr>lkcpu := None\<rparr>) m))"
| release_panic: "pcs m h = Running \<Longrightarrow> \<not> holding m h l \<Longrightarrow> smp_step m (goto h Dead m)"
| release_leave: "pcs m h = Leaving l \<Longrightarrow> pop_off (cpus m h) = Ret () c \<Longrightarrow>
     smp_step m (goto h Running (set_cpu h c (set_spin l ((spin m l)\<lparr>locked := 0\<rparr>) m)))"
| interrupts: "pcs m h = Running \<Longrightarrow> noff (cpus m h) = 0 \<Longrightarrow>
     smp_step m (set_cpu h ((cpus m h)\<lparr>sie := b\<rparr>) m)"

definition smp_start :: "smp \<Rightarrow> bool" where
  "smp_start m \<longleftrightarrow> (\<forall>h. pcs m h = Running \<and> noff (cpus m h) = 0) \<and> (\<forall>l. spin m l = initlock)"

text \<open>
  Hart \<open>h\<close> is between winning the test-and-set on \<open>l\<close> and clearing the word: it is in the
  critical section of \<open>l\<close> or at its two edges.
\<close>

definition at_edge :: "point \<Rightarrow> lockid \<Rightarrow> bool" where
  "at_edge p l \<longleftrightarrow> p = Taken l \<or> p = Leaving l"

definition inside :: "smp \<Rightarrow> nat \<Rightarrow> lockid \<Rightarrow> bool" where
  "inside m h l \<longleftrightarrow> at_edge (pcs m h) l \<or> holding m h l"

definition held_by :: "smp \<Rightarrow> nat \<Rightarrow> lockid set" where
  "held_by m h = {l. holding m h l}"

definition pending :: "point \<Rightarrow> int" where
  "pending p = (case p of Running \<Rightarrow> 0 | Dead \<Rightarrow> 0 | _ \<Rightarrow> 1)"

definition lock_inv :: "smp \<Rightarrow> bool" where
  "lock_inv m \<longleftrightarrow>
     (\<forall>l. locked (spin m l) = 0 \<longrightarrow> lkcpu (spin m l) = None) \<and>
     (\<forall>l h. at_edge (pcs m h) l \<longrightarrow> locked (spin m l) \<noteq> 0 \<and> lkcpu (spin m l) = None) \<and>
     (\<forall>l h k. at_edge (pcs m h) l \<longrightarrow> at_edge (pcs m k) l \<longrightarrow> h = k)"

definition nested :: "cpu \<Rightarrow> point \<Rightarrow> lockid set \<Rightarrow> bool" where
  "nested c p H \<longleftrightarrow> finite H \<and> (p \<noteq> Dead \<longrightarrow> noff c = int (card H) + pending p) \<and>
     (0 < noff c \<longrightarrow> \<not> sie c)"

definition nesting_inv :: "smp \<Rightarrow> bool" where
  "nesting_inv m \<longleftrightarrow> (\<forall>h. nested (cpus m h) (pcs m h) (held_by m h))"

lemmas smp_simps = goto_def set_cpu_def set_spin_def holding_def

lemma at_edge_simps [simp]:
  "\<not> at_edge Running l" "\<not> at_edge Dead l" "\<not> at_edge (Spinning k) l"
  "at_edge (Taken k) l \<longleftrightarrow> k = l" "at_edge (Leaving k) l \<longleftrightarrow> k = l"
  by (auto simp: at_edge_def)

lemma lock_inv_start: "smp_start m \<Longrightarrow> lock_inv m"
  by (simp add: smp_start_def lock_inv_def initlock_def)

lemma lock_invI:
  "(\<And>l. locked (spin m l) = 0 \<Longrightarrow> lkcpu (spin m l) = None) \<Longrightarrow>
   (\<And>l h. at_edge (pcs m h) l \<Longrightarrow> locked (spin m l) \<noteq> 0 \<and> lkcpu (spin m l) = None) \<Longrightarrow>
   (\<And>l h k. at_edge (pcs m h) l \<Longrightarrow> at_edge (pcs m k) l \<Longrightarrow> h = k) \<Longrightarrow> lock_inv m"
  by (simp add: lock_inv_def)

lemma lock_invD:
  assumes "lock_inv m"
  shows "locked (spin m l) = 0 \<Longrightarrow> lkcpu (spin m l) = None"
    and "at_edge (pcs m h) l \<Longrightarrow> locked (spin m l) \<noteq> 0"
    and "at_edge (pcs m h) l \<Longrightarrow> lkcpu (spin m l) = None"
    and "at_edge (pcs m h) l \<Longrightarrow> at_edge (pcs m k) l \<Longrightarrow> h = k"
  using assms unfolding lock_inv_def by blast+

lemma lock_inv_step: "smp_step m n \<Longrightarrow> lock_inv m \<Longrightarrow> lock_inv n"
proof (induction rule: smp_step.induct)
  case (set_owner m h l)
  then have e: "at_edge (pcs m h) l" by simp
  show ?case
    using set_owner lock_invD(2,4) [OF set_owner(2) e] lock_invD(4) [OF set_owner(2) _ e]
    by (intro lock_invI)
      (auto simp: smp_simps lock_invD(1) split: if_splits dest: lock_invD(2-4))
next
  case (release_enter m h l)
  have e: "\<not> at_edge (pcs m k) l" for k
    using lock_invD(3) [OF release_enter(3), of k l] release_enter(2) by (auto simp: holding_def)
  then show ?case
    using release_enter
    by (intro lock_invI)
      (auto simp: smp_simps lock_invD(1) split: if_splits dest: lock_invD(2-4))
next
  case (release_leave m h l c)
  then have e: "at_edge (pcs m h) l" by simp
  show ?case
    using release_leave lock_invD(3,4) [OF release_leave(3) e] lock_invD(4) [OF release_leave(3) _ e]
    by (intro lock_invI)
      (auto simp: smp_simps lock_invD(1) split: if_splits dest: lock_invD(2-4))
qed (rule lock_invI;
  auto simp: smp_simps lock_invD(1) split: if_splits dest: lock_invD(2-4))+

lemma inside_unique: "lock_inv m \<Longrightarrow> inside m h l \<Longrightarrow> inside m k l \<Longrightarrow> h = k"
  by (auto simp: lock_inv_def inside_def holding_def)

lemma held_by_update:
  "held_by (goto h p m) k = held_by m k"
  "held_by (set_cpu h c m) k = held_by m k"
  "held_by (set_spin l s m) k =
     (if locked s \<noteq> 0 \<and> lkcpu s = Some k then insert l (held_by m k) else held_by m k - {l})"
  by (auto simp: held_by_def smp_simps)

lemma nested_push: "nested c Running H \<Longrightarrow> nested (push_off c) (Spinning l) H"
  by (auto simp: nested_def push_off_def Let_def pending_def)

lemma nested_push_dead: "nested c Running H \<Longrightarrow> nested (push_off c) Dead H"
  by (auto simp: nested_def push_off_def Let_def pending_def)

lemma nested_dead: "nested c p H \<Longrightarrow> nested c Dead H"
  by (simp add: nested_def)

lemma nested_taken: "nested c (Spinning l) H \<Longrightarrow> nested c (Taken l) H"
  by (simp add: nested_def pending_def)

lemma nested_owner: "nested c (Taken l) H \<Longrightarrow> l \<notin> H \<Longrightarrow> nested c Running (insert l H)"
  by (simp add: nested_def pending_def)

lemma nested_leaving: "nested c Running H \<Longrightarrow> l \<in> H \<Longrightarrow> nested c (Leaving l) (H - {l})"
  using card_Suc_Diff1 [of H l] by (auto simp: nested_def pending_def)

lemma nested_pop: "nested c (Leaving l) H \<Longrightarrow> pop_off c = Ret () d \<Longrightarrow> nested d Running H"
  by (auto simp: nested_def pop_off_def pending_def Let_def split: if_splits)

lemma nested_irq: "nested c Running H \<Longrightarrow> noff c = 0 \<Longrightarrow> nested (c\<lparr>sie := b\<rparr>) Running H"
  by (simp add: nested_def)

lemma nesting_invI:
  assumes "nesting_inv m" and "nested (cpus n h) (pcs n h) (held_by n h)"
    and "\<And>k. k \<noteq> h \<Longrightarrow> cpus n k = cpus m k \<and> pcs n k = pcs m k \<and> held_by n k = held_by m k"
  shows "nesting_inv n"
  unfolding nesting_inv_def
proof
  fix k
  show "nested (cpus n k) (pcs n k) (held_by n k)"
    using assms by (cases "k = h") (auto simp: nesting_inv_def)
qed

lemma nestedD: "nesting_inv m \<Longrightarrow> pcs m h = p \<Longrightarrow> nested (cpus m h) p (held_by m h)"
  by (auto simp: nesting_inv_def)

lemma update_access [simp]:
  "pcs (goto h p m) = (pcs m)(h := p)" "cpus (goto h p m) = cpus m" "spin (goto h p m) = spin m"
  "pcs (set_cpu h c m) = pcs m" "cpus (set_cpu h c m) = (cpus m)(h := c)"
  "spin (set_cpu h c m) = spin m" "pcs (set_spin l k m) = pcs m"
  "cpus (set_spin l k m) = cpus m" "spin (set_spin l k m) = (spin m)(l := k)"
  by (simp_all add: smp_simps)

lemma not_held: "lkcpu (spin m l) \<noteq> Some h \<Longrightarrow> l \<notin> held_by m h"
  by (simp add: held_by_def holding_def)

lemma set_spin_same_owner:
  "locked (spin m l) \<noteq> 0 \<Longrightarrow> locked s \<noteq> 0 \<Longrightarrow> lkcpu s = lkcpu (spin m l) \<Longrightarrow>
     held_by (set_spin l s m) h = held_by m h"
  by (auto simp: held_by_def holding_def smp_simps)

lemma set_spin_free:
  "lkcpu (spin m l) = None \<Longrightarrow> lkcpu s = None \<Longrightarrow> held_by (set_spin l s m) h = held_by m h"
  by (auto simp: held_by_def holding_def smp_simps)

lemma nesting_inv_step: "smp_step m n \<Longrightarrow> lock_inv m \<Longrightarrow> nesting_inv m \<Longrightarrow> nesting_inv n"
proof (induction rule: smp_step.induct)
  case (acquire_enter m h l)
  then show ?case
    using nestedD [OF _ acquire_enter(1)]
    by - (rule nesting_invI [of m _ h], auto simp: held_by_update intro: nested_push)
next
  case (acquire_panic m h l)
  then show ?case
    using nestedD [OF _ acquire_panic(1)]
    by - (rule nesting_invI [of m _ h], auto simp: held_by_update intro: nested_push_dead)
next
  case (test_and_set_fails m h l)
  then show ?case
    using nestedD [OF _ test_and_set_fails(1)]
    by - (rule nesting_invI [of m _ h], auto simp: set_spin_same_owner)
next
  case (test_and_set_wins m h l)
  then have "lkcpu (spin m l) = None" by (simp add: lock_invD(1))
  with test_and_set_wins show ?case
    using nestedD [OF _ test_and_set_wins(1)]
    by - (rule nesting_invI [of m _ h], auto simp: held_by_update(1) set_spin_free intro: nested_taken)
next
  case (set_owner m h l)
  then have "locked (spin m l) \<noteq> 0" "lkcpu (spin m l) = None"
    using lock_invD(2,3) [of m h l] by auto
  with set_owner show ?case
    using nestedD [OF _ set_owner(1)]
    by - (rule nesting_invI [of m _ h], auto simp: held_by_update not_held intro: nested_owner)
next
  case (release_enter m h l)
  then have "l \<in> held_by m h" "\<And>k. k \<noteq> h \<Longrightarrow> l \<notin> held_by m k"
    by (auto simp: held_by_def holding_def)
  with release_enter show ?case
    using nestedD [OF _ release_enter(1)]
    by - (rule nesting_invI [of m _ h], auto simp: held_by_update intro: nested_leaving)
next
  case (release_panic m h l)
  then show ?case
    using nestedD [OF _ release_panic(1)]
    by - (rule nesting_invI [of m _ h], auto simp: held_by_update intro: nested_dead)
next
  case (release_leave m h l c)
  then have "lkcpu (spin m l) = None"
    using lock_invD(3) [of m h l] by auto
  with release_leave show ?case
    using nestedD [OF _ release_leave(1)]
    by - (rule nesting_invI [of m _ h], auto simp: held_by_update(1,2) set_spin_free intro: nested_pop)
next
  case (interrupts m h b)
  then show ?case
    using nestedD [OF _ interrupts(1)]
    by - (rule nesting_invI [of m _ h], auto simp: held_by_update intro: nested_irq)
qed

lemma nesting_inv_start: "smp_start m \<Longrightarrow> nesting_inv m"
  by (simp add: smp_start_def nesting_inv_def nested_def held_by_def holding_def initlock_def
      pending_def)

interpretation smp_locks: safe_system smp_start smp_step "\<lambda>m. lock_inv m \<and> nesting_inv m"
  by unfold_locales
    (auto intro: lock_inv_start nesting_inv_start lock_inv_step nesting_inv_step)

text \<open>
  C1. Mutual exclusion: at no point of any interleaving of the harts' steps are two harts
  inside the critical section of the same lock, counting from the winning test-and-set to the
  store that clears the word.
\<close>

theorem spinlock_mutual_exclusion:
  assumes "smp_start m" and "smp_step\<^sup>*\<^sup>* m n" and "inside n h l" and "inside n k l"
  shows "h = k"
  using smp_locks.reachable_inv [OF assms(1,2)] inside_unique assms(3,4) by blast

definition smp_init :: smp where
  "smp_init = \<lparr>cpus = \<lambda>_. \<lparr>noff = 0, intena = False, sie = True\<rparr>, spin = \<lambda>_. initlock,
     pcs = \<lambda>_. Running\<rparr>"

definition smp_taken :: smp where
  "smp_taken =
     goto 0 (Taken KmemLock) (set_spin KmemLock \<lparr>locked = 1, lkcpu = None\<rparr>
       (goto 0 (Spinning KmemLock) (set_cpu 0 (push_off (cpus smp_init 0)) smp_init)))"

lemma smp_init_start: "smp_start smp_init"
  by (simp add: smp_start_def smp_init_def)

lemma smp_taken_reachable: "smp_step\<^sup>*\<^sup>* smp_init smp_taken"
proof -
  let ?m = "goto 0 (Spinning KmemLock) (set_cpu 0 (push_off (cpus smp_init 0)) smp_init)"
  have "smp_step smp_init ?m"
    by (rule smp_step.acquire_enter) (simp_all add: smp_init_def holding_def initlock_def)
  moreover have "smp_step ?m smp_taken"
    using smp_step.test_and_set_wins [of ?m 0 KmemLock]
    by (simp add: smp_taken_def smp_init_def initlock_def)
  ultimately show ?thesis by (meson rtranclp.rtrancl_into_rtrancl rtranclp.rtrancl_refl)
qed

lemma spinlock_mutual_exclusion_witness:
  "smp_start smp_init \<and> inside smp_taken 0 KmemLock \<and> \<not> inside smp_taken 1 KmemLock"
proof -
  have "inside smp_taken 0 KmemLock"
    by (simp add: inside_def smp_taken_def)
  then show ?thesis
    using spinlock_mutual_exclusion [OF smp_init_start smp_taken_reachable, of 0 KmemLock 1]
      smp_init_start by auto
qed

text \<open>
  C2. A hart that holds a spin lock has interrupts off, and its nesting counter is the number
  of locks it holds: no interrupt handler runs inside a critical section.
\<close>

theorem interrupts_off_in_critical_section:
  assumes "smp_start m" and "smp_step\<^sup>*\<^sup>* m n" and "pcs n h = Running"
  shows "noff (cpus n h) = int (card (held_by n h)) \<and> (holding n h l \<longrightarrow> \<not> sie (cpus n h))"
proof -
  have "nesting_inv n"
    using smp_locks.reachable_inv [OF assms(1,2)] by simp
  from nestedD [OF this assms(3)] have nest: "nested (cpus n h) Running (held_by n h)" .
  have "l \<in> held_by n h" if "holding n h l"
    using that by (simp add: held_by_def)
  with nest show ?thesis
    by (auto simp: nested_def pending_def card_gt_0_iff)
qed

definition smp_held :: smp where
  "smp_held = goto 0 Running (set_spin KmemLock \<lparr>locked = 1, lkcpu = Some 0\<rparr> smp_taken)"

lemma smp_held_reachable: "smp_step\<^sup>*\<^sup>* smp_init smp_held"
proof -
  have "smp_step smp_taken smp_held"
    using smp_step.set_owner [of smp_taken 0 KmemLock]
    by (simp add: smp_held_def smp_taken_def)
  with smp_taken_reachable show ?thesis by (rule rtranclp.rtrancl_into_rtrancl)
qed

lemma interrupts_off_in_critical_section_witness:
  "holding smp_held 0 KmemLock \<and> \<not> sie (cpus smp_held 0)"
proof -
  have run: "pcs smp_held 0 = Running" by (simp add: smp_held_def)
  have "holding smp_held 0 KmemLock" by (simp add: smp_held_def holding_def)
  then show ?thesis
    using interrupts_off_in_critical_section [OF smp_init_start smp_held_reachable run, of KmemLock]
    by blast
qed

subsection \<open>The view of one hart\<close>

text \<open>
  What the sequential models of the kernel's functions keep of the above: the set of spin
  locks the executing hart holds, the hart's number and the process it runs (\<open>mycpu()->proc\<close>,
  an index into the process table). Waiting for another hart to release a lock is not a step
  of the waiting hart, so in this view a lock the hart does not hold is acquired at once.
\<close>

record kcore =
  held :: "lockid set"
  hart :: int
  cur :: "nat option"

definition acquire :: "lockid \<Rightarrow> ('z kcore_scheme, unit) kern" where
  "acquire l = (\<lambda>s. if l \<in> held s then Panic ''acquire'' else Ret () (s\<lparr>held := insert l (held s)\<rparr>))"

definition release :: "lockid \<Rightarrow> ('z kcore_scheme, unit) kern" where
  "release l = (\<lambda>s. if l \<notin> held s then Panic ''release'' else Ret () (s\<lparr>held := held s - {l}\<rparr>))"

lemma acquire_free [simp]:
  "l \<notin> held s \<Longrightarrow> acquire l s = Ret () (s\<lparr>held := insert l (held s)\<rparr>)"
  by (simp add: acquire_def)

lemma release_held [simp]:
  "l \<in> held s \<Longrightarrow> release l s = Ret () (s\<lparr>held := held s - {l}\<rparr>)"
  by (simp add: release_def)

lemma wp_acquire [wps]:
  "wp (acquire l) Q s \<longleftrightarrow> l \<notin> held s \<and> Q () (s\<lparr>held := insert l (held s)\<rparr>)"
  by (simp add: wp_def acquire_def)

lemma wp_release [wps]:
  "wp (release l) Q s \<longleftrightarrow> l \<in> held s \<and> Q () (s\<lparr>held := held s - {l}\<rparr>)"
  by (simp add: wp_def release_def)

lemma wlp_acquire [wps]:
  "wlp (acquire l) Q s \<longleftrightarrow> (l \<notin> held s \<longrightarrow> Q () (s\<lparr>held := insert l (held s)\<rparr>))"
  by (simp add: wlp_def acquire_def)

lemma wlp_release [wps]:
  "wlp (release l) Q s \<longleftrightarrow> (l \<in> held s \<longrightarrow> Q () (s\<lparr>held := held s - {l}\<rparr>))"
  by (simp add: wlp_def release_def)

lemma held_insert_delete [simp]: "l \<notin> H \<Longrightarrow> insert l H - {l} = H"
  by auto

text \<open>The three steps of an uncontended \<open>acquire\<close>, the two of a \<open>release\<close>.\<close>

lemma smp_acquire_run:
  assumes "pcs m h = Running" and "locked (spin m l) = 0"
  shows "\<exists>n. smp_step\<^sup>*\<^sup>* m n \<and> pcs n h = Running \<and> held_by n h = insert l (held_by m h)"
proof -
  let ?m1 = "goto h (Spinning l) (set_cpu h (push_off (cpus m h)) m)"
  let ?m2 = "goto h (Taken l) (set_spin l ((spin ?m1 l)\<lparr>locked := 1\<rparr>) ?m1)"
  let ?m3 = "goto h Running (set_spin l ((spin ?m2 l)\<lparr>lkcpu := Some h\<rparr>) ?m2)"
  have "smp_step m ?m1"
    using assms by (intro smp_step.acquire_enter) (simp_all add: holding_def)
  moreover have "smp_step ?m1 ?m2"
    using assms by (intro smp_step.test_and_set_wins) simp_all
  moreover have "smp_step ?m2 ?m3"
    by (intro smp_step.set_owner) simp
  ultimately have "smp_step\<^sup>*\<^sup>* m ?m3"
    by (meson rtranclp.rtrancl_into_rtrancl rtranclp.rtrancl_refl)
  moreover have "held_by ?m3 h = insert l (held_by m h)"
    by (auto simp: held_by_def holding_def)
  ultimately show ?thesis by (intro exI [of _ ?m3]) simp
qed

lemma smp_release_run:
  assumes "pcs m h = Running" and "holding m h l" and "nesting_inv m"
  shows "\<exists>n. smp_step\<^sup>*\<^sup>* m n \<and> pcs n h = Running \<and> held_by n h = held_by m h - {l}"
proof -
  let ?m1 = "goto h (Leaving l) (set_spin l ((spin m l)\<lparr>lkcpu := None\<rparr>) m)"
  have "l \<in> held_by m h" using assms(2) by (simp add: held_by_def)
  with nestedD [OF assms(3,1)] have "0 < noff (cpus m h)" "\<not> sie (cpus m h)"
    by (auto simp: nested_def pending_def card_gt_0_iff)
  then obtain c where c: "pop_off (cpus m h) = Ret () c"
    by (simp add: pop_off_def Let_def)
  let ?m2 = "goto h Running (set_cpu h c (set_spin l ((spin ?m1 l)\<lparr>locked := 0\<rparr>) ?m1))"
  have "smp_step m ?m1" using assms by (intro smp_step.release_enter)
  moreover have "smp_step ?m1 ?m2" using c by (intro smp_step.release_leave) simp_all
  ultimately have "smp_step\<^sup>*\<^sup>* m ?m2"
    by (meson rtranclp.rtrancl_into_rtrancl rtranclp.rtrancl_refl)
  moreover have "held_by ?m2 h = held_by m h - {l}"
    by (auto simp: held_by_def holding_def)
  ultimately show ?thesis by (intro exI [of _ ?m2]) simp
qed



end
