(* ===== verification/ProcTable.thy ===== *)
theory ProcTable
  imports Locks
begin

section \<open>The process table: sleep, wakeup, kill, the scheduler\<close>

text \<open>
  The process table of \<^verbatim>\<open>kernel/core/proc.c\<close> (\<open>struct proc\<close> of \<^verbatim>\<open>kernel/include/proc.h\<close>)
  and the operations that only move processes between their states: \<open>sleep\<close>, \<open>wakeup\<close>,
  \<open>yield\<close>, \<open>kill\<close>, \<open>sched\<close> and one visit of the scheduler's loop. Context switches are the
  points where control passes between a process and the scheduler of its hart: \<open>sleep\<close> and
  \<open>yield\<close> are modelled up to \<open>swtch\<close> and on to the point where the scheduler has dropped
  \<open>p->lock\<close>; the code after \<open>sched\<close> returns is \<open>sleep_resume\<close> and \<open>yield_resume\<close>.
\<close>

datatype procstate = UNUSED | USED | SLEEPING | RUNNABLE | RUNNING | ZOMBIE

text \<open>Code addresses the kernel stores in a context or a task entry.\<close>

datatype code = NoCode | UserEntry | ProcEntry | Task nat

record kcontext =
  c_ra :: code
  c_sp :: u64
  c_s :: "u64 list"

definition zero_context :: kcontext where
  "zero_context = \<lparr>c_ra = NoCode, c_sp = 0, c_s = replicate 12 0\<rparr>"

record proc =
  pid :: int
  pstate :: procstate
  chan :: "chan option"
  killed :: int
  xstate :: int
  parent :: "nat option"
  cwd :: "nat option"
  ofile :: "nat option list"
  context_of :: kcontext
  start :: code
  pagetable :: u64
  trapframe :: u64
  sz :: u64
  kstack_base :: u64
  kstack_top :: u64
  cpu_id :: int

definition NPROC :: nat where "NPROC = 16"

definition NOFILE :: nat where "NOFILE = 16"

record kproc = kcore +
  procs :: "proc list"
  next_pid :: int
  initproc :: "nat option"

definition upd_proc :: "nat \<Rightarrow> (proc \<Rightarrow> proc) \<Rightarrow> ('z kproc_scheme, unit) kern" where
  "upd_proc i f = modify (\<lambda>s. s\<lparr>procs := (procs s)[i := f (procs s ! i)]\<rparr>)"

definition get_proc :: "nat \<Rightarrow> (proc \<Rightarrow> 'a) \<Rightarrow> ('z kproc_scheme, 'a) kern" where
  "get_proc i f = gets (\<lambda>s. f (procs s ! i))"

definition myproc :: "('z kproc_scheme, nat option) kern" where
  "myproc = gets cur"

subsection \<open>Operations\<close>

definition allocpid :: "('z kproc_scheme, int) kern" where
  "allocpid =
     thn (acquire PidLock)
     (bnd (gets next_pid) (\<lambda>n.
     thn (modify (\<lambda>s. s\<lparr>next_pid := n + 1\<rparr>))
     (thn (release PidLock)
     (ret n))))"

text \<open>The channel given to \<open>wakeup\<close> may be the null pointer, on which no process sleeps.\<close>

definition wakeup_on :: "chan option \<Rightarrow> ('z kproc_scheme, unit) kern" where
  "wakeup_on c = for_each [0..<NPROC] (\<lambda>i.
     thn (acquire (ProcLock i))
     (bnd (get_proc i (\<lambda>p. pstate p = SLEEPING \<and> chan p = c)) (\<lambda>b.
     thn (whenk b (upd_proc i (\<lambda>p. p\<lparr>pstate := RUNNABLE\<rparr>)))
     (release (ProcLock i)))))"

definition wakeup :: "chan \<Rightarrow> ('z kproc_scheme, unit) kern" where
  "wakeup ch = wakeup_on (Some ch)"

text \<open>
  \<open>sched\<close> up to \<open>swtch\<close>, with its four checks; the hart's nesting counter is the number of
  locks it holds, and interrupts are off while it holds one.
\<close>

definition sched :: "('z kproc_scheme, unit) kern" where
  "sched =
     bnd myproc (\<lambda>me. case me of None \<Rightarrow> panic ''sched'' | Some p \<Rightarrow>
     bnd (gets held) (\<lambda>H.
     bnd (get_proc p pstate) (\<lambda>st.
     if ProcLock p \<notin> H then panic ''sched p->lock''
     else if card H \<noteq> 1 then panic ''sched locks''
     else if st = RUNNING then panic ''sched running''
     else ret ())))"

text \<open>
  The scheduler of the hart after \<open>swtch\<close> has returned to it: the process gives up the
  processor and its lock is dropped.
\<close>

definition scheduler_return :: "nat \<Rightarrow> ('z kproc_scheme, unit) kern" where
  "scheduler_return p =
     thn (modify (\<lambda>s. s\<lparr>cur := None\<rparr>))
     (release (ProcLock p))"

text \<open>
  The scheduler looking at slot \<open>i\<close>: a runnable process is marked running and gets the
  processor, still holding its lock.
\<close>

definition scheduler_visit :: "nat \<Rightarrow> ('z kproc_scheme, bool) kern" where
  "scheduler_visit i =
     thn (acquire (ProcLock i))
     (bnd (get_proc i pstate) (\<lambda>st.
     if st = RUNNABLE then
       thn (upd_proc i (\<lambda>p. p\<lparr>pstate := RUNNING\<rparr>))
       (thn (modify (\<lambda>s. s\<lparr>cur := Some i\<rparr>))
       (ret True))
     else
       thn (release (ProcLock i))
       (ret False)))"

text \<open>A call that gives up the processor and does not sleep on a channel.\<close>

definition leaves :: "('s, unit) kern \<Rightarrow> ('s, 'a) kern" where
  "leaves m = (\<lambda>s. case m s of Ret _ t \<Rightarrow> Leaves t | Panic e \<Rightarrow> Panic e
     | Sleeps c t \<Rightarrow> Sleeps c t | Leaves t \<Rightarrow> Leaves t)"

definition yield :: "('z kproc_scheme, unit) kern" where
  "yield =
     bnd myproc (\<lambda>me. case me of None \<Rightarrow> ret () | Some p \<Rightarrow>
     leaves
       (thn (acquire (ProcLock p))
       (thn (upd_proc p (\<lambda>q. q\<lparr>pstate := RUNNABLE\<rparr>))
       (thn sched
       (scheduler_return p)))))"

definition yield_resume :: "('z kproc_scheme, unit) kern" where
  "yield_resume =
     bnd myproc (\<lambda>me. case me of None \<Rightarrow> ret () | Some p \<Rightarrow> release (ProcLock p))"

definition sleep_enter :: "chan \<Rightarrow> lockid \<Rightarrow> ('z kproc_scheme, unit) kern" where
  "sleep_enter ch lk =
     bnd myproc (\<lambda>me. case me of None \<Rightarrow> panic ''sleep'' | Some p \<Rightarrow>
     thn (acquire (ProcLock p))
     (thn (release lk)
     (thn (upd_proc p (\<lambda>q. q\<lparr>chan := Some ch, pstate := SLEEPING\<rparr>))
     (thn sched
     (scheduler_return p)))))"

definition sleep_resume :: "lockid \<Rightarrow> ('z kproc_scheme, unit) kern" where
  "sleep_resume lk =
     bnd myproc (\<lambda>me. case me of None \<Rightarrow> panic ''sleep'' | Some p \<Rightarrow>
     thn (upd_proc p (\<lambda>q. q\<lparr>chan := None\<rparr>))
     (thn (release (ProcLock p))
     (acquire lk)))"

text \<open>
  A call of \<open>sleep\<close> inside an operation that is not followed past it: the operation's outcome
  is that the process sleeps.
\<close>

definition sleep :: "chan \<Rightarrow> lockid \<Rightarrow> ('z kproc_scheme, 'a) kern" where
  "sleep ch lk = (\<lambda>s. case sleep_enter ch lk s of
     Ret _ t \<Rightarrow> Sleeps ch t | Panic e \<Rightarrow> Panic e | Sleeps c t \<Rightarrow> Sleeps c t | Leaves t \<Rightarrow> Leaves t)"

definition kill :: "int \<Rightarrow> ('z kproc_scheme, int) kern" where
  "kill n =
     bnd (search [0..<NPROC] (\<lambda>i.
       thn (acquire (ProcLock i))
       (bnd (get_proc i (\<lambda>p. pid p = n \<and> pstate p \<noteq> UNUSED)) (\<lambda>found.
       if found then
         thn (upd_proc i (\<lambda>p. p\<lparr>killed := 1\<rparr>))
         (thn (upd_proc i (\<lambda>p. if pstate p = SLEEPING then p\<lparr>pstate := RUNNABLE\<rparr> else p))
         (thn (release (ProcLock i))
         (ret (Some 0))))
       else
         thn (release (ProcLock i))
         (ret None)))))
     (\<lambda>r. case r of Some v \<Rightarrow> ret v | None \<Rightarrow> ret (-1))"

subsection \<open>What the operations do\<close>

lemma upd_proc_apply [simp]:
  "upd_proc i f s = Ret () (s\<lparr>procs := (procs s)[i := f (procs s ! i)]\<rparr>)"
  by (simp add: upd_proc_def)

lemma get_proc_apply [simp]: "get_proc i f s = Ret (f (procs s ! i)) s"
  by (simp add: get_proc_def)

lemma myproc_apply [simp]: "myproc s = Ret (cur s) s"
  by (simp add: myproc_def)

lemma wp_proc [wps]:
  "wp (upd_proc i f) Q s = Q () (s\<lparr>procs := (procs s)[i := f (procs s ! i)]\<rparr>)"
  "wp (get_proc i g) R s = R (g (procs s ! i)) s"
  "wp myproc T s = T (cur s) s"
  by (simp_all add: wp_def)

lemma wlp_proc [wps]:
  "wlp (upd_proc i f) Q s = Q () (s\<lparr>procs := (procs s)[i := f (procs s ! i)]\<rparr>)"
  "wlp (get_proc i g) R s = R (g (procs s ! i)) s"
  "wlp myproc T s = T (cur s) s"
  by (simp_all add: wlp_def)

definition no_proc_lock :: "lockid set \<Rightarrow> bool" where
  "no_proc_lock H \<longleftrightarrow> (\<forall>i. ProcLock i \<notin> H)"

lemma no_proc_lockD [simp]: "no_proc_lock H \<Longrightarrow> ProcLock i \<notin> H"
  by (simp add: no_proc_lock_def)

lemma no_proc_lock_simps [simp]:
  "no_proc_lock {}" "no_proc_lock H \<Longrightarrow> no_proc_lock (H - K)"
  "no_proc_lock (insert l H) \<longleftrightarrow> (\<forall>i. l \<noteq> ProcLock i) \<and> no_proc_lock H"
  by (auto simp: no_proc_lock_def)

text \<open>A loop over the table whose body rewrites one slot rewrites every slot.\<close>

lemma for_each_procs:
  assumes "\<And>i t. i \<in> set is \<Longrightarrow> held t = held s \<Longrightarrow>
      f i t = Ret () (t\<lparr>procs := (procs t)[i := g (procs t ! i)]\<rparr>)"
  shows "for_each is f s = Ret () (s\<lparr>procs := fold (\<lambda>i ps. ps[i := g (ps ! i)]) is (procs s)\<rparr>)"
  using assms
proof (induction "is" arbitrary: s)
  case Nil
  then show ?case by simp
next
  case (Cons i "is")
  let ?t = "s\<lparr>procs := (procs s)[i := g (procs s ! i)]\<rparr>"
  have "for_each is f ?t =
      Ret () (?t\<lparr>procs := fold (\<lambda>i ps. ps[i := g (ps ! i)]) is (procs ?t)\<rparr>)"
    by (rule Cons.IH) (use Cons.prems in simp)
  with Cons.prems [of i s] show ?case by (simp add: thn_apply)
qed

definition wakeup_proc :: "chan \<Rightarrow> proc \<Rightarrow> proc" where
  "wakeup_proc ch p = (if pstate p = SLEEPING \<and> chan p = Some ch then p\<lparr>pstate := RUNNABLE\<rparr> else p)"

lemma wakeup_eq:
  assumes "length (procs s) = NPROC" and "no_proc_lock (held s)"
  shows "wakeup ch s = Ret () (s\<lparr>procs := map (wakeup_proc ch) (procs s)\<rparr>)"
proof -
  have "wakeup ch s = Ret () (s\<lparr>procs :=
      fold (\<lambda>i ps. ps[i := wakeup_proc ch (ps ! i)]) [0..<NPROC] (procs s)\<rparr>)"
    unfolding wakeup_def wakeup_on_def
    by (rule for_each_procs) (use assms in \<open>auto simp: run_simps wakeup_proc_def\<close>)
  then show ?thesis
    using fold_update_map [of NPROC "procs s" "wakeup_proc ch"] assms(1) by simp
qed

lemma sleep_enter_eq:
  assumes "cur s = Some p" and "p < length (procs s)" and "held s = insert lk H"
    and "lk \<notin> H" and "no_proc_lock (held s)" and "finite H"
  shows "sleep_enter ch lk s =
     (if H \<noteq> {} then Panic ''sched locks''
      else Ret () (s\<lparr>held := {}, cur := None,
        procs := (procs s)[p := (procs s ! p)\<lparr>chan := Some ch, pstate := SLEEPING\<rparr>]\<rparr>))"
proof -
  have lk: "ProcLock p \<noteq> lk" "ProcLock p \<notin> H"
    using assms(3,5) by (auto simp: no_proc_lock_def)
  have del: "insert (ProcLock p) (insert lk H) - {lk} = insert (ProcLock p) H"
    using lk assms(4) by auto
  show ?thesis
    using assms lk
    by (auto simp: sleep_enter_def sched_def scheduler_return_def run_simps del)
qed

lemma sleep_eq:
  assumes "cur s = Some p" and "p < length (procs s)" and "held s = {lk}" and "\<forall>i. lk \<noteq> ProcLock i"
  shows "sleep ch lk s = Sleeps ch (s\<lparr>held := {}, cur := None,
     procs := (procs s)[p := (procs s ! p)\<lparr>chan := Some ch, pstate := SLEEPING\<rparr>]\<rparr>)"
proof -
  have "no_proc_lock (held s)" using assms(3,4) by (auto simp: no_proc_lock_def)
  with sleep_enter_eq [of s p lk "{}" ch] assms(1-3) show ?thesis by (simp add: sleep_def)
qed

lemma scheduler_visit_eq:
  "ProcLock i \<notin> held s \<Longrightarrow> i < length (procs s) \<Longrightarrow> scheduler_visit i s =
     (if pstate (procs s ! i) = RUNNABLE
      then Ret True (s\<lparr>held := insert (ProcLock i) (held s), cur := Some i,
        procs := (procs s)[i := (procs s ! i)\<lparr>pstate := RUNNING\<rparr>]\<rparr>)
      else Ret False s)"
  by (simp add: scheduler_visit_def run_simps)

lemma sleep_resume_eq:
  "cur s = Some p \<Longrightarrow> p < length (procs s) \<Longrightarrow> held s = {ProcLock p} \<Longrightarrow> lk \<noteq> ProcLock p \<Longrightarrow>
     sleep_resume lk s =
       Ret () (s\<lparr>held := {lk}, procs := (procs s)[p := (procs s ! p)\<lparr>chan := None\<rparr>]\<rparr>)"
  by (simp add: sleep_resume_def run_simps)

text \<open>
  C4. No lost wakeup, end to end: a process that goes to sleep on a channel under a lock is
  put to \<open>SLEEPING\<close> on that channel with the lock dropped; a wakeup of the channel makes it
  runnable, the scheduler's next visit of its slot runs it, and \<open>sleep\<close> returns with exactly
  the lock it was called with and the process table as it was before but for the cleared
  channel and the state \<open>RUNNING\<close>, and what the wakeup did to the other sleepers.
\<close>

theorem sleep_wakeup_round_trip:
  assumes "cur s = Some p" and "p < NPROC" and "length (procs s) = NPROC"
    and "held s = {lk}" and "\<forall>i. lk \<noteq> ProcLock i"
  shows "\<exists>t u v w. sleep_enter ch lk s = Ret () t \<and> pstate (procs t ! p) = SLEEPING \<and> held t = {} \<and>
     wakeup ch t = Ret () u \<and> scheduler_visit p u = Ret True v \<and> sleep_resume lk v = Ret () w \<and>
     held w = {lk} \<and> cur w = Some p \<and>
     procs w = (map (wakeup_proc ch) (procs s))[p := (procs s ! p)\<lparr>chan := None, pstate := RUNNING\<rparr>]"
proof -
  let ?q = "(procs s ! p)\<lparr>chan := Some ch, pstate := SLEEPING\<rparr>"
  let ?t = "s\<lparr>held := {}, cur := None, procs := (procs s)[p := ?q]\<rparr>"
  let ?ps = "map (wakeup_proc ch) ((procs s)[p := ?q])"
  have "no_proc_lock (held s)" using assms(4,5) by (auto simp: no_proc_lock_def)
  with sleep_enter_eq [of s p lk "{}" ch] assms(1-4)
  have t: "sleep_enter ch lk s = Ret () ?t" by simp
  have u: "wakeup ch ?t = Ret () (?t\<lparr>procs := ?ps\<rparr>)"
    by (subst wakeup_eq) (use assms in simp_all)
  have run: "?ps ! p = ?q\<lparr>pstate := RUNNABLE\<rparr>"
    using assms by (simp add: wakeup_proc_def)
  let ?v = "?t\<lparr>held := {ProcLock p}, cur := Some p, procs := ?ps[p := ?q\<lparr>pstate := RUNNING\<rparr>]\<rparr>"
  have v: "scheduler_visit p (?t\<lparr>procs := ?ps\<rparr>) = Ret True ?v"
    using run assms by (subst scheduler_visit_eq) simp_all
  have w: "sleep_resume lk ?v = Ret () (?v\<lparr>held := {lk},
      procs := ?ps[p := ?q\<lparr>pstate := RUNNING, chan := None\<rparr>]\<rparr>)"
    using assms by (subst sleep_resume_eq [of _ p]) simp_all
  have "?ps[p := ?q\<lparr>pstate := RUNNING, chan := None\<rparr>] =
      (map (wakeup_proc ch) (procs s))[p := (procs s ! p)\<lparr>chan := None, pstate := RUNNING\<rparr>]"
    by (auto simp: map_update intro: arg_cong [where f = "list_update _ p"])
  with t u v w show ?thesis
    using assms by (intro exI [of _ ?t] exI [of _ "?t\<lparr>procs := ?ps\<rparr>"] exI [of _ ?v] exI) auto
qed

definition idle_proc :: proc where
  "idle_proc = \<lparr>pid = 0, pstate = UNUSED, chan = None, killed = 0, xstate = 0, parent = None,
     cwd = None, ofile = replicate NOFILE None, context_of = zero_context, start = NoCode,
     pagetable = 0, trapframe = 0, sz = 0, kstack_base = 0, kstack_top = 0, cpu_id = -1\<rparr>"

definition demo_kproc :: kproc where
  "demo_kproc = \<lparr>held = {TicksLock}, hart = 0, cur = Some 1,
     procs = (replicate NPROC idle_proc)[1 := idle_proc\<lparr>pid := 1, pstate := RUNNING\<rparr>],
     next_pid = 2, initproc = None\<rparr>"

lemma sleep_wakeup_round_trip_witness:
  "\<exists>t u v w. sleep_enter ChTicks TicksLock demo_kproc = Ret () t \<and>
     wakeup ChTicks t = Ret () u \<and> scheduler_visit 1 u = Ret True v \<and>
     sleep_resume TicksLock v = Ret () w \<and> held w = {TicksLock}"
proof -
  have h: "cur demo_kproc = Some 1" "1 < NPROC" "length (procs demo_kproc) = NPROC"
    "held demo_kproc = {TicksLock}" "\<forall>i. TicksLock \<noteq> ProcLock i"
    by (simp_all add: demo_kproc_def NPROC_def)
  show ?thesis using sleep_wakeup_round_trip [OF h, of ChTicks] by blast
qed

subsection \<open>kill\<close>

definition kill_proc :: "proc \<Rightarrow> proc" where
  "kill_proc p = p\<lparr>killed := 1, pstate := (if pstate p = SLEEPING then RUNNABLE else pstate p)\<rparr>"

definition pid_at :: "int \<Rightarrow> proc \<Rightarrow> bool" where
  "pid_at n p \<longleftrightarrow> pid p = n \<and> pstate p \<noteq> UNUSED"

lemma kill_search:
  assumes "set is \<subseteq> {..<length (procs s)}" and "no_proc_lock (held s)"
  shows "search is (\<lambda>i.
       thn (acquire (ProcLock i))
       (bnd (get_proc i (\<lambda>p. pid p = n \<and> pstate p \<noteq> UNUSED)) (\<lambda>found.
       if found then
         thn (upd_proc i (\<lambda>p. p\<lparr>killed := 1\<rparr>))
         (thn (upd_proc i (\<lambda>p. if pstate p = SLEEPING then p\<lparr>pstate := RUNNABLE\<rparr> else p))
         (thn (release (ProcLock i))
         (ret (Some 0))))
       else
         thn (release (ProcLock i))
         (ret None)))) s =
     (case find (\<lambda>i. pid_at n (procs s ! i)) is of
        None \<Rightarrow> Ret None s
      | Some i \<Rightarrow> Ret (Some (0::int)) (s\<lparr>procs := (procs s)[i := kill_proc (procs s ! i)]\<rparr>))"
  using assms
  by (induction "is") (auto simp: run_simps pid_at_def kill_proc_def)

text \<open>
  \<open>kill\<close> marks the first live process with the given pid as killed, makes it runnable if
  it sleeps, leaves every other process alone and returns 0; it returns -1 and changes nothing
  exactly when no live process has that pid.
\<close>

theorem kill_effect:
  assumes "length (procs s) = NPROC" and "no_proc_lock (held s)"
  shows "kill n s =
     (case find (\<lambda>i. pid_at n (procs s ! i)) [0..<NPROC] of
        None \<Rightarrow> Ret (-1) s
      | Some i \<Rightarrow> Ret 0 (s\<lparr>procs := (procs s)[i := kill_proc (procs s ! i)]\<rparr>))"
proof -
  have "set [0..<NPROC] \<subseteq> {..<length (procs s)}" using assms(1) by auto
  from kill_search [OF this assms(2), of n] show ?thesis
    unfolding kill_def bnd_apply by (simp split: option.splits)
qed

lemma kill_effect_witness:
  "kill 1 (demo_kproc\<lparr>held := {}\<rparr>) =
     Ret 0 (demo_kproc\<lparr>held := {}, procs := (procs demo_kproc)[1 := kill_proc (procs demo_kproc ! 1)]\<rparr>) \<and>
   kill 7 (demo_kproc\<lparr>held := {}\<rparr>) = Ret (-1) (demo_kproc\<lparr>held := {}\<rparr>)"
proof -
  let ?s = "demo_kproc\<lparr>held := {}\<rparr>"
  have h: "length (procs ?s) = NPROC" "no_proc_lock (held ?s)"
    by (simp_all add: demo_kproc_def)
  have f: "find (\<lambda>i. pid_at 1 (procs ?s ! i)) [0..<NPROC] = Some 1"
    "find (\<lambda>i. pid_at 7 (procs ?s ! i)) [0..<NPROC] = None"
    by (simp_all add: demo_kproc_def NPROC_def upt_rec pid_at_def idle_proc_def)
  show ?thesis
    using kill_effect [OF h, of 1] kill_effect [OF h, of 7] unfolding f by simp
qed

declare demo_kproc_def [demos]

subsection \<open>Frames of calls that lock, sleep and wake\<close>

text \<open>
  A frame that does not mention the set of held locks, the process table or the current process
  is kept by every call of the operations above.
\<close>

locale proc_frame = step_frame R for R :: "'z kproc_scheme \<Rightarrow> 'z kproc_scheme \<Rightarrow> bool" +
  assumes frame_held: "R s (s\<lparr>held := H\<rparr>)"
    and frame_procs: "R s (s\<lparr>procs := P\<rparr>)"
    and frame_cur: "R s (s\<lparr>cur := c\<rparr>)"
begin

lemma steps_acquire: "steps R (acquire l)"
  by (rule stepsI) (auto simp: after_def acquire_def frame_held split: if_splits)

lemma steps_release: "steps R (release l)"
  by (rule stepsI) (auto simp: after_def release_def frame_held split: if_splits)

lemma steps_upd_proc: "steps R (upd_proc i f)"
  unfolding upd_proc_def by (intro steps_modify frame_procs)

lemma steps_get_proc: "steps R (get_proc i f)" "steps R myproc"
  unfolding get_proc_def myproc_def by (rule steps_gets)+

lemma steps_wakeup: "steps R (wakeup ch)"
  unfolding wakeup_def wakeup_on_def
  by (intro steps_comp steps_base steps_acquire steps_release steps_upd_proc steps_get_proc)

lemma steps_sched: "steps R sched" "steps R (scheduler_return p)"
  unfolding sched_def scheduler_return_def
  by (intro steps_comp steps_base steps_release steps_get_proc steps_modify frame_cur)+

lemma steps_sleep_enter: "steps R (sleep_enter ch lk)"
  unfolding sleep_enter_def
  by (intro steps_comp steps_base steps_acquire steps_release steps_upd_proc steps_get_proc steps_sched)

lemma steps_sleep: "steps R (sleep ch lk)"
proof -
  have "after (sleep_enter ch lk) s t" if "after (sleep ch lk :: (_, 'b) kern) s t" for s t
    using that by (auto simp: after_def sleep_def split: outcome.splits)
  then show ?thesis by (intro stepsI stepsD [OF steps_sleep_enter])
qed

lemma steps_sleep_resume: "steps R (sleep_resume lk)"
  unfolding sleep_resume_def
  by (intro steps_comp steps_base steps_acquire steps_release steps_upd_proc steps_get_proc)

lemmas steps_proc = steps_acquire steps_release steps_upd_proc steps_get_proc steps_wakeup
  steps_sleep steps_sleep_resume

end

end
