(* ===== verification/Kalloc.thy ===== *)
theory Kalloc
  imports Memory ProcTable
begin

section \<open>The physical page allocator: \<^verbatim>\<open>kernel/core/kalloc.c\<close>\<close>

text \<open>
  Free pages form a singly linked list threaded through the pages themselves: the first eight
  bytes of a free page hold the address of the next. The state is memory, the list head
  \<open>kmem.freelist\<close> and the linker symbol \<open>end\<close>. The allocator is shown to implement a stack
  of free pages, and is the provider of the interface \<open>page_allocator\<close>, which the page-table
  code relies on. The diagnostic line printed when memory runs out is not modelled.
\<close>

definition PGSIZE :: u64 where "PGSIZE = 4096"

definition PHYSTOP :: u64 where "PHYSTOP = 0x80000000 + 128 * 1024 * 1024"

definition PGROUNDUP :: "u64 \<Rightarrow> u64" where
  "PGROUNDUP a = (a + PGSIZE - 1) AND NOT (PGSIZE - 1)"

definition PGROUNDDOWN :: "u64 \<Rightarrow> u64" where
  "PGROUNDDOWN a = a AND NOT (PGSIZE - 1)"

record kmem_st = kproc +
  mem :: memory
  freelist :: u64
  kend :: u64

definition upd_mem :: "(memory \<Rightarrow> memory) \<Rightarrow> ('z kmem_st_scheme, unit) kern" where
  "upd_mem f = modify (\<lambda>s. s\<lparr>mem := f (mem s)\<rparr>)"

definition kfree :: "u64 \<Rightarrow> ('z kmem_st_scheme, unit) kern" where
  "kfree pa =
     bnd (gets kend) (\<lambda>e.
     if pa mod PGSIZE \<noteq> 0 then panic ''kfree: not aligned''
     else if pa < e \<or> PHYSTOP \<le> pa then panic ''kfree: bad pa''
     else
       thn (upd_mem (\<lambda>m. memset m pa 1 4096))
       (thn (acquire KmemLock)
       (bnd (gets freelist) (\<lambda>next.
       thn (upd_mem (\<lambda>m. store64 m pa next))
       (thn (modify (\<lambda>s. s\<lparr>freelist := pa\<rparr>))
       (release KmemLock))))))"

definition kalloc :: "('z kmem_st_scheme, u64) kern" where
  "kalloc =
     thn (acquire KmemLock)
     (bnd (gets freelist) (\<lambda>r.
     thn (whenk (r \<noteq> 0) (modify (\<lambda>s. s\<lparr>freelist := load64 (mem s) r\<rparr>)))
     (thn (release KmemLock)
     (thn (whenk (r \<noteq> 0) (upd_mem (\<lambda>m. memset m r 5 4096)))
     (ret r)))))"

text \<open>
  \<open>kinit\<close> frees every page from the end of the kernel to \<open>PHYSTOP\<close>; the distance to
  \<open>PHYSTOP\<close> shrinks by a page in every iteration.
\<close>

lemma kinit_measure:
  assumes "p + PGSIZE \<le> PHYSTOP"
  shows "unat (PHYSTOP - (p + PGSIZE)) < unat (PHYSTOP - p)"
proof -
  have le: "unat (PHYSTOP - (p + PGSIZE)) \<le> unat PHYSTOP"
    using assms by (simp add: unat_sub_small)
  have "unat ((PHYSTOP - (p + PGSIZE)) + PGSIZE) = unat (PHYSTOP - (p + PGSIZE)) + unat PGSIZE"
    by (rule unat_add_small) (use le in \<open>simp add: PHYSTOP_def PGSIZE_def\<close>)
  moreover have "(PHYSTOP - (p + PGSIZE)) + PGSIZE = PHYSTOP - p" by simp
  ultimately show ?thesis by (simp add: PGSIZE_def)
qed

function kinit_loop :: "u64 \<Rightarrow> ('z kmem_st_scheme, unit) kern" where
  "kinit_loop p =
     (if p + PGSIZE \<le> PHYSTOP then thn (kfree p) (kinit_loop (p + PGSIZE)) else ret ())"
  by pat_completeness auto
termination
  by (relation "measure (\<lambda>p. unat (PHYSTOP - p))") (auto intro: kinit_measure)

declare kinit_loop.simps [simp del]

definition kinit :: "('z kmem_st_scheme, unit) kern" where
  "kinit =
     thn (modify (\<lambda>s. s\<lparr>freelist := 0\<rparr>))
     (bnd (gets kend) (\<lambda>e. kinit_loop (PGROUNDUP e)))"

subsection \<open>The free list\<close>

fun fl_path :: "memory \<Rightarrow> u64 \<Rightarrow> u64 list \<Rightarrow> bool" where
  "fl_path m p [] \<longleftrightarrow> p = 0"
| "fl_path m p (q # qs) \<longleftrightarrow> p = q \<and> p \<noteq> 0 \<and> fl_path m (load64 m p) qs"

definition aligned :: "u64 \<Rightarrow> bool" where
  "aligned p \<longleftrightarrow> p mod PGSIZE = 0"

definition page :: "u64 \<Rightarrow> u64 \<Rightarrow> bool" where
  "page e p \<longleftrightarrow> aligned p \<and> e \<le> p \<and> p < PHYSTOP"

definition free_pages :: "'z kmem_st_scheme \<Rightarrow> u64 list \<Rightarrow> bool" where
  "free_pages s ps \<longleftrightarrow> 0 < kend s \<and> KmemLock \<notin> held s \<and>
     fl_path (mem s) (freelist s) ps \<and> distinct ps \<and> (\<forall>p \<in> set ps. page (kend s) p)"

lemma aligned_dvd: "aligned p \<longleftrightarrow> 4096 dvd unat p"
proof -
  have "aligned p \<longleftrightarrow> unat p mod 4096 = 0"
    unfolding aligned_def by (simp only: word_unat_eq_iff unat_mod PGSIZE_def) simp
  then show ?thesis by (simp add: mod_eq_0_iff_dvd)
qed

lemma page_disj:
  assumes "aligned p" and "aligned q" and "p \<noteq> q"
    and "i + n \<le> 4096" and "j + k \<le> 4096" and "0 < n" and "0 < k"
  shows "disj (p + of_nat i) n (q + of_nat j) k"
proof -
  obtain a where a: "unat p = 4096 * a" using assms(1) unfolding aligned_dvd by (rule dvdE)
  obtain b where b: "unat q = 4096 * b" using assms(2) unfolding aligned_dvd by (rule dvdE)
  have ab: "a < b \<or> b < a"
    using assms(3) a b by (auto simp: word_unat_eq_iff)
  have bd: "a \<le> 4503599627370495" "b \<le> 4503599627370495"
    using unat64_less [of p] unat64_less [of q] a b by auto
  have p: "unat (p + of_nat i) = unat p + i"
    using a bd assms(4,6) by (intro unat64_add_nat) simp
  have q: "unat (q + of_nat j) = unat q + j"
    using b bd assms(5,7) by (intro unat64_add_nat) simp
  show ?thesis
    by (rule disj_nat) (use p q a b ab bd assms(4-7) in auto)
qed

lemmas page_disj0 = page_disj [where i = 0 and j = 0, simplified]

lemma fl_path_cong:
  "\<forall>q \<in> set ps. load64 m' q = load64 m q \<Longrightarrow> fl_path m' p ps = fl_path m p ps"
  by (induction ps arbitrary: p) auto

lemma upd_mem_apply [simp]: "upd_mem f s = Ret () (s\<lparr>mem := f (mem s)\<rparr>)"
  by (simp add: upd_mem_def)

lemma wp_upd_mem [wps]:
  "wp (upd_mem f) Q s = Q () (s\<lparr>mem := f (mem s)\<rparr>)"
  "wlp (upd_mem f) Q s = Q () (s\<lparr>mem := f (mem s)\<rparr>)"
  by (simp_all add: wp_def wlp_def)

lemma kalloc_eq:
  "KmemLock \<notin> held s \<Longrightarrow> kalloc s =
     (if freelist s = 0 then Ret 0 s
      else Ret (freelist s) (s\<lparr>freelist := load64 (mem s) (freelist s),
        mem := memset (mem s) (freelist s) 5 4096\<rparr>))"
  by (simp add: kalloc_def run_simps)

lemma kfree_eq:
  "KmemLock \<notin> held s \<Longrightarrow> page (kend s) p \<Longrightarrow> kfree p s =
     Ret () (s\<lparr>freelist := p, mem := store64 (memset (mem s) p 1 4096) p (freelist s)\<rparr>)"
  by (auto simp: kfree_def run_simps page_def aligned_def)

lemma unat_4096 [simp]: "unat (4096 :: u32) = 4096"
  by simp

lemma load64_other_page:
  assumes "aligned p" and "aligned q" and "p \<noteq> q" and "i + 8 \<le> 4096"
  shows "load64 (memset m p c 4096) (q + of_nat i) = load64 m (q + of_nat i)"
    and "load64 (store64 m p v) (q + of_nat i) = load64 m (q + of_nat i)"
  using page_disj [OF assms(1-3), of 0 4096 i 8] page_disj [OF assms(1-3), of 0 8 i 8] assms(4)
  by (simp_all add: load64_memset_disj load64_store64_disj)

lemma load64_other_page0:
  assumes "aligned p" and "aligned q" and "p \<noteq> q"
  shows "load64 (memset m p c 4096) q = load64 m q" and "load64 (store64 m p v) q = load64 m q"
  using load64_other_page [OF assms, of 0] by simp_all

lemma free_pages_kalloc:
  assumes "free_pages s (p # ps)"
  shows "\<exists>t. kalloc s = Ret p t \<and> free_pages t ps \<and> p \<notin> set ps \<and> page (kend s) p \<and>
     t = s\<lparr>freelist := load64 (mem s) p, mem := memset (mem s) p 5 4096\<rparr>"
proof -
  let ?t = "s\<lparr>freelist := load64 (mem s) p, mem := memset (mem s) p 5 4096\<rparr>"
  have "fl_path (memset (mem s) p 5 4096) (load64 (mem s) p) ps = fl_path (mem s) (load64 (mem s) p) ps"
  proof (rule fl_path_cong, rule ballI)
    fix q
    assume "q \<in> set ps"
    then have "aligned p" "aligned q" "p \<noteq> q"
      using assms by (auto simp: free_pages_def page_def)
    then show "load64 (memset (mem s) p 5 4096) q = load64 (mem s) q"
      by (rule load64_other_page0)
  qed
  then show ?thesis
    using assms by (auto simp: free_pages_def kalloc_eq)
qed

lemma free_pages_kfree:
  assumes "free_pages s ps" and "page (kend s) p" and "p \<notin> set ps"
  shows "\<exists>t. kfree p s = Ret () t \<and> free_pages t (p # ps) \<and>
     t = s\<lparr>freelist := p, mem := store64 (memset (mem s) p 1 4096) p (freelist s)\<rparr>"
proof -
  let ?m = "store64 (memset (mem s) p 1 4096) p (freelist s)"
  have "fl_path ?m (freelist s) ps = fl_path (mem s) (freelist s) ps"
  proof (rule fl_path_cong, rule ballI)
    fix q
    assume "q \<in> set ps"
    then have "aligned p" "aligned q" "p \<noteq> q"
      using assms by (auto simp: free_pages_def page_def)
    then show "load64 ?m q = load64 (mem s) q"
      by (simp add: load64_other_page0)
  qed
  moreover have "p \<noteq> 0"
    using assms(1,2) by (auto simp: free_pages_def page_def)
  ultimately show ?thesis
    using assms by (auto simp: free_pages_def kfree_eq)
qed

lemma kalloc_empty: "free_pages s [] \<Longrightarrow> kalloc s = Ret 0 s"
  by (simp add: free_pages_def kalloc_eq)

lemma free_pages_pos: "free_pages s ps \<Longrightarrow> page (kend s) p \<Longrightarrow> p \<noteq> 0"
  by (auto simp: free_pages_def page_def)

lemma kalloc_kend: "free_pages s ps \<Longrightarrow> kalloc s = Ret p t \<Longrightarrow> kend t = kend s"
  by (auto simp: free_pages_def kalloc_eq split: if_splits)

interpretation kmem: page_allocator kalloc kfree 0 free_pages "\<lambda>s. page (kend s)"
proof
  fix s :: "'z kmem_st_scheme" and p ps
  assume "free_pages s (p # ps)"
  then show "\<exists>t. kalloc s = Ret p t \<and> free_pages t ps \<and> page (kend t) p \<and> p \<notin> set ps \<and> p \<noteq> 0"
    using free_pages_kalloc [of s p ps] free_pages_pos by fastforce
next
  fix s :: "'z kmem_st_scheme" and p ps
  assume "free_pages s ps" "page (kend s) p" "p \<notin> set ps"
  then show "\<exists>t. kfree p s = Ret () t \<and> free_pages t (p # ps)"
    using free_pages_kfree by blast
qed (auto simp: kalloc_empty dest: kalloc_kend)

text \<open>
  C12. The allocator is a stack of distinct free pages, for every pool of pages: the first
  \<open>length ps\<close> allocations return the pages of the free list in order, every further one returns
  0 and changes nothing; and a page that is freed is the next one allocated, and the rest of
  the pool survives the scribbling of both calls.
\<close>

theorem kalloc_stack:
  assumes "free_pages s ps"
  shows "(\<exists>t. collect (length ps + k) kalloc s = Ret (ps @ replicate k 0) t \<and> free_pages t []) \<and>
     distinct ps \<and>
     (\<forall>p. page (kend s) p \<and> p \<notin> set ps \<longrightarrow>
        (\<exists>t u. kfree p s = Ret () t \<and> kalloc t = Ret p u \<and> free_pages u ps))"
  using kmem.collect_exhausted [OF assms] kmem.alloc_distinct [OF assms] kmem.free_alloc [OF assms]
  by blast

definition demo_kmem :: kmem_st where
  "demo_kmem = kproc.extend (demo_kproc\<lparr>held := {}\<rparr>)
     \<lparr>mem = store64 (\<lambda>_. 0) 0x80001000 0x80002000, freelist = 0x80001000, kend = 0x80001000\<rparr>"

declare demo_kmem_def [demos] kproc.defs [demos]

lemma demo_kmem_pool: "free_pages demo_kmem [0x80001000, 0x80002000]"
proof -
  have "load64 (store64 (\<lambda>_. 0) 0x80001000 0x80002000) 0x80002000 = load64 (\<lambda>_. 0) 0x80002000"
    by (rule load64_store64_disj) (simp add: disj_def)
  also have "\<dots> = 0"
    using of_le_zeros [of 8] by (simp add: load64_def load_bytes_def map_replicate_const)
  finally show ?thesis
    by (simp add: free_pages_def demo_kmem_def demo_kproc_def page_def aligned_dvd PHYSTOP_def
        kproc.defs)
qed

lemma kalloc_stack_witness:
  "(\<exists>t. collect 3 kalloc demo_kmem = Ret [0x80001000, 0x80002000, 0] t) \<and>
   (\<exists>t u. kfree 0x80003000 demo_kmem = Ret () t \<and> kalloc t = Ret 0x80003000 u)"
proof -
  have "page (kend demo_kmem) 0x80003000"
    by (simp add: demo_kmem_def kproc.defs page_def aligned_dvd PHYSTOP_def)
  then show ?thesis
    using kalloc_stack [OF demo_kmem_pool, of 1] by (auto simp: numeral_3_eq_3)
qed

subsection \<open>The pool at the start\<close>

lemma PGROUNDUP_unat:
  assumes "unat a + 4095 < 2 ^ 64"
  shows "unat (PGROUNDUP a) = (unat a + 4095) div 4096 * 4096"
proof -
  have s: "a + PGSIZE - 1 = a + 4095" by (simp add: PGSIZE_def)
  have m: "PGSIZE - 1 = (mask 12 :: u64)" by (simp add: PGSIZE_def mask_eq_exp_minus_1)
  have "unat (a + 4095) = unat a + 4095" using assms by (subst unat_add_small) simp_all
  moreover have "PGROUNDUP a = (a + 4095) AND NOT (mask 12)" unfolding PGROUNDUP_def s m ..
  moreover have "unat (x AND NOT (mask 12)) = unat x div 4096 * 4096" for x :: u64
  proof -
    have x: "x AND NOT (mask 12) = push_bit 12 (drop_bit 12 x)"
      by (rule bit_word_eqI) (auto simp: bit_simps)
    have "unat x div 4096 * 4096 < 2 ^ 64" using unat64_less [of x] by simp
    then have "take_bit 64 (push_bit 12 (drop_bit 12 (unat x))) = unat x div 4096 * 4096"
      by (simp only: take_bit_eq_mod push_bit_eq_mult drop_bit_eq_div) simp
    then show ?thesis unfolding x unsigned_push_bit_eq unat_drop_bit_eq by simp
  qed
  ultimately show ?thesis by simp
qed

lemma round_up: "n \<le> (n + 4095) div 4096 * 4096" for n :: nat
  using div_mult_mod_eq [of "n + 4095" 4096] mod_less_divisor [of 4096 "n + 4095"] by linarith

lemma round_up_least: "n \<le> 4096 * k \<Longrightarrow> (n + 4095) div 4096 * 4096 \<le> 4096 * k" for n k :: nat
proof -
  assume "n \<le> 4096 * k"
  then have "(n + 4095) div 4096 \<le> (4096 * k + 4095) div 4096" by (intro div_le_mono) simp
  also have "\<dots> = k" by simp
  finally show ?thesis by simp
qed

lemma page_after:
  assumes "aligned p" and "p < PHYSTOP"
  shows "p + PGSIZE \<le> PHYSTOP" "unat (p + PGSIZE) = unat p + 4096" "aligned (p + PGSIZE)"
proof -
  obtain k where k: "unat p = 4096 * k" using assms(1) unfolding aligned_dvd by (rule dvdE)
  have top: "unat PHYSTOP = 4096 * 557056" by (simp add: PHYSTOP_def)
  have "unat p < unat PHYSTOP" using assms(2) by (simp add: word_less_nat_alt)
  with k top have "k < 557056" by simp
  then have le: "unat p + 4096 \<le> unat PHYSTOP" using k top by simp
  show u: "unat (p + PGSIZE) = unat p + 4096"
    using le top by (subst unat_add_small) (simp_all add: PGSIZE_def)
  show "p + PGSIZE \<le> PHYSTOP" using u le by (simp add: word_le_nat_alt)
  show "aligned (p + PGSIZE)" unfolding aligned_dvd u k by simp
qed

lemma kinit_loop_frees:
  "aligned p \<Longrightarrow> kend s \<le> p \<Longrightarrow> p \<le> PHYSTOP \<Longrightarrow> free_pages s ps \<Longrightarrow> set ps = {q. page (kend s) q \<and> q < p} \<Longrightarrow>
     \<exists>t qs. kinit_loop p s = Ret () t \<and> free_pages t qs \<and> set qs = {q. page (kend s) q} \<and> kend t = kend s"
proof (induction p arbitrary: s ps rule: kinit_loop.induct)
  case (1 p)
  show ?case
  proof (cases "p < PHYSTOP")
    case True
    note n = page_after [OF 1(2) True]
    have p: "page (kend s) p" "p \<notin> set ps" using 1 True by (auto simp: page_def)
    from free_pages_kfree [OF 1(5) p] obtain t where
      t: "kfree p s = Ret () t" "free_pages t (p # ps)" "kend t = kend s" by auto
    have "q < p + PGSIZE \<longleftrightarrow> q < p \<or> q = p" if "page (kend s) q" for q
    proof -
      obtain k where k: "unat p = 4096 * k" using 1(2) unfolding aligned_dvd by (rule dvdE)
      have "aligned q" using that by (simp add: page_def)
      then obtain j where j: "unat q = 4096 * j" unfolding aligned_dvd by (rule dvdE)
      show ?thesis unfolding word_less_nat_alt n(2) word_unat_eq_iff k j by auto
    qed
    moreover have "p < p + PGSIZE" by (simp add: word_less_nat_alt n(2))
    ultimately have "set (p # ps) = {q. page (kend t) q \<and> q < p + PGSIZE}"
      using 1(6) p(1) by (auto simp: t(3))
    moreover have "kend t \<le> p + PGSIZE" using 1(3) \<open>p < p + PGSIZE\<close> t(3) by simp
    ultimately obtain u qs where "kinit_loop (p + PGSIZE) t = Ret () u" "free_pages u qs" "set qs = {q. page (kend s) q}" "kend u = kend s"
      using 1(1) [OF n(1,3) _ n(1) t(2)] t(3) by auto
    moreover have "kinit_loop p s = kinit_loop (p + PGSIZE) t" using n(1) t(1) by (subst kinit_loop.simps) (simp add: thn_apply)
    ultimately show ?thesis by auto
  next
    case False
    with 1(4) have p: "p = PHYSTOP" by simp
    have "\<not> p + PGSIZE \<le> PHYSTOP" by (simp add: p PHYSTOP_def PGSIZE_def)
    moreover have "set ps = {q. page (kend s) q}" using 1(6) by (auto simp: p page_def)
    ultimately show ?thesis using 1(5) by (subst kinit_loop.simps) auto
  qed
qed

text \<open>
  C11. \<open>kinit\<close> gives the allocator the whole memory: it returns, and the free list then holds every page
  from the end of the kernel to the end of physical memory, each once.
\<close>

theorem kinit_frees_all:
  assumes "0 < kend s" and "kend s \<le> PHYSTOP" and "KmemLock \<notin> held s"
  shows "\<exists>t ps. kinit s = Ret () t \<and> free_pages t ps \<and> set ps = {p. page (kend s) p}"
proof -
  let ?p = "PGROUNDUP (kend s)" and ?s = "s\<lparr>freelist := 0\<rparr>"
  have top: "unat PHYSTOP = 4096 * 557056" by (simp add: PHYSTOP_def)
  then have e: "unat (kend s) \<le> 4096 * 557056" using assms(2) by (simp add: word_le_nat_alt)
  then have p: "unat ?p = (unat (kend s) + 4095) div 4096 * 4096" by (intro PGROUNDUP_unat) simp
  have "aligned ?p" unfolding aligned_dvd p by simp
  moreover have "kend s \<le> ?p" unfolding word_le_nat_alt p by (rule round_up)
  moreover have "?p \<le> PHYSTOP" unfolding word_le_nat_alt p top using e by (rule round_up_least)
  moreover have "free_pages ?s []" using assms by (simp add: free_pages_def)
  moreover have "\<not> (page (kend s) q \<and> q < ?p)" for q
  proof
    assume q: "page (kend s) q \<and> q < ?p"
    then have "aligned q" by (simp add: page_def)
    then obtain j where j: "unat q = 4096 * j" unfolding aligned_dvd by (rule dvdE)
    from q have "unat (kend s) \<le> unat q" "unat q < unat ?p" by (auto simp: page_def word_le_nat_alt word_less_nat_alt)
    then show False unfolding p j using round_up_least [of "unat (kend s)" j] by simp
  qed
  ultimately have "\<exists>t qs. kinit_loop ?p ?s = Ret () t \<and> free_pages t qs \<and> set qs = {q. page (kend ?s) q} \<and> kend t = kend ?s"
    by (intro kinit_loop_frees) auto
  then show ?thesis by (auto simp: kinit_def run_simps)
qed

lemma kinit_frees_all_witness:
  "\<exists>t ps. kinit demo_kmem = Ret () t \<and> free_pages t ps \<and> 0x80001000 \<in> set ps \<and> 0x87FFF000 \<in> set ps \<and> 0x88000000 \<notin> set ps"
proof -
  have k: "kend demo_kmem = 0x80001000" "KmemLock \<notin> held demo_kmem" by (simp_all add: demos)
  obtain t ps where t: "kinit demo_kmem = Ret () t" "free_pages t ps" "set ps = {p. page 0x80001000 p}"
    using kinit_frees_all [of demo_kmem] k by (auto simp: PHYSTOP_def)
  have "page 0x80001000 0x80001000" "page 0x80001000 0x87FFF000" "\<not> page 0x80001000 0x88000000"
    by (simp_all add: page_def aligned_dvd PHYSTOP_def)
  with t show ?thesis by auto
qed

end
