(* ===== verification/Vm.thy ===== *)
theory Vm
  imports Kalloc
begin

section \<open>Page tables and user memory: \<^verbatim>\<open>kernel/core/vm.c\<close>\<close>

text \<open>
  Sv39 page tables live in the pages the allocator hands out; a page-table entry is the
  64-bit word in memory at \<open>pagetable + 8 * index\<close>. The functions of \<^verbatim>\<open>vm.c\<close> follow in the
  order of the file, then the copies between kernel and user memory. A pointer to a PTE that
  may be null is an option; a kernel buffer that is copied to or from is a list of bytes,
  which no page of user memory overlaps.
\<close>

definition PTE_V :: u64 where "PTE_V = 1"
definition PTE_R :: u64 where "PTE_R = 2"
definition PTE_W :: u64 where "PTE_W = 4"
definition PTE_X :: u64 where "PTE_X = 8"
definition PTE_U :: u64 where "PTE_U = 16"

definition PA2PTE :: "u64 \<Rightarrow> u64" where
  "PA2PTE pa = push_bit 10 (drop_bit 12 pa)"

definition PTE2PA :: "u64 \<Rightarrow> u64" where
  "PTE2PA pte = push_bit 12 (drop_bit 10 pte)"

definition PTE_FLAGS :: "u64 \<Rightarrow> u64" where
  "PTE_FLAGS pte = pte AND 0x3FF"

definition PX :: "nat \<Rightarrow> u64 \<Rightarrow> u64" where
  "PX level va = drop_bit (12 + 9 * level) va AND 0x1FF"

definition MAXVA :: u64 where "MAXVA = push_bit (9 + 9 + 9 + 12 - 1) 1"

definition TRAMPOLINE :: u64 where "TRAMPOLINE = MAXVA - PGSIZE"

definition TRAPFRAME :: u64 where "TRAPFRAME = TRAMPOLINE - PGSIZE"

definition MAKE_SATP :: "u64 \<Rightarrow> u64" where
  "MAKE_SATP pt = push_bit 60 8 OR drop_bit 12 pt"

definition UART0 :: u64 where "UART0 = 0x10000000"
definition VIRTIO0 :: u64 where "VIRTIO0 = 0x10001000"
definition PLIC :: u64 where "PLIC = 0x0c000000"
definition KERNBASE :: u64 where "KERNBASE = 0x80000000"

record vm_st = kmem_st +
  kernel_pagetable :: u64
  etext :: u64
  trampoline :: u64
  satp :: u64

abbreviation load :: "u64 \<Rightarrow> ('z kmem_st_scheme, u64) kern" where
  "load a \<equiv> gets (\<lambda>s. load64 (mem s) a)"

abbreviation store :: "u64 \<Rightarrow> u64 \<Rightarrow> ('z kmem_st_scheme, unit) kern" where
  "store a v \<equiv> upd_mem (\<lambda>m. store64 m a v)"

subsection \<open>Walking and mapping\<close>

text \<open>\<open>walk\<close> below the given level: the levels count down to 0.\<close>

fun walk_levels :: "nat \<Rightarrow> u64 \<Rightarrow> u64 \<Rightarrow> bool \<Rightarrow> ('z kmem_st_scheme, u64 option) kern" where
  "walk_levels 0 pt va alloc = ret (Some (pt + 8 * PX 0 va))"
| "walk_levels (Suc l) pt va alloc =
     (let slot = pt + 8 * PX (Suc l) va in
     bnd (load slot) (\<lambda>pte.
     if pte AND PTE_V \<noteq> 0 then walk_levels l (PTE2PA pte) va alloc
     else if \<not> alloc then ret None
     else
       bnd kalloc (\<lambda>newpt.
       if newpt = 0 then ret None
       else
         thn (upd_mem (\<lambda>m. memset m newpt 0 4096))
         (thn (store slot (PA2PTE newpt OR PTE_V))
         (walk_levels l newpt va alloc)))))"

definition walk :: "u64 \<Rightarrow> u64 \<Rightarrow> bool \<Rightarrow> ('z kmem_st_scheme, u64 option) kern" where
  "walk pt va alloc = (if MAXVA \<le> va then panic ''walk'' else walk_levels 2 pt va alloc)"

definition walkaddr :: "u64 \<Rightarrow> u64 \<Rightarrow> ('z kmem_st_scheme, u64) kern" where
  "walkaddr pt va =
     (if MAXVA \<le> va then ret 0
      else
        bnd (walk pt va False) (\<lambda>r. case r of None \<Rightarrow> ret 0 | Some slot \<Rightarrow>
        bnd (load slot) (\<lambda>pte.
        if pte AND PTE_V = 0 then ret 0
        else if pte AND PTE_U = 0 then ret 0
        else ret (PTE2PA pte))))"

text \<open>
  The loop of \<open>mappages\<close> ends when \<open>a\<close> reaches \<open>last\<close>. The first argument is fuel; the loop
  runs \<open>size / PGSIZE\<close> times, so that much is enough (\<open>mappages_fuel\<close>).
\<close>

fun mappages_loop :: "nat \<Rightarrow> u64 \<Rightarrow> u64 \<Rightarrow> u64 \<Rightarrow> u64 \<Rightarrow> u64 \<Rightarrow> ('z kmem_st_scheme, int) kern" where
  "mappages_loop 0 pt a final pa perm = panic ''mappages: fuel''"
| "mappages_loop (Suc n) pt a final pa perm =
     bnd (walk pt a True) (\<lambda>r. case r of None \<Rightarrow> ret (-1) | Some slot \<Rightarrow>
     bnd (load slot) (\<lambda>pte.
     if pte AND PTE_V \<noteq> 0 then panic ''mappages: remap''
     else
       thn (store slot (PA2PTE pa OR perm OR PTE_V))
       (if a = final then ret 0
        else mappages_loop n pt (a + PGSIZE) final (pa + PGSIZE) perm)))"

definition mappages :: "u64 \<Rightarrow> u64 \<Rightarrow> u64 \<Rightarrow> u64 \<Rightarrow> u64 \<Rightarrow> ('z kmem_st_scheme, int) kern" where
  "mappages pt va len pa perm =
     (if va mod PGSIZE \<noteq> 0 then panic ''mappages: va not aligned''
      else if len mod PGSIZE \<noteq> 0 then panic ''mappages: size not aligned''
      else if len = 0 then panic ''mappages: size''
      else mappages_loop (unat len div 4096) pt va (va + len - PGSIZE) pa perm)"

definition kvmmap :: "u64 \<Rightarrow> u64 \<Rightarrow> u64 \<Rightarrow> u64 \<Rightarrow> u64 \<Rightarrow> ('z kmem_st_scheme, unit) kern" where
  "kvmmap pt va pa len perm =
     (if va mod PGSIZE \<noteq> 0 \<or> pa mod PGSIZE \<noteq> 0 \<or> len mod PGSIZE \<noteq> 0
      then panic ''kvmmap: not aligned''
      else
        bnd (mappages pt va len pa perm) (\<lambda>r.
        if r \<noteq> 0 then panic ''kvmmap: mappages'' else ret ()))"

definition kvmmake :: "('z vm_st_scheme, u64) kern" where
  "kvmmake =
     bnd kalloc (\<lambda>pt.
     if pt = 0 then panic ''kvmmake: kalloc''
     else
       thn (upd_mem (\<lambda>m. memset m pt 0 4096))
       (bnd (gets etext) (\<lambda>et.
       bnd (gets trampoline) (\<lambda>tr.
       thn (kvmmap pt UART0 UART0 PGSIZE (PTE_R OR PTE_W))
       (thn (kvmmap pt PLIC PLIC 0x4000000 (PTE_R OR PTE_W))
       (thn (kvmmap pt VIRTIO0 VIRTIO0 PGSIZE (PTE_R OR PTE_W))
       (thn (kvmmap pt KERNBASE KERNBASE (et - KERNBASE) (PTE_R OR PTE_X))
       (thn (kvmmap pt et et (PHYSTOP - et) (PTE_R OR PTE_W))
       (thn (kvmmap pt TRAMPOLINE tr PGSIZE (PTE_R OR PTE_X))
       (ret pt))))))))))"

definition kvminit :: "('z vm_st_scheme, unit) kern" where
  "kvminit = bnd kvmmake (\<lambda>pt. modify (\<lambda>s. s\<lparr>kernel_pagetable := pt\<rparr>))"

definition kvminithart :: "('z vm_st_scheme, unit) kern" where
  "kvminithart = modify (\<lambda>s. s\<lparr>satp := MAKE_SATP (kernel_pagetable s)\<rparr>)"

subsection \<open>User address spaces\<close>

text \<open>
  The iterations of \<open>for (a = va; a < e; a += PGSIZE)\<close>, which \<open>page_range_step\<close> unrolls. The
  bodies panic in \<open>walk\<close> on addresses from \<open>MAXVA\<close> on, long before \<open>a\<close> could wrap around.
\<close>

definition page_range :: "u64 \<Rightarrow> u64 \<Rightarrow> u64 list" where
  "page_range a e = map (\<lambda>i. a + of_nat (4096 * i)) [0..<(unat e - unat a + 4095) div 4096]"

definition uvmcreate :: "('z kmem_st_scheme, u64) kern" where
  "uvmcreate =
     bnd kalloc (\<lambda>pt.
     if pt = 0 then ret 0
     else thn (upd_mem (\<lambda>m. memset m pt 0 4096)) (ret pt))"

definition uvmunmap :: "u64 \<Rightarrow> u64 \<Rightarrow> u64 \<Rightarrow> bool \<Rightarrow> ('z kmem_st_scheme, unit) kern" where
  "uvmunmap pt va npages do_free =
     (if va mod PGSIZE \<noteq> 0 then panic ''uvmunmap: not aligned''
      else for_each (page_range va (va + npages * PGSIZE)) (\<lambda>a.
        bnd (walk pt a False) (\<lambda>r. case r of None \<Rightarrow> ret () | Some slot \<Rightarrow>
        bnd (load slot) (\<lambda>pte.
        if pte AND PTE_V = 0 then ret ()
        else
          thn (whenk do_free (kfree (PTE2PA pte)))
          (store slot 0)))))"

definition uvmdealloc :: "u64 \<Rightarrow> u64 \<Rightarrow> u64 \<Rightarrow> ('z kmem_st_scheme, u64) kern" where
  "uvmdealloc pt oldsz newsz =
     (if oldsz \<le> newsz then ret oldsz
      else
        thn (whenk (PGROUNDUP newsz < PGROUNDUP oldsz)
              (uvmunmap pt (PGROUNDUP newsz) ((PGROUNDUP oldsz - PGROUNDUP newsz) div PGSIZE) True))
        (ret newsz))"

definition uvmalloc :: "u64 \<Rightarrow> u64 \<Rightarrow> u64 \<Rightarrow> u64 \<Rightarrow> ('z kmem_st_scheme, u64) kern" where
  "uvmalloc pt oldsz newsz xperm =
     (if newsz < oldsz then ret oldsz
      else
        bnd (search (page_range (PGROUNDUP oldsz) newsz) (\<lambda>a.
          bnd kalloc (\<lambda>pa.
          if pa = 0 then thn (uvmdealloc pt a oldsz) (ret (Some 0))
          else
            thn (upd_mem (\<lambda>m. memset m pa 0 4096))
            (bnd (mappages pt a PGSIZE pa (PTE_R OR PTE_U OR xperm)) (\<lambda>r.
            if r \<noteq> 0 then
              thn (kfree pa)
              (thn (uvmdealloc pt a oldsz)
              (ret (Some 0)))
            else ret None)))))
        (\<lambda>r. case r of Some v \<Rightarrow> ret v | None \<Rightarrow> ret newsz))"

text \<open>
  \<open>freewalk\<close> recurses to the child tables; the first argument bounds the depth of the
  recursion. A table of the kernel has three levels.
\<close>

fun freewalk :: "nat \<Rightarrow> u64 \<Rightarrow> ('z kmem_st_scheme, unit) kern" where
  "freewalk 0 pt = panic ''freewalk: depth''"
| "freewalk (Suc d) pt =
     thn (for_each [0..<512] (\<lambda>i.
       let slot = pt + 8 * of_nat i in
       bnd (load slot) (\<lambda>pte.
       if pte AND PTE_V \<noteq> 0 \<and> pte AND (PTE_R OR PTE_W OR PTE_X) = 0 then
         thn (freewalk d (PTE2PA pte))
         (store slot 0)
       else if pte AND PTE_V \<noteq> 0 then panic ''freewalk: leaf''
       else ret ())))
     (kfree pt)"

definition TABLE_DEPTH :: nat where "TABLE_DEPTH = 64"

definition uvmfree :: "u64 \<Rightarrow> u64 \<Rightarrow> ('z kmem_st_scheme, unit) kern" where
  "uvmfree pt len =
     thn (whenk (0 < len) (uvmunmap pt 0 (PGROUNDUP len div PGSIZE) True))
     (freewalk TABLE_DEPTH pt)"

definition uvmcopy :: "u64 \<Rightarrow> u64 \<Rightarrow> u64 \<Rightarrow> ('z kmem_st_scheme, int) kern" where
  "uvmcopy old new len =
     bnd (search (page_range 0 len) (\<lambda>i.
       bnd (walk old i False) (\<lambda>r. case r of None \<Rightarrow> ret None | Some slot \<Rightarrow>
       bnd (load slot) (\<lambda>pte.
       if pte AND PTE_V = 0 then ret None
       else
         bnd kalloc (\<lambda>pa.
         if pa = 0 then ret (Some ())
         else
           thn (upd_mem (\<lambda>m. memmove m pa (PTE2PA pte) 4096))
           (bnd (mappages new i PGSIZE pa (PTE_FLAGS pte)) (\<lambda>q.
           if q \<noteq> 0 then thn (kfree pa) (ret (Some ()))
           else ret None)))))))
     (\<lambda>err. case err of
        None \<Rightarrow> ret 0
      | Some _ \<Rightarrow> thn (uvmunmap new 0 (PGROUNDUP len div PGSIZE) True) (ret (-1)))"

definition uvmclear :: "u64 \<Rightarrow> u64 \<Rightarrow> ('z kmem_st_scheme, unit) kern" where
  "uvmclear pt va =
     bnd (walk pt va False) (\<lambda>r. case r of None \<Rightarrow> panic ''uvmclear'' | Some slot \<Rightarrow>
     bnd (load slot) (\<lambda>pte. store slot (pte AND NOT PTE_U)))"

subsection \<open>Copies between kernel and user memory\<close>

text \<open>Offset of an address in its page, and the bytes left in the page or in the request.\<close>

definition page_off :: "u64 \<Rightarrow> nat" where
  "page_off a = unat (a - PGROUNDDOWN a)"

definition chunk :: "u64 \<Rightarrow> nat \<Rightarrow> nat" where
  "chunk a len = min (4096 - page_off a) len"

lemma PGROUNDDOWN_eq: "PGROUNDDOWN a = push_bit 12 (drop_bit 12 a)"
proof -
  have "PGSIZE - 1 = (mask 12 :: u64)" by (simp add: PGSIZE_def mask_numeral)
  then show ?thesis
    unfolding PGROUNDDOWN_def by (auto simp: bit_eq_iff bit_simps)
qed

lemma PGROUNDDOWN_plus: "PGROUNDDOWN a + take_bit 12 a = a"
  unfolding PGROUNDDOWN_eq by (rule bits_ident)

lemma page_off_eq: "page_off a = unat a mod 4096"
proof -
  have "a - PGROUNDDOWN a = take_bit 12 a"
    using PGROUNDDOWN_plus [of a] by (simp add: algebra_simps)
  then have "page_off a = take_bit 12 (unat a)"
    by (simp add: page_off_def unsigned_take_bit_eq)
  then show ?thesis by (simp add: take_bit_eq_mod)
qed

lemma page_off_less [simp]: "page_off a < 4096"
  by (simp add: page_off_eq)

lemma chunk_pos: "0 < len \<Longrightarrow> 0 < chunk a len"
  using page_off_less [of a] by (simp add: chunk_def)

function copyout :: "u64 \<Rightarrow> u64 \<Rightarrow> u8 list \<Rightarrow> ('z kmem_st_scheme, int) kern" where
  "copyout pt dstva src =
     (if src = [] then ret 0
      else
        let va0 = PGROUNDDOWN dstva; n = chunk dstva (length src) in
        if MAXVA \<le> va0 then ret (-1)
        else
          bnd (walkaddr pt va0) (\<lambda>pa0.
          if pa0 = 0 then ret (-1)
          else
            bnd (walk pt va0 False) (\<lambda>r. case r of None \<Rightarrow> ret (-1) | Some slot \<Rightarrow>
            bnd (load slot) (\<lambda>pte.
            if pte AND PTE_W = 0 then ret (-1)
            else
              thn (upd_mem (\<lambda>m. store_bytes m (pa0 + of_nat (page_off dstva)) (take n src)))
              (copyout pt (va0 + PGSIZE) (drop n src))))))"
  by pat_completeness auto
termination
  by (relation "measure (\<lambda>(pt, d, src). length src)") (auto simp: chunk_pos)

declare copyout.simps [simp del]

text \<open>\<open>copyin\<close> yields the bytes it delivers, or \<open>None\<close> where the code returns -1.\<close>

function copyin :: "u64 \<Rightarrow> u64 \<Rightarrow> nat \<Rightarrow> ('z kmem_st_scheme, u8 list option) kern" where
  "copyin pt srcva len =
     (if len = 0 then ret (Some [])
      else
        let va0 = PGROUNDDOWN srcva; n = chunk srcva len in
        bnd (walkaddr pt va0) (\<lambda>pa0.
        if pa0 = 0 then ret None
        else
          bnd (gets (\<lambda>s. load_bytes (mem s) (pa0 + of_nat (page_off srcva)) n)) (\<lambda>bs.
          bnd (copyin pt (va0 + PGSIZE) (len - n)) (\<lambda>r.
          ret (map_option (\<lambda>cs. bs @ cs) r)))))"
  by pat_completeness auto
termination
  by (relation "measure (\<lambda>(pt, d, len). len)") (auto simp: chunk_pos)

declare copyin.simps [simp del]

text \<open>
  \<open>copyinstr\<close> yields the string before the terminating zero. Its inner loop copies the bytes
  of the page up to the first zero, the end of the page or the end of the buffer.
\<close>

function copyinstr :: "u64 \<Rightarrow> u64 \<Rightarrow> nat \<Rightarrow> ('z kmem_st_scheme, u8 list option) kern" where
  "copyinstr pt srcva limit =
     (if limit = 0 then ret None
      else
        let va0 = PGROUNDDOWN srcva; n = chunk srcva limit in
        bnd (walkaddr pt va0) (\<lambda>pa0.
        if pa0 = 0 then ret None
        else
          bnd (gets (\<lambda>s. load_bytes (mem s) (pa0 + of_nat (page_off srcva)) n)) (\<lambda>bs.
          if 0 \<in> set bs then ret (Some (takeWhile (\<lambda>b. b \<noteq> 0) bs))
          else
            bnd (copyinstr pt (va0 + PGSIZE) (limit - n)) (\<lambda>r.
            ret (map_option (\<lambda>cs. bs @ cs) r)))))"
  by pat_completeness auto
termination
  by (relation "measure (\<lambda>(pt, d, limit). limit)") (auto simp: chunk_pos)

declare copyinstr.simps [simp del]

end
