(* ===== verification/Sleeplock.thy ===== *)
theory Sleeplock
  imports Vm
begin

section \<open>Sleep locks: \<^verbatim>\<open>kernel/core/sleeplock.c\<close>\<close>

text \<open>
  A sleep lock is owned by a process (by pid) or, before the first process runs, by a hart.
  Its own spin lock is \<open>SleepLock l\<close>. A contended \<open>acquiresleep\<close> puts the caller to sleep on
  \<open>ChSleep l\<close>; the loop it then continues is \<open>acquiresleep_resume\<close>.
\<close>

record sleeplock =
  sl_locked :: u32
  owner_pid :: int
  owner_cpu :: int

record sleep_st = vm_st +
  slocks :: "slid \<Rightarrow> sleeplock"

definition initsleeplock :: sleeplock where
  "initsleeplock = \<lparr>sl_locked = 0, owner_pid = 0, owner_cpu = -1\<rparr>"

definition set_slock :: "slid \<Rightarrow> sleeplock \<Rightarrow> ('z sleep_st_scheme, unit) kern" where
  "set_slock l k = modify (\<lambda>s. s\<lparr>slocks := (slocks s)(l := k)\<rparr>)"

definition sl_holding_locked :: "slid \<Rightarrow> ('z sleep_st_scheme, bool) kern" where
  "sl_holding_locked l =
     bnd (gets (\<lambda>s. slocks s l)) (\<lambda>k.
     if sl_locked k = 0 then ret False
     else
       bnd myproc (\<lambda>me. case me of
         Some p \<Rightarrow> bnd (get_proc p pid) (\<lambda>n. ret (owner_pid k = n))
       | None \<Rightarrow> bnd (gets hart) (\<lambda>c. ret (owner_pid k = -1 \<and> owner_cpu k = c))))"

definition acquiresleep_loop :: "slid \<Rightarrow> ('z sleep_st_scheme, unit) kern" where
  "acquiresleep_loop l =
     bnd (gets (\<lambda>s. sl_locked (slocks s l))) (\<lambda>k.
     if k \<noteq> 0 then sleep (ChSleep l) (SleepLock l)
     else
       bnd myproc (\<lambda>me. case me of
         Some p \<Rightarrow>
           bnd (get_proc p pid) (\<lambda>n.
           thn (set_slock l \<lparr>sl_locked = 1, owner_pid = n, owner_cpu = -1\<rparr>)
           (release (SleepLock l)))
       | None \<Rightarrow>
           bnd (gets hart) (\<lambda>c.
           thn (set_slock l \<lparr>sl_locked = 1, owner_pid = -1, owner_cpu = c\<rparr>)
           (release (SleepLock l)))))"

definition acquiresleep :: "slid \<Rightarrow> ('z sleep_st_scheme, unit) kern" where
  "acquiresleep l = thn (acquire (SleepLock l)) (acquiresleep_loop l)"

definition acquiresleep_resume :: "slid \<Rightarrow> ('z sleep_st_scheme, unit) kern" where
  "acquiresleep_resume l = thn (sleep_resume (SleepLock l)) (acquiresleep_loop l)"

definition releasesleep :: "slid \<Rightarrow> ('z sleep_st_scheme, unit) kern" where
  "releasesleep l =
     thn (acquire (SleepLock l))
     (bnd (sl_holding_locked l) (\<lambda>mine.
     if \<not> mine then panic ''releasesleep''
     else
       thn (set_slock l initsleeplock)
       (thn (wakeup (ChSleep l))
       (release (SleepLock l)))))"

definition holdingsleep :: "slid \<Rightarrow> ('z sleep_st_scheme, bool) kern" where
  "holdingsleep l =
     thn (acquire (SleepLock l))
     (bnd (sl_holding_locked l) (\<lambda>r.
     thn (release (SleepLock l))
     (ret r)))"

subsection \<open>Ownership\<close>

text \<open>What the caller leaves in a lock it takes, and whether a lock is the caller's.\<close>

definition my_token :: "'z sleep_st_scheme \<Rightarrow> sleeplock" where
  "my_token s = (case cur s of
     Some p \<Rightarrow> \<lparr>sl_locked = 1, owner_pid = pid (procs s ! p), owner_cpu = -1\<rparr>
   | None \<Rightarrow> \<lparr>sl_locked = 1, owner_pid = -1, owner_cpu = hart s\<rparr>)"

definition owns :: "'z sleep_st_scheme \<Rightarrow> slid \<Rightarrow> bool" where
  "owns s l \<longleftrightarrow> sl_locked (slocks s l) \<noteq> 0 \<and> (case cur s of
     Some p \<Rightarrow> owner_pid (slocks s l) = pid (procs s ! p)
   | None \<Rightarrow> owner_pid (slocks s l) = -1 \<and> owner_cpu (slocks s l) = hart s)"

lemma set_slock_apply [simp]: "set_slock l k s = Ret () (s\<lparr>slocks := (slocks s)(l := k)\<rparr>)"
  by (simp add: set_slock_def)

lemma sl_holding_locked_eq [simp]: "sl_holding_locked l s = Ret (owns s l) s"
  by (auto simp: sl_holding_locked_def owns_def run_simps split: option.splits)

lemma owns_held [simp]: "owns (s\<lparr>held := H\<rparr>) l = owns s l"
  by (simp add: owns_def split: option.splits)

lemma owns_token: "slocks s l = my_token s \<Longrightarrow> owns s l"
  by (simp add: owns_def my_token_def split: option.splits)

lemma my_token_locked [simp]: "sl_locked (my_token s) = 1"
  by (simp add: my_token_def split: option.splits)

lemma initsleeplock_free [simp]: "sl_locked initsleeplock = 0"
  by (simp add: initsleeplock_def)

lemma acquiresleep_loop_free:
  assumes "sl_locked (slocks s l) = 0" and "SleepLock l \<in> held s"
  shows "acquiresleep_loop l s =
     Ret () (s\<lparr>held := held s - {SleepLock l}, slocks := (slocks s)(l := my_token s)\<rparr>)"
  using assms by (cases "cur s") (simp_all add: acquiresleep_loop_def run_simps my_token_def)

lemma acquiresleep_free:
  assumes "sl_locked (slocks s l) = 0" and "SleepLock l \<notin> held s"
  shows "acquiresleep l s = Ret () (s\<lparr>slocks := (slocks s)(l := my_token s)\<rparr>)"
proof -
  have "my_token (s\<lparr>held := H\<rparr>) = my_token s" for H by (simp add: my_token_def split: option.splits)
  with assms show ?thesis by (simp add: acquiresleep_def run_simps acquiresleep_loop_free)
qed

lemma acquiresleep_busy:
  assumes "sl_locked (slocks s l) \<noteq> 0" and "cur s = Some p" and "p < length (procs s)" and "held s = {}"
  shows "acquiresleep l s = Sleeps (ChSleep l) (s\<lparr>cur := None,
     procs := (procs s)[p := (procs s ! p)\<lparr>chan := Some (ChSleep l), pstate := SLEEPING\<rparr>]\<rparr>)"
proof -
  have "sleep (ChSleep l) (SleepLock l) (s\<lparr>held := {SleepLock l}\<rparr>) =
     (Sleeps (ChSleep l) (s\<lparr>held := {}, cur := None,
     procs := (procs s)[p := (procs s ! p)\<lparr>chan := Some (ChSleep l), pstate := SLEEPING\<rparr>]\<rparr>) :: (unit, _) outcome)"
    by (subst sleep_eq) (use assms in simp_all)
  with assms show ?thesis by (simp add: acquiresleep_def acquiresleep_loop_def run_simps)
qed

lemma releasesleep_mine:
  assumes "owns s l" and "SleepLock l \<notin> held s" and "length (procs s) = NPROC" and "no_proc_lock (held s)"
  shows "releasesleep l s = Ret () (s\<lparr>slocks := (slocks s)(l := initsleeplock),
     procs := map (wakeup_proc (ChSleep l)) (procs s)\<rparr>)"
  using assms by (simp add: releasesleep_def run_simps wakeup_eq)

lemma releasesleep_other:
  "\<not> owns s l \<Longrightarrow> SleepLock l \<notin> held s \<Longrightarrow> releasesleep l s = Panic ''releasesleep''"
  by (simp add: releasesleep_def run_simps)

lemma holdingsleep_eq: "SleepLock l \<notin> held s \<Longrightarrow> holdingsleep l s = Ret (owns s l) s"
  by (simp add: holdingsleep_def run_simps)

text \<open>
  A sleep lock has one owner: a process that acquires a free lock owns it, one that finds it
  taken sleeps on it and does not touch it, only the owner can release it (anyone else's
  release panics) and the release frees the lock and wakes the waiters; \<open>holdingsleep\<close> tells
  whether the caller is the owner. No operation keeps a spin lock.
\<close>

theorem sleeplock_ownership:
  assumes "cur s = Some p" and "length (procs s) = NPROC" and "p < NPROC" and "held s = {}"
  shows "(if sl_locked (slocks s l) = 0
      then \<exists>t. acquiresleep l s = Ret () t \<and> owns t l \<and> held t = {} \<and> (\<forall>k. k = l \<or> slocks t k = slocks s k)
      else \<exists>t. acquiresleep l s = Sleeps (ChSleep l) t \<and> slocks t = slocks s \<and> held t = {} \<and>
        pstate (procs t ! p) = SLEEPING \<and> chan (procs t ! p) = Some (ChSleep l)) \<and>
    (if owns s l
      then \<exists>t. releasesleep l s = Ret () t \<and> sl_locked (slocks t l) = 0 \<and> held t = {} \<and>
        procs t = map (wakeup_proc (ChSleep l)) (procs s) \<and> (\<forall>k. k = l \<or> slocks t k = slocks s k)
      else releasesleep l s = Panic ''releasesleep'') \<and>
    holdingsleep l s = Ret (owns s l) s"
proof (intro conjI)
  show "if sl_locked (slocks s l) = 0
      then \<exists>t. acquiresleep l s = Ret () t \<and> owns t l \<and> held t = {} \<and> (\<forall>k. k = l \<or> slocks t k = slocks s k)
      else \<exists>t. acquiresleep l s = Sleeps (ChSleep l) t \<and> slocks t = slocks s \<and> held t = {} \<and>
        pstate (procs t ! p) = SLEEPING \<and> chan (procs t ! p) = Some (ChSleep l)"
    using assms by (auto simp: acquiresleep_free acquiresleep_busy my_token_def owns_def)
  show "if owns s l
      then \<exists>t. releasesleep l s = Ret () t \<and> sl_locked (slocks t l) = 0 \<and> held t = {} \<and>
        procs t = map (wakeup_proc (ChSleep l)) (procs s) \<and> (\<forall>k. k = l \<or> slocks t k = slocks s k)
      else releasesleep l s = Panic ''releasesleep''"
    using assms by (auto simp: releasesleep_mine releasesleep_other)
  show "holdingsleep l s = Ret (owns s l) s" using assms by (simp add: holdingsleep_eq)
qed

text \<open>
  C24. Handing a sleep lock over: when the owner releases a lock a process sleeps for, the
  scheduler runs the sleeper, and the sleeper, going round its loop, comes back from
  \<open>acquiresleep\<close> as the owner.
\<close>

theorem sleeplock_handoff:
  assumes "cur s = Some p" and "length (procs s) = NPROC" and "held s = {}" and "owns s l" and "q < NPROC"
    and "pstate (procs s ! q) = SLEEPING" and "chan (procs s ! q) = Some (ChSleep l)"
  shows "\<exists>t u v. releasesleep l s = Ret () t \<and> scheduler_visit q t = Ret True u \<and>
     acquiresleep_resume l u = Ret () v \<and> cur v = Some q \<and> owns v l \<and> held v = {}"
proof -
  let ?t = "s\<lparr>slocks := (slocks s)(l := initsleeplock), procs := map (wakeup_proc (ChSleep l)) (procs s)\<rparr>"
  have t: "releasesleep l s = Ret () ?t"
    by (rule releasesleep_mine) (use assms in simp_all)
  have run: "procs ?t ! q = (procs s ! q)\<lparr>pstate := RUNNABLE\<rparr>"
    using assms by (simp add: wakeup_proc_def)
  let ?u = "?t\<lparr>held := {ProcLock q}, cur := Some q, procs := (procs ?t)[q := (procs s ! q)\<lparr>pstate := RUNNING\<rparr>]\<rparr>"
  have u: "scheduler_visit q ?t = Ret True ?u"
    using run assms by (subst scheduler_visit_eq) simp_all
  let ?v = "?u\<lparr>held := {SleepLock l}, procs := (procs ?u)[q := (procs ?u ! q)\<lparr>chan := None\<rparr>]\<rparr>"
  have "sleep_resume (SleepLock l) ?u = Ret () ?v"
    using assms by (subst sleep_resume_eq [of _ q]) simp_all
  then have "acquiresleep_resume l ?u = acquiresleep_loop l ?v"
    by (simp add: acquiresleep_resume_def run_simps)
  also have "\<dots> = Ret () (?v\<lparr>held := {}, slocks := (slocks ?v)(l := my_token ?v)\<rparr>)"
    by (subst acquiresleep_loop_free) simp_all
  finally have v: "acquiresleep_resume l ?u = Ret () (?v\<lparr>held := {}, slocks := (slocks ?v)(l := my_token ?v)\<rparr>)" .
  have "owns (?v\<lparr>held := {}, slocks := (slocks ?v)(l := my_token ?v)\<rparr>) l"
    by (simp add: owns_def my_token_def)
  with t u v show ?thesis by fastforce
qed

text \<open>A state to start examples from.\<close>

definition demo_sleep :: sleep_st where
  "demo_sleep = vm_st.extend (kmem_st.extend demo_kmem (vm_st.fields 0x80003000 0x80000000 0x80000000 0))
     (sleep_st.fields (\<lambda>_. initsleeplock))"

declare demo_sleep_def [demos] kmem_st.defs [demos] vm_st.defs [demos] sleep_st.defs [demos]

lemma sleeplock_ownership_witness:
  "\<exists>t. acquiresleep (InodeLock 0) demo_sleep = Ret () t \<and> owns t (InodeLock 0) \<and>
     releasesleep (InodeLock 0) demo_sleep = Panic ''releasesleep''"
proof -
  have h: "cur demo_sleep = Some 1" "length (procs demo_sleep) = NPROC" "1 < NPROC" "held demo_sleep = {}"
    by (simp_all add: demos NPROC_def)
  have "sl_locked (slocks demo_sleep (InodeLock 0)) = 0" by (simp add: demos)
  then show ?thesis
    using sleeplock_ownership [OF h, of "InodeLock 0"] by (auto simp: owns_def)
qed

lemma sleeplock_handoff_witness:
  "\<exists>s t u v. releasesleep (InodeLock 0) (s :: sleep_st) = Ret () t \<and> scheduler_visit 2 t = Ret True u \<and>
     acquiresleep_resume (InodeLock 0) u = Ret () v \<and> cur v = Some 2 \<and> owns v (InodeLock 0)"
proof -
  let ?s = "demo_sleep\<lparr>slocks := (\<lambda>_. \<lparr>sl_locked = 1, owner_pid = 1, owner_cpu = -1\<rparr>),
    procs := (procs demo_sleep)[2 := idle_proc\<lparr>pid := 2, pstate := SLEEPING, chan := Some (ChSleep (InodeLock 0))\<rparr>]\<rparr>"
  have h: "cur ?s = Some 1" "length (procs ?s) = NPROC" "held ?s = {}" "owns ?s (InodeLock 0)" "2 < NPROC"
    "pstate (procs ?s ! 2) = SLEEPING" "chan (procs ?s ! 2) = Some (ChSleep (InodeLock 0))"
    by (simp_all add: demos NPROC_def owns_def)
  show ?thesis using sleeplock_handoff [OF h] by blast
qed

end
