(* ===== verification/Bio.thy ===== *)
theory Bio
  imports Sleeplock
begin

section \<open>The buffer cache: \<^verbatim>\<open>kernel/core/bio.c\<close>\<close>

text \<open>
  Thirty buffers, a recency list through all of them (\<open>head.next\<close> first) and the disk below.
  The recency list is the list of buffer indices in the order of the \<open>next\<close> pointers; taking
  a buffer out and inserting it behind the head is \<open>move_front\<close>. A buffer's \<open>data\<close> is a list of
  \<open>BSIZE\<close> bytes. The transfer itself is the contract \<open>disk_rw\<close> of the driver and the device:
  when a process asks for it, it sleeps with the driver's lock held, so \<open>sched\<close> panics when
  the process holds any other spin lock; and the disk's block and the buffer are equal after.
\<close>

definition BSIZE :: nat where "BSIZE = 512"

definition NBUF :: nat where "NBUF = 30"

record buf =
  bvalid :: bool
  bdev :: u32
  blockno :: u32
  refcnt :: u32
  bdata :: "u8 list"

record bio_st = sleep_st +
  bufs :: "buf list"
  lru :: "nat list"
  disk :: "u32 \<Rightarrow> u8 list"

definition upd_buf :: "nat \<Rightarrow> (buf \<Rightarrow> buf) \<Rightarrow> ('z bio_st_scheme, unit) kern" where
  "upd_buf b f = modify (\<lambda>s. s\<lparr>bufs := (bufs s)[b := f (bufs s ! b)]\<rparr>)"

definition get_buf :: "nat \<Rightarrow> (buf \<Rightarrow> 'a) \<Rightarrow> ('z bio_st_scheme, 'a) kern" where
  "get_buf b f = gets (\<lambda>s. f (bufs s ! b))"

definition upd_data :: "nat \<Rightarrow> (u8 list \<Rightarrow> u8 list) \<Rightarrow> ('z bio_st_scheme, unit) kern" where
  "upd_data b f = upd_buf b (\<lambda>q. q\<lparr>bdata := f (bdata q)\<rparr>)"

definition disk_rw :: "nat \<Rightarrow> bool \<Rightarrow> ('z bio_st_scheme, unit) kern" where
  "disk_rw b write =
     bnd myproc (\<lambda>me.
     bnd (gets held) (\<lambda>H.
     if DiskLock \<in> H then panic ''acquire''
     else if me \<noteq> None \<and> H \<noteq> {} then panic ''sched locks''
     else if write then
       modify (\<lambda>s. s\<lparr>disk := (disk s)(blockno (bufs s ! b) := bdata (bufs s ! b))\<rparr>)
     else
       bnd (gets (\<lambda>s. disk s (blockno (bufs s ! b)))) (\<lambda>bs.
       upd_buf b (\<lambda>q. q\<lparr>bdata := bs\<rparr>))))"

text \<open>The buffers start zeroed; each is put behind the head in turn.\<close>

definition zero_buf :: buf where
  "zero_buf = \<lparr>bvalid = False, bdev = 0, blockno = 0, refcnt = 0, bdata = replicate BSIZE 0\<rparr>"

definition binit :: "('z bio_st_scheme, unit) kern" where
  "binit =
     thn (modify (\<lambda>s. s\<lparr>lru := []\<rparr>))
     (for_each [0..<NBUF] (\<lambda>b.
       thn (set_slock (BufLock b) initsleeplock)
       (modify (\<lambda>s. s\<lparr>lru := b # lru s\<rparr>))))"

definition bget :: "u32 \<Rightarrow> u32 \<Rightarrow> ('z bio_st_scheme, nat) kern" where
  "bget dev bno =
     thn (acquire BcacheLock)
     (bnd (gets (\<lambda>s. find (\<lambda>b. bdev (bufs s ! b) = dev \<and> blockno (bufs s ! b) = bno) (lru s))) (\<lambda>hit.
     case hit of
       Some b \<Rightarrow>
         thn (upd_buf b (\<lambda>q. q\<lparr>refcnt := refcnt q + 1\<rparr>))
         (thn (release BcacheLock)
         (thn (acquiresleep (BufLock b))
         (ret b)))
     | None \<Rightarrow>
         bnd (gets (\<lambda>s. find (\<lambda>b. refcnt (bufs s ! b) = 0) (rev (lru s)))) (\<lambda>victim.
         case victim of
           Some b \<Rightarrow>
             thn (upd_buf b (\<lambda>q. q\<lparr>bdev := dev, blockno := bno, bvalid := False, refcnt := 1\<rparr>))
             (thn (release BcacheLock)
             (thn (acquiresleep (BufLock b))
             (ret b)))
         | None \<Rightarrow> panic ''bget: no buffers'')))"

text \<open>
  A reader that finds its buffer locked sleeps inside \<open>bget\<close>; woken, it goes on in
  \<open>bread_resume\<close>.
\<close>

definition bread_fill :: "nat \<Rightarrow> ('z bio_st_scheme, nat) kern" where
  "bread_fill b =
     bnd (get_buf b bvalid) (\<lambda>ok.
     thn (whenk (\<not> ok) (thn (disk_rw b False) (upd_buf b (\<lambda>q. q\<lparr>bvalid := True\<rparr>))))
     (ret b))"

definition bread :: "u32 \<Rightarrow> u32 \<Rightarrow> ('z bio_st_scheme, nat) kern" where
  "bread dev bno = bnd (bget dev bno) bread_fill"

definition bread_resume :: "nat \<Rightarrow> ('z bio_st_scheme, nat) kern" where
  "bread_resume b = thn (acquiresleep_resume (BufLock b)) (bread_fill b)"

definition bwrite :: "nat \<Rightarrow> ('z bio_st_scheme, unit) kern" where
  "bwrite b =
     bnd (holdingsleep (BufLock b)) (\<lambda>mine.
     if \<not> mine then panic ''bwrite'' else disk_rw b True)"

definition move_front :: "nat \<Rightarrow> nat list \<Rightarrow> nat list" where
  "move_front b bs = b # removeAll b bs"

definition brelse :: "nat \<Rightarrow> ('z bio_st_scheme, unit) kern" where
  "brelse b =
     bnd (holdingsleep (BufLock b)) (\<lambda>mine.
     if \<not> mine then panic ''brelse''
     else
       thn (releasesleep (BufLock b))
       (thn (acquire BcacheLock)
       (thn (upd_buf b (\<lambda>q. q\<lparr>refcnt := refcnt q - 1\<rparr>))
       (bnd (get_buf b (\<lambda>q. refcnt q = 0)) (\<lambda>unused.
       thn (whenk unused (modify (\<lambda>s. s\<lparr>lru := move_front b (lru s)\<rparr>)))
       (release BcacheLock))))))"

subsection \<open>The cache without contention\<close>

text \<open>
  \<open>cache_ok dev s H\<close>: the recency list is a permutation of the buffers, a block of device \<open>dev\<close>
  is in at most one buffer, the buffers in \<open>H\<close> are held by the caller, and the others are idle
  and agree with the disk. \<open>calm\<close>: the caller holds no spin lock and no process waits for a
  buffer. \<open>cache_step s t\<close>: \<open>t\<close> differs from \<open>s\<close> at most in the cache and the disk.
\<close>

definition idle_buf :: "'z bio_st_scheme \<Rightarrow> nat \<Rightarrow> bool" where
  "idle_buf s b \<longleftrightarrow> refcnt (bufs s ! b) = 0 \<and> sl_locked (slocks s (BufLock b)) = 0 \<and>
     (bvalid (bufs s ! b) \<longrightarrow> bdata (bufs s ! b) = disk s (blockno (bufs s ! b)))"

definition held_buf :: "'z bio_st_scheme \<Rightarrow> nat \<Rightarrow> bool" where
  "held_buf s b \<longleftrightarrow> refcnt (bufs s ! b) = 1 \<and> bvalid (bufs s ! b) \<and>
     length (bdata (bufs s ! b)) = BSIZE \<and> slocks s (BufLock b) = my_token s"

definition cache_ok :: "u32 \<Rightarrow> 'z bio_st_scheme \<Rightarrow> nat set \<Rightarrow> bool" where
  "cache_ok dev s H \<longleftrightarrow> dev \<noteq> 0 \<and> length (bufs s) = NBUF \<and> distinct (lru s) \<and> set (lru s) = {..<NBUF} \<and>
     H \<subseteq> {..<NBUF} \<and> (\<forall>n. length (disk s n) = BSIZE) \<and>
     (\<forall>b < NBUF. bdev (bufs s ! b) = (if bvalid (bufs s ! b) then dev else 0)) \<and>
     (\<forall>b < NBUF. \<forall>c < NBUF. bvalid (bufs s ! b) \<longrightarrow> bvalid (bufs s ! c) \<longrightarrow>
        blockno (bufs s ! b) = blockno (bufs s ! c) \<longrightarrow> b = c) \<and>
     (\<forall>b < NBUF. if b \<in> H then held_buf s b else idle_buf s b)"

definition calm :: "'z bio_st_scheme \<Rightarrow> bool" where
  "calm s \<longleftrightarrow> held s = {} \<and> length (procs s) = NPROC \<and>
     (\<forall>p \<in> set (procs s). \<forall>b. \<not> (pstate p = SLEEPING \<and> chan p = Some (ChSleep (BufLock b))))"

definition cache_step :: "'z bio_st_scheme \<Rightarrow> 'z bio_st_scheme \<Rightarrow> bool" where
  "cache_step s t \<longleftrightarrow> (\<exists>K B L D. t = s\<lparr>slocks := K, bufs := B, lru := L, disk := D\<rparr> \<and>
     (\<forall>i. K (InodeLock i) = slocks s (InodeLock i)))"

text \<open>Block \<open>bno\<close> is in no held buffer.\<close>

definition not_held :: "'z bio_st_scheme \<Rightarrow> nat set \<Rightarrow> u32 \<Rightarrow> bool" where
  "not_held s H bno \<longleftrightarrow> (\<forall>b \<in> H. blockno (bufs s ! b) \<noteq> bno)"

lemma buf_apply [simp]:
  "upd_buf b f s = Ret () (s\<lparr>bufs := (bufs s)[b := f (bufs s ! b)]\<rparr>)"
  "get_buf b g s = Ret (g (bufs s ! b)) s"
  "upd_data b h s = Ret () (s\<lparr>bufs := (bufs s)[b := (bufs s ! b)\<lparr>bdata := h (bdata (bufs s ! b))\<rparr>]\<rparr>)"
  by (simp_all add: upd_buf_def get_buf_def upd_data_def)

lemma my_token_cache [simp]:
  "my_token (s\<lparr>slocks := K\<rparr>) = my_token s" "my_token (s\<lparr>bufs := B\<rparr>) = my_token s"
  "my_token (s\<lparr>lru := L\<rparr>) = my_token s" "my_token (s\<lparr>disk := D\<rparr>) = my_token s"
  "my_token (s\<lparr>held := G\<rparr>) = my_token s"
  by (simp_all add: my_token_def split: option.splits)

lemma cache_okD:
  assumes "cache_ok dev s H"
  shows "dev \<noteq> 0" "length (bufs s) = NBUF" "distinct (lru s)" "set (lru s) = {..<NBUF}" "H \<subseteq> {..<NBUF}"
    "\<And>n. length (disk s n) = BSIZE"
    "\<And>b. b < NBUF \<Longrightarrow> bdev (bufs s ! b) = (if bvalid (bufs s ! b) then dev else 0)"
    "\<And>b c. b < NBUF \<Longrightarrow> c < NBUF \<Longrightarrow> bvalid (bufs s ! b) \<Longrightarrow> bvalid (bufs s ! c) \<Longrightarrow>
       blockno (bufs s ! b) = blockno (bufs s ! c) \<Longrightarrow> b = c"
    "\<And>b. b \<in> H \<Longrightarrow> b < NBUF \<and> held_buf s b"
    "\<And>b. b < NBUF \<Longrightarrow> b \<notin> H \<Longrightarrow> idle_buf s b"
proof -
  show "\<And>b. b \<in> H \<Longrightarrow> b < NBUF \<and> held_buf s b"
  proof -
    fix b
    assume b: "b \<in> H"
    moreover from this have "b < NBUF" using assms unfolding cache_ok_def by blast
    ultimately show "b < NBUF \<and> held_buf s b" using assms by (simp add: cache_ok_def)
  qed
  show "\<And>b c. b < NBUF \<Longrightarrow> c < NBUF \<Longrightarrow> bvalid (bufs s ! b) \<Longrightarrow> bvalid (bufs s ! c) \<Longrightarrow>
       blockno (bufs s ! b) = blockno (bufs s ! c) \<Longrightarrow> b = c"
    using assms unfolding cache_ok_def by blast
qed (use assms in \<open>simp_all add: cache_ok_def\<close>)

lemma cache_okI:
  assumes "dev \<noteq> 0" "length (bufs s) = NBUF" "distinct (lru s)" "set (lru s) = {..<NBUF}" "H \<subseteq> {..<NBUF}"
    "\<And>n. length (disk s n) = BSIZE"
    "\<And>b. b < NBUF \<Longrightarrow> bdev (bufs s ! b) = (if bvalid (bufs s ! b) then dev else 0)"
    "\<And>b c. b < NBUF \<Longrightarrow> c < NBUF \<Longrightarrow> bvalid (bufs s ! b) \<Longrightarrow> bvalid (bufs s ! c) \<Longrightarrow>
       blockno (bufs s ! b) = blockno (bufs s ! c) \<Longrightarrow> b = c"
    "\<And>b. b \<in> H \<Longrightarrow> held_buf s b"
    "\<And>b. b < NBUF \<Longrightarrow> b \<notin> H \<Longrightarrow> idle_buf s b"
  shows "cache_ok dev s H"
  using assms by (simp add: cache_ok_def)

definition loaded :: "u32 \<Rightarrow> u32 \<Rightarrow> 'z bio_st_scheme \<Rightarrow> buf" where
  "loaded dev bno s = \<lparr>bvalid = True, bdev = dev, blockno = bno, refcnt = 1, bdata = disk s bno\<rparr>"

lemma find_SomeD: "find P xs = Some x \<Longrightarrow> x \<in> set xs \<and> P x"
  by (induction xs) (auto split: if_splits)

text \<open>A read puts the block into a buffer that was idle, from the disk or as it was there.\<close>

lemma bread_eq:
  assumes "cache_ok dev s H" and "held s = {}" and "not_held s H bno" and "card H < NBUF"
  shows "\<exists>b. b < NBUF \<and> b \<notin> H \<and> (\<forall>c < NBUF. bvalid (bufs s ! c) \<longrightarrow> blockno (bufs s ! c) = bno \<longrightarrow> c = b) \<and>
     bread dev bno s = Ret b (s\<lparr>slocks := (slocks s)(BufLock b := my_token s),
       bufs := (bufs s)[b := loaded dev bno s]\<rparr>)"
proof -
  note ok = cache_okD [OF assms(1)]
  have [simp]: "s\<lparr>held := {}\<rparr> = s" using assms(2) by simp
  have [simp]: "q\<lparr>bdev := dev, blockno := bno, refcnt := 1, bdata := disk s bno, bvalid := True\<rparr> = loaded dev bno s" for q
    by (rule buf.equality) (simp_all add: loaded_def)
  let ?P = "\<lambda>b. bdev (bufs s ! b) = dev \<and> blockno (bufs s ! b) = bno"
  have hit: "bvalid (bufs s ! c) \<longleftrightarrow> bdev (bufs s ! c) = dev" if "c < NBUF" for c
    using ok(1,7) that by auto
  show ?thesis
  proof (cases "find ?P (lru s)")
    case (Some b)
    then have b: "b < NBUF" "?P b" using find_SomeD [OF Some] ok(4) by auto
    then have "b \<notin> H" using assms(3) by (auto simp: not_held_def)
    have idle: "idle_buf s b" by (rule ok(10) [OF b(1) \<open>b \<notin> H\<close>])
    have valid: "bvalid (bufs s ! b)" using hit b by simp
    have "(bufs s ! b)\<lparr>refcnt := refcnt (bufs s ! b) + 1\<rparr> = loaded dev bno s"
      using idle valid b by (simp add: idle_buf_def loaded_def)
    then have "bread dev bno s = Ret b (s\<lparr>slocks := (slocks s)(BufLock b := my_token s),
       bufs := (bufs s)[b := loaded dev bno s]\<rparr>)"
      using Some idle assms(2) b ok(2)
      by (simp add: bread_def bread_fill_def bget_def run_simps acquiresleep_free idle_buf_def loaded_def)
    moreover have "\<forall>c < NBUF. bvalid (bufs s ! c) \<longrightarrow> blockno (bufs s ! c) = bno \<longrightarrow> c = b"
      using ok(8) b valid by blast
    ultimately show ?thesis using b(1) \<open>b \<notin> H\<close> by blast
  next
    case None
    then have miss: "\<not> ?P c" if "c < NBUF" for c
      using that ok(4) by (auto simp: find_None_iff)
    have "\<exists>b. b < NBUF \<and> b \<notin> H"
    proof (rule ccontr)
      assume "\<not> ?thesis"
      then have "{..<NBUF} \<subseteq> H" by auto
      with ok(5) have "card H = NBUF" by (simp add: subset_antisym)
      with assms(4) show False by simp
    qed
    then obtain b0 where "b0 < NBUF" "refcnt (bufs s ! b0) = 0"
      using ok(10) by (auto simp: idle_buf_def)
    then have "find (\<lambda>b. refcnt (bufs s ! b) = 0) (rev (lru s)) \<noteq> None"
      using ok(4) by (auto simp: find_None_iff)
    then obtain b where f: "find (\<lambda>b. refcnt (bufs s ! b) = 0) (rev (lru s)) = Some b" by blast
    then have b: "b < NBUF" "refcnt (bufs s ! b) = 0" using find_SomeD [OF f] ok(4) by auto
    then have "b \<notin> H" using ok(9) [of b] by (auto simp: held_buf_def)
    have idle: "idle_buf s b" by (rule ok(10) [OF b(1) \<open>b \<notin> H\<close>])
    have "bread dev bno s = Ret b (s\<lparr>slocks := (slocks s)(BufLock b := my_token s),
       bufs := (bufs s)[b := loaded dev bno s]\<rparr>)"
      using None f idle assms(2) b ok(2)
      by (simp add: bread_def bread_fill_def bget_def run_simps acquiresleep_free idle_buf_def disk_rw_def)
    moreover have "\<forall>c < NBUF. bvalid (bufs s ! c) \<longrightarrow> blockno (bufs s ! c) = bno \<longrightarrow> c = b"
      using miss hit by blast
    ultimately show ?thesis using b(1) \<open>b \<notin> H\<close> by blast
  qed
qed

lemma cache_stepI:
  "\<forall>i. K (InodeLock i) = slocks s (InodeLock i) \<Longrightarrow> cache_step s (s\<lparr>slocks := K, bufs := B, lru := L, disk := D\<rparr>)"
  unfolding cache_step_def by blast

lemma cache_step_refl [simp]: "cache_step s s"
  unfolding cache_step_def
  by (intro exI [of _ "slocks s"] exI [of _ "bufs s"] exI [of _ "lru s"] exI [of _ "disk s"]) simp

lemma cache_step_trans: "cache_step s t \<Longrightarrow> cache_step t u \<Longrightarrow> cache_step s u"
proof -
  assume "cache_step s t" "cache_step t u"
  then obtain K B L D K' B' L' D' where t: "t = s\<lparr>slocks := K, bufs := B, lru := L, disk := D\<rparr>"
    "\<forall>i. K (InodeLock i) = slocks s (InodeLock i)" "u = t\<lparr>slocks := K', bufs := B', lru := L', disk := D'\<rparr>"
    "\<forall>i. K' (InodeLock i) = slocks t (InodeLock i)"
    unfolding cache_step_def by blast
  then show ?thesis
    using cache_stepI [where s = s and K = K' and B = B' and L = L' and D = D'] by simp
qed

lemma cache_step_fields:
  assumes "cache_step s t"
  shows "held t = held s" "hart t = hart s" "cur t = cur s" "procs t = procs s" "mem t = mem s"
    "freelist t = freelist s" "kend t = kend s" "my_token t = my_token s" "calm t = calm s"
  using assms by (auto simp: cache_step_def calm_def)

lemma cache_step_some [simp]:
  "cache_step s (s\<lparr>bufs := B\<rparr>)" "cache_step s (s\<lparr>disk := D\<rparr>)" "cache_step s (s\<lparr>lru := L\<rparr>)"
  "cache_step s (s\<lparr>slocks := (slocks s)(BufLock b := k), bufs := B\<rparr>)"
  "cache_step s (s\<lparr>slocks := (slocks s)(BufLock b := k), bufs := B, lru := L\<rparr>)"
  using cache_stepI [where s = s and K = "slocks s" and B = B and L = "lru s" and D = "disk s"]
    cache_stepI [where s = s and K = "slocks s" and B = "bufs s" and L = "lru s" and D = D]
    cache_stepI [where s = s and K = "slocks s" and B = "bufs s" and L = L and D = "disk s"]
    cache_stepI [where s = s and K = "(slocks s)(BufLock b := k)" and B = B and L = "lru s" and D = "disk s"]
    cache_stepI [where s = s and K = "(slocks s)(BufLock b := k)" and B = B and L = L and D = "disk s"]
  by simp_all

lemma length_loaded [simp]: "bvalid (loaded dev bno s)" "bdev (loaded dev bno s) = dev"
  "blockno (loaded dev bno s) = bno" "refcnt (loaded dev bno s) = 1" "bdata (loaded dev bno s) = disk s bno"
  by (simp_all add: loaded_def)

lemma bread_spec:
  assumes "cache_ok dev s H" and "held s = {}" and "not_held s H bno" and "card H < NBUF"
  shows "\<exists>b t. bread dev bno s = Ret b t \<and> b \<notin> H \<and> cache_ok dev t (insert b H) \<and> cache_step s t \<and>
     blockno (bufs t ! b) = bno \<and> bdata (bufs t ! b) = disk s bno \<and> disk t = disk s \<and>
     (\<forall>c \<in> H. bufs t ! c = bufs s ! c)"
proof -
  note ok = cache_okD [OF assms(1)]
  obtain b where b: "b < NBUF" "b \<notin> H"
    and uniq: "\<And>c. c < NBUF \<Longrightarrow> bvalid (bufs s ! c) \<Longrightarrow> blockno (bufs s ! c) = bno \<Longrightarrow> c = b"
    and run: "bread dev bno s = Ret b (s\<lparr>slocks := (slocks s)(BufLock b := my_token s),
       bufs := (bufs s)[b := loaded dev bno s]\<rparr>)"
    using bread_eq [OF assms] by blast
  let ?t = "s\<lparr>slocks := (slocks s)(BufLock b := my_token s), bufs := (bufs s)[b := loaded dev bno s]\<rparr>"
  have nth: "bufs ?t ! c = (if c = b then loaded dev bno s else bufs s ! c)" for c
    using b ok(2) by (simp add: nth_list_update)
  have "cache_ok dev ?t (insert b H)"
  proof (rule cache_okI)
    fix c d
    assume A: "c < NBUF" "d < NBUF" "bvalid (bufs ?t ! c)" "bvalid (bufs ?t ! d)"
      "blockno (bufs ?t ! c) = blockno (bufs ?t ! d)"
    have old: "bufs ?t ! e = bufs s ! e" if "e \<noteq> b" for e unfolding nth using that by simp
    have new: "blockno (bufs ?t ! b) = bno" unfolding nth by simp
    show "c = d"
    proof (cases "c = b"; cases "d = b")
      assume "c = b" "d \<noteq> b"
      moreover from this have "d = b" by (intro uniq) (use A new old [OF \<open>d \<noteq> b\<close>] in simp_all)
      ultimately show ?thesis by blast
    next
      assume "c \<noteq> b" "d = b"
      moreover from this have "c = b" by (intro uniq) (use A new old [OF \<open>c \<noteq> b\<close>] in simp_all)
      ultimately show ?thesis by blast
    next
      assume "c \<noteq> b" "d \<noteq> b"
      then show ?thesis using A ok(8) [of c d] unfolding old [OF \<open>c \<noteq> b\<close>] old [OF \<open>d \<noteq> b\<close>] by blast
    qed simp
  next
    fix c
    assume "c \<in> insert b H"
    then show "held_buf ?t c"
      using ok(9) [of c] ok(6) b(2) unfolding held_buf_def nth by (cases "c = b") auto
  next
    fix c
    assume "c < NBUF" "c \<notin> insert b H"
    then show "idle_buf ?t c"
      using ok(10) [of c] unfolding idle_buf_def nth by simp
  next
    fix c
    assume "c < NBUF"
    then show "bdev (bufs ?t ! c) = (if bvalid (bufs ?t ! c) then dev else 0)"
      unfolding nth using ok(7) by simp
  qed (use ok b in simp_all)
  moreover have "\<forall>c \<in> H. bufs ?t ! c = bufs s ! c" unfolding nth using b(2) by auto
  moreover have "cache_step s ?t" by simp
  moreover have "blockno (bufs ?t ! b) = bno" "bdata (bufs ?t ! b) = disk s bno" "disk ?t = disk s"
    unfolding nth by simp_all
  ultimately show ?thesis using run b(2) by blast
qed

lemma cache_ok_data:
  assumes "cache_ok dev s H" and "b \<in> H" and "length d = BSIZE"
  shows "cache_ok dev (s\<lparr>bufs := (bufs s)[b := (bufs s ! b)\<lparr>bdata := d\<rparr>]\<rparr>) H"
proof -
  note ok = cache_okD [OF assms(1)]
  let ?t = "s\<lparr>bufs := (bufs s)[b := (bufs s ! b)\<lparr>bdata := d\<rparr>]\<rparr>"
  have nth: "bufs ?t ! c = (if c = b then (bufs s ! b)\<lparr>bdata := d\<rparr> else bufs s ! c)" if "c < NBUF" for c
    using that ok(2) by (simp add: nth_list_update)
  have flds: "bvalid (bufs ?t ! c) = bvalid (bufs s ! c)" "blockno (bufs ?t ! c) = blockno (bufs s ! c)"
    "bdev (bufs ?t ! c) = bdev (bufs s ! c)" if "c < NBUF" for c
    unfolding nth [OF that] by simp_all
  show ?thesis
  proof (rule cache_okI)
    fix c
    assume c: "c \<in> H"
    then have "c < NBUF" using ok(5) by auto
    then show "held_buf ?t c"
      using ok(9) [OF c] assms(3) unfolding held_buf_def nth [OF \<open>c < NBUF\<close>] by (cases "c = b") simp_all
  next
    fix c
    assume c: "c < NBUF" "c \<notin> H"
    then show "idle_buf ?t c"
      using ok(10) [OF c] assms(2) unfolding idle_buf_def nth [OF c(1)] by auto
  next
    fix c e
    assume "c < NBUF" "e < NBUF" "bvalid (bufs ?t ! c)" "bvalid (bufs ?t ! e)"
      "blockno (bufs ?t ! c) = blockno (bufs ?t ! e)"
    then show "c = e" using ok(8) [of c e] by (simp only: flds)
  next
    fix c
    assume "c < NBUF"
    then show "bdev (bufs ?t ! c) = (if bvalid (bufs ?t ! c) then dev else 0)"
      using ok(7) [of c] by (simp only: flds)
  qed (use ok in simp_all)
qed

lemma held_owns: "cache_ok dev s H \<Longrightarrow> b \<in> H \<Longrightarrow> owns s (BufLock b)"
  using cache_okD(9) [of dev s H b] by (auto simp: held_buf_def intro: owns_token)

lemma bwrite_spec:
  assumes "cache_ok dev s H" and "b \<in> H" and "held s = {}"
  shows "\<exists>t. bwrite b s = Ret () t \<and> t = s\<lparr>disk := (disk s)(blockno (bufs s ! b) := bdata (bufs s ! b))\<rparr> \<and>
     cache_ok dev t H"
proof -
  note ok = cache_okD [OF assms(1)]
  let ?t = "s\<lparr>disk := (disk s)(blockno (bufs s ! b) := bdata (bufs s ! b))\<rparr>"
  have b: "b < NBUF" "held_buf s b" using ok(9) [OF assms(2)] by auto
  have "cache_ok dev ?t H"
  proof (rule cache_okI)
    fix c
    assume c: "c < NBUF" "c \<notin> H"
    moreover from this have "c \<noteq> b" using assms(2) by auto
    ultimately show "idle_buf ?t c"
      using ok(10) [OF c] ok(8) [of c b] b by (auto simp: idle_buf_def held_buf_def)
  next
    fix c
    assume "c \<in> H"
    then show "held_buf ?t c" using ok(9) [of c] by (simp add: held_buf_def)
  qed (use ok b in \<open>auto simp: held_buf_def\<close>)
  moreover have "bwrite b s = Ret () ?t"
    using held_owns [OF assms(1,2)] assms(3) by (simp add: bwrite_def run_simps holdingsleep_eq disk_rw_def)
  ultimately show ?thesis by blast
qed

lemma wakeup_calm: "calm s \<Longrightarrow> map (wakeup_proc (ChSleep (BufLock b))) (procs s) = procs s"
  by (rule map_idI) (auto simp: calm_def wakeup_proc_def)

lemma set_move_front: "b \<in> set bs \<Longrightarrow> set (move_front b bs) = set bs"
  by (auto simp: move_front_def)

lemma distinct_move_front: "distinct bs \<Longrightarrow> distinct (move_front b bs)"
  by (simp add: move_front_def distinct_removeAll)

lemma brelse_spec:
  assumes "cache_ok dev s H" and "b \<in> H" and "calm s" and "bdata (bufs s ! b) = disk s (blockno (bufs s ! b))"
  shows "\<exists>t. brelse b s = Ret () t \<and> cache_ok dev t (H - {b}) \<and> cache_step s t \<and> disk t = disk s \<and>
     (\<forall>c \<in> H - {b}. bufs t ! c = bufs s ! c)"
proof -
  note ok = cache_okD [OF assms(1)]
  have b: "b < NBUF" "held_buf s b" using ok(9) [OF assms(2)] by auto
  have c: "held s = {}" "length (procs s) = NPROC" using assms(3) by (auto simp: calm_def)
  let ?B = "(bufs s)[b := (bufs s ! b)\<lparr>refcnt := 0\<rparr>]"
  let ?t = "s\<lparr>slocks := (slocks s)(BufLock b := initsleeplock), bufs := ?B, lru := move_front b (lru s)\<rparr>"
  have self: "s\<lparr>held := {}\<rparr> = s" "s\<lparr>procs := procs s\<rparr> = s" using c(1) by simp_all
  have rel: "releasesleep (BufLock b) s = Ret () (s\<lparr>slocks := (slocks s)(BufLock b := initsleeplock)\<rparr>)"
    using releasesleep_mine [OF held_owns [OF assms(1,2)]] c wakeup_calm [OF assms(3)] self by simp
  have run: "brelse b s = Ret () ?t"
    using held_owns [OF assms(1,2)] c b ok(2) self
    by (simp add: brelse_def run_simps holdingsleep_eq rel held_buf_def)
  have nth: "?B ! c = (if c = b then (bufs s ! b)\<lparr>refcnt := 0\<rparr> else bufs s ! c)" for c
    using b ok(2) by (simp add: nth_list_update)
  have flds: "bvalid (?B ! c) = bvalid (bufs s ! c)" "blockno (?B ! c) = blockno (bufs s ! c)"
    "bdev (?B ! c) = bdev (bufs s ! c)" for c
    unfolding nth by simp_all
  have "cache_ok dev ?t (H - {b})"
  proof (rule cache_okI)
    fix c d
    assume "c < NBUF" "d < NBUF" "bvalid (bufs ?t ! c)" "bvalid (bufs ?t ! d)"
      "blockno (bufs ?t ! c) = blockno (bufs ?t ! d)"
    then show "c = d" using ok(8) [of c d] by (simp add: flds)
  next
    fix c
    assume "c < NBUF" "c \<notin> H - {b}"
    then show "idle_buf ?t c"
      using ok(10) [of c] assms(4) by (cases "c = b") (simp_all add: idle_buf_def nth)
  next
    fix c
    assume "c \<in> H - {b}"
    then show "held_buf ?t c" using ok(9) [of c] by (simp add: held_buf_def nth)
  next
    fix c
    assume "c < NBUF"
    then show "bdev (bufs ?t ! c) = (if bvalid (bufs ?t ! c) then dev else 0)"
      using ok(7) [of c] by (simp add: flds)
  qed (use ok b in \<open>auto simp: set_move_front distinct_move_front\<close>)
  moreover have "\<forall>c \<in> H - {b}. bufs ?t ! c = bufs s ! c" by (simp add: nth)
  ultimately show ?thesis using run by (intro exI [of _ ?t]) simp
qed

subsection \<open>Reading and modifying blocks\<close>

text \<open>
  The two patterns the file system uses the cache in: read a block and give it back; read it,
  change it, write it and give it back.
\<close>

definition read_block :: "u32 \<Rightarrow> u32 \<Rightarrow> ('z bio_st_scheme, u8 list) kern" where
  "read_block dev bno =
     bnd (bread dev bno) (\<lambda>b. bnd (get_buf b bdata) (\<lambda>bs. thn (brelse b) (ret bs)))"

definition modify_block :: "u32 \<Rightarrow> u32 \<Rightarrow> (u8 list \<Rightarrow> u8 list) \<Rightarrow> ('z bio_st_scheme, unit) kern" where
  "modify_block dev bno f =
     bnd (bread dev bno) (\<lambda>b. thn (upd_data b f) (thn (bwrite b) (brelse b)))"

text \<open>\<open>io\<close>: what a step on the disk and the cache keeps of a caller that holds the buffers \<open>H\<close>.\<close>

definition io :: "u32 \<Rightarrow> nat set \<Rightarrow> 'z bio_st_scheme \<Rightarrow> 'z bio_st_scheme \<Rightarrow> bool" where
  "io dev H s t \<longleftrightarrow> cache_ok dev t H \<and> cache_step s t \<and> (\<forall>c \<in> H. bufs t ! c = bufs s ! c)"

lemma ioD:
  assumes "io dev H s t"
  shows "cache_ok dev t H" "cache_step s t" "c \<in> H \<Longrightarrow> bufs t ! c = bufs s ! c" "calm t = calm s"
    "not_held t H bno = not_held s H bno"
  using assms by (auto simp: io_def cache_step_fields not_held_def)

lemma io_refl: "cache_ok dev s H \<Longrightarrow> io dev H s s"
  by (simp add: io_def)

lemma io_trans: "io dev H s t \<Longrightarrow> io dev H t u \<Longrightarrow> io dev H s u"
  by (auto simp: io_def intro: cache_step_trans)

text \<open>
  \<open>opened dev H s bno b u\<close>: from \<open>s\<close> the caller, holding \<open>H\<close>, has read block \<open>bno\<close> into \<open>b\<close> and
  is in state \<open>u\<close>. The block is given back as it is, or after a change that is written.
\<close>

definition opened :: "u32 \<Rightarrow> nat set \<Rightarrow> 'z bio_st_scheme \<Rightarrow> u32 \<Rightarrow> nat \<Rightarrow> 'z bio_st_scheme \<Rightarrow> bool" where
  "opened dev H s bno b u \<longleftrightarrow> b \<notin> H \<and> cache_ok dev u (insert b H) \<and> cache_step s u \<and>
     blockno (bufs u ! b) = bno \<and> bdata (bufs u ! b) = disk s bno \<and> disk u = disk s \<and>
     (\<forall>c \<in> H. bufs u ! c = bufs s ! c)"

lemma thn_assoc: "thn (thn m n) k = thn m (thn n k)"
  by (rule ext) (simp add: thn_apply split: outcome.splits)

lemma bread_opens:
  assumes "cache_ok dev s H" and "calm s" and "not_held s H bno" and "card H < NBUF"
  obtains b u where "bread dev bno s = Ret b u" "opened dev H s bno b u"
  using bread_spec [OF assms(1) _ assms(3,4)] assms(2) by (auto simp: opened_def calm_def)

lemma opened_calm: "opened dev H s bno b u \<Longrightarrow> calm s \<Longrightarrow> calm u"
  using cache_step_fields(9) by (auto simp: opened_def)

lemma opened_close:
  assumes o: "opened dev H s bno b u" and "calm s" and io: "io dev (insert b H) u v"
    and d: "disk v bno = disk s bno"
  obtains t where "brelse b v = Ret () t" "io dev H s t" "disk t = disk v"
proof -
  have "calm v" using opened_calm [OF o] ioD(4) [OF io] assms(2) by simp
  moreover have "bdata (bufs v ! b) = disk v (blockno (bufs v ! b))"
    using o ioD(3) [OF io, of b] d by (simp add: opened_def)
  ultimately obtain t where t: "brelse b v = Ret () t" "cache_ok dev t (insert b H - {b})" "cache_step v t"
    "disk t = disk v" "\<forall>c \<in> insert b H - {b}. bufs t ! c = bufs v ! c"
    using brelse_spec [OF ioD(1) [OF io], of b] by auto
  have H: "insert b H - {b} = H" using o by (auto simp: opened_def)
  have "cache_step s t"
    using o cache_step_trans ioD(2) [OF io] t(3) unfolding opened_def by blast
  moreover have "bufs t ! c = bufs s ! c" if "c \<in> H" for c
    using that t(5) ioD(3) [OF io, of c] o unfolding H opened_def by simp
  ultimately have "io dev H s t" using t(2) unfolding H by (simp add: io_def)
  with t(1,4) show thesis using that by blast
qed

lemma opened_io: "opened dev H s bno b u \<Longrightarrow> io dev (insert b H) u u"
  by (rule io_refl) (simp add: opened_def)

lemma opened_read:
  assumes "opened dev H s bno b u" and "calm s"
  obtains t where "brelse b u = Ret () t" "io dev H s t" "disk t = disk s"
proof -
  have d: "disk u = disk s" using assms(1) by (simp add: opened_def)
  obtain t where "brelse b u = Ret () t" "io dev H s t" "disk t = disk u"
    by (rule opened_close [OF assms opened_io [OF assms(1)]]) (simp_all add: d)
  with d that show thesis by simp
qed

lemma opened_write:
  assumes o: "opened dev H s bno b u" and "calm s" and io: "io dev (insert b H) u v"
    and d: "disk v bno = disk s bno" and len: "length (f (disk s bno)) = BSIZE"
  obtains w where "thn (upd_data b f) (bwrite b) v = Ret () w" "opened dev H (s\<lparr>disk := disk w\<rparr>) bno b w"
    "disk w = (disk v)(bno := f (disk s bno))"
proof -
  have bd: "blockno (bufs v ! b) = bno" "bdata (bufs v ! b) = disk s bno"
    using o ioD(3) [OF io, of b] by (auto simp: opened_def)
  let ?v = "v\<lparr>bufs := (bufs v)[b := (bufs v ! b)\<lparr>bdata := f (disk s bno)\<rparr>]\<rparr>"
  note ok = ioD(1) [OF io]
  have v: "cache_ok dev ?v (insert b H)" by (rule cache_ok_data) (use ok len in simp_all)
  have lt: "b < length (bufs v)" using cache_okD(2,9) [OF ok] by auto
  have hv: "held ?v = {}"
    using opened_calm [OF o assms(2)] ioD(4) [OF io] by (simp add: calm_def)
  let ?w = "?v\<lparr>disk := (disk v)(bno := f (disk s bno))\<rparr>"
  have w: "bwrite b ?v = Ret () ?w" "cache_ok dev ?w (insert b H)"
    using bwrite_spec [OF v _ hv, of b] bd lt by auto
  have "cache_step s v" using o ioD(2) [OF io] cache_step_trans unfolding opened_def by blast
  then obtain K B L D where st: "v = s\<lparr>slocks := K, bufs := B, lru := L, disk := D\<rparr>"
    "\<forall>i. K (InodeLock i) = slocks s (InodeLock i)" unfolding cache_step_def by blast
  have "cache_step (s\<lparr>disk := disk ?w\<rparr>) ?w"
    unfolding cache_step_def
    by (intro exI [of _ K] exI [of _ "bufs ?w"] exI [of _ L] exI [of _ "disk ?w"]) (simp add: st)
  moreover have "bufs ?w ! c = bufs s ! c" if "c \<in> H" for c
  proof -
    have "b \<noteq> c" using that o by (auto simp: opened_def)
    then show ?thesis using that o ioD(3) [OF io, of c] by (simp add: opened_def)
  qed
  ultimately have "opened dev H (s\<lparr>disk := disk ?w\<rparr>) bno b ?w"
    using o w(2) bd(1) lt by (simp add: opened_def)
  moreover have "thn (upd_data b f) (bwrite b) v = Ret () ?w" using w(1) bd(2) by (simp add: run_simps)
  ultimately show thesis using that [of ?w] by simp
qed

lemma io_disk: "io dev H (s\<lparr>disk := D\<rparr>) t \<Longrightarrow> io dev H s t"
proof -
  assume "io dev H (s\<lparr>disk := D\<rparr>) t"
  then show ?thesis using cache_step_trans [OF cache_step_some(2)] by (auto simp: io_def)
qed

lemma opened_modify:
  assumes "opened dev H s bno b u" and "calm s" and "length (f (disk s bno)) = BSIZE"
  obtains t where "thn (upd_data b f) (thn (bwrite b) (brelse b)) u = Ret () t" "io dev H s t"
    "disk t = (disk s)(bno := f (disk s bno))"
proof -
  have d: "disk u = disk s" using assms(1) by (simp add: opened_def)
  obtain w where w: "thn (upd_data b f) (bwrite b) u = Ret () w" "opened dev H (s\<lparr>disk := disk w\<rparr>) bno b w"
    "disk w = (disk s)(bno := f (disk s bno))"
    by (rule opened_write [where f = f, OF assms(1,2) opened_io [OF assms(1)] _ assms(3)]) (simp_all add: d)
  have "calm (s\<lparr>disk := disk w\<rparr>)" using assms(2) by (simp add: calm_def)
  then obtain t where t: "brelse b w = Ret () t" "io dev H (s\<lparr>disk := disk w\<rparr>) t" "disk t = disk w"
    using opened_read [OF w(2)] by auto
  have "thn (upd_data b f) (thn (bwrite b) (brelse b)) u = thn (thn (upd_data b f) (bwrite b)) (brelse b) u"
    by (simp only: thn_assoc)
  also have "\<dots> = Ret () t" unfolding thn_apply [of "thn (upd_data b f) (bwrite b)"] w(1) using t(1) by simp
  finally show thesis using that io_disk [OF t(2)] t(3) w(3) by simp
qed

lemma read_block_spec:
  assumes "cache_ok dev s H" and "calm s" and "not_held s H bno" and "card H < NBUF"
  shows "\<exists>t. read_block dev bno s = Ret (disk s bno) t \<and> io dev H s t \<and> disk t = disk s"
proof -
  obtain b u where u: "bread dev bno s = Ret b u" "opened dev H s bno b u" by (rule bread_opens [OF assms])
  obtain t where "brelse b u = Ret () t" "io dev H s t" "disk t = disk s" by (rule opened_read [OF u(2) assms(2)])
  with u show ?thesis by (auto simp: read_block_def run_simps opened_def)
qed

lemma modify_block_spec:
  assumes "cache_ok dev s H" and "calm s" and "not_held s H bno" and "card H < NBUF"
    and "length (f (disk s bno)) = BSIZE"
  shows "\<exists>t. modify_block dev bno f s = Ret () t \<and> io dev H s t \<and> disk t = (disk s)(bno := f (disk s bno))"
proof -
  obtain b u where u: "bread dev bno s = Ret b u" "opened dev H s bno b u" by (rule bread_opens [OF assms(1-4)])
  obtain t where "thn (upd_data b f) (thn (bwrite b) (brelse b)) u = Ret () t" "io dev H s t"
    "disk t = (disk s)(bno := f (disk s bno))"
    by (rule opened_modify [where f = f, OF u(2) assms(2,5)])
  with u show ?thesis by (auto simp: modify_block_def bnd_apply)
qed

lemma not_held_empty [simp]: "not_held s {} bno"
  by (simp add: not_held_def)

lemma NBUF_pos [simp]: "0 < NBUF"
  by (simp add: NBUF_def)

definition quiet_cache :: "u32 \<Rightarrow> 'z bio_st_scheme \<Rightarrow> bool" where
  "quiet_cache dev s \<longleftrightarrow> cache_ok dev s {} \<and> calm s"

lemma quiet_io: "quiet_cache dev s \<Longrightarrow> io dev {} s t \<Longrightarrow> quiet_cache dev t"
  using ioD(1,4) [of dev "{}" s t] by (simp add: quiet_cache_def)

interpretation blocks: block_store "read_block dev" "modify_block dev" disk "quiet_cache dev"
  "\<lambda>bs. length bs = BSIZE" for dev
proof
  fix k and s :: "'z bio_st_scheme"
  assume "quiet_cache dev s"
  then show "\<exists>t. read_block dev k s = Ret (disk s k) t \<and> quiet_cache dev t \<and> disk t = disk s"
    using read_block_spec [of dev s "{}" k] quiet_io [of dev s] by (auto simp: quiet_cache_def)
next
  fix f :: "u8 list \<Rightarrow> u8 list" and k and s :: "'z bio_st_scheme"
  assume "quiet_cache dev s" "length (f (disk s k)) = BSIZE"
  then show "\<exists>t. modify_block dev k f s = Ret () t \<and> quiet_cache dev t \<and> disk t = (disk s)(k := f (disk s k))"
    using modify_block_spec [of dev s "{}" k f] quiet_io [of dev s] by (auto simp: quiet_cache_def)
qed

definition demo_bio :: bio_st where
  "demo_bio = sleep_st.extend demo_sleep
     (bio_st.fields (replicate NBUF zero_buf) (rev [0..<NBUF]) (\<lambda>_. replicate BSIZE 0))"

declare demo_bio_def [demos] bio_st.defs [demos]

text \<open>
  C25. The cache is transparent: with no other process in it, \<open>bread\<close> yields a locked buffer with
  the contents of the disk's block, whether the block was cached or not and whatever buffers the
  caller holds already, and a change made with \<open>bwrite\<close> before \<open>brelse\<close> is what the next reader of
  that block, and of no other, finds.
\<close>

theorem cache_transparent:
  assumes "quiet_cache dev s" and "length (f (disk s bno)) = BSIZE"
  shows "\<exists>b t. bread dev bno s = Ret b t \<and> owns t (BufLock b) \<and> blockno (bufs t ! b) = bno \<and>
     bdata (bufs t ! b) = disk s bno \<and>
     (\<exists>u. thn (upd_data b f) (thn (bwrite b) (brelse b)) t = Ret () u \<and> quiet_cache dev u \<and>
        disk u = (disk s)(bno := f (disk s bno)) \<and>
        (\<forall>j. \<exists>c v. bread dev j u = Ret c v \<and> bdata (bufs v ! c) = (if j = bno then f (disk s bno) else disk s j)))"
proof -
  have q: "cache_ok dev s {}" "calm s" "held s = {}" using assms(1) by (auto simp: quiet_cache_def calm_def)
  obtain b t where t: "bread dev bno s = Ret b t" "cache_ok dev t (insert b {})"
    "blockno (bufs t ! b) = bno" "bdata (bufs t ! b) = disk s bno"
    using bread_spec [OF q(1,3)] by (metis NBUF_pos card.empty not_held_empty)
  obtain u where u: "modify_block dev bno f s = Ret () u" "quiet_cache dev u" "disk u = (disk s)(bno := f (disk s bno))"
    using blocks.md_view [of dev s f bno] assms by blast
  have run: "thn (upd_data b f) (thn (bwrite b) (brelse b)) t = Ret () u"
    using u(1) t(1) by (simp add: modify_block_def bnd_apply)
  have "\<exists>c v. bread dev j u = Ret c v \<and> bdata (bufs v ! c) = (if j = bno then f (disk s bno) else disk s j)" for j
  proof -
    have "cache_ok dev u {}" "held u = {}" using u(2) by (auto simp: quiet_cache_def calm_def)
    then obtain c v where "bread dev j u = Ret c v" "bdata (bufs v ! c) = disk u j"
      using bread_spec [of dev u "{}" j] by (metis NBUF_pos card.empty not_held_empty)
    then show ?thesis using u(3) by auto
  qed
  with t u run held_owns [OF t(2)] show ?thesis by blast
qed

lemma demo_bio_quiet: "quiet_cache 1 demo_bio"
proof -
  have "set (procs demo_bio) \<subseteq> insert (idle_proc\<lparr>pid := 1, pstate := RUNNING\<rparr>) (set (replicate NPROC idle_proc))"
    by (simp add: demos set_update_subset_insert)
  then have "set (procs demo_bio) \<subseteq> {idle_proc, idle_proc\<lparr>pid := 1, pstate := RUNNING\<rparr>}"
    by (auto simp: NPROC_def)
  moreover have "pstate idle_proc \<noteq> SLEEPING" by (simp add: idle_proc_def)
  ultimately have "calm demo_bio" by (force simp: calm_def demos)
  moreover have "cache_ok 1 demo_bio {}"
    by (simp add: cache_ok_def demos idle_buf_def zero_buf_def atLeast0LessThan)
  ultimately show ?thesis by (simp add: quiet_cache_def)
qed

lemma cache_transparent_witness:
  "\<exists>b t. bread 1 5 demo_bio = Ret b t \<and> bdata (bufs t ! b) = replicate BSIZE 0 \<and>
     (\<exists>u. thn (upd_data b (\<lambda>_. replicate BSIZE 7)) (thn (bwrite b) (brelse b)) t = Ret () u \<and>
        disk u 5 = replicate BSIZE 7 \<and> disk u 6 = replicate BSIZE 0)"
proof -
  have "disk demo_bio = (\<lambda>_. replicate BSIZE 0)" by (simp add: demos)
  then show ?thesis
    using cache_transparent [OF demo_bio_quiet, of "\<lambda>_. replicate BSIZE 7" 5] by auto
qed

subsection \<open>The cache with contention\<close>

text \<open>
  Every step of a process in the cache: a call that returns, or that stops at a point where the
  process sleeps, and the continuation of such a call; any step elsewhere in the kernel leaves
  buffers and recency list alone.
\<close>

inductive cache_op :: "bio_st \<Rightarrow> bio_st \<Rightarrow> bool" where
  op_bread: "dev \<noteq> 0 \<Longrightarrow> after (bread dev bno) s t \<Longrightarrow> cache_op s t"
| op_bread_resume: "b < NBUF \<Longrightarrow> after (bread_resume b) s t \<Longrightarrow> cache_op s t"
| op_data: "b < NBUF \<Longrightarrow> after (upd_data b f) s t \<Longrightarrow> cache_op s t"
| op_bwrite: "b < NBUF \<Longrightarrow> after (bwrite b) s t \<Longrightarrow> cache_op s t"
| op_brelse: "b < NBUF \<Longrightarrow> after (brelse b) s t \<Longrightarrow> cache_op s t"
| op_else: "bufs t = bufs s \<Longrightarrow> lru t = lru s \<Longrightarrow> cache_op s t"

definition cache_start :: "bio_st \<Rightarrow> bool" where
  "cache_start t \<longleftrightarrow> (\<exists>s. bufs s = replicate NBUF zero_buf \<and> binit s = Ret () t)"

definition cache_inv :: "'z bio_st_scheme \<Rightarrow> bool" where
  "cache_inv s \<longleftrightarrow> length (bufs s) = NBUF \<and> distinct (lru s) \<and> set (lru s) = {..<NBUF} \<and>
     (\<forall>b < NBUF. \<forall>c < NBUF. bdev (bufs s ! b) \<noteq> 0 \<longrightarrow> bdev (bufs s ! b) = bdev (bufs s ! c) \<longrightarrow>
        blockno (bufs s ! b) = blockno (bufs s ! c) \<longrightarrow> b = c)"

definition same_keys :: "'z bio_st_scheme \<Rightarrow> 'z bio_st_scheme \<Rightarrow> bool" where
  "same_keys s t \<longleftrightarrow> lru t = lru s \<and> length (bufs t) = length (bufs s) \<and>
     (\<forall>b. bdev (bufs t ! b) = bdev (bufs s ! b) \<and> blockno (bufs t ! b) = blockno (bufs s ! b))"

interpretation keys: proc_frame same_keys
  by unfold_locales (simp_all add: same_keys_def)

lemma same_keys_inv: "same_keys s t \<Longrightarrow> cache_inv s \<Longrightarrow> cache_inv t"
  by (simp add: same_keys_def cache_inv_def)

lemma same_keys_upd:
  assumes "\<And>q. bdev (f q) = bdev q" and "\<And>q. blockno (f q) = blockno q"
  shows "same_keys s (s\<lparr>bufs := (bufs s)[b := f (bufs s ! b)]\<rparr>)"
proof -
  have "(bufs s)[b := f (bufs s ! b)] ! c = (if c = b \<and> b < length (bufs s) then f (bufs s ! b) else bufs s ! c)" for c
    by (cases "b < length (bufs s)") (simp_all add: nth_list_update not_less list_update_beyond)
  then show ?thesis by (simp add: same_keys_def assms)
qed

lemma steps_upd_buf:
  "(\<And>q. bdev (f q) = bdev q) \<Longrightarrow> (\<And>q. blockno (f q) = blockno q) \<Longrightarrow> steps same_keys (upd_buf b f)"
  unfolding upd_buf_def by (intro keys.steps_modify same_keys_upd)

lemma same_keys_slocks: "same_keys s (s\<lparr>slocks := K\<rparr>)" "same_keys s (s\<lparr>disk := D\<rparr>)"
  by (simp_all add: same_keys_def)

lemma steps_slock: "steps same_keys (set_slock l k)"
  unfolding set_slock_def by (intro keys.steps_modify same_keys_slocks)

lemmas keys_steps = keys.steps_comp keys.steps_base keys.steps_proc steps_slock

lemma steps_sleeplock:
  "steps same_keys (sl_holding_locked l)" "steps same_keys (acquiresleep_loop l)"
  unfolding sl_holding_locked_def acquiresleep_loop_def by (intro keys_steps)+

lemma steps_sleeplocks:
  "steps same_keys (acquiresleep l)" "steps same_keys (acquiresleep_resume l)"
  "steps same_keys (releasesleep l)" "steps same_keys (holdingsleep l)"
  unfolding acquiresleep_def acquiresleep_resume_def releasesleep_def holdingsleep_def
  by (intro keys_steps steps_sleeplock)+

lemma steps_disk_rw: "steps same_keys (disk_rw b w)"
  unfolding disk_rw_def by (intro keys_steps keys.steps_modify same_keys_slocks steps_upd_buf) simp_all

lemma steps_bread_fill: "steps same_keys (bread_fill b)" "steps same_keys (bread_resume b)"
  unfolding bread_resume_def bread_fill_def get_buf_def
  by (intro keys_steps steps_disk_rw steps_upd_buf steps_sleeplocks; simp)+

lemma steps_bwrite: "steps same_keys (bwrite b)" "steps same_keys (upd_data b f)"
  unfolding bwrite_def upd_data_def
  by (intro keys_steps steps_disk_rw steps_upd_buf steps_sleeplocks; simp)+

text \<open>The two operations that do change the keys or the recency list do so in one critical section.\<close>

lemma bget_split:
  assumes "after (bget dev bno) s t" and "cache_inv s" and "dev \<noteq> 0"
  shows "cache_inv t"
proof -
  have len: "length (bufs s) = NBUF" "set (lru s) = {..<NBUF}" using assms(2) by (auto simp: cache_inv_def)
  have fin: "cache_inv t" if "after (thn (release BcacheLock) (thn (acquiresleep (BufLock b)) (ret b))) u t" "cache_inv u"
    for b u
  proof -
    have "steps same_keys (thn (release BcacheLock) (thn (acquiresleep (BufLock b)) (ret b)))"
      by (intro keys_steps steps_sleeplocks)
    from same_keys_inv [OF stepsD [OF this that(1)] that(2)] show ?thesis .
  qed
  let ?u = "s\<lparr>held := insert BcacheLock (held s)\<rparr>"
  have inv: "cache_inv ?u" using assms(2) by (simp add: cache_inv_def)
  show ?thesis
  proof (cases "BcacheLock \<in> held s")
    case True
    with assms(1) show ?thesis by (simp add: after_def bget_def run_simps acquire_def)
  next
    case False
    let ?P = "\<lambda>b. bdev (bufs s ! b) = dev \<and> blockno (bufs s ! b) = bno"
    show ?thesis
    proof (cases "find ?P (lru s)")
      case (Some b)
      let ?v = "?u\<lparr>bufs := (bufs ?u)[b := (bufs ?u ! b)\<lparr>refcnt := refcnt (bufs ?u ! b) + 1\<rparr>]\<rparr>"
      have "after (thn (release BcacheLock) (thn (acquiresleep (BufLock b)) (ret b))) ?v t"
        using assms(1) Some False by (simp add: after_def bget_def run_simps)
      moreover have "cache_inv ?v"
        by (rule same_keys_inv [OF same_keys_upd inv]) simp_all
      ultimately show ?thesis by (rule fin)
    next
      case None
      then have miss: "\<not> ?P c" if "c < NBUF" for c using that len(2) by (auto simp: find_None_iff)
      show ?thesis
      proof (cases "find (\<lambda>b. refcnt (bufs s ! b) = 0) (rev (lru s))")
        case None': None
        with assms(1) None False show ?thesis by (simp add: after_def bget_def run_simps)
      next
        case (Some b)
        let ?v = "?u\<lparr>bufs := (bufs ?u)[b := (bufs ?u ! b)\<lparr>bdev := dev, blockno := bno, bvalid := False, refcnt := 1\<rparr>]\<rparr>"
        have b: "b < NBUF" using find_SomeD [OF Some] len(2) by auto
        have "after (thn (release BcacheLock) (thn (acquiresleep (BufLock b)) (ret b))) ?v t"
          using assms(1) None Some False by (simp add: after_def bget_def run_simps)
        moreover have "cache_inv ?v"
        proof -
          have nth: "bufs ?v ! c = (if c = b then (bufs s ! b)\<lparr>bdev := dev, blockno := bno, bvalid := False, refcnt := 1\<rparr> else bufs s ! c)" for c
            using b len(1) by (simp add: nth_list_update)
          have "c = d" if A: "c < NBUF" "d < NBUF" "bdev (bufs ?v ! c) \<noteq> 0" "bdev (bufs ?v ! c) = bdev (bufs ?v ! d)"
            "blockno (bufs ?v ! c) = blockno (bufs ?v ! d)" for c d
          proof (cases "c = b"; cases "d = b")
            assume "c \<noteq> b" "d \<noteq> b"
            then show ?thesis using A assms(2) unfolding cache_inv_def nth by simp
          next
            assume "c = b" "d \<noteq> b"
            then have False using A miss [of d] unfolding nth by simp
            then show ?thesis ..
          next
            assume "c \<noteq> b" "d = b"
            then have False using A miss [of c] unfolding nth by simp
            then show ?thesis ..
          qed simp
          then show ?thesis using inv len(1) unfolding cache_inv_def by simp
        qed
        ultimately show ?thesis by (rule fin)
      qed
    qed
  qed
qed

lemma cache_inv_lru:
  "cache_inv s \<Longrightarrow> b < NBUF \<Longrightarrow> cache_inv (s\<lparr>lru := move_front b (lru s)\<rparr>)"
  by (auto simp: cache_inv_def set_move_front distinct_move_front)

definition keeps_cache :: "'z bio_st_scheme \<Rightarrow> 'z bio_st_scheme \<Rightarrow> bool" where
  "keeps_cache s t \<longleftrightarrow> (cache_inv s \<longrightarrow> cache_inv t)"

lemma cache_inv_fields:
  "cache_inv (s\<lparr>held := H\<rparr>) = cache_inv s" "cache_inv (s\<lparr>procs := P\<rparr>) = cache_inv s"
  "cache_inv (s\<lparr>cur := c\<rparr>) = cache_inv s"
  by (simp_all only: cache_inv_def bio_st.simps sleep_st.simps) simp_all

interpretation kept: proc_frame keeps_cache
  by unfold_locales (simp_all add: keeps_cache_def cache_inv_fields)

lemma keys_kept: "steps same_keys m \<Longrightarrow> steps keeps_cache m"
  using same_keys_inv by (auto simp: steps_def keeps_cache_def)

lemma steps_drop_ref: "steps keeps_cache (upd_buf b (\<lambda>q. q\<lparr>refcnt := refcnt q - 1\<rparr>))"
  by (rule keys_kept, rule steps_upd_buf) simp_all

lemma steps_to_front: "b < NBUF \<Longrightarrow> steps keeps_cache (modify (\<lambda>s. s\<lparr>lru := move_front b (lru s)\<rparr>))"
  by (rule kept.steps_modify) (simp add: keeps_cache_def cache_inv_lru)

lemma brelse_inv: "b < NBUF \<Longrightarrow> steps keeps_cache (brelse b)"
  unfolding brelse_def get_buf_def
  by (intro kept.steps_comp kept.steps_base kept.steps_proc keys_kept [OF steps_sleeplocks(3)]
      keys_kept [OF steps_sleeplocks(4)] steps_drop_ref steps_to_front)

lemma cache_op_inv: "cache_op s t \<Longrightarrow> cache_inv s \<Longrightarrow> cache_inv t"
proof (induction rule: cache_op.induct)
  case (op_bread dev bno s t)
  from after_bnd [OF op_bread(2) [unfolded bread_def]] show ?case
  proof
    assume "after (bget dev bno) s t"
    from bget_split [OF this op_bread(3,1)] show ?thesis .
  next
    assume "\<exists>v u. bget dev bno s = Ret v u \<and> after (bread_fill v) u t"
    then obtain v u where u: "bget dev bno s = Ret v u" "after (bread_fill v) u t" by blast
    then have "after (bget dev bno) s u" by (auto simp: after_def)
    from bget_split [OF this op_bread(3,1)] have "cache_inv u" .
    with stepsD [OF steps_bread_fill(1) u(2)] show ?thesis by (rule same_keys_inv)
  qed
next
  case (op_bread_resume b s t)
  from same_keys_inv [OF stepsD [OF steps_bread_fill(2) op_bread_resume(2)] op_bread_resume(3)] show ?case .
next
  case (op_data b f s t)
  from same_keys_inv [OF stepsD [OF steps_bwrite(2) op_data(2)] op_data(3)] show ?case .
next
  case (op_bwrite b s t)
  from same_keys_inv [OF stepsD [OF steps_bwrite(1) op_bwrite(2)] op_bwrite(3)] show ?case .
next
  case (op_brelse b s t)
  from stepsD [OF brelse_inv [OF op_brelse(1)] op_brelse(2)] op_brelse(3) show ?case by (simp add: keeps_cache_def)
next
  case (op_else t s)
  then show ?case by (simp add: cache_inv_def)
qed

lemma binit_list:
  "for_each is (\<lambda>b. thn (set_slock (BufLock b) initsleeplock) (modify (\<lambda>s. s\<lparr>lru := b # lru s\<rparr>))) s = Ret () t \<Longrightarrow>
     lru t = rev is @ lru s \<and> bufs t = bufs s"
  by (induction "is" arbitrary: s) auto

lemma cache_start_inv: "cache_start t \<Longrightarrow> cache_inv t"
proof -
  assume "cache_start t"
  then obtain s where "bufs s = replicate NBUF zero_buf" "binit s = Ret () t" by (auto simp: cache_start_def)
  then have "bufs t = replicate NBUF zero_buf" "lru t = rev [0..<NBUF]"
    using binit_list [of "[0..<NBUF]" "s\<lparr>lru := []\<rparr>" t] by (simp_all add: binit_def)
  then show ?thesis by (auto simp: cache_inv_def zero_buf_def)
qed

interpretation bcache: safe_system cache_start cache_op cache_inv
  by unfold_locales (auto intro: cache_start_inv cache_op_inv)


lemma binit_again:
  "slocks s = (\<lambda>_. initsleeplock) \<Longrightarrow>
     for_each is (\<lambda>b. thn (set_slock (BufLock b) initsleeplock) (modify (\<lambda>s. s\<lparr>lru := b # lru s\<rparr>))) s =
     Ret () (s\<lparr>lru := rev is @ lru s\<rparr>)"
proof (induction "is" arbitrary: s)
  case (Cons i "is")
  have "(slocks s)(BufLock i := initsleeplock) = slocks s" using Cons.prems by auto
  then have "s\<lparr>slocks := (slocks s)(BufLock i := initsleeplock), lru := L\<rparr> = s\<lparr>lru := L\<rparr>" for L by simp
  with Cons show ?case by (simp add: run_simps)
qed simp


end
