(* ===== verification/Virtio.thy ===== *)
theory Virtio
  imports Bio
begin

section \<open>The disk driver: \<^verbatim>\<open>kernel/drivers/virtio_disk.c\<close>\<close>

text \<open>
  The driver's state is \<open>struct disk\<close>: the descriptor table, the two rings it shares with the
  device, the free flags and the table of requests in flight. A DMA address names the object it
  points to. The memory barriers have no effect in a model whose steps are atomic. The values read
  from the device's registers are a parameter \<open>hw\<close> (each register the code reads is read once, and
  reading has no effect); the writes are logged in \<open>mmio\<close>. The device itself is not modelled:
  what the driver relies on is stated where it is used, as a hypothesis on the device's step.
\<close>

definition NUM :: nat where "NUM = 8"

datatype dma = NoAddr | OpsOf nat | DataOf nat | StatusOf nat

record vq_desc =
  vd_addr :: dma
  vd_len :: u32
  vd_flags :: u16
  vd_next :: u16

definition VIRTQ_DESC_F_NEXT :: u16 where "VIRTQ_DESC_F_NEXT = 1"

definition VIRTQ_DESC_F_WRITE :: u16 where "VIRTQ_DESC_F_WRITE = 2"

definition VIRTIO_BLK_T_IN :: u32 where "VIRTIO_BLK_T_IN = 0"

definition VIRTIO_BLK_T_OUT :: u32 where "VIRTIO_BLK_T_OUT = 1"

record blk_req =
  rq_type :: u32
  rq_reserved :: u32
  rq_sector :: u64

record virtio_st = bio_st +
  desc :: "vq_desc list"
  avail_idx :: u16
  avail_ring :: "u16 list"
  dev_idx :: u16
  dev_ring :: "u32 list"
  dfree :: "bool list"
  used_idx :: u16
  info_b :: "nat option list"
  info_status :: "u8 list"
  vops :: "blk_req list"
  on_disk :: "nat \<Rightarrow> bool"
  mmio :: "(u32 \<times> u32) list"

definition no_desc :: vq_desc where
  "no_desc = \<lparr>vd_addr = NoAddr, vd_len = 0, vd_flags = 0, vd_next = 0\<rparr>"

subsection \<open>Descriptors\<close>

definition alloc_desc :: "('z virtio_st_scheme, nat option) kern" where
  "alloc_desc =
     bnd (gets (\<lambda>s. find (\<lambda>i. dfree s ! i) [0..<NUM])) (\<lambda>r. case r of
       Some i \<Rightarrow> thn (modify (\<lambda>s. s\<lparr>dfree := (dfree s)[i := False]\<rparr>)) (ret (Some i))
     | None \<Rightarrow> ret None)"

definition free_desc :: "nat \<Rightarrow> ('z virtio_st_scheme, unit) kern" where
  "free_desc i =
     (if NUM \<le> i then panic ''free_desc 1''
      else
        bnd (gets (\<lambda>s. dfree s ! i)) (\<lambda>f.
        if f then panic ''free_desc 2''
        else
          thn (modify (\<lambda>s. s\<lparr>desc := (desc s)[i := no_desc]\<rparr>))
          (thn (modify (\<lambda>s. s\<lparr>dfree := (dfree s)[i := True]\<rparr>))
          (wakeup ChDiskFree))))"

text \<open>
  \<open>free_chain\<close>: each turn of the loop frees a descriptor that was not free, so the turn after
  the last of the \<open>NUM\<close> panics at the latest and the bound on the turns is never what ends it.
\<close>

fun free_chain_from :: "nat \<Rightarrow> nat \<Rightarrow> ('z virtio_st_scheme, unit) kern" where
  "free_chain_from 0 i = panic ''free_desc 2''"
| "free_chain_from (Suc k) i =
     bnd (gets (\<lambda>s. vd_flags (desc s ! i))) (\<lambda>flag.
     bnd (gets (\<lambda>s. vd_next (desc s ! i))) (\<lambda>next.
     thn (free_desc i)
     (if flag AND VIRTQ_DESC_F_NEXT \<noteq> 0 then free_chain_from k (unat next) else ret ())))"

definition free_chain :: "nat \<Rightarrow> ('z virtio_st_scheme, unit) kern" where
  "free_chain i = free_chain_from (NUM + 1) i"

fun alloc_descs :: "nat \<Rightarrow> nat list \<Rightarrow> ('z virtio_st_scheme, nat list option) kern" where
  "alloc_descs 0 idx = ret (Some idx)"
| "alloc_descs (Suc k) idx =
     bnd alloc_desc (\<lambda>r. case r of
       Some i \<Rightarrow> alloc_descs k (idx @ [i])
     | None \<Rightarrow> thn (for_each idx free_desc) (ret None))"

definition alloc3_desc :: "('z virtio_st_scheme, nat list option) kern" where
  "alloc3_desc = alloc_descs 3 []"

subsection \<open>Requests\<close>

text \<open>
  \<open>complete_used_locked\<close>: the driver's index runs after the device's; as both are 16 bits wide
  the loop makes as many turns as their difference says, the entries the device adds meanwhile
  being left to the next call.
\<close>

definition complete_one :: "('z virtio_st_scheme, unit) kern" where
  "complete_one =
     bnd (gets (\<lambda>s. sint (dev_ring s ! (unat (used_idx s) mod NUM)))) (\<lambda>id.
     if id < 0 \<or> int NUM \<le> id then panic ''virtio used id''
     else
       bnd (gets (\<lambda>s. info_status s ! nat id)) (\<lambda>st.
       if st \<noteq> 0 then panic ''virtio_disk_intr status''
       else
         bnd (gets (\<lambda>s. info_b s ! nat id)) (\<lambda>r. case r of
           None \<Rightarrow> panic ''virtio_disk_intr buf''
         | Some b \<Rightarrow>
             thn (modify (\<lambda>s. s\<lparr>on_disk := (on_disk s)(b := False)\<rparr>))
             (thn (wakeup (ChBuf b))
             (modify (\<lambda>s. s\<lparr>used_idx := used_idx s + 1\<rparr>))))))"

definition complete_used_locked :: "('z virtio_st_scheme, unit) kern" where
  "complete_used_locked =
     bnd (gets (\<lambda>s. unat (dev_idx s - used_idx s))) (\<lambda>n. for_each [0..<n] (\<lambda>_. complete_one))"

definition write_reg :: "u32 \<Rightarrow> u32 \<Rightarrow> ('z virtio_st_scheme, unit) kern" where
  "write_reg r v = modify (\<lambda>s. s\<lparr>mmio := mmio s @ [(r, v)]\<rparr>)"

definition set_desc :: "nat \<Rightarrow> vq_desc \<Rightarrow> ('z virtio_st_scheme, unit) kern" where
  "set_desc i d = modify (\<lambda>s. s\<lparr>desc := (desc s)[i := d]\<rparr>)"

definition QUEUE_NOTIFY :: u32 where "QUEUE_NOTIFY = 0x050"

text \<open>Filling in a request and handing it to the device.\<close>

definition rw_submit :: "nat \<Rightarrow> bool \<Rightarrow> nat list \<Rightarrow> ('z virtio_st_scheme, unit) kern" where
  "rw_submit b write idx =
     (let i0 = idx ! 0; i1 = idx ! 1; i2 = idx ! 2 in
     bnd (get_buf b (\<lambda>q. ucast (blockno q * of_nat (BSIZE div 512)))) (\<lambda>sector.
     thn (modify (\<lambda>s. s\<lparr>vops := (vops s)[i0 := \<lparr>rq_type = (if write then VIRTIO_BLK_T_OUT else VIRTIO_BLK_T_IN),
       rq_reserved = 0, rq_sector = sector\<rparr>]\<rparr>))
     (thn (set_desc i0 \<lparr>vd_addr = OpsOf i0, vd_len = 16, vd_flags = VIRTQ_DESC_F_NEXT, vd_next = of_nat i1\<rparr>)
     (thn (set_desc i1 \<lparr>vd_addr = DataOf b, vd_len = of_nat BSIZE,
       vd_flags = (if write then 0 else VIRTQ_DESC_F_WRITE) OR VIRTQ_DESC_F_NEXT, vd_next = of_nat i2\<rparr>)
     (thn (modify (\<lambda>s. s\<lparr>info_status := (info_status s)[i0 := 255]\<rparr>))
     (thn (set_desc i2 \<lparr>vd_addr = StatusOf i0, vd_len = 1, vd_flags = VIRTQ_DESC_F_WRITE, vd_next = 0\<rparr>)
     (thn (modify (\<lambda>s. s\<lparr>on_disk := (on_disk s)(b := True)\<rparr>))
     (thn (modify (\<lambda>s. s\<lparr>info_b := (info_b s)[i0 := Some b]\<rparr>))
     (thn (modify (\<lambda>s. s\<lparr>avail_ring := (avail_ring s)[unat (avail_idx s) mod NUM := of_nat i0]\<rparr>))
     (thn (modify (\<lambda>s. s\<lparr>avail_idx := avail_idx s + 1\<rparr>))
     (write_reg QUEUE_NOTIFY 0)))))))))))"

definition rw_finish :: "nat \<Rightarrow> ('z virtio_st_scheme, unit) kern" where
  "rw_finish i0 =
     thn (modify (\<lambda>s. s\<lparr>info_b := (info_b s)[i0 := None]\<rparr>))
     (thn (free_chain i0)
     (release DiskLock))"

text \<open>
  A process sleeps for the device; early in the boot, with no process, the loops poll the rings
  instead. A poll that has to go on is the outcome \<open>Leaves\<close>: the call is still in its loop, and its
  next turn is the same definition again.
\<close>

definition spin :: "('s, 'a) kern" where
  "spin = (\<lambda>s. Leaves s)"

definition rw_wait :: "nat option \<Rightarrow> nat \<Rightarrow> nat \<Rightarrow> ('z virtio_st_scheme, unit) kern" where
  "rw_wait me b i0 =
     bnd (gets (\<lambda>s. on_disk s b)) (\<lambda>busy.
     if \<not> busy then rw_finish i0
     else case me of
       None \<Rightarrow>
         thn complete_used_locked
         (bnd (gets (\<lambda>s. on_disk s b)) (\<lambda>busy.
         if busy then spin else rw_finish i0))
     | Some _ \<Rightarrow> sleep (ChBuf b) DiskLock)"

definition rw_wait_resume :: "nat option \<Rightarrow> nat \<Rightarrow> nat \<Rightarrow> ('z virtio_st_scheme, unit) kern" where
  "rw_wait_resume me b i0 = thn (sleep_resume DiskLock) (rw_wait me b i0)"

definition rw_start :: "nat option \<Rightarrow> nat \<Rightarrow> bool \<Rightarrow> ('z virtio_st_scheme, unit) kern" where
  "rw_start me b write =
     bnd alloc3_desc (\<lambda>r. case r of
       None \<Rightarrow> (case me of
           None \<Rightarrow> thn complete_used_locked spin
         | Some _ \<Rightarrow> sleep ChDiskFree DiskLock)
     | Some idx \<Rightarrow> thn (rw_submit b write idx) (rw_wait me b (idx ! 0)))"

definition rw_start_resume :: "nat option \<Rightarrow> nat \<Rightarrow> bool \<Rightarrow> ('z virtio_st_scheme, unit) kern" where
  "rw_start_resume me b write = thn (sleep_resume DiskLock) (rw_start me b write)"

definition virtio_disk_rw :: "nat \<Rightarrow> bool \<Rightarrow> ('z virtio_st_scheme, unit) kern" where
  "virtio_disk_rw b write =
     bnd myproc (\<lambda>me.
     thn (acquire DiskLock)
     (rw_start me b write))"

definition INTERRUPT_STATUS :: u32 where "INTERRUPT_STATUS = 0x060"

definition INTERRUPT_ACK :: u32 where "INTERRUPT_ACK = 0x064"

definition virtio_disk_isr :: "(u32 \<Rightarrow> u32) \<Rightarrow> ('z virtio_st_scheme, unit) kern" where
  "virtio_disk_isr hw =
     thn (acquire DiskLock)
     (thn (write_reg INTERRUPT_ACK (hw INTERRUPT_STATUS AND 3))
     (thn complete_used_locked
     (release DiskLock)))"

subsection \<open>Initialisation\<close>

definition MAGIC_VALUE :: u32 where "MAGIC_VALUE = 0x000"
definition VERSION :: u32 where "VERSION = 0x004"
definition DEVICE_ID :: u32 where "DEVICE_ID = 0x008"
definition VENDOR_ID :: u32 where "VENDOR_ID = 0x00c"
definition DEVICE_FEATURES :: u32 where "DEVICE_FEATURES = 0x010"
definition DRIVER_FEATURES :: u32 where "DRIVER_FEATURES = 0x020"
definition QUEUE_SEL :: u32 where "QUEUE_SEL = 0x030"
definition QUEUE_NUM_MAX :: u32 where "QUEUE_NUM_MAX = 0x034"
definition QUEUE_NUM :: u32 where "QUEUE_NUM = 0x038"
definition QUEUE_READY :: u32 where "QUEUE_READY = 0x044"
definition STATUS :: u32 where "STATUS = 0x070"
definition QUEUE_DESC_LOW :: u32 where "QUEUE_DESC_LOW = 0x080"
definition QUEUE_DESC_HIGH :: u32 where "QUEUE_DESC_HIGH = 0x084"
definition QUEUE_DRIVER_LOW :: u32 where "QUEUE_DRIVER_LOW = 0x090"
definition QUEUE_DRIVER_HIGH :: u32 where "QUEUE_DRIVER_HIGH = 0x094"
definition QUEUE_DEVICE_LOW :: u32 where "QUEUE_DEVICE_LOW = 0x0a0"
definition QUEUE_DEVICE_HIGH :: u32 where "QUEUE_DEVICE_HIGH = 0x0a4"

definition STATUS_ACKNOWLEDGE :: u32 where "STATUS_ACKNOWLEDGE = 1"
definition STATUS_DRIVER :: u32 where "STATUS_DRIVER = 2"
definition STATUS_DRIVER_OK :: u32 where "STATUS_DRIVER_OK = 4"
definition STATUS_FEATURES_OK :: u32 where "STATUS_FEATURES_OK = 8"

text \<open>The feature bits the driver declines.\<close>

definition declined :: "nat list" where
  "declined = [5, 7, 11, 12, 27, 29, 28]"

definition accept_features :: "u32 \<Rightarrow> u64" where
  "accept_features f = fold (\<lambda>n x. x AND NOT (push_bit n 1)) declined (ucast f)"

definition write_reg64 :: "u32 \<Rightarrow> u32 \<Rightarrow> u64 \<Rightarrow> ('z virtio_st_scheme, unit) kern" where
  "write_reg64 low high v = thn (write_reg low (ucast v)) (write_reg high (ucast (drop_bit 32 v)))"

definition reset_rings :: "('z virtio_st_scheme, unit) kern" where
  "reset_rings = modify (\<lambda>s. s\<lparr>desc := replicate NUM no_desc, avail_idx := 0, avail_ring := replicate NUM 0,
     dev_idx := 0, dev_ring := replicate NUM 0\<rparr>)"

definition virtio_disk_init :: "(u32 \<Rightarrow> u32) \<Rightarrow> u64 \<Rightarrow> ('z virtio_st_scheme, unit) kern" where
  "virtio_disk_init hw pages =
     (if hw MAGIC_VALUE \<noteq> 0x74726976 \<or> hw VERSION \<noteq> 2 \<or> hw DEVICE_ID \<noteq> 2 \<or> hw VENDOR_ID \<noteq> 0x554d4551
      then panic ''could not find virtio disk''
      else
        let status = STATUS_ACKNOWLEDGE in
        thn (write_reg STATUS 0)
        (thn (write_reg STATUS status)
        (let status = status OR STATUS_DRIVER in
        thn (write_reg STATUS status)
        (thn (write_reg DRIVER_FEATURES (ucast (accept_features (hw DEVICE_FEATURES))))
        (let status = status OR STATUS_FEATURES_OK in
        thn (write_reg STATUS status)
        (if hw STATUS AND STATUS_FEATURES_OK = 0 then panic ''virtio disk FEATURES_OK unset''
         else
           thn (write_reg QUEUE_SEL 0)
           (if hw QUEUE_READY \<noteq> 0 then panic ''virtio disk should not be ready''
            else if hw QUEUE_NUM_MAX = 0 then panic ''virtio disk has no queue 0''
            else if hw QUEUE_NUM_MAX < of_nat NUM then panic ''virtio disk max queue too short''
            else
              thn (write_reg QUEUE_NUM (of_nat NUM))
              (thn reset_rings
              (thn (write_reg64 QUEUE_DESC_LOW QUEUE_DESC_HIGH pages)
              (thn (write_reg64 QUEUE_DRIVER_LOW QUEUE_DRIVER_HIGH (pages + 0x400))
              (thn (write_reg64 QUEUE_DEVICE_LOW QUEUE_DEVICE_HIGH (pages + 0x800))
              (thn (write_reg QUEUE_READY 1)
              (thn (modify (\<lambda>s. s\<lparr>dfree := replicate NUM True, info_b := replicate NUM None,
                 info_status := replicate NUM 255\<rparr>))
              (let status = status OR STATUS_DRIVER_OK in
              write_reg STATUS status))))))))))))))"

subsection \<open>The driver implements the contract of the buffer cache\<close>

text \<open>
  What a device does with a request whose chain of descriptors starts at \<open>h\<close>: it transfers the
  sector named by request \<open>op\<close> from or to the data of buffer \<open>b\<close>, sets the status byte \<open>st\<close> to 0
  and enters \<open>h\<close> into the used ring.
\<close>

definition served :: "'z virtio_st_scheme \<Rightarrow> nat \<Rightarrow> nat \<Rightarrow> nat \<Rightarrow> nat \<Rightarrow> 'z virtio_st_scheme" where
  "served s h op b st =
     (let sector = ucast (rq_sector (vops s ! op)) in
      (if rq_type (vops s ! op) = VIRTIO_BLK_T_OUT
       then s\<lparr>disk := (disk s)(sector := bdata (bufs s ! b))\<rparr>
       else s\<lparr>bufs := (bufs s)[b := (bufs s ! b)\<lparr>bdata := disk s sector\<rparr>]\<rparr>)
      \<lparr>info_status := (info_status s)[st := 0],
       dev_ring := (dev_ring s)[unat (dev_idx s) mod NUM := of_nat h],
       dev_idx := dev_idx s + 1\<rparr>)"

text \<open>
  The behaviour of the device the driver relies on: with one request available, a chain of three
  descriptors for the request, the data (which the device may write for a read) and the status
  byte, the device serves it.
\<close>

definition virtio_device :: "('z virtio_st_scheme \<Rightarrow> 'z virtio_st_scheme) \<Rightarrow> bool" where
  "virtio_device dev \<longleftrightarrow> (\<forall>s h op b st.
     let d0 = desc s ! h; d1 = desc s ! unat (vd_next d0); d2 = desc s ! unat (vd_next d1) in
     avail_idx s = dev_idx s + 1 \<longrightarrow> h = unat (avail_ring s ! (unat (dev_idx s) mod NUM)) \<longrightarrow>
     vd_addr d0 = OpsOf op \<longrightarrow> vd_addr d1 = DataOf b \<longrightarrow> vd_addr d2 = StatusOf st \<longrightarrow>
     vd_len d0 = 16 \<longrightarrow> vd_len d1 = of_nat BSIZE \<longrightarrow> vd_len d2 = 1 \<longrightarrow>
     vd_flags d0 = VIRTQ_DESC_F_NEXT \<longrightarrow>
     vd_flags d1 = VIRTQ_DESC_F_NEXT OR (if rq_type (vops s ! op) = VIRTIO_BLK_T_OUT then 0 else VIRTQ_DESC_F_WRITE) \<longrightarrow>
     vd_flags d2 = VIRTQ_DESC_F_WRITE \<longrightarrow> dev s = served s h op b st)"

definition vd_quiet :: "'z virtio_st_scheme \<Rightarrow> bool" where
  "vd_quiet s \<longleftrightarrow> dfree s = replicate NUM True \<and> used_idx s = dev_idx s \<and> avail_idx s = dev_idx s \<and>
     length (desc s) = NUM \<and> length (avail_ring s) = NUM \<and> length (dev_ring s) = NUM \<and> length (vops s) = NUM \<and>
     length (info_b s) = NUM \<and> length (info_status s) = NUM"

lemma alloc3_quiet:
  "dfree s = replicate NUM True \<Longrightarrow>
     alloc3_desc s = Ret (Some [0, Suc 0, 2]) (s\<lparr>dfree := (replicate NUM True)[0 := False, Suc 0 := False, 2 := False]\<rparr>)"
  by (simp add: alloc3_desc_def alloc_desc_def run_simps numeral_3_eq_3 numeral_2_eq_2 NUM_def upt_rec nth_Cons')

lemma wakeup_nobody:
  assumes "\<forall>q \<in> set (procs s). \<not> (pstate q = SLEEPING \<and> chan q = Some c)"
    and "length (procs s) = NPROC" and "no_proc_lock (held s)"
  shows "wakeup c s = Ret () s"
proof -
  have "map (wakeup_proc c) (procs s) = procs s" using assms(1) by (intro map_idI) (auto simp: wakeup_proc_def)
  then show ?thesis using assms(2,3) by (simp add: wakeup_eq)
qed

lemma free_desc_taken:
  assumes "i < NUM" and "\<not> dfree s ! i" and "\<forall>q \<in> set (procs s). \<not> (pstate q = SLEEPING \<and> chan q = Some ChDiskFree)"
    and "length (procs s) = NPROC" and "no_proc_lock (held s)"
  shows "free_desc i s = Ret () (s\<lparr>desc := (desc s)[i := no_desc], dfree := (dfree s)[i := True]\<rparr>)"
  using assms by (simp add: free_desc_def run_simps wakeup_nobody)

lemma rw_submit_eq:
  "rw_submit b w [0, Suc 0, 2] s = Ret () (s\<lparr>vops := (vops s)[0 := \<lparr>rq_type = (if w then VIRTIO_BLK_T_OUT else VIRTIO_BLK_T_IN),
       rq_reserved = 0, rq_sector = ucast (blockno (bufs s ! b))\<rparr>],
     desc := (desc s)[0 := \<lparr>vd_addr = OpsOf 0, vd_len = 16, vd_flags = VIRTQ_DESC_F_NEXT, vd_next = 1\<rparr>,
       1 := \<lparr>vd_addr = DataOf b, vd_len = of_nat BSIZE,
         vd_flags = (if w then 0 else VIRTQ_DESC_F_WRITE) OR VIRTQ_DESC_F_NEXT, vd_next = 2\<rparr>,
       2 := \<lparr>vd_addr = StatusOf 0, vd_len = 1, vd_flags = VIRTQ_DESC_F_WRITE, vd_next = 0\<rparr>],
     info_status := (info_status s)[0 := 255], on_disk := (on_disk s)(b := True), info_b := (info_b s)[0 := Some b],
     avail_ring := (avail_ring s)[unat (avail_idx s) mod NUM := 0], avail_idx := avail_idx s + 1,
     mmio := mmio s @ [(QUEUE_NOTIFY, 0)]\<rparr>)"
  by (simp add: rw_submit_def run_simps Let_def set_desc_def write_reg_def get_buf_def BSIZE_def numeral_2_eq_2)

text \<open>Freeing the chain of a finished request.\<close>

lemma free_chain_three:
  assumes "vd_flags (desc s ! 0) = VIRTQ_DESC_F_NEXT" "vd_next (desc s ! 0) = 1"
    and "vd_flags (desc s ! 1) AND VIRTQ_DESC_F_NEXT \<noteq> 0" "vd_next (desc s ! 1) = 2"
    and "vd_flags (desc s ! 2) = VIRTQ_DESC_F_WRITE"
    and "dfree s = (replicate NUM True)[0 := False, Suc 0 := False, 2 := False]"
    and "\<forall>q \<in> set (procs s). \<not> (pstate q = SLEEPING \<and> chan q = Some ChDiskFree)"
    and "length (procs s) = NPROC" and "no_proc_lock (held s)"
  shows "free_chain 0 s = Ret () (s\<lparr>desc := (desc s)[0 := no_desc, 1 := no_desc, 2 := no_desc],
     dfree := replicate NUM True\<rparr>)"
proof -
  have w: "VIRTQ_DESC_F_WRITE AND VIRTQ_DESC_F_NEXT = 0" "VIRTQ_DESC_F_NEXT AND VIRTQ_DESC_F_NEXT \<noteq> 0"
    by (simp_all add: VIRTQ_DESC_F_WRITE_def VIRTQ_DESC_F_NEXT_def)
  have n: "unat (1 :: u16) = 1" "unat (2 :: u16) = 2" "(0 :: nat) < NUM" "(1 :: nat) < NUM" "(2 :: nat) < NUM"
    by (simp_all add: NUM_def)
  let ?R = "replicate NUM True"
  have r: "\<not> ?R[0 := False, Suc 0 := False, 2 := False] ! 0" "\<not> ?R[0 := False, 1 := False, 2 := False, 0 := True] ! 1"
    "\<not> ?R[0 := False, 1 := False, 2 := False, 0 := True, 1 := True] ! 2"
    "?R[0 := False, 1 := False, 2 := False, 0 := True, 1 := True, 2 := True] = ?R"
    by (simp_all add: NUM_def nth_list_update eval_nat_numeral)
  have f: "free_chain 0 s = free_chain_from (Suc (Suc (Suc (NUM - 2)))) 0 s" by (simp add: free_chain_def NUM_def)
  show ?thesis
    unfolding f using assms w n r
    by (simp add: run_simps free_desc_taken)
qed

definition nobody_waits :: "'z virtio_st_scheme \<Rightarrow> nat \<Rightarrow> bool" where
  "nobody_waits s b \<longleftrightarrow> (\<forall>q \<in> set (procs s). \<not> (pstate q = SLEEPING \<and> chan q \<in> {Some ChDiskFree, Some (ChBuf b)}))"

text \<open>The four stages of a request: submission, service, interrupt, and the end of the call.\<close>

definition submitted :: "nat \<Rightarrow> bool \<Rightarrow> 'z virtio_st_scheme \<Rightarrow> 'z virtio_st_scheme \<Rightarrow> bool" where
  "submitted b w s t \<longleftrightarrow>
     rq_type (vops t ! 0) = (if w then VIRTIO_BLK_T_OUT else VIRTIO_BLK_T_IN) \<and>
     rq_sector (vops t ! 0) = ucast (blockno (bufs s ! b)) \<and>
     desc t ! 0 = \<lparr>vd_addr = OpsOf 0, vd_len = 16, vd_flags = VIRTQ_DESC_F_NEXT, vd_next = 1\<rparr> \<and>
     desc t ! 1 = \<lparr>vd_addr = DataOf b, vd_len = of_nat BSIZE,
       vd_flags = VIRTQ_DESC_F_NEXT OR (if w then 0 else VIRTQ_DESC_F_WRITE), vd_next = 2\<rparr> \<and>
     desc t ! 2 = \<lparr>vd_addr = StatusOf 0, vd_len = 1, vd_flags = VIRTQ_DESC_F_WRITE, vd_next = 0\<rparr> \<and>
     dfree t = (replicate NUM True)[0 := False, Suc 0 := False, 2 := False] \<and>
     info_b t ! 0 = Some b \<and> avail_ring t ! (unat (dev_idx t) mod NUM) = 0 \<and>
     avail_idx t = dev_idx t + 1 \<and> used_idx t = dev_idx t \<and> length (desc t) = NUM \<and>
     length (avail_ring t) = NUM \<and> length (dev_ring t) = NUM \<and> length (vops t) = NUM \<and>
     length (info_b t) = NUM \<and> length (info_status t) = NUM \<and> on_disk t b"

lemma submit_runs:
  assumes "vd_quiet s" and "cur s = Some p" and "p < NPROC" and "length (procs s) = NPROC" and "held s = {}"
  obtains t where "virtio_disk_rw b w s = Sleeps (ChBuf b) t" "submitted b w s t"
    "held t = {}" "cur t = None" "procs t = (procs s)[p := (procs s ! p)\<lparr>chan := Some (ChBuf b), pstate := SLEEPING\<rparr>]"
    "bio_st.truncate (t\<lparr>cur := cur s, procs := procs s\<rparr>) = bio_st.truncate s"
proof -
  let ?s1 = "s\<lparr>held := {DiskLock}, dfree := (replicate NUM True)[0 := False, Suc 0 := False, 2 := False]\<rparr>"
  obtain u where u: "rw_submit b w [0, Suc 0, 2] ?s1 = Ret () u" by (simp add: rw_submit_eq)
  have fu: "held u = {DiskLock}" "cur u = Some p" "procs u = procs s" "bufs u = bufs s" "disk u = disk s"
    "slocks u = slocks s" "lru u = lru s" "on_disk u b"
    "bio_st.truncate (u\<lparr>held := {}\<rparr>) = bio_st.truncate (s\<lparr>held := {}\<rparr>)"
    using u assms(2) by (auto simp: rw_submit_eq bio_st.truncate_def)
  let ?t = "u\<lparr>held := {}, cur := None, procs := (procs u)[p := (procs u ! p)\<lparr>chan := Some (ChBuf b), pstate := SLEEPING\<rparr>]\<rparr>"
  have sl: "sleep (ChBuf b) DiskLock u = (Sleeps (ChBuf b) ?t :: (unit, 'a virtio_st_scheme) outcome)"
    by (rule sleep_eq) (use fu assms in simp_all)
  have al: "alloc3_desc (s\<lparr>held := {DiskLock}\<rparr>) = Ret (Some [0, Suc 0, 2]) ?s1"
    using alloc3_quiet [of "s\<lparr>held := {DiskLock}\<rparr>"] assms(1) by (simp add: vd_quiet_def)
  have "virtio_disk_rw b w s = rw_start (Some p) b w (s\<lparr>held := {DiskLock}\<rparr>)"
    using assms by (simp add: virtio_disk_rw_def run_simps)
  also have "\<dots> = rw_wait (Some p) b 0 u"
    unfolding rw_start_def bnd_apply al by (simp add: thn_apply u)
  also have "\<dots> = Sleeps (ChBuf b) ?t" using fu(8) by (simp add: rw_wait_def bnd_apply sl)
  finally have run: "virtio_disk_rw b w s = Sleeps (ChBuf b) ?t" .
  have "submitted b w s ?t"
    using u assms(1) by (auto simp: rw_submit_eq submitted_def vd_quiet_def NUM_def nth_list_update or.commute)
  then show thesis
    by (rule that [OF run]) (use fu assms in \<open>simp_all add: bio_st.truncate_def\<close>)
qed

lemma device_serves:
  assumes "virtio_device dev" and "submitted b w s t"
  shows "dev t = served t 0 0 b 0"
proof -
  note S = assms(2) [unfolded submitted_def]
  let ?d0 = "desc t ! 0"
  let ?d1 = "desc t ! unat (vd_next ?d0)"
  have n: "unat (vd_next ?d0) = 1" "unat (vd_next ?d1) = 2" using S by simp_all
  have "VIRTIO_BLK_T_OUT \<noteq> VIRTIO_BLK_T_IN" by (simp add: VIRTIO_BLK_T_OUT_def VIRTIO_BLK_T_IN_def)
  then show ?thesis
    using assms(1) [unfolded virtio_device_def, rule_format, of t 0 0 b 0] S n by (simp add: Let_def)
qed

lemma served_fields:
  "desc (served t h op b st) = desc t" "dfree (served t h op b st) = dfree t" "info_b (served t h op b st) = info_b t"
  "held (served t h op b st) = held t" "cur (served t h op b st) = cur t" "procs (served t h op b st) = procs t"
  "used_idx (served t h op b st) = used_idx t" "avail_idx (served t h op b st) = avail_idx t"
  "avail_ring (served t h op b st) = avail_ring t" "vops (served t h op b st) = vops t"
  "on_disk (served t h op b st) = on_disk t" "dev_idx (served t h op b st) = dev_idx t + 1"
  "info_status (served t h op b st) = (info_status t)[st := 0]"
  "dev_ring (served t h op b st) = (dev_ring t)[unat (dev_idx t) mod NUM := of_nat h]"
  by (simp_all add: served_def Let_def)

lemma isr_runs:
  assumes sub: "submitted b w s t" and held: "held t = {}" and len: "length (procs t) = NPROC"
  shows "\<exists>u. virtio_disk_isr hw (served t 0 0 b 0) = Ret () u \<and> u = (served t 0 0 b 0)\<lparr>
     mmio := mmio (served t 0 0 b 0) @ [(INTERRUPT_ACK, hw INTERRUPT_STATUS AND 3)],
     on_disk := (on_disk t)(b := False), procs := map (wakeup_proc (ChBuf b)) (procs t), used_idx := dev_idx t + 1\<rparr>"
proof -
  note S = sub [unfolded submitted_def]
  have m: "unat (dev_idx t) mod NUM < NUM" by (simp add: NUM_def)
  have idx: "unat (dev_idx t + 1 - dev_idx t) = 1" by simp
  show ?thesis
    using S held len m
    by (simp add: virtio_disk_isr_def run_simps write_reg_def complete_used_locked_def complete_one_def served_fields
        wakeup_eq NUM_def)
qed

lemma wakeup_only:
  assumes "nobody_waits s b" and "p < length (procs s)"
  shows "map (wakeup_proc (ChBuf b)) ((procs s)[p := q\<lparr>chan := Some (ChBuf b), pstate := SLEEPING\<rparr>]) =
    (procs s)[p := q\<lparr>chan := Some (ChBuf b), pstate := RUNNABLE\<rparr>]"
proof -
  have "map (wakeup_proc (ChBuf b)) (procs s) = procs s"
    using assms(1) by (intro map_idI) (auto simp: nobody_waits_def wakeup_proc_def)
  then show ?thesis by (simp add: map_update wakeup_proc_def)
qed

lemma wait_ends:
  assumes "\<not> on_disk s b" and "cur s = Some p" and "p < NPROC" and "length (procs s) = NPROC" and "held s = {ProcLock p}"
    and "\<forall>q \<in> set (procs s). \<not> (pstate q = SLEEPING \<and> chan q = Some ChDiskFree)" and "pstate (procs s ! p) = RUNNING"
    and "vd_flags (desc s ! 0) = VIRTQ_DESC_F_NEXT" "vd_next (desc s ! 0) = 1"
    and "vd_flags (desc s ! 1) AND VIRTQ_DESC_F_NEXT \<noteq> 0" "vd_next (desc s ! 1) = 2"
    and "vd_flags (desc s ! 2) = VIRTQ_DESC_F_WRITE"
    and "dfree s = (replicate NUM True)[0 := False, Suc 0 := False, 2 := False]"
  shows "rw_wait_resume (Some p) b 0 s = Ret () (s\<lparr>held := {}, procs := (procs s)[p := (procs s ! p)\<lparr>chan := None\<rparr>],
     info_b := (info_b s)[0 := None], desc := (desc s)[0 := no_desc, Suc 0 := no_desc, 2 := no_desc],
     dfree := replicate NUM True\<rparr>)"
proof -
  let ?s = "s\<lparr>held := {DiskLock}, procs := (procs s)[p := (procs s ! p)\<lparr>chan := None\<rparr>], info_b := (info_b s)[0 := None]\<rparr>"
  have r: "sleep_resume DiskLock s = Ret () (s\<lparr>held := {DiskLock}, procs := (procs s)[p := (procs s ! p)\<lparr>chan := None\<rparr>]\<rparr>)"
    by (rule sleep_resume_eq) (use assms in simp_all)
  have "\<forall>q \<in> set (procs ?s). \<not> (pstate q = SLEEPING \<and> chan q = Some ChDiskFree)"
    using assms(6) by (auto dest!: subsetD [OF set_update_subset_insert])
  then have f: "free_chain 0 ?s = Ret () (?s\<lparr>desc := (desc s)[0 := no_desc, Suc 0 := no_desc, 2 := no_desc], dfree := replicate NUM True\<rparr>)"
    using free_chain_three [of ?s] assms by simp
  have "rw_wait_resume (Some p) b 0 s = rw_finish 0 (s\<lparr>held := {DiskLock}, procs := (procs s)[p := (procs s ! p)\<lparr>chan := None\<rparr>]\<rparr>)"
    using assms(1) by (simp add: rw_wait_resume_def rw_wait_def run_simps r)
  also have "\<dots> = thn (free_chain 0) (release DiskLock) ?s" by (simp add: rw_finish_def thn_apply)
  finally show ?thesis using f by (simp add: thn_apply)
qed

lemma sector_word: "(ucast (ucast (x :: u32) :: u64) :: u32) = x"
  by (rule bit_word_eqI) (simp add: bit_simps)

text \<open>
  C34. The driver implements the transfer the buffer cache relies on. Given a device that serves a
  request it is handed, and an idle driver, a process that calls \<open>virtio_disk_rw\<close> goes to sleep on
  the buffer; the device serves the request, its interrupt wakes the process, and once the scheduler
  has run it the call returns with the disk, the buffers and everything else but the driver's own
  data exactly as \<open>disk_rw\<close> says, no lock held, all descriptors free again, and the driver idle.
\<close>

theorem virtio_implements_disk_rw:
  assumes dev: "virtio_device dev" and quiet: "vd_quiet s" and p: "cur s = Some p" "p < NPROC" "length (procs s) = NPROC"
    and held: "held s = {}" and run: "pstate (procs s ! p) = RUNNING" "chan (procs s ! p) = None"
    and wait: "nobody_waits s b"
  shows "\<exists>t u v w r. virtio_disk_rw b write s = Sleeps (ChBuf b) t \<and> virtio_disk_isr hw (dev t) = Ret () u \<and>
     scheduler_visit p u = Ret True v \<and> rw_wait_resume (Some p) b 0 v = Ret () w \<and>
     disk_rw b write s = Ret () r \<and> bio_st.truncate w = bio_st.truncate r \<and> vd_quiet w"
proof -
  obtain t where t: "virtio_disk_rw b write s = Sleeps (ChBuf b) t" "submitted b write s t"
    "held t = {}" "cur t = None" "procs t = (procs s)[p := (procs s ! p)\<lparr>chan := Some (ChBuf b), pstate := SLEEPING\<rparr>]"
    "bio_st.truncate (t\<lparr>cur := cur s, procs := procs s\<rparr>) = bio_st.truncate s"
    by (rule submit_runs [OF quiet p held])
  note S = t(2) [unfolded submitted_def]
  let ?d = "served t 0 0 b 0"
  obtain u where u: "virtio_disk_isr hw ?d = Ret () u" "u = ?d\<lparr>mmio := mmio ?d @ [(INTERRUPT_ACK, hw INTERRUPT_STATUS AND 3)],
     on_disk := (on_disk t)(b := False), procs := map (wakeup_proc (ChBuf b)) (procs t), used_idx := dev_idx t + 1\<rparr>"
    using isr_runs [OF t(2,3)] p(3) t(5) by auto
  have pu: "procs u = (procs s)[p := (procs s ! p)\<lparr>chan := Some (ChBuf b), pstate := RUNNABLE\<rparr>]"
    using u(2) t(5) wakeup_only [OF wait] p by simp
  let ?v = "u\<lparr>held := {ProcLock p}, cur := Some p,
    procs := (procs s)[p := (procs s ! p)\<lparr>chan := Some (ChBuf b), pstate := RUNNING\<rparr>]\<rparr>"
  have v: "scheduler_visit p u = Ret True ?v"
    using pu p u(2) t(3) by (subst scheduler_visit_eq) (simp_all add: served_fields)
  have others: "\<forall>q \<in> set (procs ?v). \<not> (pstate q = SLEEPING \<and> chan q = Some ChDiskFree)"
    using wait by (auto simp: nobody_waits_def dest!: subsetD [OF set_update_subset_insert])
  have nx: "(VIRTQ_DESC_F_NEXT OR x) AND VIRTQ_DESC_F_NEXT \<noteq> 0" for x
  proof
    assume "(VIRTQ_DESC_F_NEXT OR x) AND VIRTQ_DESC_F_NEXT = 0"
    then have "\<not> bit ((VIRTQ_DESC_F_NEXT OR x) AND VIRTQ_DESC_F_NEXT) 0" by simp
    then show False by (simp add: VIRTQ_DESC_F_NEXT_def bit_simps)
  qed
  let ?w = "?v\<lparr>held := {}, procs := procs s, info_b := (info_b t)[0 := None],
    desc := (desc t)[0 := no_desc, Suc 0 := no_desc, 2 := no_desc], dfree := replicate NUM True\<rparr>"
  have home: "(procs s)[p := (procs s ! p)\<lparr>chan := Some (ChBuf b), pstate := RUNNING\<rparr>, p := ((procs s ! p)\<lparr>chan := Some (ChBuf b), pstate := RUNNING\<rparr>)\<lparr>chan := None\<rparr>] = procs s"
  proof -
    have "(procs s ! p)\<lparr>pstate := RUNNING, chan := None\<rparr> = procs s ! p" using run by (intro proc.equality) simp_all
    then show ?thesis by simp
  qed
  have w: "rw_wait_resume (Some p) b 0 ?v = Ret () ?w"
    using wait_ends [of ?v b p] S u(2) p others nx home by (simp add: served_fields)
  let ?bn = "blockno (bufs s ! b)"
  let ?r = "if write then s\<lparr>disk := (disk s)(?bn := bdata (bufs s ! b))\<rparr>
    else s\<lparr>bufs := (bufs s)[b := (bufs s ! b)\<lparr>bdata := disk s ?bn\<rparr>]\<rparr>"
  have r: "disk_rw b write s = Ret () ?r" using p held by (simp add: disk_rw_def run_simps)
  have "bio_st.truncate ?w = bio_st.truncate ?r"
    using t(6) p u(2) S held
    by (auto simp: bio_st.truncate_def served_def Let_def VIRTIO_BLK_T_IN_def VIRTIO_BLK_T_OUT_def sector_word)
  moreover have "vd_quiet ?w" using S u(2) by (simp add: vd_quiet_def served_fields)
  ultimately show ?thesis
    using t(1) u(1) v w r device_serves [OF dev t(2)]
    by (intro exI [of _ t] exI [of _ u] exI [of _ ?v] exI [of _ ?w] exI [of _ ?r]) simp
qed

text \<open>An example device, which follows the chain of the request it finds, and an idle driver.\<close>

definition demo_device :: "virtio_st \<Rightarrow> virtio_st" where
  "demo_device s =
     (let h = unat (avail_ring s ! (unat (dev_idx s) mod NUM)); d0 = desc s ! h; d1 = desc s ! unat (vd_next d0);
          d2 = desc s ! unat (vd_next d1)
      in case vd_addr d0 of OpsOf op \<Rightarrow>
           (case vd_addr d1 of DataOf b \<Rightarrow>
             (case vd_addr d2 of StatusOf st \<Rightarrow> served s h op b st | _ \<Rightarrow> s) | _ \<Rightarrow> s) | _ \<Rightarrow> s)"

definition demo_virtio :: virtio_st where
  "demo_virtio = bio_st.extend demo_bio
     (virtio_st.fields (replicate NUM no_desc) 0 (replicate NUM 0) 0 (replicate NUM 0) (replicate NUM True) 0
       (replicate NUM None) (replicate NUM 255) (replicate NUM \<lparr>rq_type = 0, rq_reserved = 0, rq_sector = 0\<rparr>)
       (\<lambda>_. False) [])"

lemma demo_virtio_awake: "q \<in> set (procs demo_virtio) \<Longrightarrow> pstate q \<noteq> SLEEPING"
proof -
  assume "q \<in> set (procs demo_virtio)"
  moreover have "set (procs demo_virtio) \<subseteq> insert (idle_proc\<lparr>pid := 1, pstate := RUNNING\<rparr>) (set (replicate NPROC idle_proc))"
    by (simp add: demo_virtio_def virtio_st.defs demos set_update_subset_insert)
  moreover have "pstate idle_proc \<noteq> SLEEPING" by (simp add: idle_proc_def)
  ultimately show ?thesis by (auto simp: NPROC_def)
qed

lemma demo_device_serves: "virtio_device demo_device"
  by (simp add: virtio_device_def demo_device_def Let_def)

lemma virtio_implements_disk_rw_witness:
  "\<exists>t u v w. virtio_disk_rw 3 False demo_virtio = Sleeps (ChBuf 3) t \<and> virtio_disk_isr (\<lambda>_. 1) (demo_device t) = Ret () u \<and>
     scheduler_visit 1 u = Ret True v \<and> rw_wait_resume (Some 1) 3 0 v = Ret () w \<and> vd_quiet w"
proof -
  have f: "cur demo_virtio = Some 1" "length (procs demo_virtio) = NPROC" "held demo_virtio = {}"
    "pstate (procs demo_virtio ! 1) = RUNNING" "chan (procs demo_virtio ! 1) = None"
    by (simp_all add: demo_virtio_def virtio_st.defs demos NPROC_def idle_proc_def)
  have q: "vd_quiet demo_virtio" by (simp add: vd_quiet_def demo_virtio_def virtio_st.defs demos)
  have "nobody_waits demo_virtio 3" using demo_virtio_awake by (auto simp: nobody_waits_def)
  moreover have "1 < NPROC" by (simp add: NPROC_def)
  ultimately show ?thesis
    using virtio_implements_disk_rw [OF demo_device_serves q f(1) _ f(2-5), of 3 False "\<lambda>_. 1"] by blast
qed

subsection \<open>Taking three descriptors, or none\<close>

definition free_list :: "bool list \<Rightarrow> nat list" where
  "free_list f = filter (\<lambda>i. f ! i) [0..<NUM]"

lemma find_filter: "find P xs = (case filter P xs of [] \<Rightarrow> None | x # _ \<Rightarrow> Some x)"
  by (induction xs) auto

lemma alloc_desc_eq:
  "alloc_desc s = (case free_list (dfree s) of [] \<Rightarrow> Ret None s
     | i # _ \<Rightarrow> Ret (Some i) (s\<lparr>dfree := (dfree s)[i := False]\<rparr>))"
  by (simp add: alloc_desc_def bnd_apply find_filter free_list_def thn_apply split: list.splits)

lemma free_list_take:
  assumes "length f = NUM" and "free_list f = i # is"
  shows "free_list (f[i := False]) = is" "i < NUM" "f ! i" "i \<notin> set is"
proof -
  have d: "distinct (i # is)" unfolding assms(2) [symmetric] free_list_def by simp
  have "i \<in> set (free_list f)" by (simp add: assms(2))
  then show "i < NUM" "f ! i" by (auto simp: free_list_def)
  show "i \<notin> set is" using d by simp
  have "free_list (f[i := False]) = filter (\<lambda>j. j \<noteq> i) (free_list f)"
    unfolding free_list_def filter_filter using assms(1) \<open>i < NUM\<close> by (intro filter_cong) (auto simp: nth_list_update)
  then show "free_list (f[i := False]) = is" using d assms(2) by (simp add: filter_id_conv) (metis filter_True)
qed

lemma free_descs:
  assumes "length (dfree s) = NUM" and "\<forall>i \<in> set is. i < NUM \<and> \<not> dfree s ! i" and "distinct is"
    and "\<forall>q \<in> set (procs s). \<not> (pstate q = SLEEPING \<and> chan q = Some ChDiskFree)"
    and "length (procs s) = NPROC" and "no_proc_lock (held s)"
  shows "for_each is free_desc s = Ret () (s\<lparr>desc := fold (\<lambda>i d. d[i := no_desc]) is (desc s),
     dfree := fold (\<lambda>i f. f[i := True]) is (dfree s)\<rparr>)"
  using assms
proof (induction "is" arbitrary: s)
  case (Cons i "is")
  let ?t = "s\<lparr>desc := (desc s)[i := no_desc], dfree := (dfree s)[i := True]\<rparr>"
  have "\<forall>j \<in> set is. j < NUM \<and> \<not> dfree ?t ! j" using Cons.prems(1-3) by (auto simp: nth_list_update)
  then have "for_each is free_desc ?t = Ret () (?t\<lparr>desc := fold (\<lambda>i d. d[i := no_desc]) is (desc ?t),
     dfree := fold (\<lambda>i f. f[i := True]) is (dfree ?t)\<rparr>)"
    using Cons.prems by (intro Cons.IH) simp_all
  then show ?case using Cons.prems by (simp add: thn_apply free_desc_taken)
qed simp

lemma fold_set_True: "length f = NUM \<Longrightarrow> j < NUM \<Longrightarrow> fold (\<lambda>i f. f[i := True]) is f ! j \<longleftrightarrow> j \<in> set is \<or> f ! j"
  by (induction "is" arbitrary: f) (auto simp: nth_list_update_if)

lemma length_fold_set: "length (fold (\<lambda>i f. f[i := True]) is f) = length f"
  by (induction "is" arbitrary: f) auto

lemma alloc_descs_spec:
  assumes "length (dfree s) = NUM" and "\<forall>q \<in> set (procs s). \<not> (pstate q = SLEEPING \<and> chan q = Some ChDiskFree)"
    and "length (procs s) = NPROC" and "no_proc_lock (held s)"
    and "\<forall>i \<in> set idx. i < NUM \<and> \<not> dfree s ! i" and "distinct idx"
  shows "\<exists>t. alloc_descs k idx s = Ret (if k \<le> length (free_list (dfree s)) then Some (idx @ take k (free_list (dfree s))) else None) t \<and>
     (if k \<le> length (free_list (dfree s)) then free_list (dfree t) = drop k (free_list (dfree s))
      else \<forall>j < NUM. dfree t ! j \<longleftrightarrow> j \<in> set idx \<or> dfree s ! j)"
  using assms
proof (induction k arbitrary: s idx)
  case (Suc k)
  show ?case
  proof (cases "free_list (dfree s)")
    case Nil
    then show ?thesis
      using free_descs [of s idx] fold_set_True [of "dfree s"] Suc.prems by (simp add: bnd_apply alloc_desc_eq thn_apply)
  next
    case (Cons a as)
    let ?s = "s\<lparr>dfree := (dfree s)[a := False]\<rparr>"
    note A = free_list_take [OF Suc.prems(1) Cons]
    have "\<forall>i \<in> set (idx @ [a]). i < NUM \<and> \<not> dfree ?s ! i"
      using Suc.prems(1,5) A(2) by (auto simp: nth_list_update)
    moreover have "distinct (idx @ [a])" using Suc.prems(5,6) A(3) by auto
    ultimately obtain t where t: "alloc_descs k (idx @ [a]) ?s = Ret (if k \<le> length as then Some ((idx @ [a]) @ take k as) else None) t"
      "if k \<le> length as then free_list (dfree t) = drop k as
       else \<forall>j < NUM. dfree t ! j \<longleftrightarrow> j \<in> set (idx @ [a]) \<or> dfree ?s ! j"
      using Suc.IH [of ?s "idx @ [a]"] Suc.prems A(1) by auto
    have "alloc_descs (Suc k) idx s = alloc_descs k (idx @ [a]) ?s" by (simp add: bnd_apply alloc_desc_eq Cons)
    moreover have "dfree ?s ! j \<longleftrightarrow> j \<noteq> a \<and> dfree s ! j" if "j < NUM" for j
      using Suc.prems(1) that A(2) by (auto simp: nth_list_update)
    ultimately show ?thesis using t A(3) Cons by (auto split: if_splits)
  qed
qed simp

text \<open>
  \<open>alloc3_desc\<close> takes three descriptors or none: with three free it returns the first three,
  distinct and no longer free; with fewer it returns failure with the same descriptors free as before.
\<close>

theorem alloc3_all_or_nothing:
  assumes "length (dfree s) = NUM" and "\<forall>q \<in> set (procs s). \<not> (pstate q = SLEEPING \<and> chan q = Some ChDiskFree)"
    and "length (procs s) = NPROC" and "no_proc_lock (held s)"
  shows "\<exists>t. alloc3_desc s = Ret (if 3 \<le> length (free_list (dfree s)) then Some (take 3 (free_list (dfree s))) else None) t \<and>
     free_list (dfree t) = (if 3 \<le> length (free_list (dfree s)) then drop 3 (free_list (dfree s)) else free_list (dfree s))"
proof -
  let ?f = "free_list (dfree s)"
  obtain t where t: "alloc3_desc s = Ret (if 3 \<le> length ?f then Some (take 3 ?f) else None) t"
    "if 3 \<le> length ?f then free_list (dfree t) = drop 3 ?f else \<forall>j < NUM. dfree t ! j \<longleftrightarrow> dfree s ! j"
    using alloc_descs_spec [OF assms, of "[]" 3] by (auto simp: alloc3_desc_def)
  have "free_list (dfree t) = ?f" if "\<forall>j < NUM. dfree t ! j \<longleftrightarrow> dfree s ! j"
    unfolding free_list_def using that by (intro filter_cong) auto
  with t show ?thesis by auto
qed

lemma alloc3_all_or_nothing_witness:
  "\<exists>t u. alloc3_desc demo_virtio = Ret (Some [0, 1, 2]) t \<and>
     alloc3_desc (demo_virtio\<lparr>dfree := [False, True, False, True, False, False, False, False]\<rparr>) = Ret None u \<and>
     free_list (dfree u) = [1, 3]"
proof -
  have n: "\<forall>q \<in> set (procs demo_virtio). \<not> (pstate q = SLEEPING \<and> chan q = Some ChDiskFree)"
    using demo_virtio_awake by auto
  have f: "length (procs demo_virtio) = NPROC" "no_proc_lock (held demo_virtio)" "dfree demo_virtio = replicate NUM True"
    by (simp_all add: demo_virtio_def virtio_st.defs demos NPROC_def)
  have l: "free_list (replicate NUM True) = [0, 1, 2, 3, 4, 5, 6, 7]"
    "free_list [False, True, False, True, False, False, False, False] = [1, 3]"
    by (simp_all add: free_list_def NUM_def upt_rec nth_Cons')
  show ?thesis
    using alloc3_all_or_nothing [of demo_virtio] n f l
      alloc3_all_or_nothing [of "demo_virtio\<lparr>dfree := [False, True, False, True, False, False, False, False]\<rparr>"]
    by (auto simp: NUM_def numeral_3_eq_3 numeral_2_eq_2)
qed

declare demo_virtio_def [demos] virtio_st.defs [demos]

end
