(* ===== verification/FsLayout.thy ===== *)
theory FsLayout
  imports Virtio
begin

section \<open>The on-disk format and path strings: \<^verbatim>\<open>kernel/include/fs.h\<close>, \<^verbatim>\<open>kernel/fs/fs.c\<close>\<close>

text \<open>
  The records of the on-disk format with their byte layout, the arithmetic of block numbers,
  and the pure functions of \<^verbatim>\<open>fs.c\<close> on names and paths. A C string is the list of its bytes
  before the terminating zero; \<open>cstr_nth\<close> reads it as the array it is.
\<close>

definition FSMAGIC :: u32 where "FSMAGIC = 0x10203040"
definition ROOTINO :: u32 where "ROOTINO = 1"
definition DIRSIZ :: nat where "DIRSIZ = 14"
definition NDIRECT :: nat where "NDIRECT = 12"
definition NINDIRECT :: nat where "NINDIRECT = BSIZE div 4"
definition MAXFILE :: nat where "MAXFILE = NDIRECT + NINDIRECT"
definition T_DIR :: u16 where "T_DIR = 1"
definition T_FILE :: u16 where "T_FILE = 2"

record superblock =
  sb_magic :: u32
  sb_size :: u32
  sb_nblocks :: u32
  sb_ninodes :: u32
  sb_nlog :: u32
  sb_logstart :: u32
  sb_inodestart :: u32
  sb_bmapstart :: u32

record dinode =
  d_type :: u16
  d_major :: u16
  d_minor :: u16
  d_nlink :: u16
  d_size :: u32
  d_addrs :: "u32 list"

record dirent =
  de_inum :: u16
  de_name :: "u8 list"

definition DINODE_SIZE :: nat where "DINODE_SIZE = 64"
definition DIRENT_SIZE :: nat where "DIRENT_SIZE = 16"
definition IPB :: nat where "IPB = BSIZE div DINODE_SIZE"
definition BPB :: nat where "BPB = BSIZE * 8"

definition IBLOCK :: "u32 \<Rightarrow> superblock \<Rightarrow> u32" where
  "IBLOCK i sb = i div of_nat IPB + sb_inodestart sb"

definition BBLOCK :: "u32 \<Rightarrow> superblock \<Rightarrow> u32" where
  "BBLOCK b sb = b div of_nat BPB + sb_bmapstart sb"

subsection \<open>Byte layouts\<close>

text \<open>Reading and writing a field of a byte array at an offset.\<close>

definition slice :: "nat \<Rightarrow> nat \<Rightarrow> 'a list \<Rightarrow> 'a list" where
  "slice off n bs = take n (drop off bs)"

definition put_at :: "nat \<Rightarrow> 'a list \<Rightarrow> 'a list \<Rightarrow> 'a list" where
  "put_at off xs bs = take off bs @ xs @ drop (off + length xs) bs"

definition word32_at :: "nat \<Rightarrow> u8 list \<Rightarrow> u32" where
  "word32_at off bs = of_le (slice off 4 bs)"

definition word16_at :: "nat \<Rightarrow> u8 list \<Rightarrow> u16" where
  "word16_at off bs = of_le (slice off 2 bs)"

definition superblock_of :: "u8 list \<Rightarrow> superblock" where
  "superblock_of bs =
     \<lparr>sb_magic = word32_at 0 bs, sb_size = word32_at 4 bs, sb_nblocks = word32_at 8 bs,
      sb_ninodes = word32_at 12 bs, sb_nlog = word32_at 16 bs, sb_logstart = word32_at 20 bs,
      sb_inodestart = word32_at 24 bs, sb_bmapstart = word32_at 28 bs\<rparr>"

definition dinode_bytes :: "dinode \<Rightarrow> u8 list" where
  "dinode_bytes d =
     le16 (d_type d) @ le16 (d_major d) @ le16 (d_minor d) @ le16 (d_nlink d) @ le32 (d_size d) @
     concat (map le32 (d_addrs d))"

definition dinode_of :: "u8 list \<Rightarrow> dinode" where
  "dinode_of bs =
     \<lparr>d_type = word16_at 0 bs, d_major = word16_at 2 bs, d_minor = word16_at 4 bs,
      d_nlink = word16_at 6 bs, d_size = word32_at 8 bs,
      d_addrs = map (\<lambda>i. word32_at (12 + 4 * i) bs) [0..<NDIRECT + 1]\<rparr>"

definition dirent_bytes :: "dirent \<Rightarrow> u8 list" where
  "dirent_bytes de = le16 (de_inum de) @ de_name de"

definition dirent_of :: "u8 list \<Rightarrow> dirent" where
  "dirent_of bs = \<lparr>de_inum = word16_at 0 bs, de_name = slice 2 DIRSIZ bs\<rparr>"

lemma length_put_at: "off + length xs \<le> length bs \<Longrightarrow> length (put_at off xs bs) = length bs"
  by (simp add: put_at_def)

lemma slice_put_at: "off + length xs \<le> length bs \<Longrightarrow> slice off (length xs) (put_at off xs bs) = xs"
  by (simp add: slice_def put_at_def)

lemma nth_put_at:
  "off + length xs \<le> length bs \<Longrightarrow> i < length bs \<Longrightarrow> put_at off xs bs ! i =
     (if i < off then bs ! i else if i < off + length xs then xs ! (i - off) else bs ! i)"
  by (auto simp: put_at_def nth_append)

lemma nth_slice: "i < n \<Longrightarrow> a + i < length bs \<Longrightarrow> slice a n bs ! i = bs ! (a + i)"
  by (simp add: slice_def)

lemma length_slice: "length (slice a n bs) = min n (length bs - a)"
  by (simp add: slice_def min.commute)

lemma slice_put_at_other:
  assumes "off + length xs \<le> length bs" and "a + n \<le> off \<or> off + length xs \<le> a"
  shows "slice a n (put_at off xs bs) = slice a n bs"
proof (rule nth_equalityI)
  show "length (slice a n (put_at off xs bs)) = length (slice a n bs)"
    using assms(1) by (simp add: length_slice length_put_at)
next
  fix i
  assume "i < length (slice a n (put_at off xs bs))"
  then have "i < n" "a + i < length bs" using assms(1) by (auto simp: length_slice length_put_at)
  then show "slice a n (put_at off xs bs) ! i = slice a n bs ! i"
    using assms by (auto simp: nth_slice length_put_at nth_put_at)
qed

lemma slice_append: "slice (length xs) n (xs @ ys) = take n ys"
  by (simp add: slice_def)

lemma slice_append_skip: "length xs \<le> off \<Longrightarrow> slice off n (xs @ ys) = slice (off - length xs) n ys"
  by (simp add: slice_def)

lemma slice_append_here: "slice 0 (length xs) (xs @ ys) = xs"
  by (simp add: slice_def)

lemma slice_concat_le32:
  "i < length ws \<Longrightarrow> slice (4 * i) 4 (concat (map le32 ws)) = le32 (ws ! i)"
proof (induction ws arbitrary: i)
  case Nil
  then show ?case by simp
next
  case (Cons w ws)
  then show ?case
    by (cases i) (auto simp: slice_def)
qed

lemma length_concat_le32 [simp]: "length (concat (map le32 ws)) = 4 * length ws"
  by (induction ws) auto

lemma length_dinode_bytes: "length (d_addrs d) = NDIRECT + 1 \<Longrightarrow> length (dinode_bytes d) = DINODE_SIZE"
  by (simp add: dinode_bytes_def NDIRECT_def DINODE_SIZE_def)

lemma word16_at_simps:
  "word16_at 0 (le16 w @ bs) = w"
  "2 \<le> off \<Longrightarrow> word16_at off (le16 w @ bs) = word16_at (off - 2) bs"
  using slice_append_here [of "le16 w" bs] slice_append_skip [of "le16 w" off]
  by (simp_all add: word16_at_def)

lemma word32_at_simps:
  "word32_at 0 (le32 v @ bs) = v"
  "2 \<le> off \<Longrightarrow> word32_at off (le16 w @ bs) = word32_at (off - 2) bs"
  "4 \<le> off \<Longrightarrow> word32_at off (le32 v @ bs) = word32_at (off - 4) bs"
  using slice_append_here [of "le32 v" bs] slice_append_skip [of "le16 w" off]
    slice_append_skip [of "le32 v" off]
  by (simp_all add: word32_at_def)

lemma dinode_of_bytes: "length (d_addrs d) = NDIRECT + 1 \<Longrightarrow> dinode_of (dinode_bytes d) = d"
proof -
  assume len: "length (d_addrs d) = NDIRECT + 1"
  have "map (\<lambda>i. word32_at (12 + 4 * i) (dinode_bytes d)) [0..<NDIRECT + 1] = d_addrs d"
  proof (rule nth_equalityI)
    fix i
    assume "i < length (map (\<lambda>i. word32_at (12 + 4 * i) (dinode_bytes d)) [0..<NDIRECT + 1])"
    then have i: "i < length (d_addrs d)" using len by simp
    have "word32_at (12 + 4 * i) (dinode_bytes d) = word32_at (4 * i) (concat (map le32 (d_addrs d)))"
      by (simp add: dinode_bytes_def word32_at_simps)
    also have "\<dots> = d_addrs d ! i"
      using slice_concat_le32 [OF i] by (simp add: word32_at_def)
    finally show "map (\<lambda>i. word32_at (12 + 4 * i) (dinode_bytes d)) [0..<NDIRECT + 1] ! i =
        d_addrs d ! i"
      using i len by (simp del: upt_Suc)
  qed (use len in simp)
  moreover have "word16_at 0 (dinode_bytes d) = d_type d" "word16_at 2 (dinode_bytes d) = d_major d"
    "word16_at 4 (dinode_bytes d) = d_minor d" "word16_at 6 (dinode_bytes d) = d_nlink d"
    "word32_at 8 (dinode_bytes d) = d_size d"
    by (simp_all add: dinode_bytes_def word16_at_simps word32_at_simps)
  ultimately show ?thesis
    unfolding dinode_of_def by (simp only: dinode.surjective [symmetric]) simp
qed

lemma dirent_of_bytes: "length (de_name de) = DIRSIZ \<Longrightarrow> dirent_of (dirent_bytes de) = de"
  using slice_append_skip [of "le16 (de_inum de)" 2 DIRSIZ "de_name de"]
  by (simp add: dirent_of_def dirent_bytes_def word16_at_simps slice_def)

subsection \<open>Strings, names, path elements\<close>

definition cstr_nth :: "u8 list \<Rightarrow> nat \<Rightarrow> u8" where
  "cstr_nth s i = (if i < length s then s ! i else 0)"

text \<open>\<open>kstrncmp\<close> from index \<open>i\<close> on, with \<open>k\<close> bytes to go.\<close>

fun kstrncmp_from :: "nat \<Rightarrow> nat \<Rightarrow> u8 list \<Rightarrow> u8 list \<Rightarrow> int" where
  "kstrncmp_from i 0 a b = 0"
| "kstrncmp_from i (Suc k) a b =
     (let ac = cstr_nth a i; bc = cstr_nth b i in
      if ac \<noteq> bc then uint ac - uint bc
      else if ac = 0 then 0
      else kstrncmp_from (i + 1) k a b)"

definition kstrncmp :: "u8 list \<Rightarrow> u8 list \<Rightarrow> nat \<Rightarrow> int" where
  "kstrncmp a b n = kstrncmp_from 0 n a b"

definition namecmp :: "u8 list \<Rightarrow> u8 list \<Rightarrow> int" where
  "namecmp s t = kstrncmp s t DIRSIZ"

text \<open>The C string a zero-terminated byte array holds.\<close>

definition cstr :: "u8 list \<Rightarrow> u8 list" where
  "cstr bs = takeWhile (\<lambda>b. b \<noteq> 0) bs"

abbreviation slash :: u8 where "slash \<equiv> 47"

text \<open>
  \<open>skipelem\<close>: \<open>None\<close> when there is no path element left, else the element, cut to \<open>DIRSIZ\<close>
  bytes, and the rest of the path with leading slashes removed.
\<close>

definition skipelem :: "u8 list \<Rightarrow> (u8 list \<times> u8 list) option" where
  "skipelem path =
     (let path = dropWhile (\<lambda>c. c = slash) path in
      if path = [] then None
      else
        let s = path;
            path = dropWhile (\<lambda>c. c \<noteq> slash) s;
            len = length s - length path;
            name = (if DIRSIZ \<le> len then take DIRSIZ s else take len s);
            path = dropWhile (\<lambda>c. c = slash) path
        in Some (name, path))"

lemma skipelem_shorter: "skipelem path = Some (name, rest) \<Longrightarrow> length rest < length path"
proof -
  assume "skipelem path = Some (name, rest)"
  then obtain s where s: "s = dropWhile (\<lambda>c. c = slash) path" "s \<noteq> []"
    "rest = dropWhile (\<lambda>c. c = slash) (dropWhile (\<lambda>c. c \<noteq> slash) s)"
    by (auto simp: skipelem_def Let_def split: if_splits)
  from s(1,2) have "hd s \<noteq> slash" using hd_dropWhile [of "\<lambda>c. c = slash" path] by simp
  with s(2) have "dropWhile (\<lambda>c. c \<noteq> slash) s = dropWhile (\<lambda>c. c \<noteq> slash) (tl s)"
    by (cases s) auto
  then have "rest = dropWhile (\<lambda>c. c = slash) (dropWhile (\<lambda>c. c \<noteq> slash) (tl s))"
    using s(3) by simp
  then have "length rest \<le> length (tl s)"
    using length_dropWhile_le [of _ "dropWhile (\<lambda>c. c \<noteq> slash) (tl s)"] length_dropWhile_le [of _ "tl s"]
    by (auto intro: le_trans)
  also have "\<dots> < length s" using s(2) by simp
  also have "\<dots> \<le> length path" unfolding s(1) by (rule length_dropWhile_le)
  finally show ?thesis .
qed

end
