(* ===== verification/Inode.thy ===== *)
theory Inode
  imports FsLayout
begin

section \<open>Block allocation, the inode table, file contents: \<^verbatim>\<open>kernel/fs/fs.c\<close>\<close>

text \<open>
  The in-memory inode table (\<open>struct inode\<close> of \<^verbatim>\<open>kernel/include/file.h\<close>) and the operations
  on it and on the disk, in the order of \<^verbatim>\<open>fs.c\<close>. A pointer to a slot of the table is an index;
  the functions that test for a null pointer take an option. Bytes read by \<open>readi\<close> are part of
  its result. The lines the code prints when the disk is full are not modelled.
\<close>

record inode =
  idev :: u32
  inum :: u32
  iref :: int
  ivalid :: bool
  itype :: u16
  imajor :: u16
  iminor :: u16
  inlink :: u16
  isize :: u32
  iaddrs :: "u32 list"

definition NINODE :: nat where "NINODE = 64"

record fs_st = virtio_st +
  itable :: "inode list"
  sb :: superblock
  rootdev :: int
  fs_once :: bool

definition upd_inode :: "nat \<Rightarrow> (inode \<Rightarrow> inode) \<Rightarrow> ('z fs_st_scheme, unit) kern" where
  "upd_inode i f = modify (\<lambda>s. s\<lparr>itable := (itable s)[i := f (itable s ! i)]\<rparr>)"

definition get_inode :: "nat \<Rightarrow> (inode \<Rightarrow> 'a) \<Rightarrow> ('z fs_st_scheme, 'a) kern" where
  "get_inode i f = gets (\<lambda>s. f (itable s ! i))"

definition min_uint :: "u32 \<Rightarrow> u32 \<Rightarrow> u32" where
  "min_uint a b = (if a < b then a else b)"

subsection \<open>Superblock and free-block bitmap\<close>

definition readsb :: "int \<Rightarrow> ('z bio_st_scheme, superblock) kern" where
  "readsb dev =
     bnd (bread (word_of_int dev) 1) (\<lambda>b.
     bnd (get_buf b bdata) (\<lambda>bs.
     thn (brelse b)
     (ret (superblock_of bs))))"

definition bzero :: "u32 \<Rightarrow> u32 \<Rightarrow> ('z bio_st_scheme, unit) kern" where
  "bzero dev bno =
     bnd (bread dev bno) (\<lambda>b.
     thn (upd_data b (\<lambda>_. replicate BSIZE 0))
     (thn (bwrite b)
     (brelse b)))"

definition bit_set :: "u8 list \<Rightarrow> nat \<Rightarrow> bool" where
  "bit_set bs bi \<longleftrightarrow> bs ! (bi div 8) AND push_bit (bi mod 8) 1 \<noteq> 0"

definition set_bit_at :: "nat \<Rightarrow> u8 list \<Rightarrow> u8 list" where
  "set_bit_at bi bs = bs[bi div 8 := bs ! (bi div 8) OR push_bit (bi mod 8) 1]"

definition clear_bit_at :: "nat \<Rightarrow> u8 list \<Rightarrow> u8 list" where
  "clear_bit_at bi bs = bs[bi div 8 := bs ! (bi div 8) AND NOT (push_bit (bi mod 8) 1)]"

text \<open>
  \<open>balloc\<close>: the outer loop visits the bitmap blocks (\<open>b = 0, BPB, 2 * BPB, ...\<close> below the size
  of the disk), the inner one the bits of a block that stand for blocks of the disk.
\<close>

definition balloc :: "u32 \<Rightarrow> ('z fs_st_scheme, u32) kern" where
  "balloc dev =
     bnd (gets sb) (\<lambda>sbk.
     bnd (search (map (\<lambda>k. k * BPB) [0..<(unat (sb_size sbk) + BPB - 1) div BPB]) (\<lambda>b.
       bnd (bread dev (BBLOCK (of_nat b) sbk)) (\<lambda>bp.
       bnd (get_buf bp bdata) (\<lambda>bs.
       case find (\<lambda>bi. \<not> bit_set bs bi) [0..<min BPB (unat (sb_size sbk) - b)] of
         Some bi \<Rightarrow>
           thn (upd_data bp (set_bit_at bi))
           (thn (bwrite bp)
           (thn (brelse bp)
           (thn (bzero dev (of_nat (b + bi)))
           (ret (Some (of_nat (b + bi)))))))
       | None \<Rightarrow> thn (brelse bp) (ret None)))))
     (\<lambda>r. case r of Some v \<Rightarrow> ret v | None \<Rightarrow> ret 0))"

definition bfree :: "u32 \<Rightarrow> u32 \<Rightarrow> ('z fs_st_scheme, unit) kern" where
  "bfree dev b =
     bnd (gets sb) (\<lambda>sbk.
     bnd (bread dev (BBLOCK b sbk)) (\<lambda>bp.
     let bi = unat b mod BPB in
     bnd (get_buf bp bdata) (\<lambda>bs.
     if \<not> bit_set bs bi then thn (brelse bp) (panic ''bfree: freeing free block'')
     else
       thn (upd_data bp (clear_bit_at bi))
       (thn (bwrite bp)
       (brelse bp)))))"

definition fsinit :: "int \<Rightarrow> ('z fs_st_scheme, unit) kern" where
  "fsinit dev =
     bnd (gets fs_once) (\<lambda>once.
     thn (whenk (\<not> once)
       (thn (for_each [0..<NINODE] (\<lambda>i.
          thn (set_slock (InodeLock i) initsleeplock)
          (upd_inode i (\<lambda>ip. ip\<lparr>iref := 0, ivalid := False\<rparr>))))
       (modify (\<lambda>s. s\<lparr>fs_once := True\<rparr>))))
     (thn (modify (\<lambda>s. s\<lparr>rootdev := dev\<rparr>))
     (bnd (readsb dev) (\<lambda>sbk.
     thn (modify (\<lambda>s. s\<lparr>sb := sbk\<rparr>))
     (if sb_magic sbk \<noteq> FSMAGIC then panic ''fsinit: bad superblock'' else ret ())))))"

subsection \<open>Inode table\<close>

text \<open>
  \<open>iget\<close> scans the table once: the first slot in use for \<open>(dev, inum)\<close> wins; failing that, the
  first slot with no references is taken.
\<close>

definition iget :: "u32 \<Rightarrow> u32 \<Rightarrow> ('z fs_st_scheme, nat) kern" where
  "iget dev ino =
     thn (acquire ItableLock)
     (bnd (gets (\<lambda>s. find (\<lambda>i. let ip = itable s ! i in 0 < iref ip \<and> idev ip = dev \<and> inum ip = ino)
             [0..<NINODE])) (\<lambda>hit.
     case hit of
       Some i \<Rightarrow>
         thn (upd_inode i (\<lambda>ip. ip\<lparr>iref := iref ip + 1\<rparr>))
         (thn (release ItableLock)
         (ret i))
     | None \<Rightarrow>
         bnd (gets (\<lambda>s. find (\<lambda>i. iref (itable s ! i) = 0) [0..<NINODE])) (\<lambda>empty.
         case empty of
           None \<Rightarrow> thn (release ItableLock) (panic ''iget: no inodes'')
         | Some i \<Rightarrow>
             thn (upd_inode i (\<lambda>ip. ip\<lparr>idev := dev, inum := ino, iref := 1, ivalid := False,
               itype := 0, isize := 0, iaddrs := replicate (NDIRECT + 1) 0\<rparr>))
             (thn (release ItableLock)
             (ret i)))))"

definition idup :: "nat option \<Rightarrow> ('z fs_st_scheme, nat option) kern" where
  "idup ipo = (case ipo of None \<Rightarrow> ret None | Some i \<Rightarrow>
     thn (acquire ItableLock)
     (bnd (get_inode i iref) (\<lambda>r.
     if r < 1 then thn (release ItableLock) (panic ''idup'')
     else
       thn (upd_inode i (\<lambda>ip. ip\<lparr>iref := iref ip + 1\<rparr>))
       (thn (release ItableLock)
       (ret (Some i))))))"

definition dinode_off :: "u32 \<Rightarrow> nat" where
  "dinode_off ino = (unat ino mod IPB) * DINODE_SIZE"

text \<open>\<open>ialloc\<close>: the loop over the inode numbers from 1 to below \<open>sb.ninodes\<close>.\<close>

definition ialloc :: "u32 \<Rightarrow> u16 \<Rightarrow> ('z fs_st_scheme, nat option) kern" where
  "ialloc dev type =
     bnd (gets sb) (\<lambda>sbk.
     search [1..<unat (sb_ninodes sbk)] (\<lambda>n.
       let ino = of_nat n in
       bnd (bread dev (IBLOCK ino sbk)) (\<lambda>bp.
       bnd (get_buf bp (\<lambda>q. dinode_of (slice (dinode_off ino) DINODE_SIZE (bdata q)))) (\<lambda>dip.
       if d_type dip = 0 then
         thn (upd_data bp (put_at (dinode_off ino)
               (dinode_bytes \<lparr>d_type = type, d_major = 0, d_minor = 0, d_nlink = 0, d_size = 0,
                  d_addrs = replicate (NDIRECT + 1) 0\<rparr>)))
         (thn (bwrite bp)
         (thn (brelse bp)
         (bnd (iget dev ino) (\<lambda>i. ret (Some i)))))
       else thn (brelse bp) (ret None)))))"

definition ilock :: "nat option \<Rightarrow> ('z fs_st_scheme, unit) kern" where
  "ilock ipo = (case ipo of None \<Rightarrow> panic ''ilock'' | Some i \<Rightarrow>
     bnd (get_inode i id) (\<lambda>ip0.
     if iref ip0 < 1 then panic ''ilock''
     else
       thn (acquiresleep (InodeLock i))
       (bnd (get_inode i id) (\<lambda>ip.
       if ivalid ip then ret ()
       else
         bnd (gets sb) (\<lambda>sbk.
         bnd (bread (idev ip) (IBLOCK (inum ip) sbk)) (\<lambda>bp.
         bnd (get_buf bp (\<lambda>q. dinode_of (slice (dinode_off (inum ip)) DINODE_SIZE (bdata q)))) (\<lambda>dip.
         thn (upd_inode i (\<lambda>ip. ip\<lparr>itype := d_type dip, imajor := d_major dip, iminor := d_minor dip,
           inlink := d_nlink dip, isize := d_size dip, iaddrs := d_addrs dip, ivalid := True\<rparr>))
         (thn (brelse bp)
         (if d_type dip = 0 then panic ''ilock: no type'' else ret ())))))))))"

definition iunlock :: "nat option \<Rightarrow> ('z fs_st_scheme, unit) kern" where
  "iunlock ipo = (case ipo of None \<Rightarrow> panic ''iunlock'' | Some i \<Rightarrow>
     bnd (holdingsleep (InodeLock i)) (\<lambda>mine.
     bnd (get_inode i iref) (\<lambda>r.
     if \<not> mine \<or> r < 1 then panic ''iunlock''
     else releasesleep (InodeLock i))))"

definition inode_lock_if_needed :: "nat \<Rightarrow> ('z fs_st_scheme, bool) kern" where
  "inode_lock_if_needed i =
     bnd (holdingsleep (InodeLock i)) (\<lambda>mine.
     if mine then ret False
     else thn (ilock (Some i)) (ret True))"

definition inode_dinode :: "inode \<Rightarrow> dinode" where
  "inode_dinode ip = \<lparr>d_type = itype ip, d_major = imajor ip, d_minor = iminor ip,
     d_nlink = inlink ip, d_size = isize ip, d_addrs = iaddrs ip\<rparr>"

definition iupdate :: "nat option \<Rightarrow> ('z fs_st_scheme, unit) kern" where
  "iupdate ipo = (case ipo of None \<Rightarrow> ret () | Some i \<Rightarrow>
     bnd (holdingsleep (InodeLock i)) (\<lambda>mine.
     thn (whenk (\<not> mine) (ilock (Some i)))
     (bnd (gets sb) (\<lambda>sbk.
     bnd (get_inode i id) (\<lambda>ip.
     bnd (bread (idev ip) (IBLOCK (inum ip) sbk)) (\<lambda>bp.
     thn (upd_data bp (put_at (dinode_off (inum ip)) (dinode_bytes (inode_dinode ip))))
     (thn (bwrite bp)
     (thn (brelse bp)
     (whenk (\<not> mine) (iunlock (Some i)))))))))))"

subsection \<open>File contents\<close>

text \<open>Entry \<open>i\<close> of the array of block numbers an indirect block holds.\<close>

definition entry_at :: "nat \<Rightarrow> u8 list \<Rightarrow> u32" where
  "entry_at i bs = word32_at (4 * i) bs"

definition bmap :: "nat \<Rightarrow> u32 \<Rightarrow> bool \<Rightarrow> ('z fs_st_scheme, u32) kern" where
  "bmap i bn alloc =
     bnd (get_inode i id) (\<lambda>ip.
     if unat bn < NDIRECT then
       thn (whenk (iaddrs ip ! unat bn = 0 \<and> alloc)
             (bnd (balloc (idev ip)) (\<lambda>a.
              upd_inode i (\<lambda>ip. ip\<lparr>iaddrs := (iaddrs ip)[unat bn := a]\<rparr>))))
       (get_inode i (\<lambda>ip. iaddrs ip ! unat bn))
     else
       let bn = unat bn - NDIRECT in
       if bn < NINDIRECT then
         bnd (if iaddrs ip ! NDIRECT = 0 then
                if \<not> alloc then ret 0
                else
                  bnd (balloc (idev ip)) (\<lambda>a.
                  thn (whenk (a \<noteq> 0)
                        (upd_inode i (\<lambda>ip. ip\<lparr>iaddrs := (iaddrs ip)[NDIRECT := a]\<rparr>)))
                  (ret a))
              else ret (iaddrs ip ! NDIRECT)) (\<lambda>indirect.
         if indirect = 0 then ret 0
         else
           bnd (bread (idev ip) indirect) (\<lambda>bp.
           bnd (get_buf bp (\<lambda>q. entry_at bn (bdata q))) (\<lambda>addr.
           bnd (if addr = 0 \<and> alloc then
                  bnd (balloc (idev ip)) (\<lambda>a.
                  thn (whenk (a \<noteq> 0) (thn (upd_data bp (put_at (4 * bn) (le32 a))) (bwrite bp)))
                  (ret a))
                else ret addr) (\<lambda>addr.
           thn (brelse bp)
           (ret addr)))))
       else ret 0)"

definition itrunc :: "nat option \<Rightarrow> ('z fs_st_scheme, unit) kern" where
  "itrunc ipo = (case ipo of None \<Rightarrow> ret () | Some i \<Rightarrow>
     bnd (inode_lock_if_needed i) (\<lambda>need_unlock.
     thn (for_each [0..<NDIRECT] (\<lambda>k.
       bnd (get_inode i id) (\<lambda>ip.
       whenk (iaddrs ip ! k \<noteq> 0)
         (thn (bfree (idev ip) (iaddrs ip ! k))
         (upd_inode i (\<lambda>ip. ip\<lparr>iaddrs := (iaddrs ip)[k := 0]\<rparr>))))))
     (bnd (get_inode i id) (\<lambda>ip.
     thn (whenk (iaddrs ip ! NDIRECT \<noteq> 0)
       (bnd (bread (idev ip) (iaddrs ip ! NDIRECT)) (\<lambda>bp.
       thn (for_each [0..<NINDIRECT] (\<lambda>j.
         bnd (get_buf bp (\<lambda>q. entry_at j (bdata q))) (\<lambda>a.
         whenk (a \<noteq> 0) (bfree (idev ip) a))))
       (thn (brelse bp)
       (thn (bfree (idev ip) (iaddrs ip ! NDIRECT))
       (upd_inode i (\<lambda>ip. ip\<lparr>iaddrs := (iaddrs ip)[NDIRECT := 0]\<rparr>)))))))
     (thn (upd_inode i (\<lambda>ip. ip\<lparr>isize := 0\<rparr>))
     (thn (iupdate (Some i))
     (whenk need_unlock (iunlock (Some i)))))))))"

definition iput :: "nat option \<Rightarrow> ('z fs_st_scheme, unit) kern" where
  "iput ipo = (case ipo of None \<Rightarrow> ret () | Some i \<Rightarrow>
     thn (acquire ItableLock)
     (bnd (get_inode i id) (\<lambda>ip.
     if iref ip < 1 then thn (release ItableLock) (panic ''iput'')
     else
       thn (whenk (iref ip = 1 \<and> ivalid ip \<and> inlink ip = 0)
         (thn (release ItableLock)
         (thn (ilock (Some i))
         (thn (itrunc (Some i))
         (thn (upd_inode i (\<lambda>ip. ip\<lparr>itype := 0\<rparr>))
         (thn (iupdate (Some i))
         (thn (upd_inode i (\<lambda>ip. ip\<lparr>ivalid := False\<rparr>))
         (thn (iunlock (Some i))
         (acquire ItableLock)))))))))
       (thn (upd_inode i (\<lambda>ip. ip\<lparr>iref := iref ip - 1\<rparr>))
       (bnd (get_inode i iref) (\<lambda>r.
       thn (whenk (r = 0) (upd_inode i (\<lambda>ip. ip\<lparr>ivalid := False, itype := 0, isize := 0\<rparr>)))
       (release ItableLock)))))))"

definition iunlockput :: "nat option \<Rightarrow> ('z fs_st_scheme, unit) kern" where
  "iunlockput ipo = thn (iunlock ipo) (iput ipo)"

text \<open>
  The copy loops of \<open>readi\<close> and \<open>writei\<close>: block by block, \<open>tot\<close> bytes done of \<open>n\<close>. The
  remaining count shrinks because a block always has room past its offset.
\<close>

definition boff :: "u64 \<Rightarrow> u32 \<Rightarrow> u32" where
  "boff off tot = ucast ((off + ucast tot) mod 512)"

definition step_size :: "u64 \<Rightarrow> u32 \<Rightarrow> u32 \<Rightarrow> u32" where
  "step_size off tot n = min_uint (n - tot) (512 - boff off tot)"

lemma boff_less: "unat (boff off tot) < 512"
proof -
  have "unat ((off + ucast tot) mod 512) < 512"
    by (simp add: unat_mod)
  then show ?thesis
    by (simp add: boff_def unsigned_ucast_eq take_bit_nat_eq_self)
qed

lemma step_size_progress:
  assumes "tot < n"
  shows "unat (n - (tot + step_size off tot n)) < unat (n - tot)"
    and "step_size off tot n \<le> n - tot" and "0 < step_size off tot n"
proof -
  let ?m = "step_size off tot n"
  have "boff off tot \<le> 512" using boff_less [of off tot] by (simp add: word_le_nat_alt)
  then have "unat (512 - boff off tot) = 512 - unat (boff off tot)"
    by (subst unat_sub_small) simp_all
  then have room: "0 < 512 - boff off tot"
    using boff_less [of off tot] by (simp add: word_less_nat_alt)
  have "unat (n - tot) = unat n - unat tot"
    using assms by (intro unat_sub_small) simp
  then have left: "0 < n - tot" using assms by (simp add: word_less_nat_alt)
  show le: "?m \<le> n - tot" by (auto simp: step_size_def min_uint_def)
  show pos: "0 < ?m" using room left by (auto simp: step_size_def min_uint_def)
  have "unat (n - (tot + ?m)) = unat (n - tot) - unat ?m"
    using unat_sub_small [OF le] by (simp only: diff_diff_eq)
  then show "unat (n - (tot + ?m)) < unat (n - tot)"
    using pos left by (simp add: word_less_nat_alt)
qed

function readi_loop :: "nat \<Rightarrow> u64 \<Rightarrow> u32 \<Rightarrow> u32 \<Rightarrow> u8 list \<Rightarrow> ('z fs_st_scheme, u32 \<times> u8 list) kern" where
  "readi_loop i off n tot acc =
     (if tot < n then
        bnd (bmap i (ucast ((off + ucast tot) div 512)) False) (\<lambda>addr.
        if addr = 0 then ret (tot, acc)
        else
          bnd (get_inode i idev) (\<lambda>dev.
          bnd (bread dev addr) (\<lambda>bp.
          let m = step_size off tot n in
          bnd (get_buf bp (\<lambda>q. slice (unat (boff off tot)) (unat m) (bdata q))) (\<lambda>bs.
          thn (brelse bp)
          (readi_loop i off n (tot + m) (acc @ bs))))))
      else ret (tot, acc))"
  by pat_completeness auto
termination
  by (relation "measure (\<lambda>(i, off, n, tot, acc). unat (n - tot))")
    (auto simp: step_size_progress(1))

declare readi_loop.simps [simp del]

definition readi :: "nat option \<Rightarrow> u64 \<Rightarrow> u32 \<Rightarrow> ('z fs_st_scheme, int \<times> u8 list) kern" where
  "readi ipo off n = (case ipo of None \<Rightarrow> ret (-1, []) | Some i \<Rightarrow>
     if n = 0 then ret (0, [])
     else
       bnd (inode_lock_if_needed i) (\<lambda>need_unlock.
       bnd (get_inode i id) (\<lambda>ip.
       let unlock = whenk need_unlock (iunlock (Some i)) in
       if itype ip = 0 then thn unlock (ret (-1, []))
       else if ucast (isize ip) < off then thn unlock (ret (0, []))
       else if off + ucast n < off then thn unlock (ret (-1, []))
       else
         let n = (if ucast (isize ip) < off + ucast n then ucast (ucast (isize ip) - off) else n) in
         bnd (readi_loop i off n 0 []) (\<lambda>(tot, bs).
         thn unlock
         (ret (sint tot, bs))))))"

function writei_loop :: "nat \<Rightarrow> u64 \<Rightarrow> u8 list \<Rightarrow> u32 \<Rightarrow> u32 \<Rightarrow> ('z fs_st_scheme, u32) kern" where
  "writei_loop i off src n tot =
     (if tot < n then
        bnd (bmap i (ucast ((off + ucast tot) div 512)) True) (\<lambda>addr.
        if addr = 0 then ret tot
        else
          bnd (get_inode i idev) (\<lambda>dev.
          bnd (bread dev addr) (\<lambda>bp.
          let m = step_size off tot n in
          thn (upd_data bp (put_at (unat (boff off tot)) (slice (unat tot) (unat m) src)))
          (thn (bwrite bp)
          (thn (brelse bp)
          (writei_loop i off src n (tot + m)))))))
      else ret tot)"
  by pat_completeness auto
termination
  by (relation "measure (\<lambda>(i, off, src, n, tot). unat (n - tot))")
    (auto simp: step_size_progress(1))

declare writei_loop.simps [simp del]

definition writei :: "nat option \<Rightarrow> u64 \<Rightarrow> u8 list \<Rightarrow> ('z fs_st_scheme, int) kern" where
  "writei ipo off src = (case ipo of None \<Rightarrow> ret (-1) | Some i \<Rightarrow>
     let n = (of_nat (length src) :: u32) in
     if n = 0 then ret 0
     else
       bnd (inode_lock_if_needed i) (\<lambda>need_unlock.
       bnd (get_inode i id) (\<lambda>ip.
       let unlock = whenk need_unlock (iunlock (Some i)) in
       if itype ip = 0 then thn unlock (ret (-1))
       else if ucast (isize ip) < off \<or> off + ucast n < off then thn unlock (ret (-1))
       else if of_nat (MAXFILE * BSIZE) < off + ucast n then thn unlock (ret (-1))
       else
         bnd (writei_loop i off src n 0) (\<lambda>tot.
         let end = off + ucast tot in
         thn (upd_inode i (\<lambda>ip. if ucast (isize ip) < end then ip\<lparr>isize := ucast end\<rparr> else ip))
         (thn (iupdate (Some i))
         (thn unlock
         (ret (sint tot))))))))"

definition idle_inode :: inode where
  "idle_inode = \<lparr>idev = 0, inum = 0, iref = 0, ivalid = False, itype = 0, imajor = 0, iminor = 0,
     inlink = 0, isize = 0, iaddrs = replicate 13 0\<rparr>"

definition demo_fs :: fs_st where
  "demo_fs = virtio_st.extend demo_virtio
     (fs_st.fields (replicate NINODE idle_inode)
       \<lparr>sb_magic = FSMAGIC, sb_size = 1000, sb_nblocks = 900, sb_ninodes = 64, sb_nlog = 0,
         sb_logstart = 2, sb_inodestart = 2, sb_bmapstart = 10\<rparr> 1 True)"

declare demo_fs_def [demos] fs_st.defs [demos]

end
