(* ===== verification/Path.thy ===== *)
theory Path
  imports Inode
begin

section \<open>Directories and path names: \<^verbatim>\<open>kernel/fs/fs.c\<close>\<close>

text \<open>
  Directory search and insertion over \<open>readi\<close> and \<open>writei\<close>, and the walk along a path. The
  offset a directory search stores through \<open>poff\<close> is part of its result, and so is the last
  path element \<open>namex\<close> leaves in \<open>name\<close>.
\<close>

definition dirent_offs :: "u32 \<Rightarrow> u32 list" where
  "dirent_offs len = map (\<lambda>k. of_nat (DIRENT_SIZE * k)) [0..<unat len div DIRENT_SIZE]"

definition dirlookup :: "nat \<Rightarrow> u8 list \<Rightarrow> ('z fs_st_scheme, (nat \<times> u32) option) kern" where
  "dirlookup d name =
     bnd (inode_lock_if_needed d) (\<lambda>need_unlock.
     let unlock = whenk need_unlock (iunlock (Some d)) in
     bnd (get_inode d id) (\<lambda>dp.
     if itype dp \<noteq> T_DIR then thn unlock (ret None)
     else
       bnd (search (dirent_offs (isize dp)) (\<lambda>off.
         bnd (readi (Some d) (ucast off) (of_nat DIRENT_SIZE)) (\<lambda>(n, bs).
         if n \<noteq> int DIRENT_SIZE then ret (Some None)
         else
           let de = dirent_of bs in
           if de_inum de = 0 then ret None
           else if namecmp name (cstr (de_name de)) = 0 then ret (Some (Some (de_inum de, off)))
           else ret None))) (\<lambda>r.
       thn unlock
       (case r of
          Some (Some (ino, off)) \<Rightarrow> bnd (iget (idev dp) (ucast ino)) (\<lambda>i. ret (Some (i, off)))
        | _ \<Rightarrow> ret None))))"

definition dirlink :: "nat \<Rightarrow> u8 list \<Rightarrow> u32 \<Rightarrow> ('z fs_st_scheme, int) kern" where
  "dirlink d name ino =
     bnd (inode_lock_if_needed d) (\<lambda>need_unlock.
     let unlock = whenk need_unlock (iunlock (Some d)) in
     bnd (get_inode d itype) (\<lambda>ty.
     if ty \<noteq> T_DIR then thn unlock (ret (-1))
     else
       bnd (dirlookup d name) (\<lambda>found.
       case found of
         Some (i, _) \<Rightarrow> thn (iput (Some i)) (thn unlock (ret (-1)))
       | None \<Rightarrow>
           bnd (get_inode d isize) (\<lambda>len.
           bnd (search (dirent_offs len) (\<lambda>off.
             bnd (readi (Some d) (ucast off) (of_nat DIRENT_SIZE)) (\<lambda>(n, bs).
             if n \<noteq> int DIRENT_SIZE then ret (Some None)
             else if de_inum (dirent_of bs) = 0 then ret (Some (Some off))
             else ret None))) (\<lambda>r.
           case r of
             Some None \<Rightarrow> thn unlock (ret (-1))
           | _ \<Rightarrow>
               let off = (case r of Some (Some off) \<Rightarrow> off
                          | _ \<Rightarrow> of_nat (DIRENT_SIZE * (unat len div DIRENT_SIZE)));
                   nm = take DIRSIZ name;
                   de = \<lparr>de_inum = ucast ino, de_name = nm @ replicate (DIRSIZ - length nm) 0\<rparr> in
               bnd (writei (Some d) (ucast off) (dirent_bytes de)) (\<lambda>n.
               thn unlock
               (ret (if n \<noteq> int DIRENT_SIZE then -1 else 0))))))))"

text \<open>\<open>proc_cwddup\<close> of \<^verbatim>\<open>kernel/core/proc.c\<close>.\<close>

definition proc_cwddup :: "('z fs_st_scheme, nat option) kern" where
  "proc_cwddup =
     bnd myproc (\<lambda>me. case me of None \<Rightarrow> ret None | Some p \<Rightarrow>
     thn (acquire (ProcLock p))
     (bnd (get_proc p cwd) (\<lambda>c.
     bnd (case c of Some i \<Rightarrow> idup (Some i) | None \<Rightarrow> ret None) (\<lambda>ip.
     thn (release (ProcLock p))
     (ret ip)))))"

function namex_loop :: "nat \<Rightarrow> u8 list \<Rightarrow> bool \<Rightarrow> u8 list \<Rightarrow>
    ('z fs_st_scheme, nat option \<times> u8 list) kern" where
  "namex_loop ip p wantparent name =
     (case skipelem p of
        None \<Rightarrow>
          if wantparent then thn (iput (Some ip)) (ret (None, name))
          else ret (Some ip, name)
      | Some (name, p) \<Rightarrow>
          thn (ilock (Some ip))
          (bnd (get_inode ip itype) (\<lambda>ty.
          if ty \<noteq> T_DIR then thn (iunlockput (Some ip)) (ret (None, name))
          else if wantparent \<and> p = [] then thn (iunlock (Some ip)) (ret (Some ip, name))
          else
            bnd (dirlookup ip name) (\<lambda>found.
            thn (iunlockput (Some ip))
            (case found of
               None \<Rightarrow> ret (None, name)
             | Some (i, _) \<Rightarrow> namex_loop i p wantparent name)))))"
  by pat_completeness auto
termination
  by (relation "measure (\<lambda>(ip, p, w, nm). length p)") (auto dest: skipelem_shorter)

declare namex_loop.simps [simp del]

definition namex :: "u8 list \<Rightarrow> bool \<Rightarrow> ('z fs_st_scheme, nat option \<times> u8 list) kern" where
  "namex path wantparent =
     (if path = [] then ret (None, [])
      else
        bnd (gets rootdev) (\<lambda>dev.
        bnd (if hd path = slash then iget (word_of_int dev) ROOTINO
             else
               bnd proc_cwddup (\<lambda>c. case c of
                 Some i \<Rightarrow> ret i
               | None \<Rightarrow> iget (word_of_int dev) ROOTINO)) (\<lambda>ip.
        namex_loop ip path wantparent [])))"

definition namei :: "u8 list \<Rightarrow> ('z fs_st_scheme, nat option) kern" where
  "namei path = bnd (namex path False) (\<lambda>(ip, name). ret ip)"

definition nameiparent :: "u8 list \<Rightarrow> ('z fs_st_scheme, nat option \<times> u8 list) kern" where
  "nameiparent path = namex path True"

end
