(* ===== verification/PageTable.thy ===== *)
theory PageTable
  imports Vm
begin

section \<open>Page tables as trees\<close>

text \<open>
  The abstract reading of a page table in memory: the slot of the leaf entry of an address, the
  set of its table pages, and the well-formedness that makes it a tree (aligned tables, no
  table reached twice). \<open>walk\<close> and \<open>mappages\<close> are shown to keep a table well formed and to
  change exactly the mappings they are asked to change.
\<close>

subsection \<open>Indices, entries, pages\<close>

definition idx :: "nat \<Rightarrow> u64 \<Rightarrow> nat" where
  "idx l va = unat (PX l va)"

definition slot :: "u64 \<Rightarrow> nat \<Rightarrow> u64" where
  "slot p i = p + of_nat (8 * i)"

definition entry :: "memory \<Rightarrow> u64 \<Rightarrow> nat \<Rightarrow> u64" where
  "entry m p i = load64 m (slot p i)"

definition valid :: "u64 \<Rightarrow> bool" where
  "valid e \<longleftrightarrow> e AND PTE_V \<noteq> 0"

definition same_page :: "memory \<Rightarrow> memory \<Rightarrow> u64 \<Rightarrow> bool" where
  "same_page m m' q \<longleftrightarrow> (\<forall>i < 4096. m' (q + of_nat i) = m (q + of_nat i))"

lemma idx_less [simp]: "idx l va < 512"
proof -
  have "PX l va \<le> 0x1FF" unfolding PX_def by (rule word_and_le1)
  then show ?thesis by (simp add: idx_def word_le_nat_alt)
qed

lemma slot_idx: "p + 8 * PX l va = slot p (idx l va)"
  by (simp add: slot_def idx_def)

lemma valid_bit: "valid e \<longleftrightarrow> bit e 0"
proof -
  have "e AND PTE_V = e mod 2" by (simp add: PTE_V_def and_one_eq)
  then show ?thesis by (simp add: valid_def bit_0 odd_iff_mod_2_eq_one)
qed

lemma not_valid_0 [simp]: "\<not> valid 0"
  by (simp add: valid_def)

lemma aligned_push: "aligned p \<Longrightarrow> push_bit 12 (drop_bit 12 p) = p"
proof -
  assume "aligned p"
  then have "take_bit 12 p = 0"
    by (simp add: aligned_def take_bit_eq_mod PGSIZE_def)
  then show ?thesis using bits_ident [of 12 p] by simp
qed

lemma PTE2PA_PA2PTE:
  assumes "aligned p" and "drop_bit 10 f = 0"
  shows "PTE2PA (PA2PTE p OR f) = p"
proof -
  have "PTE2PA (PA2PTE p OR f) = push_bit 12 (drop_bit 12 p)"
  proof (rule bit_word_eqI)
    fix n :: nat
    have "\<not> bit f (k + 10)" for k
      using assms(2) bit_drop_bit_eq [of 10 f] by (simp add: fun_eq_iff add.commute)
    from this [of "n - 12"] show "n < LENGTH(64) \<Longrightarrow>
        bit (PTE2PA (PA2PTE p OR f)) n = bit (push_bit 12 (drop_bit 12 p)) n"
      by (auto simp: PTE2PA_def PA2PTE_def bit_simps)
  qed
  with aligned_push [OF assms(1)] show ?thesis by simp
qed

lemma valid_PA2PTE [simp]: "valid (PA2PTE p OR PTE_V)" "valid (PA2PTE p OR f OR PTE_V)"
  by (auto simp: valid_bit PTE_V_def bit_simps)

lemma page_slot_disj:
  assumes "aligned p" and "aligned q" and "p \<noteq> q" and "i < 512" and "j < 512"
  shows "disj (slot p i) 8 (slot q j) 8"
  unfolding slot_def by (rule page_disj) (use assms in auto)

lemma aligned_nat: "aligned p \<Longrightarrow> n < 4096 \<Longrightarrow> unat (p + of_nat n) = unat p + n"
proof -
  assume "aligned p" "n < 4096"
  then obtain a where a: "unat p = 4096 * a" unfolding aligned_dvd by (elim dvdE)
  then have "a \<le> 4503599627370495" using unat64_less [of p] by simp
  with a \<open>n < 4096\<close> show ?thesis by (intro unat64_add_nat) simp
qed

lemma slot_disj:
  assumes "aligned p" and "i < 512" and "j < 512" and "i \<noteq> j"
  shows "disj (slot p i) 8 (slot p j) 8"
proof -
  have i: "unat (slot p i) = unat p + 8 * i"
    unfolding slot_def using assms by (intro aligned_nat) auto
  have j: "unat (slot p j) = unat p + 8 * j"
    unfolding slot_def using assms by (intro aligned_nat) auto
  obtain a where a: "unat p = 4096 * a" using assms(1) unfolding aligned_dvd by (elim dvdE)
  then have "a \<le> 4503599627370495" using unat64_less [of p] by simp
  then show ?thesis
    using assms(2-4) a by (intro disj_nat) (simp_all add: i j, linarith)
qed

lemma entry_store_same [simp]: "entry (store64 m (slot p i) v) p i = v"
  by (simp add: entry_def)

lemma entry_store_other:
  "aligned p \<Longrightarrow> i < 512 \<Longrightarrow> j < 512 \<Longrightarrow> i \<noteq> j \<Longrightarrow>
     entry (store64 m (slot p i) v) p j = entry m p j"
  unfolding entry_def by (intro load64_store64_disj slot_disj)

lemma entry_store_page:
  "aligned p \<Longrightarrow> aligned q \<Longrightarrow> p \<noteq> q \<Longrightarrow> i < 512 \<Longrightarrow> j < 512 \<Longrightarrow>
     entry (store64 m (slot p i) v) q j = entry m q j"
  unfolding entry_def by (intro load64_store64_disj page_slot_disj)

lemma entry_memset_page:
  assumes "aligned p" and "aligned q" and "p \<noteq> q" and "j < 512"
  shows "entry (memset m p c 4096) q j = entry m q j"
  unfolding entry_def slot_def by (rule load64_other_page(1)) (use assms in auto)

lemma entry_memset_zero:
  assumes "aligned p" and "j < 512"
  shows "entry (memset m p 0 4096) p j = 0"
proof -
  have "slot p j - p = of_nat (8 * j)" by (simp add: slot_def)
  then have "unat (slot p j - p) = 8 * j"
    using assms(2) by (simp only: unat64_of_nat)
  then show ?thesis
    unfolding entry_def by (intro load64_memset_zero) (use assms(2) in simp)
qed

lemma same_page_refl [simp]: "same_page m m q"
  by (simp add: same_page_def)

lemma same_page_trans: "same_page m m' q \<Longrightarrow> same_page m' m'' q \<Longrightarrow> same_page m m'' q"
  by (simp add: same_page_def)

lemma same_page_entry: "same_page m m' q \<Longrightarrow> i < 512 \<Longrightarrow> entry m' q i = entry m q i"
  unfolding entry_def
proof (rule load64_cong)
  fix j :: nat
  assume "same_page m m' q" "i < 512" "j < 8"
  moreover have "slot q i + of_nat j = q + of_nat (8 * i + j)" by (simp add: slot_def)
  ultimately show "m' (slot q i + of_nat j) = m (slot q i + of_nat j)"
    by (simp only: same_page_def)
qed

lemma page_far:
  assumes "aligned p" and "aligned q" and "p \<noteq> q" and "i < 4096" and "j + n \<le> 4096" and "0 < n"
  shows "\<not> unat (q + of_nat i - (p + of_nat j)) < n"
proof -
  have "disj (p + of_nat j) n (q + of_nat 0) 4096"
    by (rule page_disj) (use assms in auto)
  from disj_notin [OF this assms(4)] show ?thesis by simp
qed

lemma same_page_store_bytes:
  assumes "aligned p" and "aligned q" and "p \<noteq> q" and "j + length bs \<le> 4096" and "bs \<noteq> []"
  shows "same_page m (store_bytes m (p + of_nat j) bs) q"
  using page_far [OF assms(1-3) _ assms(4)] assms(5) by (simp add: same_page_def store_bytes_def)

lemma same_page_store:
  "aligned p \<Longrightarrow> aligned q \<Longrightarrow> p \<noteq> q \<Longrightarrow> i < 512 \<Longrightarrow> same_page m (store64 m (slot p i) v) q"
  unfolding store64_def slot_def by (rule same_page_store_bytes) (auto simp: le64_def)

lemma same_page_memset:
  "aligned p \<Longrightarrow> aligned q \<Longrightarrow> p \<noteq> q \<Longrightarrow> same_page m (memset m p c 4096) q"
  using page_far [of p q _ 0 4096] by (simp add: same_page_def memset_apply)

subsection \<open>Trees\<close>

fun leaf_slot :: "memory \<Rightarrow> nat \<Rightarrow> u64 \<Rightarrow> u64 \<Rightarrow> u64 option" where
  "leaf_slot m 0 p va = Some (slot p (idx 0 va))"
| "leaf_slot m (Suc l) p va =
     (let e = entry m p (idx (Suc l) va) in if valid e then leaf_slot m l (PTE2PA e) va else None)"

fun pte_at :: "memory \<Rightarrow> nat \<Rightarrow> u64 \<Rightarrow> u64 \<Rightarrow> u64" where
  "pte_at m 0 p va = entry m p (idx 0 va)"
| "pte_at m (Suc l) p va =
     (let e = entry m p (idx (Suc l) va) in if valid e then pte_at m l (PTE2PA e) va else 0)"

fun tables :: "memory \<Rightarrow> nat \<Rightarrow> u64 \<Rightarrow> u64 set" where
  "tables m 0 p = {p}"
| "tables m (Suc l) p =
     {p} \<union> (\<Union>i \<in> {i. i < 512 \<and> valid (entry m p i)}. tables m l (PTE2PA (entry m p i)))"

fun tree :: "memory \<Rightarrow> nat \<Rightarrow> u64 \<Rightarrow> bool" where
  "tree m 0 p \<longleftrightarrow> aligned p"
| "tree m (Suc l) p \<longleftrightarrow> aligned p \<and>
     (\<forall>i < 512. valid (entry m p i) \<longrightarrow>
        tree m l (PTE2PA (entry m p i)) \<and> p \<notin> tables m l (PTE2PA (entry m p i))) \<and>
     (\<forall>i < 512. \<forall>j < 512. i \<noteq> j \<longrightarrow> valid (entry m p i) \<longrightarrow> valid (entry m p j) \<longrightarrow>
        tables m l (PTE2PA (entry m p i)) \<inter> tables m l (PTE2PA (entry m p j)) = {})"

text \<open>Two addresses that share their indices at the levels up to \<open>l\<close>.\<close>

definition same_path :: "nat \<Rightarrow> u64 \<Rightarrow> u64 \<Rightarrow> bool" where
  "same_path l va vb \<longleftrightarrow> (\<forall>k \<le> l. idx k va = idx k vb)"

lemma same_path_0: "same_path 0 va vb \<longleftrightarrow> idx 0 va = idx 0 vb"
  by (simp add: same_path_def)

lemma same_path_Suc: "same_path (Suc l) va vb \<longleftrightarrow> idx (Suc l) va = idx (Suc l) vb \<and> same_path l va vb"
  by (auto simp: same_path_def le_Suc_eq)

lemma walk_levels_read: "walk_levels l p va False s = Ret (leaf_slot (mem s) l p va) s"
  by (induction l arbitrary: p) (simp_all add: run_simps slot_idx entry_def valid_def Let_def)

lemma pte_at_leaf:
  "pte_at m l p va = (case leaf_slot m l p va of None \<Rightarrow> 0 | Some a \<Rightarrow> load64 m a)"
  by (induction l arbitrary: p) (simp_all add: entry_def Let_def)

lemma root_in_tables [simp]: "p \<in> tables m l p"
  by (cases l) simp_all

lemma tree_aligned: "tree m l p \<Longrightarrow> aligned p"
  by (cases l) simp_all

lemma tables_aligned: "tree m l p \<Longrightarrow> q \<in> tables m l p \<Longrightarrow> aligned q"
  by (induction l arbitrary: p) auto

lemma child_tables: "i < 512 \<Longrightarrow> valid (entry m p i) \<Longrightarrow>
    tables m l (PTE2PA (entry m p i)) \<subseteq> tables m (Suc l) p"
  by auto

text \<open>A table depends only on the contents of its own pages.\<close>

lemma tables_cong:
  "(\<And>q. q \<in> tables m l p \<Longrightarrow> same_page m m' q) \<Longrightarrow> tables m' l p = tables m l p"
proof (induction l arbitrary: p)
  case 0
  then show ?case by simp
next
  case (Suc l)
  have e: "entry m' p i = entry m p i" if "i < 512" for i
    using Suc.prems [of p] that by (simp add: same_page_entry)
  have "tables m' l (PTE2PA (entry m p i)) = tables m l (PTE2PA (entry m p i))"
    if "i < 512" "valid (entry m p i)" for i
    using child_tables [OF that] by (intro Suc.IH Suc.prems) blast
  with e show ?case by auto
qed

lemma tree_cong:
  "(\<And>q. q \<in> tables m l p \<Longrightarrow> same_page m m' q) \<Longrightarrow> tree m' l p = tree m l p"
proof (induction l arbitrary: p)
  case 0
  then show ?case by simp
next
  case (Suc l)
  have e: "entry m' p i = entry m p i" if "i < 512" for i
    using Suc.prems [of p] that by (simp add: same_page_entry)
  have sub: "same_page m m' q" if "i < 512" "valid (entry m p i)" "q \<in> tables m l (PTE2PA (entry m p i))" for i q
    using child_tables [OF that(1,2)] that(3) by (intro Suc.prems) blast
  have "tree m' l (PTE2PA (entry m p i)) = tree m l (PTE2PA (entry m p i))"
    "tables m' l (PTE2PA (entry m p i)) = tables m l (PTE2PA (entry m p i))"
    if "i < 512" "valid (entry m p i)" for i
    using sub [OF that] by (auto intro!: Suc.IH tables_cong)
  with e show ?case by (simp cong: conj_cong imp_cong)
qed

lemma leaf_slot_cong:
  "(\<And>q. q \<in> tables m l p \<Longrightarrow> same_page m m' q) \<Longrightarrow> leaf_slot m' l p va = leaf_slot m l p va"
proof (induction l arbitrary: p)
  case 0
  then show ?case by simp
next
  case (Suc l)
  have e: "entry m' p i = entry m p i" if "i < 512" for i
    using Suc.prems [of p] that by (simp add: same_page_entry)
  have "leaf_slot m' l (PTE2PA (entry m p i)) va = leaf_slot m l (PTE2PA (entry m p i)) va"
    if "i < 512" "valid (entry m p i)" for i
    using child_tables [OF that] by (intro Suc.IH Suc.prems) blast
  with e show ?case by (simp add: Let_def)
qed

lemma pte_at_cong:
  "(\<And>q. q \<in> tables m l p \<Longrightarrow> same_page m m' q) \<Longrightarrow> pte_at m' l p va = pte_at m l p va"
proof (induction l arbitrary: p)
  case 0
  then show ?case by (simp add: same_page_entry)
next
  case (Suc l)
  have e: "entry m' p i = entry m p i" if "i < 512" for i
    using Suc.prems [of p] that by (simp add: same_page_entry)
  have "pte_at m' l (PTE2PA (entry m p i)) va = pte_at m l (PTE2PA (entry m p i)) va"
    if "i < 512" "valid (entry m p i)" for i
    using child_tables [OF that] by (intro Suc.IH Suc.prems) blast
  with e show ?case by (simp add: Let_def)
qed

text \<open>
  Replacing one child of a table: the other entries and the other children are untouched, the
  new child is a tree of pages no other part of the table uses.
\<close>

lemma tree_update:
  assumes "tree m (Suc l) p" and "i < 512"
    and "valid (entry m' p i)" and "tree m' l (PTE2PA (entry m' p i))"
    and "p \<notin> tables m' l (PTE2PA (entry m' p i))"
    and others: "\<And>j. j < 512 \<Longrightarrow> j \<noteq> i \<Longrightarrow> entry m' p j = entry m p j"
    and keep: "\<And>j q. j < 512 \<Longrightarrow> j \<noteq> i \<Longrightarrow> valid (entry m p j) \<Longrightarrow>
        q \<in> tables m l (PTE2PA (entry m p j)) \<Longrightarrow> same_page m m' q"
    and apart: "\<And>j. j < 512 \<Longrightarrow> j \<noteq> i \<Longrightarrow> valid (entry m p j) \<Longrightarrow>
        tables m' l (PTE2PA (entry m' p i)) \<inter> tables m l (PTE2PA (entry m p j)) = {}"
  shows "tree m' (Suc l) p"
    and "tables m' (Suc l) p \<subseteq> tables m (Suc l) p \<union> tables m' l (PTE2PA (entry m' p i))"
    and "pte_at m' (Suc l) p va = (if idx (Suc l) va = i then pte_at m' l (PTE2PA (entry m' p i)) va
           else pte_at m (Suc l) p va)"
proof -
  have t: "tables m' l (PTE2PA (entry m p j)) = tables m l (PTE2PA (entry m p j))"
    if "j < 512" "j \<noteq> i" "valid (entry m p j)" for j
    using keep [OF that] by (rule tables_cong)
  have w: "tree m' l (PTE2PA (entry m p j)) = tree m l (PTE2PA (entry m p j))"
    if "j < 512" "j \<noteq> i" "valid (entry m p j)" for j
    using keep [OF that] by (rule tree_cong)
  have v: "pte_at m' l (PTE2PA (entry m p j)) va = pte_at m l (PTE2PA (entry m p j)) va"
    if "j < 512" "j \<noteq> i" "valid (entry m p j)" for j
    using keep [OF that] by (rule pte_at_cong)
  show "pte_at m' (Suc l) p va = (if idx (Suc l) va = i then pte_at m' l (PTE2PA (entry m' p i)) va
           else pte_at m (Suc l) p va)"
    using assms(3) others v by (simp add: Let_def)
  show "tables m' (Suc l) p \<subseteq> tables m (Suc l) p \<union> tables m' l (PTE2PA (entry m' p i))"
  proof
    fix q
    assume "q \<in> tables m' (Suc l) p"
    then consider "q = p" | j where "j < 512" "valid (entry m' p j)" "q \<in> tables m' l (PTE2PA (entry m' p j))"
      by auto
    then show "q \<in> tables m (Suc l) p \<union> tables m' l (PTE2PA (entry m' p i))"
    proof cases
      case 1
      then show ?thesis by simp
    next
      case (2 j)
      then show ?thesis using others [of j] t [of j] by (cases "j = i") auto
    qed
  qed
  have a: "aligned p" using assms(1) by simp
  have n: "tree m' l (PTE2PA (entry m' p j)) \<and> p \<notin> tables m' l (PTE2PA (entry m' p j))"
    if "j < 512" "valid (entry m' p j)" for j
    using that assms(1,4,5) others [of j] t [of j] w [of j] by (cases "j = i") auto
  have d: "tables m' l (PTE2PA (entry m' p j)) \<inter> tables m' l (PTE2PA (entry m' p k)) = {}"
    if h: "j < 512" "k < 512" "j \<noteq> k" "valid (entry m' p j)" "valid (entry m' p k)" for j k
  proof -
    consider "j = i" "k \<noteq> i" | "k = i" "j \<noteq> i" | "j \<noteq> i" "k \<noteq> i" using h(3) by blast
    then show ?thesis
    proof cases
      case 1
      then show ?thesis using h others [of k] t [of k] apart [of k] by simp
    next
      case 2
      then show ?thesis using h others [of j] t [of j] apart [of j] by (simp add: Int_commute)
    next
      case 3
      then show ?thesis using h assms(1) others [of j] others [of k] t [of j] t [of k] by simp
    qed
  qed
  show "tree m' (Suc l) p" using a n d by simp
qed

subsection \<open>walk\<close>

text \<open>
  What a call that takes \<open>k\<close> pages from the pool and works on the tables \<open>T\<close> does to the rest:
  only memory and the free list change, and memory only in \<open>T\<close> and the pages taken.
\<close>

definition takes :: "nat \<Rightarrow> u64 list \<Rightarrow> u64 set \<Rightarrow> 'z kmem_st_scheme \<Rightarrow> 'z kmem_st_scheme \<Rightarrow> bool" where
  "takes k ps T s t \<longleftrightarrow> k \<le> length ps \<and> free_pages t (drop k ps) \<and>
     t = s\<lparr>mem := mem t, freelist := freelist t\<rparr> \<and>
     (\<forall>q. aligned q \<longrightarrow> q \<notin> T \<longrightarrow> q \<notin> set (take k ps) \<longrightarrow> same_page (mem s) (mem t) q)"

lemma takes_refl: "free_pages s ps \<Longrightarrow> takes 0 ps T s s"
  by (simp add: takes_def)

lemma takes_mono: "takes k ps T s t \<Longrightarrow> T \<subseteq> T' \<Longrightarrow> takes k ps T' s t"
  by (auto simp: takes_def)

lemma takes_trans:
  assumes "takes k ps T s t" and "takes j (drop k ps) T t u"
  shows "takes (k + j) ps T s u"
proof -
  have e: "t = s\<lparr>mem := mem t, freelist := freelist t\<rparr>" "u = t\<lparr>mem := mem u, freelist := freelist u\<rparr>"
    using assms by (simp_all add: takes_def)
  have "u = s\<lparr>mem := mem u, freelist := freelist u\<rparr>"
    by (subst e(2), subst e(1)) simp
  moreover have "same_page (mem s) (mem u) q"
    if "aligned q" "q \<notin> T" "q \<notin> set (take (k + j) ps)" for q
  proof -
    have "q \<notin> set (take k ps)" "q \<notin> set (take j (drop k ps))"
      using that(3) by (simp_all add: take_add)
    with that assms show ?thesis
      by (auto simp: takes_def intro: same_page_trans)
  qed
  ultimately show ?thesis
    using assms by (auto simp: takes_def add.commute)
qed

text \<open>Storing in a table page keeps the pool.\<close>

lemma fl_path_same_pages:
  assumes "fl_path m f ps" and "\<forall>q \<in> set ps. same_page m m' q"
  shows "fl_path m' f ps"
proof -
  have "load64 m' q = load64 m q" if "q \<in> set ps" for q
    using same_page_entry [of m m' q 0] assms(2) that by (simp add: entry_def slot_def)
  then show ?thesis using fl_path_cong [of ps m' m f] assms(1) by blast
qed

lemma free_pages_mem:
  assumes "free_pages s ps" and "\<forall>q \<in> set ps. same_page (mem s) m' q"
  shows "free_pages (s\<lparr>mem := m'\<rparr>) ps"
  using assms fl_path_same_pages by (auto simp: free_pages_def)

lemma free_pages_aligned: "free_pages s ps \<Longrightarrow> q \<in> set ps \<Longrightarrow> aligned q"
  by (auto simp: free_pages_def page_def)

lemma free_pages_distinct: "free_pages s ps \<Longrightarrow> distinct ps"
  by (simp add: free_pages_def)

text \<open>A fresh zeroed page hung into entry \<open>i\<close> of the table \<open>pt\<close>.\<close>

definition hang :: "u64 \<Rightarrow> nat \<Rightarrow> u64 \<Rightarrow> u64 \<Rightarrow> 'z kmem_st_scheme \<Rightarrow> 'z kmem_st_scheme" where
  "hang pt i v p s = s\<lparr>freelist := load64 (mem s) p,
     mem := store64 (memset (memset (mem s) p 5 4096) p 0 4096) (slot pt i) v\<rparr>"

lemma hang_takes:
  assumes pool: "free_pages s (p # ps)" and pt: "aligned pt" "pt \<notin> set (p # ps)" and i: "i < 512"
  shows "takes 1 (p # ps) {pt} s (hang pt i v p s)"
proof -
  obtain t where t: "free_pages t ps" "p \<notin> set ps"
    "t = s\<lparr>freelist := load64 (mem s) p, mem := memset (mem s) p 5 4096\<rparr>"
    using free_pages_kalloc [OF pool] by blast
  have p: "aligned p" using free_pages_aligned [OF pool] by simp
  have h: "hang pt i v p s = t\<lparr>mem := store64 (memset (mem t) p 0 4096) (slot pt i) v\<rparr>"
    by (simp add: hang_def t(3))
  have sp: "same_page (mem t) (mem (hang pt i v p s)) q \<and> same_page (mem s) (mem (hang pt i v p s)) q"
    if "aligned q" "q \<noteq> pt" "q \<noteq> p" for q
  proof -
    have wipe: "same_page m (memset m p c 4096) q" for m c
      using that p by (intro same_page_memset) auto
    have put: "same_page m (store64 m (slot pt i) v) q" for m
      using that pt i by (intro same_page_store) auto
    have "same_page (mem s) (mem t) q" unfolding t(3) using wipe by simp
    moreover have "same_page (mem t) (mem (hang pt i v p s)) q"
      unfolding h using same_page_trans [OF wipe put] by simp
    ultimately show ?thesis using same_page_trans by blast
  qed
  have "free_pages (hang pt i v p s) ps"
    unfolding h
  proof (rule free_pages_mem [OF t(1)])
    show "\<forall>q \<in> set ps. same_page (mem t) (store64 (memset (mem t) p 0 4096) (slot pt i) v) q"
      using sp pt(2) t(2) free_pages_aligned [OF t(1)] unfolding h by fastforce
  qed
  moreover have "hang pt i v p s = s\<lparr>mem := mem (hang pt i v p s), freelist := freelist (hang pt i v p s)\<rparr>"
    by (simp add: hang_def)
  ultimately show ?thesis using sp by (simp add: takes_def)
qed

lemma hang_entries:
  assumes "aligned pt" and "aligned p" and "p \<noteq> pt" and "i < 512" and "j < 512"
  shows "entry (mem (hang pt i v p s)) p j = 0"
    and "entry (mem (hang pt i v p s)) pt j = (if j = i then v else entry (mem s) pt j)"
  using assms
  by (simp_all add: hang_def entry_store_page entry_store_other entry_memset_page entry_memset_zero)

lemma zero_table:
  assumes "aligned p" and "\<forall>j < 512. entry m p j = 0"
  shows "tree m l p" and "tables m l p = {p}" and "pte_at m l p va = 0"
  using assms by (cases l; simp add: Let_def)+

lemma walk_levels_alloc_step:
  assumes "free_pages s (q # qs)" and "\<not> valid (entry (mem s) p (idx (Suc l) va))"
  shows "walk_levels (Suc l) p va True s =
     walk_levels l q va True (hang p (idx (Suc l) va) (PA2PTE q OR PTE_V) q s)"
proof -
  obtain t where "kalloc s = Ret q t" "t = s\<lparr>freelist := load64 (mem s) q, mem := memset (mem s) q 5 4096\<rparr>"
    using free_pages_kalloc [OF assms(1)] by blast
  moreover have "q \<noteq> 0" using assms(1) by (auto simp: free_pages_def)
  ultimately show ?thesis
    using assms(2) by (simp add: run_simps slot_idx entry_def valid_def Let_def hang_def)
qed

lemma walk_levels_alloc_none:
  "free_pages s [] \<Longrightarrow> \<not> valid (entry (mem s) p (idx (Suc l) va)) \<Longrightarrow>
     walk_levels (Suc l) p va True s = Ret None s"
  by (simp add: run_simps slot_idx entry_def valid_def Let_def kalloc_empty)

lemma walk_levels_valid:
  "valid (entry (mem s) p (idx (Suc l) va)) \<Longrightarrow> walk_levels (Suc l) p va alloc s =
     walk_levels l (PTE2PA (entry (mem s) p (idx (Suc l) va))) va alloc s"
  by (simp add: run_simps slot_idx entry_def valid_def Let_def)

text \<open>The outcome of a walk that may allocate tables.\<close>

definition walked :: "nat \<Rightarrow> u64 \<Rightarrow> u64 \<Rightarrow> u64 list \<Rightarrow> 'z kmem_st_scheme \<Rightarrow> u64 option \<Rightarrow> 'z kmem_st_scheme \<Rightarrow>
    nat \<Rightarrow> bool" where
  "walked l p va ps s r t k \<longleftrightarrow>
     takes k ps (tables (mem s) l p) s t \<and> tree (mem t) l p \<and>
     tables (mem t) l p \<subseteq> tables (mem s) l p \<union> set (take k ps) \<and>
     (\<forall>vb. pte_at (mem t) l p vb = pte_at (mem s) l p vb) \<and>
     (case r of Some a \<Rightarrow> leaf_slot (mem t) l p va = Some a \<and> k \<le> l | None \<Rightarrow> k = length ps \<and> k < l)"

lemma walk_alloc:
  assumes "tree (mem s) l p" and "free_pages s ps" and "tables (mem s) l p \<inter> set ps = {}"
  shows "\<exists>r t k. walk_levels l p va True s = Ret r t \<and> walked l p va ps s r t k"
  using assms
proof (induction l arbitrary: p s ps)
  case 0
  then show ?case
    by (intro exI [of _ "Some (slot p (idx 0 va))"] exI [of _ s] exI [of _ 0])
      (simp add: walked_def takes_refl slot_idx)
next
  case (Suc l)
  let ?i = "idx (Suc l) va"
  let ?c = "PTE2PA (entry (mem s) p ?i)"
  have al: "aligned p" using Suc.prems(1) by simp
  show ?case
  proof (cases "valid (entry (mem s) p ?i)")
    case True
    have c: "tree (mem s) l ?c" "p \<notin> tables (mem s) l ?c" "tables (mem s) l ?c \<subseteq> tables (mem s) (Suc l) p"
      using Suc.prems(1) True child_tables [of ?i "mem s" p l] by simp_all
    then have dis: "tables (mem s) l ?c \<inter> set ps = {}" using Suc.prems(3) by blast
    from Suc.IH [OF c(1) Suc.prems(2) dis] obtain r t k where
      run: "walk_levels l ?c va True s = Ret r t" and w: "walked l ?c va ps s r t k" by blast
    have tk: "set (take k ps) \<subseteq> set ps" by (rule set_take_subset)
    have sp: "same_page (mem s) (mem t) q" if "aligned q" "q \<notin> tables (mem s) l ?c" "q \<notin> set ps" for q
      using w that tk unfolding walked_def takes_def by blast
    have root: "same_page (mem s) (mem t) p"
      using Suc.prems(3) al c(2) by (intro sp) auto
    have ents: "entry (mem t) p j = entry (mem s) p j" if "j < 512" for j
      using root that by (rule same_page_entry)
    have keep: "same_page (mem s) (mem t) q"
      if "j < 512" "j \<noteq> ?i" "valid (entry (mem s) p j)" "q \<in> tables (mem s) l (PTE2PA (entry (mem s) p j))" for j q
    proof (rule sp)
      have q: "q \<in> tables (mem s) (Suc l) p" using child_tables [OF that(1,3)] that(4) by blast
      then show "aligned q" using tables_aligned [OF Suc.prems(1)] by blast
      show "q \<notin> set ps" using q Suc.prems(3) by blast
      have "\<forall>i<512. \<forall>j<512. i \<noteq> j \<longrightarrow> valid (entry (mem s) p i) \<longrightarrow> valid (entry (mem s) p j) \<longrightarrow>
          tables (mem s) l (PTE2PA (entry (mem s) p i)) \<inter> tables (mem s) l (PTE2PA (entry (mem s) p j)) = {}"
        using Suc.prems(1) by simp
      then show "q \<notin> tables (mem s) l ?c" using that True by (metis disjoint_iff idx_less)
    qed
    have apart: "tables (mem t) l (PTE2PA (entry (mem t) p ?i)) \<inter> tables (mem s) l (PTE2PA (entry (mem s) p j)) = {}"
      if "j < 512" "j \<noteq> ?i" "valid (entry (mem s) p j)" for j
    proof -
      have "tables (mem s) l ?c \<inter> tables (mem s) l (PTE2PA (entry (mem s) p j)) = {}"
        using Suc.prems(1) True that by simp
      moreover have "set ps \<inter> tables (mem s) l (PTE2PA (entry (mem s) p j)) = {}"
        using child_tables [OF that(1,3), of l] Suc.prems(3) by blast
      ultimately show ?thesis using w tk ents [of ?i] unfolding walked_def by auto
    qed
    have notin: "p \<notin> tables (mem t) l (PTE2PA (entry (mem t) p ?i))"
      using w c(2) Suc.prems(3) tk ents [of ?i] root_in_tables [of p "mem s" "Suc l"]
      unfolding walked_def by auto
    note upd = tree_update [OF Suc.prems(1) idx_less [of "Suc l" va], where m' = "mem t"]
    have up: "tree (mem t) (Suc l) p"
      "tables (mem t) (Suc l) p \<subseteq> tables (mem s) (Suc l) p \<union> tables (mem t) l ?c"
      "pte_at (mem t) (Suc l) p vb = (if idx (Suc l) vb = ?i then pte_at (mem t) l ?c vb
         else pte_at (mem s) (Suc l) p vb)" for vb
      using upd(1,2) upd(3) [where va = vb] w True ents keep apart notin unfolding walked_def by auto
    have "walked (Suc l) p va ps s r t k"
      unfolding walked_def
    proof (intro conjI allI)
      show "takes k ps (tables (mem s) (Suc l) p) s t"
        using w c(3) takes_mono unfolding walked_def by blast
      show "tables (mem t) (Suc l) p \<subseteq> tables (mem s) (Suc l) p \<union> set (take k ps)"
        using up(2) w c(3) unfolding walked_def by blast
      show "pte_at (mem t) (Suc l) p vb = pte_at (mem s) (Suc l) p vb" for vb
        using up(3) [of vb] w True unfolding walked_def by (simp add: Let_def)
      show "case r of None \<Rightarrow> k = length ps \<and> k < Suc l
          | Some a \<Rightarrow> leaf_slot (mem t) (Suc l) p va = Some a \<and> k \<le> Suc l"
        using w True ents [of ?i] unfolding walked_def by (auto simp: Let_def split: option.splits)
    qed (rule up(1))
    with run walk_levels_valid [OF True, of True] show ?thesis by (auto simp del: walk_levels.simps)
  next
    case False
    show ?thesis
    proof (cases ps)
      case Nil
      then show ?thesis
        using Suc.prems False walk_levels_alloc_none [of s p l va]
        by (intro exI [of _ None] exI [of _ s] exI [of _ 0]) (simp add: walked_def takes_refl del: walk_levels.simps)
    next
      case (Cons q qs)
      let ?u = "hang p ?i (PA2PTE q OR PTE_V) q s"
      have pool: "free_pages s (q # qs)" using Suc.prems(2) Cons by simp
      have q: "aligned q" "q \<noteq> p" "p \<notin> set (q # qs)" "q \<notin> set qs"
        using free_pages_aligned [OF pool] free_pages_distinct [OF pool] Suc.prems(3) Cons
          root_in_tables [of p "mem s" "Suc l"] by auto
      have tu: "takes 1 (q # qs) {p} s ?u"
        using hang_takes [OF pool al q(3) idx_less] .
      note he = hang_entries [OF al q(1,2) idx_less [of "Suc l" va], where s = s and v = "PA2PTE q OR PTE_V"]
      have z: "tree (mem ?u) l q" "tables (mem ?u) l q = {q}" "pte_at (mem ?u) l q vb = 0" for vb
        using zero_table [OF q(1)] he(1) by blast+
      have poolu: "free_pages ?u qs" using tu by (simp add: takes_def)
      have "tables (mem ?u) l q \<inter> set qs = {}" using z(2) q(4) by simp
      from Suc.IH [OF z(1) poolu this] obtain r t k where
        run: "walk_levels l q va True ?u = Ret r t" and w: "walked l q va qs ?u r t k" by blast
      have tk: "set (take k qs) \<subseteq> set qs" by (rule set_take_subset)
      have spt: "same_page (mem ?u) (mem t) x" if "aligned x" "x \<notin> set (q # qs)" for x
        using w that z(2) tk unfolding walked_def takes_def by auto
      have spu: "same_page (mem s) (mem ?u) x" if "aligned x" "x \<noteq> p" "x \<notin> set (q # qs)" for x
        using tu that unfolding takes_def by simp
      have root: "same_page (mem ?u) (mem t) p" using al q(3) by (rule spt)
      have ents: "entry (mem t) p j = (if j = ?i then PA2PTE q OR PTE_V else entry (mem s) p j)"
        if "j < 512" for j
        using same_page_entry [OF root that] he(2) [OF that] by simp
      have "drop_bit 10 PTE_V = 0" by (simp add: PTE_V_def)
      then have pq: "PTE2PA (entry (mem t) p ?i) = q" "valid (entry (mem t) p ?i)"
        using ents [of ?i] PTE2PA_PA2PTE [OF q(1)] by simp_all
      have sub: "tables (mem t) l q \<subseteq> set (take (Suc k) (q # qs))"
        using w z(2) unfolding walked_def by auto
      then have sub': "tables (mem t) l q \<subseteq> set (q # qs)" using tk by auto
      have old: "aligned x" "x \<noteq> p" "x \<notin> set (q # qs)"
        if "j < 512" "valid (entry (mem s) p j)" "x \<in> tables (mem s) l (PTE2PA (entry (mem s) p j))" for j x
      proof -
        have "x \<in> tables (mem s) (Suc l) p" using child_tables [OF that(1,2)] that(3) by blast
        then show "aligned x" "x \<notin> set (q # qs)"
          using tables_aligned [OF Suc.prems(1)] Suc.prems(3) Cons by auto
        show "x \<noteq> p" using Suc.prems(1) that by auto
      qed
      have keep: "same_page (mem s) (mem t) x"
        if "j < 512" "j \<noteq> ?i" "valid (entry (mem s) p j)" "x \<in> tables (mem s) l (PTE2PA (entry (mem s) p j))" for j x
        using old [OF that(1,3,4)] spu spt same_page_trans by blast
      have apart: "tables (mem t) l (PTE2PA (entry (mem t) p ?i)) \<inter> tables (mem s) l (PTE2PA (entry (mem s) p j)) = {}"
        if "j < 512" "j \<noteq> ?i" "valid (entry (mem s) p j)" for j
        using old(3) [OF that(1,3)] sub' pq(1) by auto
      have child: "tree (mem t) l (PTE2PA (entry (mem t) p ?i))" "p \<notin> tables (mem t) l (PTE2PA (entry (mem t) p ?i))"
        using w sub' q(3) unfolding pq(1) walked_def by auto
      have others: "entry (mem t) p j = entry (mem s) p j" if "j < 512" "j \<noteq> ?i" for j
        using ents that by simp
      note upd = tree_update [OF Suc.prems(1) idx_less pq(2) child]
      have up: "tree (mem t) (Suc l) p"
        by (rule upd(1)) (fact others, fact keep, fact apart)
      have up': "tables (mem t) (Suc l) p \<subseteq> tables (mem s) (Suc l) p \<union> tables (mem t) l q"
        unfolding pq(1) [symmetric] by (rule upd(2)) (fact others, fact keep, fact apart)
      have upv: "pte_at (mem t) (Suc l) p vb = (if idx (Suc l) vb = ?i then pte_at (mem t) l q vb
           else pte_at (mem s) (Suc l) p vb)" for vb
        unfolding pq(1) [symmetric] by (rule upd(3)) (fact others, fact keep, fact apart)
      have "walked (Suc l) p va ps s r t (Suc k)"
        unfolding walked_def
      proof (intro conjI allI)
        have a: "takes 1 ps {p} s ?u" using tu Cons by simp
        have "takes k (drop 1 ps) (tables (mem ?u) l q) ?u t"
          using w Cons unfolding walked_def by simp
        then have b: "takes (Suc k) ps ({p} \<union> {q}) s t"
          using takes_trans [OF takes_mono [OF a] takes_mono, of "{p} \<union> {q}"] z(2) by simp
        show "takes (Suc k) ps (tables (mem s) (Suc l) p) s t"
          using b Cons unfolding takes_def by simp
        show "tables (mem t) (Suc l) p \<subseteq> tables (mem s) (Suc l) p \<union> set (take (Suc k) ps)"
          using up' sub Cons by blast
        show "pte_at (mem t) (Suc l) p vb = pte_at (mem s) (Suc l) p vb" for vb
          using upv [of vb] w z(3) False unfolding walked_def by (simp add: Let_def)
        show "case r of None \<Rightarrow> Suc k = length ps \<and> Suc k < Suc l
            | Some a \<Rightarrow> leaf_slot (mem t) (Suc l) p va = Some a \<and> Suc k \<le> Suc l"
          using w pq Cons unfolding walked_def by (auto simp: Let_def split: option.splits)
      qed (rule up)
      with run walk_levels_alloc_step [OF pool False] Cons show ?thesis by (auto simp del: walk_levels.simps)
    qed
  qed
qed

subsection \<open>Storing a leaf entry\<close>

lemma store_leaf:
  assumes "tree m l p" and "leaf_slot m l p va = Some a"
  shows "tree (store64 m a v) l p \<and> tables (store64 m a v) l p \<subseteq> tables m l p \<and>
     (\<forall>vb. pte_at (store64 m a v) l p vb = (if same_path l va vb then v else pte_at m l p vb)) \<and>
     (\<forall>q. aligned q \<longrightarrow> q \<notin> tables m l p \<longrightarrow> same_page m (store64 m a v) q)"
  using assms
proof (induction l arbitrary: p)
  case 0
  then have a: "a = slot p (idx 0 va)" and p: "aligned p" by simp_all
  have "pte_at (store64 m a v) 0 p vb = (if same_path 0 va vb then v else pte_at m 0 p vb)" for vb
    using entry_store_other [OF p, of "idx 0 va" "idx 0 vb"] by (simp add: a same_path_0)
  moreover have "same_page m (store64 m a v) q" if "aligned q" "q \<noteq> p" for q
    unfolding a using p that by (intro same_page_store) auto
  ultimately show ?case using p by simp
next
  case (Suc l)
  let ?i = "idx (Suc l) va" and ?m = "store64 m a v"
  let ?c = "PTE2PA (entry m p ?i)"
  have V: "valid (entry m p ?i)" and leaf: "leaf_slot m l ?c va = Some a"
    using Suc.prems(2) by (simp_all add: Let_def split: if_splits)
  have c: "tree m l ?c" "p \<notin> tables m l ?c" "aligned p" using Suc.prems(1) V by simp_all
  note IH = Suc.IH [OF c(1) leaf]
  have root: "same_page m ?m p" using IH c(2,3) by blast
  have ents: "entry ?m p j = entry m p j" if "j < 512" for j
    using root that by (rule same_page_entry)
  have e: "entry ?m p ?i = entry m p ?i" using ents by simp
  have v': "valid (entry ?m p ?i)" "tree ?m l (PTE2PA (entry ?m p ?i))" "p \<notin> tables ?m l (PTE2PA (entry ?m p ?i))"
    unfolding e using V IH c(2) by blast+
  have others: "entry ?m p j = entry m p j" if "j < 512" "j \<noteq> ?i" for j
    using ents that by simp
  have sibling: "tables m l ?c \<inter> tables m l (PTE2PA (entry m p j)) = {}"
    if "j < 512" "j \<noteq> ?i" "valid (entry m p j)" for j
    using Suc.prems(1) V that by simp
  have keep: "same_page m ?m q"
    if "j < 512" "j \<noteq> ?i" "valid (entry m p j)" "q \<in> tables m l (PTE2PA (entry m p j))" for j q
  proof -
    have "aligned q" using tables_aligned [OF Suc.prems(1)] child_tables [OF that(1,3)] that(4) by blast
    moreover have "q \<notin> tables m l ?c" using sibling [OF that(1-3)] that(4) by blast
    ultimately show ?thesis using IH by blast
  qed
  have apart: "tables ?m l (PTE2PA (entry ?m p ?i)) \<inter> tables m l (PTE2PA (entry m p j)) = {}"
    if "j < 512" "j \<noteq> ?i" "valid (entry m p j)" for j
    unfolding e using IH sibling [OF that] by blast
  note upd = tree_update [OF Suc.prems(1) idx_less v']
  have "tree ?m (Suc l) p"
    by (rule upd(1)) (fact others, fact keep, fact apart)
  moreover have "tables ?m (Suc l) p \<subseteq> tables m (Suc l) p"
  proof -
    have "tables ?m (Suc l) p \<subseteq> tables m (Suc l) p \<union> tables ?m l (PTE2PA (entry ?m p ?i))"
      by (rule upd(2)) (fact others, fact keep, fact apart)
    then show ?thesis using IH child_tables [OF idx_less V] unfolding e by blast
  qed
  moreover have "pte_at ?m (Suc l) p vb = (if same_path (Suc l) va vb then v else pte_at m (Suc l) p vb)" for vb
  proof -
    have "pte_at ?m (Suc l) p vb = (if idx (Suc l) vb = ?i then pte_at ?m l (PTE2PA (entry ?m p ?i)) vb
        else pte_at m (Suc l) p vb)"
      by (rule upd(3)) (fact others, fact keep, fact apart)
    also have "\<dots> = (if idx (Suc l) vb = ?i then if same_path l va vb then v else pte_at m l ?c vb
        else pte_at m (Suc l) p vb)"
      unfolding e using IH by simp
    finally show ?thesis using V by (auto simp: same_path_Suc Let_def)
  qed
  moreover have "same_page m ?m q" if "aligned q" "q \<notin> tables m (Suc l) p" for q
    using IH that child_tables [OF idx_less V] by blast
  ultimately show ?case by blast
qed

subsection \<open>The table of a process or of the kernel\<close>

text \<open>
  A root table and the entry it holds for an address. \<open>ptab\<close> says that the table is a tree
  whose pages are not in the pool of free pages.
\<close>

definition pte_of :: "memory \<Rightarrow> u64 \<Rightarrow> u64 \<Rightarrow> u64" where
  "pte_of m pt va = pte_at m 2 pt va"

definition ptab :: "'z kmem_st_scheme \<Rightarrow> u64 list \<Rightarrow> u64 \<Rightarrow> bool" where
  "ptab s ps pt \<longleftrightarrow> free_pages s ps \<and> tree (mem s) 2 pt \<and> tables (mem s) 2 pt \<inter> set ps = {}"

text \<open>Addresses below \<open>MAXVA\<close> have the same path exactly when they are in the same page.\<close>

lemma PX_take: "PX l va = take_bit 9 (drop_bit (12 + 9 * l) va)"
proof -
  have "(0x1FF :: u64) = mask 9" by (simp add: mask_numeral)
  then show ?thesis unfolding PX_def by (simp only: take_bit_eq_mask)
qed

lemma idx_eq_iff: "idx l va = idx l vb \<longleftrightarrow> (\<forall>n < 9. bit va (12 + 9 * l + n) = bit vb (12 + 9 * l + n))"
proof -
  have "idx l va = idx l vb \<longleftrightarrow> PX l va = PX l vb" by (simp add: idx_def word_unat_eq_iff)
  also have "\<dots> \<longleftrightarrow> (\<forall>n < 9. bit va (12 + 9 * l + n) = bit vb (12 + 9 * l + n))"
  proof -
    have nine: "n < 9 \<Longrightarrow> n < 64" for n :: nat by simp
    show ?thesis unfolding PX_take by (simp add: bit_eq_iff bit_simps) (blast intro: nine)
  qed
  finally show ?thesis .
qed

lemma bit_below_MAXVA:
  assumes "va < MAXVA" and "bit va n"
  shows "n < 38"
proof -
  have "unat va < 2 ^ 38" using assms(1) by (simp add: word_less_nat_alt MAXVA_def)
  then have "take_bit 38 (unat va) = unat va" by (simp add: take_bit_nat_eq_self)
  moreover have "bit (unat va) n" using assms(2) by (simp add: bit_unsigned_iff bit_imp_le_length)
  ultimately show ?thesis by (metis bit_take_bit_iff)
qed

lemma bit_PGROUNDDOWN: "bit (PGROUNDDOWN va) n \<longleftrightarrow> 12 \<le> n \<and> bit va n"
  by (auto simp: PGROUNDDOWN_eq bit_simps dest: bit_imp_le_length)

lemma same_path_page:
  assumes "va < MAXVA" and "vb < MAXVA"
  shows "same_path 2 va vb \<longleftrightarrow> PGROUNDDOWN va = PGROUNDDOWN vb"
proof
  assume sp: "same_path 2 va vb"
  show "PGROUNDDOWN va = PGROUNDDOWN vb"
  proof (rule bit_word_eqI)
    fix n :: nat
    assume "n < LENGTH(64)"
    show "bit (PGROUNDDOWN va) n = bit (PGROUNDDOWN vb) n"
    proof (cases "12 \<le> n \<and> n < 39")
      case True
      define k where "k = (n - 12) div 9"
      define r where "r = (n - 12) mod 9"
      have "(n - 12) div 9 * 9 + (n - 12) mod 9 = n - 12" by (rule div_mult_mod_eq)
      then have n: "n = 12 + 9 * k + r" "r < 9" "k \<le> 2"
        using True unfolding k_def r_def by auto
      with sp have "bit va n = bit vb n"
        unfolding same_path_def idx_eq_iff by blast
      then show ?thesis by (simp add: bit_PGROUNDDOWN)
    next
      case False
      then show ?thesis
        using assms bit_below_MAXVA [of va n] bit_below_MAXVA [of vb n] by (auto simp: bit_PGROUNDDOWN)
    qed
  qed
next
  assume "PGROUNDDOWN va = PGROUNDDOWN vb"
  then have "12 \<le> n \<Longrightarrow> bit va n = bit vb n" for n
    using bit_PGROUNDDOWN by metis
  then show "same_path 2 va vb" by (simp add: same_path_def idx_eq_iff)
qed

text \<open>The virtual page number of an address.\<close>

definition vpn :: "u64 \<Rightarrow> nat" where
  "vpn va = unat va div 4096"

lemma unat_PGROUNDDOWN: "unat (PGROUNDDOWN a) = 4096 * vpn a"
proof -
  have "unat (drop_bit 12 a) = unat a div 4096"
    by (simp add: drop_bit_eq_div unat_div)
  then have "unat (PGROUNDDOWN a) = take_bit 64 (push_bit 12 (unat a div 4096))"
    unfolding PGROUNDDOWN_eq by (simp only: unsigned_push_bit_eq len_num0 len_bit0 len_num1) simp
  then have "unat (PGROUNDDOWN a) = take_bit 64 (4096 * (unat a div 4096))"
    by (simp add: push_bit_eq_mult mult.commute)
  moreover have "4096 * (unat a div 4096) < 2 ^ 64"
    using unat64_less [of a] by (intro le_less_trans [OF times_div_less_eq_dividend]) simp
  ultimately show ?thesis unfolding vpn_def by (simp only: take_bit_nat_eq_self)
qed

lemma PGROUNDDOWN_eq_iff: "PGROUNDDOWN va = PGROUNDDOWN vb \<longleftrightarrow> vpn va = vpn vb"
  by (simp add: word_unat_eq_iff unat_PGROUNDDOWN)

lemma MAXVA_unat: "va < MAXVA \<longleftrightarrow> unat va < 274877906944"
  by (simp add: word_less_nat_alt MAXVA_def)

text \<open>
  A step on one page table: it takes \<open>k\<close> pages from the pool, changes memory only in the pages of
  the table and the pages taken, and leaves a table that has grown by those pages at most.
\<close>

definition pt_step :: "nat \<Rightarrow> u64 list \<Rightarrow> u64 \<Rightarrow> 'z kmem_st_scheme \<Rightarrow> 'z kmem_st_scheme \<Rightarrow> bool" where
  "pt_step k ps pt s t \<longleftrightarrow> takes k ps (tables (mem s) 2 pt) s t \<and> ptab t (drop k ps) pt \<and>
     tables (mem t) 2 pt \<subseteq> tables (mem s) 2 pt \<union> set (take k ps)"

lemma pt_step_refl: "ptab s ps pt \<Longrightarrow> pt_step 0 ps pt s s"
  by (simp add: pt_step_def ptab_def takes_refl)

lemma pt_step_trans:
  assumes "pt_step k ps pt s t" and "pt_step j (drop k ps) pt t u"
  shows "pt_step (k + j) ps pt s u"
proof -
  have sp: "same_page (mem s) (mem u) q"
    if "aligned q" "q \<notin> tables (mem s) 2 pt" "q \<notin> set (take (k + j) ps)" for q
  proof -
    have q: "q \<notin> set (take k ps)" "q \<notin> set (take j (drop k ps))"
      using that(3) by (simp_all add: take_add)
    then have "q \<notin> tables (mem t) 2 pt" using assms(1) that(2) unfolding pt_step_def by blast
    with that(1,2) q assms show ?thesis
      unfolding pt_step_def takes_def by (blast intro: same_page_trans)
  qed
  have e: "t = s\<lparr>mem := mem t, freelist := freelist t\<rparr>" "u = t\<lparr>mem := mem u, freelist := freelist u\<rparr>"
    using assms by (simp_all add: pt_step_def takes_def)
  have "u = s\<lparr>mem := mem u, freelist := freelist u\<rparr>"
    by (subst e(2), subst e(1)) simp
  then have "takes (k + j) ps (tables (mem s) 2 pt) s u"
    using sp assms by (auto simp: pt_step_def takes_def add.commute)
  moreover have "ptab u (drop (k + j) ps) pt"
    using assms(2) by (simp add: pt_step_def add.commute)
  moreover have "tables (mem u) 2 pt \<subseteq> tables (mem s) 2 pt \<union> set (take (k + j) ps)"
    using assms unfolding pt_step_def take_add by auto
  ultimately show ?thesis unfolding pt_step_def by blast
qed

lemma walk_pt:
  assumes "ptab s ps pt" and "va < MAXVA"
  shows "\<exists>r t k. walk pt va True s = Ret r t \<and> pt_step k ps pt s t \<and>
     (\<forall>vb. pte_of (mem t) pt vb = pte_of (mem s) pt vb) \<and>
     (case r of Some a \<Rightarrow> leaf_slot (mem t) 2 pt va = Some a \<and> k \<le> 2 | None \<Rightarrow> k = length ps \<and> k < 2)"
proof -
  have h: "tree (mem s) 2 pt" "free_pages s ps" "tables (mem s) 2 pt \<inter> set ps = {}"
    using assms(1) by (simp_all add: ptab_def)
  from walk_alloc [OF h, of va] obtain r t k
    where run: "walk_levels 2 pt va True s = Ret r t" and w: "walked 2 pt va ps s r t k" by blast
  have "set (take k ps) \<inter> set (drop k ps) = {}"
    using free_pages_distinct [OF h(2)] by (rule set_take_disj_set_drop_if_distinct) simp
  moreover have "set (drop k ps) \<subseteq> set ps" by (rule set_drop_subset)
  ultimately have "tables (mem t) 2 pt \<inter> set (drop k ps) = {}"
    using w h(3) unfolding walked_def by blast
  then have "pt_step k ps pt s t"
    using w unfolding walked_def pt_step_def ptab_def takes_def by blast
  with run w assms(2) show ?thesis
    unfolding walked_def by (auto simp: walk_def pte_of_def)
qed

lemma store_pt:
  assumes "ptab s ps pt" and "va < MAXVA" and "leaf_slot (mem s) 2 pt va = Some a"
  shows "pt_step 0 ps pt s (s\<lparr>mem := store64 (mem s) a e\<rparr>)"
    and "vb < MAXVA \<Longrightarrow> pte_of (store64 (mem s) a e) pt vb = (if vpn vb = vpn va then e else pte_of (mem s) pt vb)"
    and "load64 (mem s) a = pte_of (mem s) pt va"
proof -
  have h: "tree (mem s) 2 pt" "free_pages s ps" "tables (mem s) 2 pt \<inter> set ps = {}"
    using assms(1) by (simp_all add: ptab_def)
  note st = store_leaf [OF h(1) assms(3), of e]
  have "free_pages (s\<lparr>mem := store64 (mem s) a e\<rparr>) ps"
    using h(2,3) st free_pages_aligned [OF h(2)] by (intro free_pages_mem) blast+
  then show "pt_step 0 ps pt s (s\<lparr>mem := store64 (mem s) a e\<rparr>)"
    using st h(3) by (auto simp: pt_step_def takes_def ptab_def)
  show "load64 (mem s) a = pte_of (mem s) pt va"
    using assms(3) by (simp add: pte_of_def pte_at_leaf)
  show "pte_of (store64 (mem s) a e) pt vb = (if vpn vb = vpn va then e else pte_of (mem s) pt vb)"
    if "vb < MAXVA"
    using st same_path_page [OF assms(2) that] by (auto simp: pte_of_def PGROUNDDOWN_eq_iff)
qed

subsection \<open>mappages\<close>

text \<open>
  Memory \<open>m'\<close> has the mappings of \<open>m\<close> and, in addition, those of \<open>n\<close> pages from \<open>a\<close> to the
  frames from \<open>pa\<close>.
\<close>

definition frame_pte :: "u64 \<Rightarrow> nat \<Rightarrow> u64 \<Rightarrow> u64" where
  "frame_pte pa i perm = PA2PTE (pa + of_nat (4096 * i)) OR perm OR PTE_V"

definition in_pages :: "u64 \<Rightarrow> nat \<Rightarrow> u64 \<Rightarrow> bool" where
  "in_pages a n vb \<longleftrightarrow> vpn a \<le> vpn vb \<and> vpn vb < vpn a + n"

definition maps_range :: "nat \<Rightarrow> u64 \<Rightarrow> u64 \<Rightarrow> u64 \<Rightarrow> u64 \<Rightarrow> memory \<Rightarrow> memory \<Rightarrow> bool" where
  "maps_range n a pa perm pt m m' \<longleftrightarrow>
     (\<forall>vb. vb < MAXVA \<longrightarrow> pte_of m' pt vb =
        (if in_pages a n vb then frame_pte pa (vpn vb - vpn a) perm else pte_of m pt vb))"

lemma next_page:
  assumes "unat a + 4096 \<le> 274877906944"
  shows "vpn (a + PGSIZE) = Suc (vpn a)" and "unat (a + PGSIZE) = unat a + 4096"
proof -
  show u: "unat (a + PGSIZE) = unat a + 4096"
    using unat64_add_nat [of a 4096] assms by (simp add: PGSIZE_def)
  show "vpn (a + PGSIZE) = Suc (vpn a)" by (simp add: vpn_def u)
qed

lemma aligned_next: "aligned a \<Longrightarrow> unat a + 4096 \<le> 274877906944 \<Longrightarrow> aligned (a + PGSIZE)"
  by (simp add: aligned_dvd next_page)

lemma maps_range_0: "maps_range 0 a pa perm pt m m' \<longleftrightarrow> (\<forall>vb. vb < MAXVA \<longrightarrow> pte_of m' pt vb = pte_of m pt vb)"
  by (auto simp: maps_range_def in_pages_def)

lemma maps_range_Suc:
  assumes one: "\<And>vb. vb < MAXVA \<Longrightarrow> pte_of mid pt vb =
      (if vpn vb = vpn a then PA2PTE pa OR perm OR PTE_V else pte_of m pt vb)"
    and rest: "maps_range n (a + PGSIZE) (pa + PGSIZE) perm pt mid m'"
    and a: "unat a + 4096 \<le> 274877906944"
  shows "maps_range (Suc n) a pa perm pt m m'"
  unfolding maps_range_def
proof (intro allI impI)
  fix vb
  assume vb: "vb < MAXVA"
  have r: "pte_of m' pt vb = (if in_pages (a + PGSIZE) n vb
      then frame_pte (pa + PGSIZE) (vpn vb - Suc (vpn a)) perm else pte_of mid pt vb)"
    using rest vb next_page(1) [OF a] by (simp add: maps_range_def)
  consider "vpn vb = vpn a" | "Suc (vpn a) \<le> vpn vb" "vpn vb < Suc (vpn a) + n"
    | "vpn vb < vpn a \<or> Suc (vpn a) + n \<le> vpn vb" by linarith
  then show "pte_of m' pt vb = (if in_pages a (Suc n) vb
      then frame_pte pa (vpn vb - vpn a) perm else pte_of m pt vb)"
  proof cases
    case 1
    then show ?thesis
      using r one [OF vb] next_page(1) [OF a] by (simp add: in_pages_def frame_pte_def)
  next
    case 2
    then obtain k where k: "vpn vb = Suc (vpn a) + k" using le_Suc_ex by blast
    have "pa + PGSIZE + of_nat (4096 * k) = pa + of_nat (4096 * Suc k)"
      by (simp add: PGSIZE_def)
    then have "frame_pte (pa + PGSIZE) k perm = frame_pte pa (Suc k) perm"
      by (simp only: frame_pte_def)
    with 2 k show ?thesis
      using r next_page(1) [OF a] by (simp add: in_pages_def)
  next
    case 3
    then show ?thesis
      using r one [OF vb] next_page(1) [OF a] by (auto simp: in_pages_def)
  qed
qed

lemma mappages_loop_spec:
  assumes "ptab s ps pt" and "aligned a" and "unat a + 4096 * Suc n \<le> 274877906944"
    and "\<And>vb. vb < MAXVA \<Longrightarrow> in_pages a (Suc n) vb \<Longrightarrow> \<not> valid (pte_of (mem s) pt vb)"
    and "n < fuel"
  shows "\<exists>r t k. mappages_loop fuel pt a (a + of_nat (4096 * n)) pa perm s = Ret r t \<and> pt_step k ps pt s t \<and>
     (r = 0 \<and> k \<le> 2 * Suc n \<and> maps_range (Suc n) a pa perm pt (mem s) (mem t) \<or>
      r = -1 \<and> k = length ps \<and> k < 2 * Suc n \<and> (\<exists>j \<le> n. maps_range j a pa perm pt (mem s) (mem t)))"
  using assms
proof (induction n arbitrary: s ps a pa fuel)
  case (0 s ps a pa)
  obtain f where f: "fuel = Suc f" using 0 by (cases fuel) auto
  have lt: "a < MAXVA" using 0 by (simp add: MAXVA_unat)
  from walk_pt [OF 0(1) lt] obtain r t k where run: "walk pt a True s = Ret r t"
    and st: "pt_step k ps pt s t" and keep: "\<And>vb. pte_of (mem t) pt vb = pte_of (mem s) pt vb"
    and res: "case r of Some a' \<Rightarrow> leaf_slot (mem t) 2 pt a = Some a' \<and> k \<le> 2 | None \<Rightarrow> k = length ps \<and> k < 2"
    by blast
  show ?case
  proof (cases r)
    case None
    then show ?thesis using run st keep res f by (auto simp: run_simps maps_range_0)
  next
    case (Some sl)
    let ?e = "PA2PTE pa OR perm OR PTE_V"
    have pt: "ptab t (drop k ps) pt" using st by (simp add: pt_step_def)
    have leaf: "leaf_slot (mem t) 2 pt a = Some sl" using res Some by simp
    note st2 = store_pt(1,2) [OF pt lt leaf, where e = ?e]
    note ld = store_pt(3) [OF pt lt leaf]
    have "\<not> valid (load64 (mem t) sl)"
      using ld keep 0(4) [OF lt] by (simp add: in_pages_def)
    then have "mappages_loop fuel pt a (a + of_nat (4096 * 0)) pa perm s = Ret 0 (t\<lparr>mem := store64 (mem t) sl ?e\<rparr>)"
      using run Some f by (simp add: run_simps valid_def)
    moreover have "pt_step k ps pt s (t\<lparr>mem := store64 (mem t) sl ?e\<rparr>)"
      using pt_step_trans [OF st st2(1)] by simp
    moreover have "maps_range (Suc 0) a pa perm pt (mem s) (store64 (mem t) sl ?e)"
      by (rule maps_range_Suc [where mid = "store64 (mem t) sl ?e"])
        (use st2(2) keep 0(3) in \<open>auto simp: maps_range_0\<close>)
    ultimately show ?thesis using res Some by (intro exI) auto
  qed
next
  case (Suc n s ps a pa)
  obtain f where f: "fuel = Suc f" using Suc.prems by (cases fuel) auto
  have lt: "a < MAXVA" using Suc.prems by (simp add: MAXVA_unat)
  from walk_pt [OF Suc.prems(1) lt] obtain r t k where run: "walk pt a True s = Ret r t"
    and st: "pt_step k ps pt s t" and keep: "\<And>vb. pte_of (mem t) pt vb = pte_of (mem s) pt vb"
    and res: "case r of Some a' \<Rightarrow> leaf_slot (mem t) 2 pt a = Some a' \<and> k \<le> 2 | None \<Rightarrow> k = length ps \<and> k < 2"
    by blast
  show ?case
  proof (cases r)
    case None
    then show ?thesis using run st keep res f by (auto simp: run_simps maps_range_0)
  next
    case (Some sl)
    let ?e = "PA2PTE pa OR perm OR PTE_V"
    let ?u = "t\<lparr>mem := store64 (mem t) sl ?e\<rparr>"
    have pt: "ptab t (drop k ps) pt" using st by (simp add: pt_step_def)
    have leaf: "leaf_slot (mem t) 2 pt a = Some sl" using res Some by simp
    note st2 = store_pt(1,2) [OF pt lt leaf, where e = ?e]
    note ld = store_pt(3) [OF pt lt leaf]
    have inv: "\<not> valid (load64 (mem t) sl)"
      using ld keep Suc.prems(4) [OF lt] by (simp add: in_pages_def)
    have stu: "pt_step k ps pt s ?u"
      using pt_step_trans [OF st st2(1)] by simp
    have one: "pte_of (mem ?u) pt vb = (if vpn vb = vpn a then ?e else pte_of (mem s) pt vb)"
      if "vb < MAXVA" for vb
      using st2(2) [OF that] keep by simp
    have bound: "unat a + 4096 \<le> 274877906944" using Suc.prems(3) by simp
    have fin: "a + of_nat (4096 * Suc n) = (a + PGSIZE) + of_nat (4096 * n)"
      by (simp add: PGSIZE_def)
    have ne: "a \<noteq> a + of_nat (4096 * Suc n)"
    proof
      assume eq: "a = a + of_nat (4096 * Suc n)"
      have "unat (a + of_nat (4096 * Suc n)) = unat a + 4096 * Suc n"
        using Suc.prems(3) by (intro unat64_add_nat) simp
      with eq show False by simp
    qed
    have IHp: "ptab ?u (drop k ps) pt" using stu by (simp add: pt_step_def)
    have IHa: "aligned (a + PGSIZE)" using aligned_next [OF Suc.prems(2) bound] .
    have IHb: "unat (a + PGSIZE) + 4096 * Suc n \<le> 274877906944"
      using Suc.prems(3) next_page(2) [OF bound] by simp
    have IHi: "\<not> valid (pte_of (mem ?u) pt vb)" if "vb < MAXVA" "in_pages (a + PGSIZE) (Suc n) vb" for vb
      using one [OF that(1)] that Suc.prems(4) [OF that(1)] next_page(1) [OF bound]
      by (auto simp: in_pages_def)
    have "n < f" using Suc.prems(5) f by simp
    from Suc.IH [OF IHp IHa IHb IHi this, of "pa + PGSIZE"] obtain r' t' j where
      run': "mappages_loop f pt (a + PGSIZE) (a + PGSIZE + of_nat (4096 * n)) (pa + PGSIZE) perm ?u = Ret r' t'"
      and st': "pt_step j (drop k ps) pt ?u t'"
      and res': "r' = 0 \<and> j \<le> 2 * Suc n \<and> maps_range (Suc n) (a + PGSIZE) (pa + PGSIZE) perm pt (mem ?u) (mem t') \<or>
        r' = -1 \<and> j = length (drop k ps) \<and> j < 2 * Suc n \<and> (\<exists>i \<le> n. maps_range i (a + PGSIZE) (pa + PGSIZE) perm pt (mem ?u) (mem t'))"
      by blast
    have "mappages_loop (Suc f) pt a w pa perm s = mappages_loop f pt (a + PGSIZE) w (pa + PGSIZE) perm ?u"
      if "a \<noteq> w" for w
      using run Some inv that by (simp add: run_simps valid_def)
    from this [OF ne] have "mappages_loop fuel pt a (a + of_nat (4096 * Suc n)) pa perm s = Ret r' t'"
      using run' unfolding f fin by (simp only:)
    moreover have "pt_step (k + j) ps pt s t'" using pt_step_trans [OF stu st'] .
    moreover have "maps_range (Suc i) a pa perm pt (mem s) (mem t')"
      if "maps_range i (a + PGSIZE) (pa + PGSIZE) perm pt (mem ?u) (mem t')" for i
      using one that bound by (rule maps_range_Suc)
    moreover have "k \<le> length ps" using st by (simp add: pt_step_def takes_def)
    ultimately show ?thesis using res' res Some
      by (intro exI [of _ r'] exI [of _ t'] exI [of _ "k + j"]) (auto intro!: exI [of _ "Suc _"])
  qed
qed

text \<open>The fuel of the loop: \<open>size / PGSIZE\<close> iterations are enough for every state.\<close>

lemma mappages_loop_fuel:
  fixes s :: "'z kmem_st_scheme"
  shows "4096 * n < 18446744073709551616 \<Longrightarrow> n < f \<Longrightarrow>
     mappages_loop f pt a (a + of_nat (4096 * n)) pa perm s =
     mappages_loop (Suc n) pt a (a + of_nat (4096 * n)) pa perm s"
proof (induction n arbitrary: a pa f s)
  case 0
  then show ?case by (cases f) (auto simp: bnd_def fun_eq_iff split: outcome.splits option.splits)
next
  case (Suc n)
  obtain g where g: "f = Suc g" "n < g" using Suc.prems(2) by (cases f) auto
  have fin: "a + of_nat (4096 * Suc n) = (a + PGSIZE) + of_nat (4096 * n)"
    by (simp add: PGSIZE_def)
  have "mappages_loop g pt (a + PGSIZE) (a + of_nat (4096 * Suc n)) (pa + PGSIZE) perm =
      (mappages_loop (Suc n) pt (a + PGSIZE) (a + of_nat (4096 * Suc n)) (pa + PGSIZE) perm
         :: ('z kmem_st_scheme, int) kern)"
    by (rule ext, unfold fin, rule Suc.IH) (use Suc.prems g in auto)
  then show ?case
    unfolding g(1) mappages_loop.simps(2) [of g] mappages_loop.simps(2) [of "Suc n"] by (simp only:)
qed

lemma size_pages:
  assumes "aligned len" and "len \<noteq> 0"
  obtains n where "unat len = 4096 * Suc n" and "len - PGSIZE = of_nat (4096 * n)"
proof -
  obtain k where k: "unat len = 4096 * k" using assms(1) unfolding aligned_dvd by (elim dvdE)
  have "unat len \<noteq> 0" using assms(2) by (simp add: unat_eq_0)
  with k obtain n where n: "k = Suc n" by (cases k) auto
  have "len = of_nat (unat len)" by simp
  also have "\<dots> = of_nat (4096 * n) + PGSIZE"
    unfolding k n by (simp add: PGSIZE_def)
  finally have "len - PGSIZE = of_nat (4096 * n)" by simp
  with k n show ?thesis using that by blast
qed

lemma mappages_eq:
  assumes "aligned va" and "aligned len" and "unat len = 4096 * Suc n" and "len - PGSIZE = of_nat (4096 * n)"
  shows "mappages pt va len pa perm s = mappages_loop (Suc n) pt va (va + of_nat (4096 * n)) pa perm s"
proof -
  have ne: "len \<noteq> 0" using assms(3) by auto
  have d: "unat len div 4096 = Suc n" unfolding assms(3) by simp
  have w: "va + len - PGSIZE = va + of_nat (4096 * n)"
    unfolding assms(4) [symmetric] by (simp add: algebra_simps)
  show ?thesis
    using assms(1,2) ne unfolding mappages_def aligned_def d w by (simp del: mappages_loop.simps)
qed


lemma mappages_spec:
  assumes "ptab s ps pt" and "va mod PGSIZE = 0" and "len mod PGSIZE = 0" and "len \<noteq> 0"
    and "unat va + unat len \<le> unat MAXVA"
    and "\<And>vb. vb < MAXVA \<Longrightarrow> in_pages va (unat len div 4096) vb \<Longrightarrow> pte_of (mem s) pt vb AND PTE_V = 0"
  shows "\<exists>r t k. mappages pt va len pa perm s = Ret r t \<and> pt_step k ps pt s t \<and>
     (r = 0 \<and> maps_range (unat len div 4096) va pa perm pt (mem s) (mem t) \<or>
      r = -1 \<and> k = length ps \<and> k < 2 * (unat len div 4096) \<and>
        (\<exists>j < unat len div 4096. maps_range j va pa perm pt (mem s) (mem t)))"
proof -
  have al: "aligned va" "aligned len" using assms(2,3) unfolding aligned_def by blast+
  obtain n where n: "unat len = 4096 * Suc n" "len - PGSIZE = of_nat (4096 * n)"
    using size_pages [OF al(2) assms(4)] .
  have d: "unat len div 4096 = Suc n" unfolding n(1) by simp
  have b: "unat va + 4096 * Suc n \<le> 274877906944"
    using assms(5) unfolding n(1) by (simp add: MAXVA_def)
  have i: "\<not> valid (pte_of (mem s) pt vb)" if "vb < MAXVA" "in_pages va (Suc n) vb" for vb
    using assms(6) [OF that(1)] that(2) d by (simp add: valid_def)
  have "\<exists>r t k. mappages_loop (Suc n) pt va (va + of_nat (4096 * n)) pa perm s = Ret r t \<and> pt_step k ps pt s t \<and>
     (r = 0 \<and> k \<le> 2 * Suc n \<and> maps_range (Suc n) va pa perm pt (mem s) (mem t) \<or>
      r = -1 \<and> k = length ps \<and> k < 2 * Suc n \<and> (\<exists>j \<le> n. maps_range j va pa perm pt (mem s) (mem t)))"
    by (rule mappages_loop_spec [OF assms(1) al(1) b]) (use i in auto)
  then show ?thesis
    unfolding d mappages_eq [OF al n] less_Suc_eq_le by blast
qed

text \<open>
  C13. \<open>mappages\<close> on a well-formed table and a range of unmapped pages: it returns 0 and the table
  maps exactly what it mapped before and the new pages to their frames with the permissions
  asked for, or it runs out of memory and returns -1 with some prefix of the range mapped,
  which does not happen while two free pages per page remain. Either way the table stays a
  tree disjoint from the pool, and no byte outside the table and the pages taken changes.
\<close>

theorem mappages_correct:
  assumes "ptab s ps pt" and "va mod PGSIZE = 0" and "len mod PGSIZE = 0" and "len \<noteq> 0"
    and "unat va + unat len \<le> unat MAXVA"
    and "\<And>vb. vb < MAXVA \<Longrightarrow> in_pages va (unat len div 4096) vb \<Longrightarrow> pte_of (mem s) pt vb AND PTE_V = 0"
  shows "\<exists>r t k. mappages pt va len pa perm s = Ret r t \<and> pt_step k ps pt s t \<and>
     (r = 0 \<and> maps_range (unat len div 4096) va pa perm pt (mem s) (mem t) \<or>
      r = -1 \<and> k = length ps \<and> k < 2 * (unat len div 4096) \<and>
        (\<exists>j < unat len div 4096. maps_range j va pa perm pt (mem s) (mem t)))"
  using assms by (rule mappages_spec)

definition demo_root :: u64 where "demo_root = 0x80003000"

lemma demo_root_zero: "j < 512 \<Longrightarrow> entry (mem demo_kmem) demo_root j = 0"
proof -
  assume j: "j < 512"
  have "entry (store64 (\<lambda>_. 0) (slot 0x80001000 0) 0x80002000) demo_root j = entry (\<lambda>_. 0) demo_root j"
    by (rule entry_store_page) (use j in \<open>simp_all add: aligned_dvd demo_root_def\<close>)
  also have "\<dots> = 0"
    using of_le_zeros [of 8] by (simp add: entry_def load64_def load_bytes_def map_replicate_const)
  finally show ?thesis by (simp add: demo_kmem_def kproc.defs slot_def)
qed

lemma demo_ptab: "ptab demo_kmem [0x80001000, 0x80002000] demo_root"
  and demo_tables: "tables (mem demo_kmem) 2 demo_root = {demo_root}"
  and demo_pte: "pte_of (mem demo_kmem) demo_root va = 0"
proof -
  have al: "aligned demo_root" by (simp add: aligned_dvd demo_root_def)
  note z = zero_table [OF al, of "mem demo_kmem" 2]
  show "tables (mem demo_kmem) 2 demo_root = {demo_root}" using z(2) demo_root_zero by blast
  then show "ptab demo_kmem [0x80001000, 0x80002000] demo_root"
    using z(1) demo_root_zero demo_kmem_pool by (simp add: ptab_def) (simp add: demo_root_def)
  show "pte_of (mem demo_kmem) demo_root va = 0"
    unfolding pte_of_def using zero_table(3) [OF al] demo_root_zero by blast
qed

lemma demo_mapped:
  "\<exists>t k. mappages demo_root 0 PGSIZE 0x80004000 (PTE_R OR PTE_W OR PTE_U) demo_kmem = Ret 0 t \<and>
     pt_step k [0x80001000, 0x80002000] demo_root demo_kmem t \<and>
     maps_range 1 0 0x80004000 (PTE_R OR PTE_W OR PTE_U) demo_root (mem demo_kmem) (mem t)"
proof -
  have h: "(0::u64) mod PGSIZE = 0" "PGSIZE mod PGSIZE = 0" "PGSIZE \<noteq> 0"
    "unat (0::u64) + unat PGSIZE \<le> unat MAXVA"
    by (simp_all add: PGSIZE_def MAXVA_def)
  have n: "unat PGSIZE div 4096 = 1" by (simp add: PGSIZE_def)
  show ?thesis
    using mappages_spec [OF demo_ptab h, where pa = "0x80004000" and perm = "PTE_R OR PTE_W OR PTE_U"]
    unfolding n by (auto simp: demo_pte)
qed

lemma mappages_correct_witness:
  "\<exists>t. mappages demo_root 0 PGSIZE 0x80004000 (PTE_R OR PTE_W OR PTE_U) demo_kmem = Ret 0 t \<and>
     maps_range 1 0 0x80004000 (PTE_R OR PTE_W OR PTE_U) demo_root (mem demo_kmem) (mem t)"
proof -
  have h: "(0::u64) mod PGSIZE = 0" "PGSIZE mod PGSIZE = 0" "PGSIZE \<noteq> 0"
    "unat (0::u64) + unat PGSIZE \<le> unat MAXVA"
    by (simp_all add: PGSIZE_def MAXVA_def)
  have n: "unat PGSIZE div 4096 = 1" by (simp add: PGSIZE_def)
  show ?thesis
    using mappages_correct [OF demo_ptab h, where pa = "0x80004000" and perm = "PTE_R OR PTE_W OR PTE_U"]
    unfolding n by (auto simp: demo_pte)
qed


end
