(* ===== verification/UserMem.thy ===== *)
theory UserMem
  imports PageTable
begin

section \<open>User memory as seen through a page table\<close>

text \<open>
  The byte a user address holds, if its page is mapped for the user. \<open>walkaddr\<close>, \<open>copyin\<close>,
  \<open>copyinstr\<close> and \<open>copyout\<close> are shown to read and write exactly that memory.
\<close>

definition frame :: "memory \<Rightarrow> u64 \<Rightarrow> u64 \<Rightarrow> u64" where
  "frame m pt va =
     (let e = pte_of m pt va in
      if va < MAXVA \<and> e AND PTE_V \<noteq> 0 \<and> e AND PTE_U \<noteq> 0 then PTE2PA e else 0)"

definition ubyte :: "memory \<Rightarrow> u64 \<Rightarrow> u64 \<Rightarrow> u8 option" where
  "ubyte m pt va =
     (if frame m pt va = 0 then None else Some (m (frame m pt va + of_nat (page_off va))))"

lemma frame_cong: "pte_of m' pt va = pte_of m pt va \<Longrightarrow> frame m' pt va = frame m pt va"
  by (simp add: frame_def)

lemma walk_read: "va < MAXVA \<Longrightarrow> walk pt va False s = Ret (leaf_slot (mem s) 2 pt va) s"
  by (simp add: walk_def walk_levels_read)

lemma walkaddr_eq: "walkaddr pt va s = Ret (frame (mem s) pt va) s"
  by (auto simp: walkaddr_def frame_def pte_of_def pte_at_leaf run_simps walk_read not_less Let_def
      split: option.splits)

subsection \<open>Pages and offsets\<close>

lemma pte_at_same_path: "same_path l va vb \<Longrightarrow> pte_at m l p va = pte_at m l p vb"
  by (induction l arbitrary: p) (auto simp: same_path_0 same_path_Suc Let_def)

lemma vpn_MAXVA: "va < MAXVA \<longleftrightarrow> vpn va < 67108864"
  by (simp add: MAXVA_unat vpn_def) linarith

lemma frame_page: "vpn va = vpn vb \<Longrightarrow> frame m pt va = frame m pt vb"
proof -
  assume v: "vpn va = vpn vb"
  then have lt: "va < MAXVA \<longleftrightarrow> vb < MAXVA" by (simp add: vpn_MAXVA)
  have "pte_of m pt va = pte_of m pt vb" if "va < MAXVA"
  proof -
    have "vb < MAXVA" using that lt by simp
    then have "same_path 2 va vb" using same_path_page [OF that] v by (simp add: PGROUNDDOWN_eq_iff)
    then show ?thesis unfolding pte_of_def by (rule pte_at_same_path)
  qed
  with lt show ?thesis by (auto simp: frame_def Let_def)
qed

lemma vpn_PGROUNDDOWN [simp]: "vpn (PGROUNDDOWN va) = vpn va"
  by (simp add: vpn_def unat_PGROUNDDOWN)

lemma frame_PGROUNDDOWN [simp]: "frame m pt (PGROUNDDOWN va) = frame m pt va"
  by (rule frame_page) simp

lemma unat_page: "unat va = 4096 * vpn va + page_off va"
  by (simp add: vpn_def page_off_eq)

lemma in_page:
  assumes "page_off va + i < 4096"
  shows "vpn (va + of_nat i) = vpn va" and "page_off (va + of_nat i) = page_off va + i"
proof -
  have "vpn va \<le> 4503599627370495"
    using unat64_less [of va] unat_page [of va] by linarith
  then have "unat va + i < 18446744073709551616"
    using assms unat_page [of va] by linarith
  then have u: "unat (va + of_nat i) = 4096 * vpn va + (page_off va + i)"
    using unat64_add_nat [of va i] unat_page [of va] by simp
  show "vpn (va + of_nat i) = vpn va"
    unfolding vpn_def [of "va + of_nat i"] u using assms by simp
  show "page_off (va + of_nat i) = page_off va + i"
    unfolding page_off_eq [of "va + of_nat i"] u using assms by simp
qed

lemma chunk_le: "chunk va n \<le> n" "page_off va + chunk va n \<le> 4096"
  using less_imp_le [OF page_off_less [of va]] by (auto simp: chunk_def min_def)

lemma chunk_cases: "chunk va n = n \<or> page_off va + chunk va n = 4096"
  using less_imp_le [OF page_off_less [of va]] by (auto simp: chunk_def min_def)

lemma next_chunk:
  assumes "page_off va + k = 4096"
  shows "PGROUNDDOWN va + PGSIZE = va + of_nat k"
proof -
  have "va = PGROUNDDOWN va + of_nat (page_off va)"
    by (simp add: page_off_def)
  moreover have "of_nat (page_off va) + of_nat k = (PGSIZE :: u64)"
    using arg_cong [where f = "of_nat :: nat \<Rightarrow> u64", OF assms] by (simp add: PGSIZE_def)
  ultimately show ?thesis by (metis add.assoc)
qed

lemma ubyte_chunk:
  assumes "i < chunk va n"
  shows "ubyte m pt (va + of_nat i) =
     (if frame m pt va = 0 then None else Some (m (frame m pt va + of_nat (page_off va) + of_nat i)))"
proof -
  have o: "page_off va + i < 4096" using assms chunk_le(2) [of va n] by linarith
  show ?thesis
    unfolding ubyte_def using in_page [OF o] frame_page [of "va + of_nat i" va] by (simp add: add.assoc)
qed

subsection \<open>copyin, copyinstr\<close>

definition ubytes :: "memory \<Rightarrow> u64 \<Rightarrow> u64 \<Rightarrow> nat \<Rightarrow> u8 option list" where
  "ubytes m pt va n = map (\<lambda>i. ubyte m pt (va + of_nat i)) [0..<n]"

lemma length_ubytes [simp]: "length (ubytes m pt va n) = n"
  by (simp add: ubytes_def)

lemma ubytes_split: "k \<le> n \<Longrightarrow> ubytes m pt va n = ubytes m pt va k @ ubytes m pt (va + of_nat k) (n - k)"
proof -
  assume "k \<le> n"
  then have "[0..<n] = [0..<k] @ [k..<n]" by (metis le_add_diff_inverse upt_add_eq_append zero_le)
  moreover have "map (\<lambda>i. ubyte m pt (va + of_nat i)) [k..<n] = ubytes m pt (va + of_nat k) (n - k)"
    by (rule nth_equalityI) (simp_all add: ubytes_def add.assoc)
  ultimately show ?thesis by (simp add: ubytes_def)
qed

lemma ubytes_take: "k \<le> n \<Longrightarrow> ubytes m pt va k = take k (ubytes m pt va n)"
  by (simp add: ubytes_def take_map)

lemma those_append: "those (map Some bs @ ys) = map_option (\<lambda>cs. bs @ cs) (those ys)"
  by (induction bs) (auto simp: option.map_comp o_def option.map_ident)

lemma ubytes_chunk:
  "frame m pt va \<noteq> 0 \<Longrightarrow> ubytes m pt va (chunk va n) =
     map Some (load_bytes m (frame m pt va + of_nat (page_off va)) (chunk va n))"
  by (rule nth_equalityI) (simp_all add: ubytes_def load_bytes_def ubyte_chunk)

lemma ubytes_unmapped: "frame m pt va = 0 \<Longrightarrow> 0 < n \<Longrightarrow> \<exists>ys. ubytes m pt va n = None # ys"
proof -
  assume "frame m pt va = 0" "0 < n"
  then have "ubytes m pt va n ! 0 = None" by (simp add: ubytes_def ubyte_def)
  with \<open>0 < n\<close> show ?thesis by (cases "ubytes m pt va n") (auto dest: arg_cong [where f = length])
qed

text \<open>The rest after the first chunk: it starts at the next page, or there is none.\<close>

lemma rest_chunk:
  "ubytes m pt (PGROUNDDOWN va + PGSIZE) (n - chunk va n) = ubytes m pt (va + of_nat (chunk va n)) (n - chunk va n)"
  using chunk_cases [of va n] next_chunk [of va "chunk va n"] by (auto simp: ubytes_def)

lemma copyin_spec: "copyin pt srcva len s = Ret (those (ubytes (mem s) pt srcva len)) s"
proof (induction pt srcva len arbitrary: s rule: copyin.induct)
  case (1 pt va n)
  show ?case
  proof (cases "n = 0")
    case True
    then show ?thesis by (simp add: copyin.simps [of _ _ 0] ubytes_def)
  next
    case False
    let ?k = "chunk va n"
    have IH: "copyin pt (PGROUNDDOWN va + PGSIZE) (n - ?k) s =
        Ret (those (ubytes (mem s) pt (va + of_nat ?k) (n - ?k))) s" if "frame (mem s) pt va \<noteq> 0"
      using 1 [OF False refl refl that] by (simp add: rest_chunk)
    show ?thesis
    proof (cases "frame (mem s) pt va = 0")
      case True
      then show ?thesis
        using False ubytes_unmapped [OF True, of n]
        by (auto simp: copyin.simps [of pt va n] run_simps walkaddr_eq Let_def)
    next
      case mapped: False
      show ?thesis
        using False mapped IH [OF mapped] ubytes_split [OF chunk_le(1) [of va], of "mem s" pt va n]
        by (simp add: copyin.simps [of pt va n] run_simps walkaddr_eq Let_def ubytes_chunk those_append)
    qed
  qed
qed

text \<open>
  C15. \<open>copyin\<close> reads the user's memory: it yields the bytes at the \<open>len\<close> addresses from \<open>srcva\<close> on
  when every one is mapped for the user, fails when one is not, and changes nothing.
\<close>

theorem copyin_correct: "copyin pt srcva len s = Ret (those (ubytes (mem s) pt srcva len)) s"
  by (rule copyin_spec)

text \<open>The string a list of bytes starts with: up to the first zero, all of it mapped.\<close>

fun cstring :: "u8 option list \<Rightarrow> u8 list option" where
  "cstring (Some b # bs) = (if b = 0 then Some [] else map_option (\<lambda>cs. b # cs) (cstring bs))"
| "cstring _ = None"

lemma cstring_append:
  "cstring (map Some bs @ ys) =
     (if 0 \<in> set bs then Some (takeWhile (\<lambda>b. b \<noteq> 0) bs) else map_option (\<lambda>cs. bs @ cs) (cstring ys))"
  by (induction bs; cases "cstring ys") auto

text \<open>
  C16. \<open>copyinstr\<close> reads the zero-terminated string at \<open>srcva\<close> when it ends within \<open>max\<close> bytes
  and every byte up to its zero is mapped for the user; it fails otherwise; it changes nothing.
\<close>

theorem copyinstr_correct: "copyinstr pt srcva limit s = Ret (cstring (ubytes (mem s) pt srcva limit)) s"
proof (induction pt srcva limit arbitrary: s rule: copyinstr.induct)
  case (1 pt va n)
  show ?case
  proof (cases "n = 0")
    case True
    then show ?thesis by (simp add: copyinstr.simps [of _ _ 0] ubytes_def)
  next
    case False
    let ?k = "chunk va n" and ?bs = "load_bytes (mem s) (frame (mem s) pt va + of_nat (page_off va)) (chunk va n)"
    show ?thesis
    proof (cases "frame (mem s) pt va = 0")
      case True
      then show ?thesis
        using False ubytes_unmapped [OF True, of n]
        by (auto simp: copyinstr.simps [of pt va n] run_simps walkaddr_eq Let_def)
    next
      case mapped: False
      have IH: "copyinstr pt (PGROUNDDOWN va + PGSIZE) (n - ?k) s =
          Ret (cstring (ubytes (mem s) pt (va + of_nat ?k) (n - ?k))) s" if "0 \<notin> set ?bs"
        using 1 [OF False refl refl mapped that] by (simp add: rest_chunk)
      show ?thesis
        using False mapped IH ubytes_split [OF chunk_le(1) [of va], of "mem s" pt va n]
        by (auto simp: copyinstr.simps [of pt va n] run_simps walkaddr_eq Let_def ubytes_chunk cstring_append)
    qed
  qed
qed

subsection \<open>copyout\<close>

text \<open>
  The frames mapped for the user are not pages of the table, and no two pages of the address
  space share one: what the kernel keeps of every process's table.
\<close>

definition user_pages :: "memory \<Rightarrow> u64 \<Rightarrow> bool" where
  "user_pages m pt \<longleftrightarrow> tree m 2 pt \<and>
     (\<forall>va. frame m pt va \<noteq> 0 \<longrightarrow> frame m pt va \<notin> tables m 2 pt) \<and>
     (\<forall>va vb. frame m pt va \<noteq> 0 \<longrightarrow> frame m pt va = frame m pt vb \<longrightarrow> vpn va = vpn vb)"

definition user_writable :: "memory \<Rightarrow> u64 \<Rightarrow> u64 \<Rightarrow> bool" where
  "user_writable m pt va \<longleftrightarrow> frame m pt va \<noteq> 0 \<and> pte_of m pt va AND PTE_W \<noteq> 0"

lemma aligned_PTE2PA: "aligned (PTE2PA e)"
proof -
  have "take_bit 12 (PTE2PA e) = 0"
    by (auto simp: PTE2PA_def bit_eq_iff bit_simps)
  then show ?thesis by (simp add: aligned_def PGSIZE_def take_bit_eq_mod)
qed

lemma frame_aligned: "aligned (frame m pt va)"
proof -
  have "aligned 0" by (simp add: aligned_def)
  then show ?thesis by (simp add: frame_def Let_def aligned_PTE2PA)
qed

text \<open>A store into one user page, read through the table.\<close>

lemma store_user:
  assumes up: "user_pages m pt" and fr: "frame m pt va \<noteq> 0"
    and len: "page_off va + length bs \<le> 4096" and ne: "bs \<noteq> []"
  defines "m' \<equiv> store_bytes m (frame m pt va + of_nat (page_off va)) bs"
  shows "pte_of m' pt vb = pte_of m pt vb" and "user_pages m' pt"
    and "ubyte m' pt vb = (if unat (vb - va) < length bs then Some (bs ! unat (vb - va)) else ubyte m pt vb)"
proof -
  let ?f = "frame m pt va"
  have tab: "?f \<notin> tables m 2 pt" using up fr by (simp add: user_pages_def)
  have sp: "same_page m m' q" if "aligned q" "q \<noteq> ?f" for q
    unfolding m'_def by (rule same_page_store_bytes) (use that frame_aligned len ne in auto)
  have spt: "same_page m m' q" if "q \<in> tables m 2 pt" for q
    using up that tab tables_aligned by (intro sp) (auto simp: user_pages_def)
  have t: "tables m' 2 pt = tables m 2 pt" "tree m' 2 pt = tree m 2 pt"
    using spt by (auto intro!: tables_cong tree_cong)
  have p: "pte_of m' pt vc = pte_of m pt vc" for vc
    unfolding pte_of_def using spt by (rule pte_at_cong)
  then have f: "frame m' pt vc = frame m pt vc" for vc by (simp add: frame_def)
  show "pte_of m' pt vb = pte_of m pt vb" by (rule p)
  have "user_pages m' pt = user_pages m pt" unfolding user_pages_def t f by (rule refl)
  with up show "user_pages m' pt" by simp
  show "ubyte m' pt vb = (if unat (vb - va) < length bs then Some (bs ! unat (vb - va)) else ubyte m pt vb)"
  proof (cases "vpn vb = vpn va")
    case True
    have "vb - va = (PGROUNDDOWN vb + of_nat (page_off vb)) - (PGROUNDDOWN va + of_nat (page_off va))"
      by (simp add: page_off_def)
    also have "PGROUNDDOWN vb = PGROUNDDOWN va" using True by (simp add: PGROUNDDOWN_eq_iff)
    finally have d: "vb - va = of_nat (page_off vb) - of_nat (page_off va)" by simp
    have fb: "frame m pt vb = ?f" using True by (rule frame_page)
    have "?f + of_nat (page_off vb) - (?f + of_nat (page_off va)) = vb - va" using d by simp
    moreover have "m' x = (if unat (x - (?f + of_nat (page_off va))) < length bs
        then bs ! unat (x - (?f + of_nat (page_off va))) else m x)" for x
      by (simp add: m'_def store_bytes_def)
    ultimately show ?thesis using fr by (simp add: ubyte_def f fb)
  next
    case False
    have "\<not> unat (vb - va) < length bs"
    proof
      assume i: "unat (vb - va) < length bs"
      have "vb = va + of_nat (unat (vb - va))" by simp
      moreover have "page_off va + unat (vb - va) < 4096" using i len by linarith
      ultimately have "vpn vb = vpn va" using in_page(1) [of va "unat (vb - va)"] by simp
      with False show False by simp
    qed
    moreover have "ubyte m' pt vb = ubyte m pt vb"
    proof (cases "frame m pt vb = 0")
      case True
      then show ?thesis by (simp add: ubyte_def f)
    next
      case b: False
      then have "frame m pt vb \<noteq> ?f" using up False unfolding user_pages_def by blast
      then have "same_page m m' (frame m pt vb)" using frame_aligned by (intro sp)
      then show ?thesis by (simp add: ubyte_def f same_page_def)
    qed
    ultimately show ?thesis by simp
  qed
qed

lemma user_writable_page: "vpn va = vpn vb \<Longrightarrow> user_writable m pt va = user_writable m pt vb"
proof -
  assume v: "vpn va = vpn vb"
  have "pte_of m pt va = pte_of m pt vb" if "frame m pt va \<noteq> 0"
  proof -
    have "va < MAXVA" using that by (auto simp: frame_def Let_def split: if_splits)
    moreover from this v have "vb < MAXVA" by (simp add: vpn_MAXVA)
    ultimately have "same_path 2 va vb" using same_path_page v by (simp add: PGROUNDDOWN_eq_iff)
    then show ?thesis unfolding pte_of_def by (rule pte_at_same_path)
  qed
  then show ?thesis unfolding user_writable_def frame_page [OF v] by (simp cong: conj_cong)
qed

lemma walk_frame:
  assumes "frame (mem s) pt va \<noteq> 0"
  obtains a where "walk pt (PGROUNDDOWN va) False s = Ret (Some a) s"
    and "load64 (mem s) a = pte_of (mem s) pt (PGROUNDDOWN va)" and "PGROUNDDOWN va < MAXVA"
proof -
  have "frame (mem s) pt (PGROUNDDOWN va) \<noteq> 0" using assms by simp
  then have lt: "PGROUNDDOWN va < MAXVA" and v: "pte_of (mem s) pt (PGROUNDDOWN va) AND PTE_V \<noteq> 0"
    unfolding frame_def Let_def by (metis (full_types))+
  then obtain a where "leaf_slot (mem s) 2 pt (PGROUNDDOWN va) = Some a"
    by (cases "leaf_slot (mem s) 2 pt (PGROUNDDOWN va)") (auto simp: pte_of_def pte_at_leaf)
  with lt that walk_read [OF lt, of pt s] show ?thesis by (simp add: pte_of_def pte_at_leaf)
qed

lemma copyout_step:
  assumes "src \<noteq> []" and "user_writable (mem s) pt va"
  shows "copyout pt va src s = copyout pt (PGROUNDDOWN va + PGSIZE) (drop (chunk va (length src)) src)
     (s\<lparr>mem := store_bytes (mem s) (frame (mem s) pt va + of_nat (page_off va)) (take (chunk va (length src)) src)\<rparr>)"
proof -
  have fr: "frame (mem s) pt va \<noteq> 0" using assms(2) by (simp add: user_writable_def)
  obtain a where w: "walk pt (PGROUNDDOWN va) False s = Ret (Some a) s"
    and a: "load64 (mem s) a = pte_of (mem s) pt (PGROUNDDOWN va)" and lt: "PGROUNDDOWN va < MAXVA"
    using walk_frame [OF fr] .
  have "user_writable (mem s) pt (PGROUNDDOWN va)"
    using assms(2) user_writable_page [of "PGROUNDDOWN va" va] by simp
  then have "load64 (mem s) a AND PTE_W \<noteq> 0" by (simp add: a user_writable_def)
  moreover have "\<not> MAXVA \<le> PGROUNDDOWN va" using lt by simp
  ultimately show ?thesis
    using w fr assms(1) by (simp add: copyout.simps [of pt va src] run_simps walkaddr_eq Let_def)
qed

lemma copyout_stop:
  assumes "src \<noteq> []" and "\<not> user_writable (mem s) pt va"
  shows "copyout pt va src s = Ret (-1) s"
proof (cases "frame (mem s) pt va = 0")
  case True
  with assms(1) show ?thesis
    by (simp add: copyout.simps [of pt va src] run_simps walkaddr_eq Let_def)
next
  case False
  obtain a where w: "walk pt (PGROUNDDOWN va) False s = Ret (Some a) s"
    and a: "load64 (mem s) a = pte_of (mem s) pt (PGROUNDDOWN va)" and lt: "PGROUNDDOWN va < MAXVA"
    using walk_frame [OF False] .
  have "\<not> user_writable (mem s) pt (PGROUNDDOWN va)"
    using assms(2) user_writable_page [of "PGROUNDDOWN va" va] by simp
  then have "load64 (mem s) a AND PTE_W = 0" using False by (simp add: a user_writable_def)
  moreover have "\<not> MAXVA \<le> PGROUNDDOWN va" using lt by simp
  ultimately show ?thesis
    using w False assms(1) by (simp add: copyout.simps [of pt va src] run_simps walkaddr_eq Let_def)
qed

lemma copyout_spec:
  assumes "user_pages (mem s) pt" and "length src < 2 ^ 64"
  shows "\<exists>m'. copyout pt dstva src s =
       Ret (if \<forall>i < length src. user_writable (mem s) pt (dstva + of_nat i) then 0 else -1) (s\<lparr>mem := m'\<rparr>) \<and>
     user_pages m' pt \<and> (\<forall>vb. pte_of m' pt vb = pte_of (mem s) pt vb) \<and>
     (\<forall>vb. length src \<le> unat (vb - dstva) \<longrightarrow> ubyte m' pt vb = ubyte (mem s) pt vb) \<and>
     ((\<forall>i < length src. user_writable (mem s) pt (dstva + of_nat i)) \<longrightarrow>
        ubytes m' pt dstva (length src) = map Some src)"
  using assms
proof (induction "length src" arbitrary: dstva src s rule: less_induct)
  case (less src va s)
  show ?case
  proof (cases "src = []")
    case True
    then show ?thesis
      using less.prems by (intro exI [of _ "mem s"]) (simp add: copyout.simps [of pt va "[]"] ubytes_def)
  next
    case ne: False
    show ?thesis
    proof (cases "user_writable (mem s) pt va")
      case False
      then have "\<not> (\<forall>i < length src. user_writable (mem s) pt (va + of_nat i))"
        using ne by (auto intro!: exI [of _ 0])
      then show ?thesis
        using copyout_stop [of src s pt va] ne False less.prems by (intro exI [of _ "mem s"]) auto
    next
      case True
      let ?k = "chunk va (length src)"
      let ?bs = "take ?k src" and ?rest = "drop ?k src"
      let ?m = "store_bytes (mem s) (frame (mem s) pt va + of_nat (page_off va)) ?bs"
      have k: "0 < ?k" "?k \<le> length src" "page_off va + ?k \<le> 4096"
        using chunk_pos [of "length src" va] chunk_le [of va "length src"] ne by auto
      have fr: "frame (mem s) pt va \<noteq> 0" using True by (simp add: user_writable_def)
      have len: "length ?bs = ?k" using k(2) by simp
      have "?bs \<noteq> []" using k(1) len by (metis length_0_conv less_irrefl)
      note st = store_user [OF less.prems(1) fr _ this, unfolded len, OF k(3)]
      have p: "pte_of ?m pt vb = pte_of (mem s) pt vb" for vb by (rule st(1))
      have w: "user_writable ?m pt vb = user_writable (mem s) pt vb" for vb
        unfolding user_writable_def frame_cong [OF p] p by (rule refl)
      have wk: "user_writable (mem s) pt (va + of_nat i)" if "i < ?k" for i
        using True user_writable_page [OF in_page(1), of va i] that k(3) by simp
      let ?va = "PGROUNDDOWN va + PGSIZE"
      have nx: "?rest = [] \<or> ?va = va + of_nat ?k"
        using chunk_cases [of va "length src"] next_chunk [of va ?k] by auto
      have rest: "length ?rest < length src" "length ?rest < 2 ^ 64"
        using k less.prems(2) by auto
      obtain m' where m': "copyout pt ?va ?rest (s\<lparr>mem := ?m\<rparr>) =
          Ret (if \<forall>i < length ?rest. user_writable ?m pt (?va + of_nat i) then 0 else -1) (s\<lparr>mem := m'\<rparr>)"
        "user_pages m' pt" "\<And>vb. pte_of m' pt vb = pte_of ?m pt vb"
        "\<And>vb. length ?rest \<le> unat (vb - ?va) \<Longrightarrow> ubyte m' pt vb = ubyte ?m pt vb"
        "(\<forall>i < length ?rest. user_writable ?m pt (?va + of_nat i)) \<Longrightarrow>
           ubytes m' pt ?va (length ?rest) = map Some ?rest"
        using less.hyps [OF rest(1), of "s\<lparr>mem := ?m\<rparr>" ?va] st(2) rest(2) by auto
      have all: "(\<forall>i < length src. user_writable (mem s) pt (va + of_nat i)) \<longleftrightarrow>
          (\<forall>i < length ?rest. user_writable ?m pt (?va + of_nat i))"
      proof
        assume a: "\<forall>i < length src. user_writable (mem s) pt (va + of_nat i)"
        show "\<forall>i < length ?rest. user_writable ?m pt (?va + of_nat i)"
        proof (intro allI impI)
          fix i
          assume i: "i < length ?rest"
          with nx have "?va + of_nat i = va + of_nat (?k + i)" by (auto simp: add.assoc)
          moreover have "?k + i < length src" using i by simp
          ultimately show "user_writable ?m pt (?va + of_nat i)" using a w by metis
        qed
      next
        assume a: "\<forall>i < length ?rest. user_writable ?m pt (?va + of_nat i)"
        show "\<forall>i < length src. user_writable (mem s) pt (va + of_nat i)"
        proof (intro allI impI)
          fix i
          assume i: "i < length src"
          show "user_writable (mem s) pt (va + of_nat i)"
          proof (cases "i < ?k")
            case False
            then have r: "i - ?k < length ?rest" using i by auto
            then have "?va = va + of_nat ?k" using nx by auto
            then have "?va + of_nat (i - ?k) = va + (of_nat ?k + of_nat (i - ?k))" by (simp only: add.assoc)
            also have "\<dots> = va + of_nat i" using False by (simp only: of_nat_add [symmetric]) simp
            finally have "?va + of_nat (i - ?k) = va + of_nat i" .
            with a r w show ?thesis by metis
          qed (rule wk)
        qed
      qed
      have far: "length ?rest \<le> unat (vb - ?va)" if "?k \<le> unat (vb - va) \<longrightarrow> length src \<le> unat (vb - va)" for vb
      proof (cases "?rest = []")
        case False
        with nx have d: "vb - ?va = (vb - va) - of_nat ?k" by (auto simp: algebra_simps)
        have u: "unat (of_nat ?k :: u64) = ?k" using k(2) less.prems(2) by (simp add: unat64_of_nat)
        show ?thesis
        proof (cases "?k \<le> unat (vb - va)")
          case True
          then have "of_nat ?k \<le> vb - va" unfolding word_le_nat_alt u .
          with True that show ?thesis
            unfolding d by (subst unat_sub_small) (simp_all only: u, auto)
        next
          case lt: False
          then have "\<not> (of_nat ?k \<le> vb - va)" unfolding word_le_nat_alt u .
          then have "unat (vb - va - of_nat ?k) = 18446744073709551616 + unat (vb - va) - ?k"
            by (simp only: unat_diff_word u if_False)
          then show ?thesis using less.prems(2) k(2) unfolding d by simp
        qed
      qed simp
      have m'm: "ubyte m' pt vb = (if unat (vb - va) < ?k then Some (?bs ! unat (vb - va)) else ubyte (mem s) pt vb)"
        if "?k \<le> unat (vb - va) \<longrightarrow> length src \<le> unat (vb - va)" for vb
        using m'(4) [OF far [OF that]] st(3) [of vb] by simp
      have out: "ubyte m' pt vb = ubyte (mem s) pt vb" if "length src \<le> unat (vb - va)" for vb
        using m'm [of vb] that k(2) by simp
      have inside: "ubytes m' pt va (length src) = map Some src"
        if "\<forall>i < length src. user_writable (mem s) pt (va + of_nat i)"
      proof -
        have "ubytes m' pt va ?k = map Some ?bs"
        proof (rule nth_equalityI)
          fix i
          assume "i < length (ubytes m' pt va ?k)"
          then have i: "i < ?k" by simp
          have "unat (va + of_nat i - va) = i" using i k(2) less.prems(2) by (simp add: unat64_of_nat)
          then show "ubytes m' pt va ?k ! i = map Some ?bs ! i"
            using i k(2) m'm [of "va + of_nat i"] by (simp add: ubytes_def)
        qed (use len in simp)
        moreover have "ubytes m' pt (va + of_nat ?k) (length src - ?k) = map Some ?rest"
          using m'(5) that all nx by (auto simp: ubytes_def)
        ultimately show ?thesis
          using ubytes_split [OF k(2), of m' pt va] append_take_drop_id [of ?k src] by (metis map_append)
      qed
      show ?thesis
        using copyout_step [OF ne True] m' p all out inside by (intro exI [of _ m']) simp
    qed
  qed
qed

text \<open>
  C17. \<open>copyout\<close> writes the user's memory: when every page of the destination is mapped for the
  user and writable it returns 0, the user reads the new bytes there and what was there before
  everywhere else, and no mapping changes; when some page is not, it returns -1.
\<close>

theorem copyout_correct:
  assumes "user_pages (mem s) pt" and "length src < 2 ^ 64"
  shows "\<exists>m'. copyout pt dstva src s =
       Ret (if \<forall>i < length src. user_writable (mem s) pt (dstva + of_nat i) then 0 else -1) (s\<lparr>mem := m'\<rparr>) \<and>
     user_pages m' pt \<and> (\<forall>vb. pte_of m' pt vb = pte_of (mem s) pt vb) \<and>
     (\<forall>vb. length src \<le> unat (vb - dstva) \<longrightarrow> ubyte m' pt vb = ubyte (mem s) pt vb) \<and>
     ((\<forall>i < length src. user_writable (mem s) pt (dstva + of_nat i)) \<longrightarrow>
        ubytes m' pt dstva (length src) = map Some src)"
  using assms by (rule copyout_spec)

text \<open>
  What the kernel copies out to writable user memory is what it copies back in.
\<close>

theorem copy_round_trip:
  assumes "user_pages (mem s) pt" and "length src < 2 ^ 64"
    and "\<forall>i < length src. user_writable (mem s) pt (va + of_nat i)"
  shows "\<exists>t. copyout pt va src s = Ret 0 t \<and> copyin pt va (length src) t = Ret (Some src) t"
proof -
  have "those (map Some src) = Some src" by (induction src) auto
  then show ?thesis
    using copyout_spec [OF assms(1,2), of va] assms(3) by (auto simp: copyin_spec)
qed

text \<open>A table with one page of user memory, made by \<open>mappages\<close>.\<close>

lemma demo_user:
  "\<exists>t :: kmem_st. user_pages (mem t) demo_root \<and> (\<forall>va. vpn va = 0 \<longrightarrow> user_writable (mem t) demo_root va)"
proof -
  obtain t k where st: "pt_step k [0x80001000, 0x80002000] demo_root demo_kmem t"
    and mp: "maps_range 1 0 0x80004000 (PTE_R OR PTE_W OR PTE_U) demo_root (mem demo_kmem) (mem t)"
    using demo_mapped by blast
  let ?e = "PA2PTE 0x80004000 OR (PTE_R OR PTE_W OR PTE_U) OR PTE_V"
  have "drop_bit 10 ((PTE_R OR PTE_W OR PTE_U) OR PTE_V) = 0" "aligned 0x80004000"
    by (simp_all add: PTE_R_def PTE_W_def PTE_U_def PTE_V_def aligned_dvd)
  then have pa: "PTE2PA ?e = 0x80004000" using PTE2PA_PA2PTE by blast
  have zero: "PTE2PA 0 = 0" by (simp add: PTE2PA_def)
  have bits: "?e AND PTE_V \<noteq> 0" "?e AND PTE_U \<noteq> 0" "?e AND PTE_W \<noteq> 0"
    by (simp_all add: PTE_R_def PTE_W_def PTE_U_def PTE_V_def PA2PTE_def)
  have pte: "pte_of (mem t) demo_root va = (if vpn va = 0 then ?e else 0)" if "va < MAXVA" for va
    using mp that demo_pte by (auto simp: maps_range_def in_pages_def frame_pte_def vpn_def)
  have lt: "va < MAXVA" if "vpn va = 0" for va using that by (simp add: vpn_MAXVA)
  have fr: "frame (mem t) demo_root va = (if vpn va = 0 then 0x80004000 else 0)" for va
    using pte [of va] lt [of va] pa bits zero by (simp add: frame_def Let_def)
  have "tables (mem t) 2 demo_root \<subseteq> {demo_root} \<union> set (take k [0x80001000, 0x80002000])"
    using st demo_tables by (simp add: pt_step_def)
  also have "\<dots> \<subseteq> {demo_root, 0x80001000, 0x80002000}"
    using set_take_subset [of k "[0x80001000, 0x80002000 :: u64]"] by auto
  finally have "0x80004000 \<notin> tables (mem t) 2 demo_root"
    by (rule contra_subsetD) (simp add: demo_root_def)
  then have "user_pages (mem t) demo_root"
    using st by (auto simp: user_pages_def fr pt_step_def ptab_def)
  moreover have "user_writable (mem t) demo_root va" if "vpn va = 0" for va
    using that fr pte [OF lt [OF that]] bits by (simp add: user_writable_def)
  ultimately show ?thesis by blast
qed

lemma copyout_correct_witness:
  "\<exists>(s :: kmem_st) m'. copyout demo_root 16 [1, 2, 3] s = Ret 0 (s\<lparr>mem := m'\<rparr>) \<and>
     ubytes m' demo_root 16 3 = [Some 1, Some 2, Some 3]"
proof -
  obtain s :: kmem_st where s: "user_pages (mem s) demo_root"
    "\<And>va. vpn va = 0 \<Longrightarrow> user_writable (mem s) demo_root va" using demo_user by blast
  have "\<forall>i < length [1, 2, 3 :: u8]. user_writable (mem s) demo_root (16 + of_nat i)"
    using s(2) in_page(1) [of 16] by (auto simp: page_off_eq vpn_def)
  with copyout_correct [OF s(1), of "[1, 2, 3]" 16] show ?thesis
    by (auto simp: numeral_3_eq_3)
qed

lemma copy_round_trip_witness:
  "\<exists>(s :: kmem_st) t. copyout demo_root 16 [1, 2, 3] s = Ret 0 t \<and>
     copyin demo_root 16 3 t = Ret (Some [1, 2, 3]) t"
proof -
  obtain s :: kmem_st where s: "user_pages (mem s) demo_root"
    "\<And>va. vpn va = 0 \<Longrightarrow> user_writable (mem s) demo_root va" using demo_user by blast
  have "\<forall>i < length [1, 2, 3 :: u8]. user_writable (mem s) demo_root (16 + of_nat i)"
    using s(2) in_page(1) [of 16] by (auto simp: page_off_eq vpn_def)
  with copy_round_trip [OF s(1), of "[1, 2, 3]" 16] show ?thesis
    by (auto simp: numeral_3_eq_3)
qed

subsection \<open>The effect of copies on user memory\<close>

text \<open>
  \<open>wrote m m' pt va bs\<close>: from \<open>m\<close> to \<open>m'\<close> the bytes \<open>bs\<close> were stored at \<open>va\<close> in the address space
  of \<open>pt\<close>, and nothing else changed there. Consecutive stores compose.
\<close>

definition wrote :: "memory \<Rightarrow> memory \<Rightarrow> u64 \<Rightarrow> u64 \<Rightarrow> u8 list \<Rightarrow> bool" where
  "wrote m m' pt va bs \<longleftrightarrow> user_pages m' pt \<and> (\<forall>vb. pte_of m' pt vb = pte_of m pt vb) \<and>
     (\<forall>vb. ubyte m' pt vb = (if unat (vb - va) < length bs then Some (bs ! unat (vb - va)) else ubyte m pt vb))"

lemma wrote_refl: "user_pages m pt \<Longrightarrow> wrote m m pt va []"
  by (simp add: wrote_def)

lemma wrote_pages: "wrote m m' pt va bs \<Longrightarrow> user_pages m' pt"
  by (simp add: wrote_def)

lemma wrote_writable: "wrote m m' pt va bs \<Longrightarrow> user_writable m' pt vb = user_writable m pt vb"
proof -
  assume "wrote m m' pt va bs"
  then have p: "pte_of m' pt vc = pte_of m pt vc" for vc by (simp add: wrote_def)
  show ?thesis unfolding user_writable_def frame_cong [OF p] p by (rule refl)
qed

lemma wrote_frame: "wrote m m' pt va bs \<Longrightarrow> frame m' pt vb = frame m pt vb"
  by (rule frame_cong) (simp add: wrote_def)

lemma wrote_read:
  assumes "wrote m m' pt va bs" and "length bs < 2 ^ 64"
  shows "ubytes m' pt va (length bs) = map Some bs"
proof (rule nth_equalityI)
  fix i
  assume "i < length (ubytes m' pt va (length bs))"
  then have i: "i < length bs" by simp
  then have "unat (va + of_nat i - va) = i" using assms(2) by (simp add: unat64_of_nat)
  then show "ubytes m' pt va (length bs) ! i = map Some bs ! i"
    using i assms(1) by (simp add: ubytes_def wrote_def)
qed simp

lemma wrote_other:
  "wrote m m' pt va bs \<Longrightarrow> length bs \<le> unat (vb - va) \<Longrightarrow> ubyte m' pt vb = ubyte m pt vb"
  by (simp add: wrote_def)

lemma wrote_append:
  assumes "wrote m m1 pt va xs" and "wrote m1 m2 pt (va + of_nat (length xs)) ys"
    and "length xs + length ys < 2 ^ 64"
  shows "wrote m m2 pt va (xs @ ys)"
proof -
  have u: "unat (of_nat (length xs) :: u64) = length xs" using assms(3) by (simp add: unat64_of_nat)
  have "ubyte m2 pt vb = (if unat (vb - va) < length (xs @ ys) then Some ((xs @ ys) ! unat (vb - va)) else ubyte m pt vb)"
    for vb
  proof -
    have d: "vb - (va + of_nat (length xs)) = (vb - va) - of_nat (length xs)" by simp
    show ?thesis
    proof (cases "unat (vb - va) < length xs")
      case True
      have "unat ((vb - va) - of_nat (length xs)) = 18446744073709551616 + unat (vb - va) - length xs"
        using True by (simp add: unat_diff_word u word_le_nat_alt)
      then have "\<not> unat (vb - (va + of_nat (length xs))) < length ys"
        unfolding d using assms(3) True by simp
      then show ?thesis using assms(1,2) True by (simp add: wrote_def nth_append)
    next
      case False
      then have "unat (vb - (va + of_nat (length xs))) = unat (vb - va) - length xs"
        unfolding d by (subst unat_sub_small) (simp_all add: u word_le_nat_alt)
      moreover have "ubyte m2 pt vb = (if unat (vb - (va + of_nat (length xs))) < length ys
          then Some (ys ! unat (vb - (va + of_nat (length xs)))) else ubyte m1 pt vb)"
        "ubyte m1 pt vb = (if unat (vb - va) < length xs then Some (xs ! unat (vb - va)) else ubyte m pt vb)"
        using assms(1,2) unfolding wrote_def by blast+
      ultimately show ?thesis
        using False by (simp only: nth_append length_append if_False) auto
    qed
  qed
  moreover have "pte_of m2 pt vb = pte_of m pt vb" for vb
    using assms(1,2) by (simp add: wrote_def)
  ultimately show ?thesis using wrote_pages [OF assms(2)] by (simp add: wrote_def)
qed

lemma copyout_wrote:
  assumes "user_pages (mem s) pt" and "length src < 2 ^ 64"
    and "\<forall>i < length src. user_writable (mem s) pt (va + of_nat i)"
  shows "\<exists>m'. copyout pt va src s = Ret 0 (s\<lparr>mem := m'\<rparr>) \<and> wrote (mem s) m' pt va src"
proof -
  obtain m' where m': "copyout pt va src s = Ret 0 (s\<lparr>mem := m'\<rparr>)" "user_pages m' pt"
    "\<And>vb. pte_of m' pt vb = pte_of (mem s) pt vb"
    "\<And>vb. length src \<le> unat (vb - va) \<Longrightarrow> ubyte m' pt vb = ubyte (mem s) pt vb"
    "ubytes m' pt va (length src) = map Some src"
    using copyout_spec [OF assms(1,2), of va] assms(3) by auto
  have "ubyte m' pt vb = Some (src ! unat (vb - va))" if "unat (vb - va) < length src" for vb
  proof -
    have "ubytes m' pt va (length src) ! unat (vb - va) = ubyte m' pt (va + of_nat (unat (vb - va)))"
      using that by (simp add: ubytes_def)
    then show ?thesis using that by (simp add: m'(5))
  qed
  with m' show ?thesis by (auto simp: wrote_def not_less intro!: exI [of _ m'])
qed

lemma copyout_byte:
  "user_pages (mem s) pt \<Longrightarrow> user_writable (mem s) pt va \<Longrightarrow>
     \<exists>m'. copyout pt va [c] s = Ret 0 (s\<lparr>mem := m'\<rparr>) \<and> wrote (mem s) m' pt va [c]"
  using copyout_wrote [of s pt "[c]" va] by simp

lemma copyin_byte:
  "copyin pt va 1 s = Ret (map_option (\<lambda>b. [b]) (ubyte (mem s) pt va)) s"
  by (cases "ubyte (mem s) pt va") (simp_all add: copyin_spec ubytes_def)

end
