(* ===== verification/Console.thy ===== *)
theory Console
  imports Path UserMem
begin

section \<open>The console: \<^verbatim>\<open>kernel/core/console.c\<close>\<close>

text \<open>
  The line-editing input buffer with its read, write (committed) and edit indices, which are
  32-bit counters taken modulo the buffer's size, and the bytes sent to the UART so far,
  oldest first; \<open>Device\<close> has the waiting for the UART's transmitter. A reader that finds no
  committed input goes to sleep; \<open>consoleread_at\<close> is its loop from the test on, so the frame of
  a sleeping reader is the argument of \<open>consoleread_resume\<close>.
\<close>

definition INPUT_BUF :: nat where "INPUT_BUF = 128"

record con_st = fs_st +
  cbuf :: "u8 list"
  c_r :: u32
  c_w :: u32
  c_e :: u32
  c_locking :: bool
  uart_out :: "u8 list"

definition uart_putc :: "u8 \<Rightarrow> ('z con_st_scheme, unit) kern" where
  "uart_putc c = modify (\<lambda>s. s\<lparr>uart_out := uart_out s @ [c]\<rparr>)"

definition consoleinit :: "('z con_st_scheme, unit) kern" where
  "consoleinit = modify (\<lambda>s. s\<lparr>c_locking := True, c_r := 0, c_w := 0, c_e := 0\<rparr>)"

definition consolepanic :: "('z con_st_scheme, unit) kern" where
  "consolepanic = modify (\<lambda>s. s\<lparr>c_locking := False\<rparr>)"

definition consoleacquire :: "('z con_st_scheme, unit) kern" where
  "consoleacquire = bnd (gets c_locking) (\<lambda>l. whenk l (acquire ConsLock))"

definition consolerelease :: "('z con_st_scheme, unit) kern" where
  "consolerelease = bnd (gets c_locking) (\<lambda>l. whenk l (release ConsLock))"

abbreviation BACKSPACE :: int where "BACKSPACE \<equiv> 0x100"
abbreviation ctrl_D :: int where "ctrl_D \<equiv> 4"
abbreviation ctrl_H :: int where "ctrl_H \<equiv> 8"
abbreviation ctrl_U :: int where "ctrl_U \<equiv> 21"

definition consputc :: "int \<Rightarrow> ('z con_st_scheme, unit) kern" where
  "consputc c =
     (if c = BACKSPACE then thn (uart_putc 8) (thn (uart_putc 32) (uart_putc 8))
      else uart_putc (word_of_int c))"

definition cons_at :: "u32 \<Rightarrow> 'z con_st_scheme \<Rightarrow> u8" where
  "cons_at i s = cbuf s ! (unat i mod INPUT_BUF)"

text \<open>The two ends of the ring: a byte stored at the edit index, a byte taken at the read index.\<close>

definition con_put :: "u8 \<Rightarrow> 'z con_st_scheme \<Rightarrow> 'z con_st_scheme" where
  "con_put b s = s\<lparr>cbuf := (cbuf s)[unat (c_e s) mod INPUT_BUF := b], c_e := c_e s + 1\<rparr>"

definition con_first :: "'z con_st_scheme \<Rightarrow> u8" where
  "con_first s = cons_at (c_r s) s"

definition con_take :: "'z con_st_scheme \<Rightarrow> 'z con_st_scheme" where
  "con_take s = s\<lparr>c_r := c_r s + 1\<rparr>"

lemma word_pred_distance:
  fixes e w :: u32
  shows "e \<noteq> w \<Longrightarrow> unat (e - 1 - w) < unat (e - w)"
proof -
  assume "e \<noteq> w"
  then have "1 \<le> unat (e - w)"
    using unat_eq_zero [of "e - w"] by (simp add: Suc_le_eq)
  moreover from this have "unat (e - 1 - w) = unat (e - w) - 1"
    by (subst diff_right_commute, subst unat_sub_small) (simp_all add: word_le_nat_alt)
  ultimately show ?thesis by simp
qed

text \<open>The loop that erases a line runs on the distance between the edit and write indices.\<close>

function kill_line :: "u32 \<Rightarrow> u32 \<Rightarrow> ('z con_st_scheme, unit) kern" where
  "kill_line e w =
     (if e \<noteq> w then
        bnd (gets (cons_at (e - 1))) (\<lambda>c.
        if c = 10 then ret ()
        else
          thn (modify (\<lambda>s. s\<lparr>c_e := e - 1\<rparr>))
          (thn (consputc BACKSPACE)
          (kill_line (e - 1) w)))
      else ret ())"
  by pat_completeness auto
termination
  by (relation "measure (\<lambda>(e, w). unat (e - w))") (auto simp: word_pred_distance)

declare kill_line.simps [simp del]

definition consoleintr :: "int \<Rightarrow> ('z con_st_scheme, unit) kern" where
  "consoleintr c =
     thn consoleacquire
     (thn
       (bnd (gets c_e) (\<lambda>e. bnd (gets c_w) (\<lambda>w. bnd (gets c_r) (\<lambda>r.
        if c = ctrl_U then kill_line e w
        else if c = ctrl_H \<or> c = 127 then
          whenk (e \<noteq> w)
            (thn (modify (\<lambda>s. s\<lparr>c_e := e - 1\<rparr>)) (consputc BACKSPACE))
        else if c \<noteq> 0 \<and> e - r < of_nat INPUT_BUF then
          let c = (if c = 13 then 10 else c) in
          thn (modify (con_put (word_of_int c)))
          (thn (consputc c)
          (whenk (c = 10 \<or> c = ctrl_D \<or> e + 1 = r + of_nat INPUT_BUF)
            (thn (modify (\<lambda>s. s\<lparr>c_w := e + 1\<rparr>))
            (wakeup ChCons))))
        else ret ()))))
     consolerelease)"

definition consolegetc :: "('z con_st_scheme, int) kern" where
  "consolegetc =
     thn consoleacquire
     (bnd (gets (\<lambda>s. if c_r s \<noteq> c_w s then uint (con_first s) else -1)) (\<lambda>c.
     thn (whenk (c \<noteq> -1) (modify con_take))
     (thn consolerelease
     (ret c))))"

function consoleread_at :: "u64 \<Rightarrow> u64 \<Rightarrow> int \<Rightarrow> int \<Rightarrow> ('z con_st_scheme, int) kern" where
  "consoleread_at pt dstva n i =
     bnd (gets (\<lambda>s. c_r s = c_w s)) (\<lambda>empty.
     if empty then sleep ChCons ConsLock
     else
       bnd (gets con_first) (\<lambda>c.
       thn (modify con_take)
       (thn consolerelease
       (if uint c = ctrl_D then (if i = 0 then ret 0 else ret i)
        else
          bnd (copyout pt (dstva + to_u64 i) [c]) (\<lambda>r.
          if r < 0 then ret (-1)
          else if c = 10 then ret (i + 1)
          else if i + 1 < n then thn consoleacquire (consoleread_at pt dstva n (i + 1))
          else ret (i + 1))))))"
  by pat_completeness auto
termination
  by (relation "measure (\<lambda>(pt, d, n, i). nat (n - i))") auto

declare consoleread_at.simps [simp del]

definition consoleread :: "u64 \<Rightarrow> u64 \<Rightarrow> int \<Rightarrow> ('z con_st_scheme, int) kern" where
  "consoleread pt dstva n =
     (if 0 < n then thn consoleacquire (consoleread_at pt dstva n 0) else ret 0)"

definition consoleread_resume :: "u64 \<Rightarrow> u64 \<Rightarrow> int \<Rightarrow> int \<Rightarrow> ('z con_st_scheme, int) kern" where
  "consoleread_resume pt dstva n i = thn (sleep_resume ConsLock) (consoleread_at pt dstva n i)"

subsection \<open>The ring and the line discipline\<close>

text \<open>
  \<open>con_typed\<close> is everything between the read and the edit index, oldest first; its committed
  part is what readers may take, the pending part the line being edited.
\<close>

definition con_typed :: "'z con_st_scheme \<Rightarrow> u8 list" where
  "con_typed s = ring INPUT_BUF (cbuf s) (c_r s) (c_e s)"

definition con_committed :: "'z con_st_scheme \<Rightarrow> u8 list" where
  "con_committed s = ring INPUT_BUF (cbuf s) (c_r s) (c_w s)"

definition con_pending :: "'z con_st_scheme \<Rightarrow> u8 list" where
  "con_pending s = ring INPUT_BUF (cbuf s) (c_w s) (c_e s)"

definition ring_ok :: "'z con_st_scheme \<Rightarrow> bool" where
  "ring_ok s \<longleftrightarrow> length (cbuf s) = INPUT_BUF \<and> unat (c_e s - c_r s) \<le> INPUT_BUF"

definition con_ok :: "'z con_st_scheme \<Rightarrow> bool" where
  "con_ok s \<longleftrightarrow> ring_ok s \<and> unat (c_w s - c_r s) \<le> unat (c_e s - c_r s) \<and> 10 \<notin> set (con_pending s)"

lemma INPUT_BUF_facts: "INPUT_BUF dvd 2 ^ 32" "INPUT_BUF < 2 ^ 32" "0 < INPUT_BUF"
  by (simp_all add: INPUT_BUF_def)

lemma con_typed_put:
  assumes "ring_ok s" and "length (con_typed s) < INPUT_BUF"
  shows "con_typed (con_put b s) = con_typed s @ [b]" and "ring_ok (con_put b s)"
  using assms ring_put [OF INPUT_BUF_facts(1,2), of "cbuf s" "c_e s" "c_r s" b]
    unat_succ_diff [OF _ INPUT_BUF_facts(2), of "c_e s" "c_r s"]
  by (simp_all add: ring_ok_def con_typed_def con_put_def)

lemma con_typed_take:
  assumes "con_typed s \<noteq> []"
  shows "con_first s = hd (con_typed s)" and "con_typed (con_take s) = tl (con_typed s)"
    and "ring_ok s \<Longrightarrow> ring_ok (con_take s)"
  using assms ring_Cons [of "c_r s" "c_e s" INPUT_BUF "cbuf s"] unat_diff_succ [of "c_r s" "c_e s"]
  by (simp_all add: ring_ok_def con_typed_def con_take_def con_first_def cons_at_def)

lemma con_typed_bounded: "ring_ok s \<Longrightarrow> length (con_typed s) \<le> INPUT_BUF"
  by (simp add: ring_ok_def con_typed_def)

interpretation con_ring: bounded_queue INPUT_BUF con_put con_take con_first con_typed ring_ok
  by unfold_locales (simp_all add: con_typed_put con_typed_take con_typed_bounded)

text \<open>
  The line discipline on the committed bytes and the line being edited: kill the line, erase
  its last byte, or append a byte, which commits the line when it is a newline, an
  end-of-file mark or the last that fits. The third component is the echo.
\<close>

definition erase_echo :: "u8 list" where
  "erase_echo = [8, 32, 8]"

definition key_byte :: "int \<Rightarrow> u8" where
  "key_byte c = (if c = 13 then 10 else word_of_int c)"

definition line_discipline :: "int \<Rightarrow> u8 list \<Rightarrow> u8 list \<Rightarrow> u8 list \<times> u8 list \<times> u8 list" where
  "line_discipline c com pend =
     (if c = ctrl_U then (com, [], concat (replicate (length pend) erase_echo))
      else if c = ctrl_H \<or> c = 127 then
        (if pend = [] then (com, [], []) else (com, butlast pend, erase_echo))
      else if c \<noteq> 0 \<and> length com + length pend < INPUT_BUF then
        (let b = key_byte c; pend' = pend @ [b] in
         if b = 10 \<or> b = 4 \<or> length com + length pend' = INPUT_BUF then (com @ pend', [], [b])
         else (com, pend', [b]))
      else (com, pend, []))"

lemma con_typed_split:
  "unat (c_w s - c_r s) \<le> unat (c_e s - c_r s) \<Longrightarrow> con_typed s = con_committed s @ con_pending s"
  by (simp add: con_typed_def con_committed_def con_pending_def ring_split)

lemma consputc_apply:
  "consputc BACKSPACE s = Ret () (s\<lparr>uart_out := uart_out s @ erase_echo\<rparr>)"
  "c \<noteq> BACKSPACE \<Longrightarrow> consputc c s = Ret () (s\<lparr>uart_out := uart_out s @ [word_of_int c]\<rparr>)"
  by (simp_all add: consputc_def uart_putc_def run_simps erase_echo_def)

lemma kill_line_eq:
  "10 \<notin> set (ring INPUT_BUF (cbuf s) w e) \<Longrightarrow> c_e s = e \<Longrightarrow>
     kill_line e w s = Ret () (s\<lparr>c_e := w,
       uart_out := uart_out s @ concat (replicate (unat (e - w)) erase_echo)\<rparr>)"
proof (induction e w arbitrary: s rule: kill_line.induct)
  case (1 e w)
  show ?case
  proof (cases "e = w")
    case True
    with 1(3) have "e = c_e s" "w = c_e s" by simp_all
    then show ?thesis by (subst kill_line.simps) simp
  next
    case False
    let ?s = "s\<lparr>c_e := e - 1, uart_out := uart_out s @ erase_echo\<rparr>"
    have last: "cons_at (e - 1) s \<noteq> 10" "10 \<notin> set (ring INPUT_BUF (cbuf s) w (e - 1))"
      using 1(2) False by (auto simp: ring_snoc [of w e] cons_at_def)
    have "kill_line (e - 1) w ?s = Ret () (?s\<lparr>c_e := w,
        uart_out := uart_out ?s @ concat (replicate (unat (e - 1 - w)) erase_echo)\<rparr>)"
      by (rule 1(1)) (use False last in simp_all)
    then show ?thesis
      using False last unat_pred_diff [of w e]
      by (subst kill_line.simps) (simp add: run_simps consputc_apply)
  qed
qed

text \<open>What the interrupt handler does to the buffer, between taking and dropping the lock.\<close>

definition typed :: "int \<Rightarrow> 'z con_st_scheme \<Rightarrow> 'z con_st_scheme" where
  "typed c s =
     (if c = ctrl_U then s\<lparr>c_e := c_w s,
        uart_out := uart_out s @ concat (replicate (unat (c_e s - c_w s)) erase_echo)\<rparr>
      else if c = ctrl_H \<or> c = 127 then
        (if c_e s = c_w s then s else s\<lparr>c_e := c_e s - 1, uart_out := uart_out s @ erase_echo\<rparr>)
      else if c \<noteq> 0 \<and> c_e s - c_r s < of_nat INPUT_BUF then
        (let b = key_byte c; t = (con_put b s)\<lparr>uart_out := uart_out s @ [b]\<rparr> in
         if b = 10 \<or> b = 4 \<or> c_e s + 1 = c_r s + of_nat INPUT_BUF
         then t\<lparr>c_w := c_e s + 1, procs := map (wakeup_proc ChCons) (procs s)\<rparr> else t)
      else s)"

lemma key_byte_eq:
  assumes "0 \<le> c" and "c < 256"
  shows "key_byte c = 10 \<longleftrightarrow> c = 13 \<or> c = 10" and "key_byte c = 4 \<longleftrightarrow> c = ctrl_D"
proof -
  have "word_of_int c = (word_of_int d :: u8) \<longleftrightarrow> c = d" if "0 \<le> d" "d < 256" for d
    using assms that by (simp add: word_of_int_eq_iff take_bit_int_eq_self)
  from this [of 10] this [of 4] show "key_byte c = 10 \<longleftrightarrow> c = 13 \<or> c = 10" "key_byte c = 4 \<longleftrightarrow> c = ctrl_D"
    by (auto simp: key_byte_def)
qed

lemma consoleintr_eq:
  assumes "con_ok s" and "c_locking s" and "held s = {}" and "length (procs s) = NPROC"
    and "0 \<le> c" and "c < 256"
  shows "consoleintr c s = Ret () (typed c s)"
proof -
  have kill: "kill_line (c_e s) (c_w s) (s\<lparr>held := {ConsLock}\<rparr>) =
      Ret () (s\<lparr>held := {ConsLock}, c_e := c_w s,
        uart_out := uart_out s @ concat (replicate (unat (c_e s - c_w s)) erase_echo)\<rparr>)"
    by (subst kill_line_eq) (use assms(1) in \<open>simp_all add: con_ok_def con_pending_def\<close>)
  have [simp]: "s\<lparr>held := {}\<rparr> = s" using assms(3) by simp
  note base = consoleintr_def consoleacquire_def consolerelease_def typed_def assms(2,3) run_simps Let_def
  consider "c = ctrl_U" | "c = ctrl_H \<or> c = 127"
    | "c \<noteq> ctrl_U" "c \<noteq> ctrl_H" "c \<noteq> 127" "c \<noteq> 0 \<and> c_e s - c_r s < of_nat INPUT_BUF"
    | "c \<noteq> ctrl_U" "c \<noteq> ctrl_H" "c \<noteq> 127" "\<not> (c \<noteq> 0 \<and> c_e s - c_r s < of_nat INPUT_BUF)" by blast
  then show ?thesis
  proof cases
    case 1
    with kill show ?thesis by (simp add: base)
  next
    case 2
    then show ?thesis by (auto simp: base consputc_apply)
  next
    case 3
    have "wakeup ChCons t = Ret () (t\<lparr>procs := map (wakeup_proc ChCons) (procs t)\<rparr>)"
      if "procs t = procs s" "held t = {ConsLock}" for t :: "'a con_st_scheme"
      by (rule wakeup_eq) (use that assms(4) in simp_all)
    moreover have "c \<noteq> BACKSPACE" using assms(6) by simp
    ultimately show ?thesis
      using 3 key_byte_eq [OF assms(5,6)] by (auto simp: base consputc_apply con_put_def key_byte_def)
  next
    case 4
    then show ?thesis by (auto simp: base)
  qed
qed

lemma con_lengths:
  assumes "con_ok s"
  shows "length (con_committed s) + length (con_pending s) = unat (c_e s - c_r s)"
proof -
  have "con_typed s = con_committed s @ con_pending s"
    using assms by (intro con_typed_split) (simp add: con_ok_def)
  then have "length (con_typed s) = length (con_committed s) + length (con_pending s)" by simp
  then show ?thesis by (simp add: con_typed_def)
qed

lemma con_room:
  "c_e s - c_r s < of_nat INPUT_BUF \<longleftrightarrow> unat (c_e s - c_r s) < INPUT_BUF"
  by (simp add: word_less_nat_alt INPUT_BUF_def)

lemma con_full:
  assumes "unat (c_e s - c_r s) < INPUT_BUF"
  shows "c_e s + 1 = c_r s + of_nat INPUT_BUF \<longleftrightarrow> Suc (unat (c_e s - c_r s)) = INPUT_BUF"
proof -
  have "c_e s + 1 = c_r s + of_nat INPUT_BUF \<longleftrightarrow> c_e s + 1 - c_r s = of_nat INPUT_BUF"
    by (simp add: diff_eq_eq add.commute)
  also have "\<dots> \<longleftrightarrow> unat (c_e s + 1 - c_r s) = unat (of_nat INPUT_BUF :: u32)"
    by (rule word_unat_eq_iff)
  finally show ?thesis
    using unat_succ_diff [OF assms INPUT_BUF_facts(2)] by (simp add: INPUT_BUF_def)
qed

lemma con_put_parts:
  assumes "con_ok s" and "unat (c_e s - c_r s) < INPUT_BUF"
  shows "con_committed (con_put b s) = con_committed s"
    and "con_pending (con_put b s) = con_pending s @ [b]"
    and "con_typed (con_put b s) = con_committed s @ con_pending s @ [b]"
    and "ring_ok (con_put b s)"
    and "unat (c_w s - c_r s) \<le> unat (c_e s + 1 - c_r s)"
proof -
  have ok: "ring_ok s" and wr: "unat (c_w s - c_r s) \<le> unat (c_e s - c_r s)"
    using assms(1) by (auto simp: con_ok_def)
  have e: "unat (c_e s + 1 - c_r s) = Suc (unat (c_e s - c_r s))"
    using unat_succ_diff [OF assms(2) INPUT_BUF_facts(2)] .
  with wr show w: "unat (c_w s - c_r s) \<le> unat (c_e s + 1 - c_r s)" by simp
  have len: "length (con_typed s) < INPUT_BUF"
    using assms(2) by (simp add: con_typed_def)
  from con_typed_put [OF ok len] show "ring_ok (con_put b s)" by blast
  have "unat (c_e s - c_w s) < INPUT_BUF"
    using con_lengths [OF assms(1)] assms(2) by (simp add: con_committed_def con_pending_def)
  then show pend: "con_pending (con_put b s) = con_pending s @ [b]"
    using ring_put [OF INPUT_BUF_facts(1,2), of "cbuf s" "c_e s" "c_w s" b] ok
    by (simp add: con_pending_def con_put_def ring_ok_def)
  show all: "con_typed (con_put b s) = con_committed s @ con_pending s @ [b]"
    using con_typed_put [OF ok len] con_typed_split [OF wr] by simp
  have "con_typed (con_put b s) = con_committed (con_put b s) @ con_pending (con_put b s)"
    using w by (intro con_typed_split) (simp add: con_put_def)
  with all pend show "con_committed (con_put b s) = con_committed s" by simp
qed

lemma con_fields:
  "con_committed (s\<lparr>uart_out := u\<rparr>) = con_committed s" "con_pending (s\<lparr>uart_out := u\<rparr>) = con_pending s"
  "con_committed (s\<lparr>procs := q\<rparr>) = con_committed s" "con_pending (s\<lparr>procs := q\<rparr>) = con_pending s"
  "con_committed (s\<lparr>c_w := w\<rparr>) = ring INPUT_BUF (cbuf s) (c_r s) w"
  "con_pending (s\<lparr>c_w := w\<rparr>) = ring INPUT_BUF (cbuf s) w (c_e s)"
  "ring_ok (s\<lparr>uart_out := u\<rparr>) = ring_ok s" "ring_ok (s\<lparr>procs := q\<rparr>) = ring_ok s"
  "ring_ok (s\<lparr>c_w := w\<rparr>) = ring_ok s"
  "con_committed (s\<lparr>c_e := e\<rparr>) = con_committed s"
  "con_pending (s\<lparr>c_e := e\<rparr>) = ring INPUT_BUF (cbuf s) (c_w s) e"
  by (simp_all add: con_committed_def con_pending_def ring_ok_def)

lemma typed_line_discipline:
  assumes "con_ok s" and "0 \<le> c" and "c < 256"
  shows "con_ok (typed c s) \<and> line_discipline c (con_committed s) (con_pending s) =
     (con_committed (typed c s), con_pending (typed c s), drop (length (uart_out s)) (uart_out (typed c s)))"
proof -
  have ok: "ring_ok s" and wr: "unat (c_w s - c_r s) \<le> unat (c_e s - c_r s)"
    and nl: "10 \<notin> set (con_pending s)"
    using assms(1) by (auto simp: con_ok_def)
  have lens: "length (con_committed s) + length (con_pending s) = unat (c_e s - c_r s)"
    by (rule con_lengths [OF assms(1)])
  have pl: "length (con_pending s) = unat (c_e s - c_w s)" "length (con_committed s) = unat (c_w s - c_r s)"
    "con_pending s = [] \<longleftrightarrow> c_w s = c_e s"
    by (simp_all add: con_pending_def con_committed_def)
  consider (kill) "c = ctrl_U" | (erase) "c \<noteq> ctrl_U" "c = ctrl_H \<or> c = 127" "c_w s \<noteq> c_e s"
    | (nothing) "c \<noteq> ctrl_U" "c = ctrl_H \<or> c = 127" "c_w s = c_e s"
    | (put) "c \<noteq> ctrl_U" "c \<noteq> ctrl_H" "c \<noteq> 127" "c \<noteq> 0" "unat (c_e s - c_r s) < INPUT_BUF"
    | (full) "c \<noteq> ctrl_U" "c \<noteq> ctrl_H" "c \<noteq> 127" "\<not> (c \<noteq> 0 \<and> unat (c_e s - c_r s) < INPUT_BUF)" by blast
  then show ?thesis
  proof cases
    case kill
    have "unat (c_w s - c_r s) \<le> INPUT_BUF" using ok wr by (simp add: ring_ok_def)
    with kill show ?thesis
      using ok by (simp add: typed_def line_discipline_def con_fields con_ok_def ring_ok_def pl con_pending_def)
  next
    case erase
    have "c_r s \<noteq> c_e s"
    proof
      assume "c_r s = c_e s"
      with wr have "c_w s - c_r s = 0" by (simp add: unat_eq_zero)
      with \<open>c_r s = c_e s\<close> erase(3) show False by simp
    qed
    with erase have "unat (c_e s - c_r s) = Suc (unat (c_e s - 1 - c_r s))"
      "unat (c_e s - c_w s) = Suc (unat (c_e s - 1 - c_w s))"
      by (simp_all add: unat_pred_diff)
    moreover have "con_pending s = con_pending (s\<lparr>c_e := c_e s - 1\<rparr>) @ [cbuf s ! (unat (c_e s - 1) mod INPUT_BUF)]"
      using erase(3) by (simp add: con_pending_def ring_snoc)
    ultimately show ?thesis
      using erase ok lens nl pl
      by (auto simp: typed_def line_discipline_def con_fields con_ok_def ring_ok_def)
  next
    case nothing
    then show ?thesis
      using assms(1) pl by (auto simp: typed_def line_discipline_def)
  next
    case put
    note parts = con_put_parts(1-4) [OF assms(1) put(5), of "key_byte c"] con_put_parts(5) [OF assms(1) put(5)]
    have e: "c_e (con_put (key_byte c) s) = c_e s + 1" "c_r (con_put (key_byte c) s) = c_r s"
      "c_w (con_put (key_byte c) s) = c_w s" "uart_out (con_put (key_byte c) s) = uart_out s"
      by (simp_all add: con_put_def)
    show ?thesis
      using put parts nl lens con_full [OF put(5)]
      by (auto simp: typed_def line_discipline_def Let_def con_room con_fields con_ok_def e
          con_typed_def [symmetric] con_typed_def [of "con_put (key_byte c) s"] )
  next
    case full
    then show ?thesis
      using assms(1) lens by (auto simp: typed_def line_discipline_def con_room)
  qed
qed

lemma typed_effect:
  assumes "0 \<le> c" and "c < 256"
  shows "take (length (uart_out s)) (uart_out (typed c s)) = uart_out s"
    and "held (typed c s) = held s" and "c_locking (typed c s) = c_locking s"
    and "procs (typed c s) = procs s \<or> procs (typed c s) = map (wakeup_proc ChCons) (procs s)"
    and "length (procs (typed c s)) = length (procs s)"
  by (simp_all add: typed_def Let_def con_put_def)

lemma typed_wakes:
  assumes "con_ok s" and "0 \<le> c" and "c < 256" and "con_committed (typed c s) \<noteq> con_committed s"
  shows "procs (typed c s) = map (wakeup_proc ChCons) (procs s)"
  using assms con_put_parts(1) [OF assms(1), of "key_byte c"]
  by (auto simp: typed_def Let_def con_fields con_room split: if_splits)

text \<open>
  C18. The interrupt handler implements the line discipline, for every input byte: kill and
  erase edit only the pending line, a newline, an end-of-file mark or the last byte that fits
  commits it and wakes the readers, and the echo is what the discipline says. The ring never
  overflows, and no byte is lost or reordered.
\<close>

theorem console_line_discipline:
  assumes "con_ok s" and "c_locking s" and "held s = {}" and "length (procs s) = NPROC"
    and "0 \<le> c" and "c < 256"
  shows "\<exists>t echo. consoleintr c s = Ret () t \<and> con_ok t \<and>
     line_discipline c (con_committed s) (con_pending s) = (con_committed t, con_pending t, echo) \<and>
     uart_out t = uart_out s @ echo \<and> held t = {} \<and>
     (con_committed t = con_committed s \<or> procs t = map (wakeup_proc ChCons) (procs s))"
proof (intro exI conjI)
  show "consoleintr c s = Ret () (typed c s)" by (rule consoleintr_eq [OF assms])
  note ld = typed_line_discipline [OF assms(1,5,6)]
  from ld show "con_ok (typed c s)" by blast
  from ld show "line_discipline c (con_committed s) (con_pending s) = (con_committed (typed c s),
      con_pending (typed c s), drop (length (uart_out s)) (uart_out (typed c s)))" by blast
  show "uart_out (typed c s) = uart_out s @ drop (length (uart_out s)) (uart_out (typed c s))"
    using typed_effect(1) [OF assms(5,6), of s] append_take_drop_id by metis
  show "held (typed c s) = {}" using typed_effect(2) [OF assms(5,6), of s] assms(3) by simp
  show "con_committed (typed c s) = con_committed s \<or> procs (typed c s) = map (wakeup_proc ChCons) (procs s)"
    using typed_wakes [OF assms(1,5,6)] by blast
qed

definition demo_con :: con_st where
  "demo_con = fs_st.extend demo_fs (con_st.fields (replicate INPUT_BUF 0) 0 0 0 True [])"

declare demo_con_def [demos] con_st.defs [demos]

lemma console_line_discipline_witness:
  "\<exists>t. consoleintr 65 demo_con = Ret () t \<and> con_pending t = [65] \<and> uart_out t = [65]"
proof -
  have h: "con_ok demo_con" "c_locking demo_con" "held demo_con = {}" "length (procs demo_con) = NPROC"
    by (simp_all add: demos con_ok_def ring_ok_def con_pending_def)
  have "con_committed demo_con = []" "con_pending demo_con = []" "uart_out demo_con = []"
    by (simp_all add: demos con_committed_def con_pending_def)
  then show ?thesis
    using console_line_discipline [OF h, of 65]
    by (auto simp: line_discipline_def key_byte_def INPUT_BUF_def Let_def)
qed

subsection \<open>Reading lines\<close>

text \<open>
  What a read of at most \<open>n\<close> bytes takes from the committed bytes: up to a newline, which it
  delivers, or an end-of-file mark, which it does not; \<open>None\<close> when it has to wait for more.
\<close>

fun read_line :: "nat \<Rightarrow> u8 list \<Rightarrow> (u8 list \<times> u8 list) option" where
  "read_line 0 bs = Some ([], bs)"
| "read_line (Suc n) [] = None"
| "read_line (Suc n) (c # bs) =
     (if c = 4 then Some ([], bs) else if c = 10 then Some ([c], bs)
      else map_option (\<lambda>(xs, rest). (c # xs, rest)) (read_line n bs))"

lemma read_line_length: "read_line n bs = Some (xs, rest) \<Longrightarrow> length xs \<le> length bs"
  by (induction n bs arbitrary: xs rest rule: read_line.induct) (auto split: if_splits)

lemma con_take_parts:
  assumes "con_ok s" and "con_committed s = c # bs"
  shows "con_first s = c" and "con_committed (con_take s) = bs" and "con_pending (con_take s) = con_pending s"
    and "con_ok (con_take s)" and "c_r s \<noteq> c_w s"
proof -
  have ok: "ring_ok s" and wr: "unat (c_w s - c_r s) \<le> unat (c_e s - c_r s)" and nl: "10 \<notin> set (con_pending s)"
    using assms(1) by (auto simp: con_ok_def)
  show ne: "c_r s \<noteq> c_w s" using assms(2) by (auto simp: con_committed_def)
  from ring_Cons [OF this, of INPUT_BUF "cbuf s"] assms(2)
  show "con_first s = c" "con_committed (con_take s) = bs"
    by (simp_all add: con_committed_def con_first_def con_take_def cons_at_def)
  show pend: "con_pending (con_take s) = con_pending s" by (simp add: con_pending_def con_take_def)
  have "c_r s \<noteq> c_e s" using unat_diff_succ [OF ne] wr by auto
  with unat_diff_succ [OF ne] unat_diff_succ [of "c_r s" "c_e s"] ok wr nl pend
  show "con_ok (con_take s)" by (simp add: con_ok_def ring_ok_def con_take_def)
qed

lemma con_ok_fields:
  "con_ok (s\<lparr>held := h\<rparr>) = con_ok s" "con_ok (s\<lparr>mem := m\<rparr>) = con_ok s"
  "con_committed (s\<lparr>held := h\<rparr>) = con_committed s" "con_committed (s\<lparr>mem := m\<rparr>) = con_committed s"
  "con_pending (s\<lparr>held := h\<rparr>) = con_pending s" "con_pending (s\<lparr>mem := m\<rparr>) = con_pending s"
  by (simp_all add: con_ok_def ring_ok_def con_committed_def con_pending_def)

lemma con_take_fields [simp]:
  "held (con_take s) = held s" "mem (con_take s) = mem s" "c_locking (con_take s) = c_locking s"
  "cur (con_take s) = cur s" "procs (con_take s) = procs s"
  by (simp_all add: con_take_def)

lemma to_u64_Suc: "to_u64 (i + 1) = to_u64 i + 1"
  by (simp add: to_u64_def)

lemma to_u64_step: "a + to_u64 (i + 1) + of_nat j = a + to_u64 i + of_nat (Suc j)"
  by (simp add: to_u64_def)

lemma uint_ctrl_D: "uint (c :: u8) = ctrl_D \<longleftrightarrow> c = 4"
  by (simp add: word_uint_eq_iff)

text \<open>One byte taken from the ring and copied out; the rest of the read starts from there.\<close>

definition byte_out :: "u64 \<Rightarrow> u64 \<Rightarrow> u8 \<Rightarrow> 'z con_st_scheme \<Rightarrow> 'z con_st_scheme \<Rightarrow> bool" where
  "byte_out pt va c s t \<longleftrightarrow> con_ok t \<and> c_locking t \<and> held t = {ConsLock} \<and>
     con_committed s = c # con_committed t \<and> con_pending t = con_pending s \<and>
     cur t = cur s \<and> procs t = procs s \<and> wrote (mem s) (mem t) pt va [c]"

lemma consoleread_at_byte:
  assumes "con_ok s" and "c_locking s" and "held s = {ConsLock}" and "con_committed s = c # bs"
    and "c \<noteq> 4" and "user_pages (mem s) pt" and "user_writable (mem s) pt (dst + to_u64 i)"
  shows "\<exists>t. byte_out pt (dst + to_u64 i) c s t \<and> consoleread_at pt dst n i s =
     (if c = 10 \<or> n \<le> i + 1 then Ret (i + 1) (t\<lparr>held := {}\<rparr>) else consoleread_at pt dst n (i + 1) t)"
proof -
  let ?s = "con_take s\<lparr>held := {}\<rparr>"
  note tk = con_take_parts [OF assms(1,4)]
  obtain m' where m': "copyout pt (dst + to_u64 i) [c] ?s = Ret 0 (?s\<lparr>mem := m'\<rparr>)"
    "wrote (mem s) m' pt (dst + to_u64 i) [c]"
    using copyout_byte [of ?s pt "dst + to_u64 i" c] assms(6,7) by auto
  let ?t = "?s\<lparr>mem := m', held := {ConsLock}\<rparr>"
  have "byte_out pt (dst + to_u64 i) c s ?t"
    using tk m'(2) assms(2,4) by (simp add: byte_out_def con_ok_fields)
  moreover have "consoleread_at pt dst n i s =
      (if c = 10 \<or> n \<le> i + 1 then Ret (i + 1) (?t\<lparr>held := {}\<rparr>) else consoleread_at pt dst n (i + 1) ?t)"
    using tk m'(1) assms(2,3,5)
    by (subst consoleread_at.simps)
      (auto simp: run_simps consolerelease_def consoleacquire_def uint_ctrl_D)
  ultimately show ?thesis by blast
qed

lemma byte_outD:
  assumes "byte_out pt va c s t"
  shows "con_ok t" "c_locking t" "held t = {ConsLock}" "con_committed s = c # con_committed t"
    "con_pending t = con_pending s" "cur t = cur s" "procs t = procs s" "wrote (mem s) (mem t) pt va [c]"
  using assms by (auto simp: byte_out_def)

definition line_out :: "u64 \<Rightarrow> u64 \<Rightarrow> u8 list \<Rightarrow> 'z con_st_scheme \<Rightarrow> 'z con_st_scheme \<Rightarrow> bool" where
  "line_out pt va xs s t \<longleftrightarrow> con_ok t \<and> held t = {} \<and> con_pending t = con_pending s \<and>
     wrote (mem s) (mem t) pt va xs"

lemma line_out_byte:
  assumes "byte_out pt va c s u" and "line_out pt (va + 1) xs u t" and "Suc (length xs) < 2 ^ 64"
  shows "line_out pt va (c # xs) s t"
  using assms byte_outD(5,8) [OF assms(1)] wrote_append [of "mem s" "mem u" pt va "[c]" "mem t" xs]
  by (simp add: line_out_def)

lemma consoleread_at_line:
  assumes "con_ok s" and "c_locking s" and "held s = {ConsLock}" and "user_pages (mem s) pt"
    and "read_line k (con_committed s) = Some (xs, rest)" and "n = i + int k" and "0 < k"
    and "\<forall>j < length xs. user_writable (mem s) pt (dst + to_u64 i + of_nat j)"
  shows "\<exists>t. consoleread_at pt dst n i s = Ret (i + int (length xs)) t \<and> con_committed t = rest \<and>
     line_out pt (dst + to_u64 i) xs s t"
  using assms
proof (induction k arbitrary: s i xs)
  case (Suc k)
  then obtain c bs where c: "con_committed s = c # bs" by (cases "con_committed s") auto
  note tk = con_take_parts [OF Suc.prems(1) c]
  show ?case
  proof (cases "c = 4")
    case True
    with Suc.prems c tk show ?thesis
      by (subst consoleread_at.simps)
        (auto simp: run_simps consolerelease_def line_out_def con_ok_fields wrote_refl uint_ctrl_D)
  next
    case False
    then obtain ys where xs: "xs = c # ys" using Suc.prems(5) c by (auto split: if_splits)
    then have w: "user_writable (mem s) pt (dst + to_u64 i)" using Suc.prems(8) by force
    obtain u where u: "byte_out pt (dst + to_u64 i) c s u"
      and run: "consoleread_at pt dst n i s = (if c = 10 \<or> n \<le> i + 1 then Ret (i + 1) (u\<lparr>held := {}\<rparr>)
        else consoleread_at pt dst n (i + 1) u)"
      using consoleread_at_byte [OF Suc.prems(1-3) c False Suc.prems(4) w] by blast
    note u' = byte_outD [OF u]
    show ?thesis
    proof (cases "c = 10 \<or> k = 0")
      case True
      then have "ys = []" "con_committed u = rest"
        using Suc.prems(5) c False xs u'(4) by (auto split: if_splits)
      with True run u' Suc.prems(6) xs show ?thesis by (auto simp: line_out_def con_ok_fields)
    next
      case more: False
      have rd: "read_line k (con_committed u) = Some (ys, rest)"
        using Suc.prems(5) c False more u'(4) xs by (auto split: prod.splits option.splits)
      have wr: "\<forall>j < length ys. user_writable (mem u) pt (dst + to_u64 (i + 1) + of_nat j)"
      proof (intro allI impI)
        fix j
        assume "j < length ys"
        then have "user_writable (mem s) pt (dst + to_u64 i + of_nat (Suc j))"
          using Suc.prems(8) xs by (metis Suc_less_eq length_Cons)
        then show "user_writable (mem u) pt (dst + to_u64 (i + 1) + of_nat j)"
          by (simp add: wrote_writable [OF u'(8)] to_u64_step)
      qed
      have "n = i + 1 + int k" "0 < k" using Suc.prems(6) more by auto
      from Suc.IH [OF u'(1-3) wrote_pages [OF u'(8)] rd this wr] obtain t
        where t: "consoleread_at pt dst n (i + 1) u = Ret (i + 1 + int (length ys)) t"
          "con_committed t = rest" "line_out pt (dst + to_u64 (i + 1)) ys u t"
        by auto
      have "length xs \<le> INPUT_BUF"
        using read_line_length [OF Suc.prems(5)] con_lengths [OF Suc.prems(1)] Suc.prems(1)
        by (simp add: con_ok_def ring_ok_def)
      then have "line_out pt (dst + to_u64 i) (c # ys) s t"
        using t(3) xs by (intro line_out_byte [OF u]) (simp_all add: to_u64_Suc add.assoc INPUT_BUF_def)
      moreover have "\<not> n \<le> i + 1" using Suc.prems(6) more by simp
      ultimately show ?thesis using xs t(1,2) run more by simp
    qed
  qed
qed simp

text \<open>When the committed bytes run out the reader sleeps, having delivered them.\<close>

lemma consoleread_at_wait:
  assumes "con_ok s" and "c_locking s" and "held s = {ConsLock}" and "user_pages (mem s) pt"
    and "read_line k (con_committed s) = None" and "n = i + int k"
    and "\<forall>j < length (con_committed s). user_writable (mem s) pt (dst + to_u64 i + of_nat j)"
    and "cur s = Some p" and "p < length (procs s)"
  shows "\<exists>t. consoleread_at pt dst n i s = Sleeps ChCons t \<and> con_committed t = [] \<and>
     line_out pt (dst + to_u64 i) (con_committed s) s t \<and>
     pstate (procs t ! p) = SLEEPING \<and> chan (procs t ! p) = Some ChCons"
  using assms
proof (induction k arbitrary: s i)
  case (Suc k)
  show ?case
  proof (cases "con_committed s")
    case Nil
    then have "c_r s = c_w s" by (simp add: con_committed_def)
    with Suc.prems Nil show ?thesis
      by (subst consoleread_at.simps)
        (simp add: run_simps sleep_eq [OF Suc.prems(8,9,3)] line_out_def wrote_refl con_ok_def ring_ok_def
          con_committed_def con_pending_def)
  next
    case (Cons c bs)
    then have c4: "c \<noteq> 4" "c \<noteq> 10" using Suc.prems(5) by (auto split: if_splits)
    have w: "user_writable (mem s) pt (dst + to_u64 i)" using Suc.prems(7) Cons by force
    obtain u where u: "byte_out pt (dst + to_u64 i) c s u"
      and run: "consoleread_at pt dst n i s = (if c = 10 \<or> n \<le> i + 1 then Ret (i + 1) (u\<lparr>held := {}\<rparr>)
        else consoleread_at pt dst n (i + 1) u)"
      using consoleread_at_byte [OF Suc.prems(1-3) Cons c4(1) Suc.prems(4) w] by blast
    note u' = byte_outD [OF u]
    have cu: "con_committed u = bs" using u'(4) Cons by simp
    have rd: "read_line k (con_committed u) = None"
      using Suc.prems(5) Cons c4 cu by (auto split: prod.splits option.splits)
    have wr: "\<forall>j < length (con_committed u). user_writable (mem u) pt (dst + to_u64 (i + 1) + of_nat j)"
    proof (intro allI impI)
      fix j
      assume "j < length (con_committed u)"
      then have "user_writable (mem s) pt (dst + to_u64 i + of_nat (Suc j))"
        using Suc.prems(7) Cons cu by (metis Suc_less_eq length_Cons)
      then show "user_writable (mem u) pt (dst + to_u64 (i + 1) + of_nat j)"
        by (simp add: wrote_writable [OF u'(8)] to_u64_step)
    qed
    have "n = i + 1 + int k" using Suc.prems(6) by simp
    from Suc.IH [OF u'(1-3) wrote_pages [OF u'(8)] rd this wr] u'(6,7) Suc.prems(8,9) obtain t
      where t: "consoleread_at pt dst n (i + 1) u = Sleeps ChCons t" "con_committed t = []"
        "line_out pt (dst + to_u64 (i + 1)) bs u t"
        "pstate (procs t ! p) = SLEEPING" "chan (procs t ! p) = Some ChCons"
      by (auto simp: cu)
    have "length (con_committed s) \<le> INPUT_BUF"
      using con_lengths [OF Suc.prems(1)] Suc.prems(1) by (simp add: con_ok_def ring_ok_def)
    then have "line_out pt (dst + to_u64 i) (c # bs) s t"
      using t(3) Cons by (intro line_out_byte [OF u]) (simp_all add: to_u64_Suc add.assoc INPUT_BUF_def)
    moreover have "0 < k" using rd by (cases k) auto
    then have "\<not> n \<le> i + 1" using Suc.prems(6) by simp
    ultimately show ?thesis using t run c4(2) Cons by simp
  qed
qed simp

text \<open>
  C19. Reading the console: a read of \<open>n\<close> bytes delivers the committed bytes up to and including
  the first newline, or up to an end-of-file mark, which it consumes, or \<open>n\<close> of them, and
  returns their number; the bytes are in the user's memory, the rest of the input stays. When
  the committed bytes hold none of these the reader has delivered them and sleeps for more.
\<close>

theorem console_reads_line:
  assumes "con_ok s" and "c_locking s" and "held s = {}" and "user_pages (mem s) pt" and "0 < k"
    and "\<forall>j < length (con_committed s). user_writable (mem s) pt (dst + of_nat j)"
    and "cur s = Some p" and "p < length (procs s)"
  shows "case read_line k (con_committed s) of
      Some (xs, rest) \<Rightarrow> (\<exists>t. consoleread pt dst (int k) s = Ret (int (length xs)) t \<and>
        con_committed t = rest \<and> line_out pt dst xs s t)
    | None \<Rightarrow> (\<exists>t. consoleread pt dst (int k) s = Sleeps ChCons t \<and> con_committed t = [] \<and>
        line_out pt dst (con_committed s) s t \<and> pstate (procs t ! p) = SLEEPING)"
proof -
  let ?s = "s\<lparr>held := {ConsLock}\<rparr>"
  have run: "consoleread pt dst (int k) s = consoleread_at pt dst (int k) 0 ?s"
    using assms(2,3,5) by (simp add: consoleread_def consoleacquire_def run_simps)
  have s': "con_ok ?s" "c_locking ?s" "held ?s = {ConsLock}" "user_pages (mem ?s) pt"
    "con_committed ?s = con_committed s" "cur ?s = Some p" "p < length (procs ?s)" "to_u64 0 = 0"
    using assms by (simp_all add: con_ok_fields to_u64_def)
  have lo: "line_out pt dst xs ?s t = line_out pt dst xs s t" for xs t
    by (simp add: line_out_def con_ok_fields)
  show ?thesis
  proof (cases "read_line k (con_committed s)")
    case None
    have "\<forall>j < length (con_committed ?s). user_writable (mem ?s) pt (dst + to_u64 0 + of_nat j)"
      using assms(6) s' by simp
    from consoleread_at_wait [OF s'(1-4) _ _ this s'(6,7), of k "int k"] None show ?thesis
      by (simp add: run s' lo) blast
  next
    case (Some r)
    obtain xs rest where r: "r = (xs, rest)" by (cases r)
    have "\<forall>j < length xs. user_writable (mem ?s) pt (dst + to_u64 0 + of_nat j)"
      using assms(6) s' read_line_length [of k "con_committed s" xs rest] Some r by simp
    from consoleread_at_line [OF s'(1-4) _ _ assms(5) this, of rest "int k"] Some r show ?thesis
      by (simp add: run s' lo)
  qed
qed

lemma demo_user_mem:
  "\<exists>m. user_pages m demo_root \<and> (\<forall>va. vpn va = 0 \<longrightarrow> user_writable m demo_root va)"
  using demo_user by blast

lemma low_page: "i < 4096 \<Longrightarrow> vpn (of_nat i :: u64) = 0"
  by (simp add: vpn_def unat64_of_nat)

lemma console_reads_line_witness:
  "\<exists>s t. con_committed s = [104, 105, 10, 120] \<and>
     consoleread demo_root 0 8 (s :: con_st) = Ret 3 t \<and> con_committed t = [120] \<and>
     ubytes (mem t) demo_root 0 3 = [Some 104, Some 105, Some 10]"
proof -
  obtain m where m: "user_pages m demo_root" "\<And>va. vpn va = 0 \<Longrightarrow> user_writable m demo_root va"
    using demo_user_mem by blast
  let ?s = "demo_con\<lparr>mem := m, cbuf := [104, 105, 10, 120] @ replicate 124 0, c_w := 4, c_e := 4\<rparr>"
  have cm: "con_committed ?s = [104, 105, 10, 120]"
    by (simp add: con_committed_def ring_def ring_slot_def demos upt_rec INPUT_BUF_def)
  have h: "con_ok ?s" "c_locking ?s" "held ?s = {}" "user_pages (mem ?s) demo_root" "0 < (8 :: nat)"
    "\<forall>j < length (con_committed ?s). user_writable (mem ?s) demo_root (0 + of_nat j)"
    "cur ?s = Some 1" "1 < length (procs ?s)"
    using m cm low_page by (simp_all add: con_ok_def ring_ok_def con_pending_def demos INPUT_BUF_def NPROC_def)
  have "read_line (Suc (Suc (Suc 5))) (con_committed ?s) = Some ([104, 105, 10], [120])"
    unfolding cm by (simp only: read_line.simps) simp
  then have "read_line 8 (con_committed ?s) = Some ([104, 105, 10], [120])" by simp
  with console_reads_line [OF h] obtain t where t: "consoleread demo_root 0 8 ?s = Ret 3 t"
    "con_committed t = [120]" "line_out demo_root 0 [104, 105, 10] ?s t" by auto
  then have "wrote (mem ?s) (mem t) demo_root 0 [104, 105, 10]" by (simp add: line_out_def)
  from wrote_read [OF this] have "ubytes (mem t) demo_root 0 3 = [Some 104, Some 105, Some 10]"
    by (simp add: numeral_3_eq_3)
  with cm t show ?thesis by blast
qed

end
