(* ===== verification/Digits.thy ===== *)
theory Digits
  imports Prelude
begin

section \<open>Numbers as digits\<close>

text \<open>
  The loop with which both the kernel's and the user library's formatted output turn a number into
  the digits of a base, least significant first, and what the digits are worth.
\<close>

abbreviation lower_digits :: "u8 list" where
  "lower_digits \<equiv> [48, 49, 50, 51, 52, 53, 54, 55, 56, 57, 97, 98, 99, 100, 101, 102]"

abbreviation upper_digits :: "u8 list" where
  "upper_digits \<equiv> [48, 49, 50, 51, 52, 53, 54, 55, 56, 57, 65, 66, 67, 68, 69, 70]"

lemma div_shrinks: "x div b \<noteq> 0 \<Longrightarrow> 1 < b \<Longrightarrow> unat (x div b) < unat (x :: u64)"
proof -
  assume "x div b \<noteq> 0" "1 < b"
  then have "0 < unat x div unat b" "1 < unat b"
    by (simp_all add: unat_div [symmetric] unat_gt_0 word_less_nat_alt)
  then show ?thesis by (metis unat_div div_less_dividend div_0 gr0I less_nat_zero_code)
qed

text \<open>The bytes of a string constant.\<close>

definition chars :: "string \<Rightarrow> u8 list" where
  "chars s = map of_char s"

text \<open>
  \<open>do { buf[i++] = digits[x % base]; x /= base; } while (x != 0)\<close>. The loop would not end for base
  1; all its callers pass 8, 10 or 16.
\<close>

function uint_digits :: "u64 \<Rightarrow> u64 \<Rightarrow> u8 list \<Rightarrow> u8 list" where
  "uint_digits x base ds =
     ds ! unat (x mod base) # (if x div base \<noteq> 0 \<and> 1 < base then uint_digits (x div base) base ds else [])"
  by pat_completeness auto
termination by (relation "measure (\<lambda>(x, b, ds). unat x)") (auto simp: div_shrinks)

declare uint_digits.simps [simp del]

text \<open>The sixteen nibbles of \<open>printptr\<close>, most significant first.\<close>

fun ptr_digits :: "nat \<Rightarrow> u64 \<Rightarrow> u8 list \<Rightarrow> u8 list" where
  "ptr_digits 0 x ds = []"
| "ptr_digits (Suc k) x ds = ds ! unat (drop_bit 60 x) # ptr_digits k (push_bit 4 x) ds"

lemma sint64_if: "sint (x :: u64) = (if uint x < 9223372036854775808 then uint x else uint x - 18446744073709551616)"
proof -
  have u: "0 \<le> uint x" "uint x < 18446744073709551616" using uint_bounded [of x] by simp_all
  have "sint x = (uint x + 9223372036854775808) mod 18446744073709551616 - 9223372036854775808"
    using int_word_sint [of "uint x", where 'a = 64] by simp
  moreover have "(uint x + 9223372036854775808) mod 18446744073709551616 =
      (if uint x < 9223372036854775808 then uint x + 9223372036854775808 else uint x - 9223372036854775808)"
  proof (cases "uint x < 9223372036854775808")
    case False
    have "(uint x + 9223372036854775808) mod 18446744073709551616 =
        (uint x + 9223372036854775808 - 18446744073709551616) mod 18446744073709551616"
      by (rule minus_mod_self2 [symmetric])
    with False u show ?thesis by (simp add: mod_pos_pos_trivial)
  qed (use u in \<open>simp add: mod_pos_pos_trivial\<close>)
  ultimately show ?thesis by simp
qed

lemma mod_negative: "0 < k \<Longrightarrow> k < n \<Longrightarrow> (- k) mod n = n - (k :: int)"
  by (metis diff_gt_0_iff_gt diff_less_eq less_add_same_cancel1 less_imp_le mod_add_self1 mod_pos_pos_trivial uminus_add_conv_diff add.commute)

lemma uint64_minus: "sint (x :: u64) < 0 \<Longrightarrow> int (unat (- x)) = - sint x"
proof -
  assume neg: "sint x < 0"
  have u: "uint x < 18446744073709551616" using uint_bounded [of x] by simp
  have s: "sint x = uint x - 18446744073709551616" "0 < uint x" using neg by (simp_all add: sint64_if split: if_splits)
  have "uint (- x) = (- uint x) mod 18446744073709551616" by (simp add: uint_word_ariths)
  also have "\<dots> = 18446744073709551616 - uint x" by (rule mod_negative [OF s(2) u])
  finally show ?thesis using s(1) by simp
qed

subsection \<open>What the digits are worth\<close>

function nat_digits :: "nat \<Rightarrow> nat \<Rightarrow> nat list" where
  "nat_digits b n = n mod b # (if 1 < b \<and> n div b \<noteq> 0 then nat_digits b (n div b) else [])"
  by pat_completeness auto
termination by (relation "measure snd") (auto intro!: div_less_dividend Nat.gr0I)

declare nat_digits.simps [simp del]

text \<open>The value of a numeral, most significant digit first, given the value of a digit.\<close>

definition numeral_value :: "nat \<Rightarrow> ('d \<Rightarrow> nat) \<Rightarrow> 'd list \<Rightarrow> nat" where
  "numeral_value b v ds = foldl (\<lambda>n d. n * b + v d) 0 ds"

lemma numeral_value_snoc: "numeral_value b v (ds @ [d]) = numeral_value b v ds * b + v d"
  by (simp add: numeral_value_def)

lemma numeral_value_Nil [simp]: "numeral_value b v [] = 0"
  by (simp add: numeral_value_def)

lemma uint_digits_nat:
  assumes "1 < base"
  shows "uint_digits x base ds = map (\<lambda>d. ds ! d) (nat_digits (unat base) (unat x))"
proof (induction "unat x" arbitrary: x rule: less_induct)
  case less
  have b: "1 < unat base" using assms by (simp add: word_less_nat_alt)
  have z: "x div base = 0 \<longleftrightarrow> unat x div unat base = 0" by (simp add: unat_div [symmetric] unat_eq_0)
  show ?case
  proof (cases "x div base = 0")
    case True
    then show ?thesis using z by (simp add: uint_digits.simps [of x] nat_digits.simps [of _ "unat x"] unat_mod)
  next
    case False
    then have "uint_digits (x div base) base ds = map (\<lambda>d. ds ! d) (nat_digits (unat base) (unat (x div base)))"
      by (intro less.hyps div_shrinks assms)
    then show ?thesis
      using False z assms b by (simp add: uint_digits.simps [of x] nat_digits.simps [of _ "unat x"] unat_mod unat_div)
  qed
qed

lemma nat_digits_value:
  assumes "1 < b" and "\<And>d. d < b \<Longrightarrow> v (f d) = d"
  shows "numeral_value b v (rev (map f (nat_digits b n))) = n"
proof (induction n rule: less_induct)
  case (less n)
  show ?case
  proof (cases "n div b = 0")
    case True
    then have "n < b" using assms(1) by (simp add: div_eq_0_iff)
    then show ?thesis using assms by (simp add: nat_digits.simps [of b n] numeral_value_def)
  next
    case False
    then have "n div b < n" using assms(1) by (intro div_less_dividend) (auto intro: Nat.gr0I)
    then have "numeral_value b v (rev (map f (nat_digits b (n div b)))) = n div b" by (rule less.IH)
    then show ?thesis
      using False assms by (simp add: nat_digits.simps [of b n] numeral_value_snoc)
  qed
qed

lemma length_nat_digits: "1 < b \<Longrightarrow> n < b ^ Suc k \<Longrightarrow> length (nat_digits b n) \<le> Suc k"
proof (induction k arbitrary: n)
  case 0
  then show ?case by (simp add: nat_digits.simps [of b n] div_eq_0_iff)
next
  case (Suc k)
  then have "n div b < b ^ Suc k" by (simp add: div_less_iff_less_mult mult.commute)
  with Suc show ?case by (simp add: nat_digits.simps [of b n])
qed

lemma nat_digits_less: "1 < b \<Longrightarrow> \<forall>d \<in> set (nat_digits b n). d < b"
proof (induction n rule: less_induct)
  case (less n)
  have "n div b \<noteq> 0 \<Longrightarrow> n div b < n" using less.prems by (intro div_less_dividend) (auto intro: Nat.gr0I)
  then show ?case using less by (subst nat_digits.simps) auto
qed

lemma nat_digits_last: "1 < b \<Longrightarrow> n \<noteq> 0 \<Longrightarrow> last (nat_digits b n) \<noteq> 0"
proof (induction n rule: less_induct)
  case (less n)
  show ?case
  proof (cases "n div b = 0")
    case True
    then show ?thesis using less.prems by (simp add: nat_digits.simps [of b n] div_eq_0_iff)
  next
    case False
    then have "last (nat_digits b (n div b)) \<noteq> 0"
      using less.prems by (intro less.IH div_less_dividend) auto
    then show ?thesis using False less.prems by (simp add: nat_digits.simps [of b n]) (simp add: nat_digits.simps [of b])
  qed
qed

text \<open>The value of a digit of either table.\<close>

definition digit_value :: "u8 \<Rightarrow> nat" where
  "digit_value c = (let n = unat c in if n < 58 then n - 48 else if n < 71 then n - 55 else n - 87)"

lemma digit_value_tables:
  "d < 16 \<Longrightarrow> digit_value (lower_digits ! d) = d" "d < 16 \<Longrightarrow> digit_value (upper_digits ! d) = d"
proof -
  assume "d < 16"
  then have "d \<in> {0, 1, 2, 3, 4, 5, 6, 7, 8, 9, 10, 11, 12, 13, 14, 15}" by (simp only: insert_iff empty_iff) presburger
  then show "digit_value (lower_digits ! d) = d" "digit_value (upper_digits ! d) = d"
    by (auto simp: digit_value_def)
qed

lemma uint_digits_value:
  assumes "1 < base" and "unat base \<le> 16" and "ds \<in> {lower_digits, upper_digits}"
  shows "numeral_value (unat base) digit_value (rev (uint_digits x base ds)) = unat x"
  unfolding uint_digits_nat [OF assms(1)]
  by (rule nat_digits_value) (use assms digit_value_tables in \<open>auto simp: word_less_nat_alt\<close>)

end
