(* ===== verification/Printf.thy ===== *)
theory Printf
  imports Console Digits
begin

section \<open>Formatted output of the kernel: \<^verbatim>\<open>kernel/lib/printf.c\<close>\<close>

text \<open>
  The functions below yield the sequence of arguments of \<open>consputc\<close>, in the order of the calls;
  \<open>printf\<close> makes the calls between taking and dropping the console's lock. The variable arguments are a
  list; a format that asks for an argument that is not there, or for a string where a number was
  passed, has undefined behaviour in C and no value here (\<open>None\<close>). Strings are lists of bytes that
  end at the first zero byte or with the list.
\<close>

datatype varg = VNum u64 | VStr "u8 list option"

record log_st = con_st +
  panicked :: bool

fun take_num :: "varg list \<Rightarrow> (u64 \<times> varg list) option" where
  "take_num (VNum x # args) = Some (x, args)"
| "take_num _ = None"

fun take_str :: "varg list \<Rightarrow> (u8 list option \<times> varg list) option" where
  "take_str (VStr s # args) = Some (s, args)"
| "take_str _ = None"

definition printuint :: "u64 \<Rightarrow> u64 \<Rightarrow> u8 list \<Rightarrow> int list" where
  "printuint x base ds = map uint (rev (uint_digits x base ds))"

definition printint64 :: "u64 \<Rightarrow> u64 \<Rightarrow> int list" where
  "printint64 xx base =
     (if sint xx < 0 then 45 # printuint (0 - xx) base lower_digits else printuint xx base lower_digits)"

abbreviation null_string :: "u8 list" where
  "null_string \<equiv> [40, 110, 117, 108, 108, 41]"

definition printstr :: "u8 list option \<Rightarrow> int list" where
  "printstr s = map uint (takeWhile (\<lambda>c. c \<noteq> 0) (case s of None \<Rightarrow> null_string | Some t \<Rightarrow> t))"

definition printptr :: "u64 \<Rightarrow> int list" where
  "printptr x = [48, 120] @ map uint (ptr_digits 16 x lower_digits)"

definition printunknown :: "nat \<Rightarrow> u8 \<Rightarrow> int list" where
  "printunknown len c = 37 # replicate len 108 @ (if c \<noteq> 0 then [uint c] else [])"

definition getuintarg :: "nat \<Rightarrow> u64 \<Rightarrow> u64" where
  "getuintarg len x = (if len = 2 \<or> len = 1 then x else ucast (ucast x :: u32))"

definition getintarg :: "nat \<Rightarrow> u64 \<Rightarrow> u64" where
  "getintarg len x = (if len = 2 \<or> len = 1 then x else scast (ucast x :: u32))"

text \<open>The \<open>switch\<close>: what a conversion prints and the arguments it leaves.\<close>

definition conversion :: "nat \<Rightarrow> u8 \<Rightarrow> varg list \<Rightarrow> (int list \<times> varg list) option" where
  "conversion len c args =
     (let num = (\<lambda>f. map_option (\<lambda>(x, rest). (f x, rest)) (take_num args)) in
      if c = 100 \<or> c = 105 then num (\<lambda>x. printint64 (getintarg len x) 10)
      else if c = 117 then num (\<lambda>x. printuint (getuintarg len x) 10 lower_digits)
      else if c = 120 then num (\<lambda>x. printuint (getuintarg len x) 16 lower_digits)
      else if c = 88 then num (\<lambda>x. printuint (getuintarg len x) 16 upper_digits)
      else if c = 111 then num (\<lambda>x. printuint (getuintarg len x) 8 lower_digits)
      else if c = 112 then num printptr
      else if c = 115 then map_option (\<lambda>(s, rest). (printstr s, rest)) (take_str args)
      else if c = 99 then num (\<lambda>x. [c_int x])
      else if c = 37 then Some ([37], args)
      else Some (printunknown len c, args))"

text \<open>
  After a percent sign: the length modifiers, the conversion character and the rest of the format;
  \<open>None\<close> when the format ends before the character.
\<close>

fun next_char :: "u8 list \<Rightarrow> (u8 \<times> u8 list) option" where
  "next_char [] = None"
| "next_char (c # f) = (if c = 0 then None else Some (c, f))"

definition directive :: "u8 list \<Rightarrow> (nat \<times> u8 \<times> u8 list) option" where
  "directive f = (case next_char f of None \<Rightarrow> None | Some (c, f) \<Rightarrow>
     if c \<noteq> 108 then Some (0, c, f)
     else (case next_char f of None \<Rightarrow> None | Some (c, f) \<Rightarrow>
       if c \<noteq> 108 then Some (1, c, f)
       else (case next_char f of None \<Rightarrow> None | Some (c, f) \<Rightarrow> Some (2, c, f))))"

lemma next_char_shorter: "next_char f = Some (c, g) \<Longrightarrow> length g < length f"
  by (cases f) (auto split: if_splits)

lemma directive_shorter: "directive f = Some (n, c, g) \<Longrightarrow> length g < length f"
  unfolding directive_def by (auto split: option.splits if_splits dest!: next_char_shorter)

function printf_chars :: "u8 list \<Rightarrow> varg list \<Rightarrow> int list option" where
  "printf_chars fmt args = (case next_char fmt of None \<Rightarrow> Some [] | Some (c, f) \<Rightarrow>
     if c \<noteq> 37 then map_option ((#) (uint c)) (printf_chars f args)
     else (case directive f of None \<Rightarrow> Some [] | Some (len, d, g) \<Rightarrow>
       (case conversion len d args of None \<Rightarrow> None | Some (out, rest) \<Rightarrow>
         map_option ((@) out) (printf_chars g rest))))"
  by pat_completeness auto
termination
  by (relation "measure (\<lambda>(f, a). length f)") (auto dest!: next_char_shorter directive_shorter)

declare printf_chars.simps [simp del]

text \<open>A call that loops for ever is at a standstill: the outcome \<open>Leaves\<close> with nothing to follow.\<close>

definition hang :: "('s, 'a) kern" where
  "hang = (\<lambda>s. Leaves s)"

definition print_all :: "int list \<Rightarrow> ('z log_st_scheme, unit) kern" where
  "print_all out =
     bnd (gets panicked) (\<lambda>p.
     if p then hang
     else thn consoleacquire (thn (for_each out consputc) consolerelease))"

definition printf :: "u8 list option \<Rightarrow> varg list \<Rightarrow> ('z log_st_scheme, unit) kern option" where
  "printf fmt args =
     map_option print_all (case fmt of None \<Rightarrow> Some [] | Some f \<Rightarrow> printf_chars f args)"

abbreviation panic_format :: "u8 list" where
  "panic_format \<equiv> [10, 91, 80, 65, 78, 73, 67, 93, 32, 37, 115, 10]"

definition kernel_panic :: "u8 list \<Rightarrow> ('z log_st_scheme, unit) kern" where
  "kernel_panic msg =
     thn consolepanic
     (thn (the (printf (Some panic_format) [VStr (Some msg)]))
     (thn (modify (\<lambda>s. s\<lparr>panicked := True\<rparr>))
     hang))"

definition printfinit :: "('z con_st_scheme, unit) kern" where
  "printfinit = consoleinit"

subsection \<open>Numbers\<close>

text \<open>
  C35. The numbers the kernel prints: for each of the bases it uses and all 64-bit values, the
  characters are the digits of the number, most significant first and without leading zeros, and
  there are at most 22 of them, so the 32 bytes of \<open>buf\<close> are never exceeded.
\<close>

theorem printuint_digits:
  assumes "base \<in> {8, 10, 16}" and "ds \<in> {lower_digits, upper_digits}"
  shows "\<exists>cs. printuint x base ds = map uint cs \<and> numeral_value (unat base) digit_value cs = unat x \<and>
     0 < length cs \<and> length cs \<le> 22 \<and> (x \<noteq> 0 \<longrightarrow> hd cs \<noteq> 48)"
proof -
  have b: "1 < base" "unat base \<le> 16" "1 < unat base" "8 \<le> unat base" using assms(1) by auto
  let ?ns = "nat_digits (unat base) (unat x)"
  let ?cs = "rev (uint_digits x base ds)"
  have cs: "?cs = rev (map (\<lambda>d. ds ! d) ?ns)" by (simp add: uint_digits_nat [OF b(1)])
  have ne: "?ns \<noteq> []" by (subst nat_digits.simps) simp
  have "unat x < 18446744073709551616" by (rule unat64_less)
  also have "\<dots> \<le> 8 ^ Suc 21" by simp
  also have "\<dots> \<le> unat base ^ Suc 21" using b(4) by (rule power_mono) simp
  finally have "length ?ns \<le> Suc 21" by (rule length_nat_digits [OF b(3)])
  moreover have "hd ?cs \<noteq> 48" if "x \<noteq> 0"
  proof -
    have l: "last ?ns \<noteq> 0" using that b(3) by (intro nat_digits_last) (simp_all add: unat_eq_0)
    have "last ?ns \<in> set ?ns" using ne by simp
    moreover have "\<forall>d \<in> set ?ns. d < unat base" using nat_digits_less [of "unat base"] b(3) by simp
    ultimately have "last ?ns < 16" using b(2) by auto
    then have "digit_value (ds ! last ?ns) = last ?ns" using digit_value_tables [of "last ?ns"] assms(2) by auto
    moreover have "hd ?cs = ds ! last ?ns" using ne by (simp add: cs hd_rev last_map)
    ultimately show ?thesis using l by (auto simp: digit_value_def)
  qed
  moreover have "numeral_value (unat base) digit_value ?cs = unat x"
    by (rule uint_digits_value) (use b assms in simp_all)
  ultimately show ?thesis using ne by (intro exI [of _ ?cs]) (simp add: printuint_def cs)
qed

lemma printuint_digits_witness:
  "\<exists>cs. printuint 1000 10 lower_digits = map uint cs \<and> numeral_value 10 digit_value cs = 1000 \<and> length cs \<le> 22"
  using printuint_digits [of 10 lower_digits 1000] by auto

subsection \<open>Panicking\<close>

lemma consputc_byte: "consputc (uint c) s = Ret () (s\<lparr>uart_out := uart_out s @ [c]\<rparr>)"
proof -
  have "uint c < 256" using uint_bounded [of c] by simp
  then show ?thesis by (simp add: consputc_def uart_putc_def)
qed

lemma print_bytes: "for_each (map uint cs) consputc s = Ret () (s\<lparr>uart_out := uart_out s @ cs\<rparr>)"
  by (induction cs arbitrary: s) (simp_all add: thn_apply consputc_byte)

lemma print_all_unlocked:
  "\<not> panicked s \<Longrightarrow> \<not> c_locking s \<Longrightarrow> print_all (map uint cs) s = Ret () (s\<lparr>uart_out := uart_out s @ cs\<rparr>)"
  by (simp add: print_all_def run_simps consoleacquire_def consolerelease_def print_bytes)

lemma panic_chars:
  "printf_chars panic_format [VStr (Some msg)] =
     Some (map uint ([10, 91, 80, 65, 78, 73, 67, 93, 32] @ takeWhile (\<lambda>c. c \<noteq> 0) msg @ [10]))"
  by (simp add: printf_chars.simps directive_def conversion_def printstr_def)

text \<open>
  A panic always gets its message out: whatever locks the hart holds, the console's among them,
  the message is sent to the UART, no lock is taken, and the machine stops; every later call of
  \<open>printf\<close> hangs and prints nothing.
\<close>

theorem panic_always_prints:
  fixes s :: "'z log_st_scheme"
  assumes "\<not> panicked s"
  shows "\<exists>t. kernel_panic msg s = Leaves t \<and> held t = held s \<and> panicked t \<and>
     uart_out t = uart_out s @ [10, 91, 80, 65, 78, 73, 67, 93, 32] @ takeWhile (\<lambda>c. c \<noteq> 0) msg @ [10] \<and>
     (\<forall>fmt args k. printf fmt args = Some k \<longrightarrow> k t = Leaves t)"
proof -
  let ?out = "[10, 91, 80, 65, 78, 73, 67, 93, 32] @ takeWhile (\<lambda>c. c \<noteq> 0) msg @ [10]"
  let ?t = "s\<lparr>c_locking := False, uart_out := uart_out s @ ?out, panicked := True\<rparr>"
  have "printf (Some panic_format) [VStr (Some msg)] = Some (print_all (map uint ?out) :: ('z log_st_scheme, unit) kern)"
    unfolding printf_def by (simp only: option.case panic_chars option.map)
  moreover have "print_all (map uint ?out) (s\<lparr>c_locking := False\<rparr>) =
      Ret () (s\<lparr>c_locking := False, uart_out := uart_out s @ ?out\<rparr>)"
    using print_all_unlocked [of "s\<lparr>c_locking := False\<rparr>" ?out] assms by simp
  ultimately have "kernel_panic msg s = Leaves ?t"
    by (simp add: kernel_panic_def thn_apply consolepanic_def hang_def)
  moreover have "k ?t = Leaves ?t" if "printf fmt args = Some k" for fmt args k
    using that by (auto simp: printf_def print_all_def bnd_apply hang_def)
  ultimately show ?thesis by (intro exI [of _ ?t]) simp
qed

definition demo_log :: log_st where
  "demo_log = con_st.extend demo_con (log_st.fields False)"

lemma panic_always_prints_witness:
  "\<exists>t. kernel_panic [111, 111, 112, 115] (demo_log\<lparr>held := {ConsLock}\<rparr>) = Leaves t \<and> held t = {ConsLock} \<and> panicked t"
proof -
  have "\<not> panicked (demo_log\<lparr>held := {ConsLock}\<rparr>)" by (simp add: demo_log_def log_st.defs demos)
  from panic_always_prints [OF this, of "[111, 111, 112, 115]"] show ?thesis by auto
qed

declare demo_log_def [demos] log_st.defs [demos]

end
