(* ===== verification/Pipe.thy ===== *)
theory Pipe
  imports Printf
begin

section \<open>Pipes: \<^verbatim>\<open>kernel/core/pipe.c\<close>\<close>

text \<open>
  A pipe is a ring buffer of \<open>PIPESIZE\<close> bytes with 32-bit read and write counters, in a page of
  its own; \<open>pipes\<close> gives the structure at the page's address. A writer that finds the buffer
  full and a reader that finds it empty go to sleep; \<open>pipewrite_loop\<close> and \<open>piperead_wait\<close> are
  their loops, which the resumed process runs again.
\<close>

definition PIPESIZE :: nat where "PIPESIZE = 512"

record pipe =
  pdata :: "u8 list"
  nread :: u32
  nwrite :: u32
  readopen :: bool
  writeopen :: bool

record pipe_st = log_st +
  pipes :: "u64 \<Rightarrow> pipe"

definition upd_pipe :: "u64 \<Rightarrow> (pipe \<Rightarrow> pipe) \<Rightarrow> ('z pipe_st_scheme, unit) kern" where
  "upd_pipe pi f = modify (\<lambda>s. s\<lparr>pipes := (pipes s)(pi := f (pipes s pi))\<rparr>)"

definition get_pipe :: "u64 \<Rightarrow> (pipe \<Rightarrow> 'a) \<Rightarrow> ('z pipe_st_scheme, 'a) kern" where
  "get_pipe pi f = gets (\<lambda>s. f (pipes s pi))"

definition pipe_put :: "u8 \<Rightarrow> pipe \<Rightarrow> pipe" where
  "pipe_put c q = q\<lparr>pdata := (pdata q)[unat (nwrite q) mod PIPESIZE := c], nwrite := nwrite q + 1\<rparr>"

definition pipe_front :: "pipe \<Rightarrow> u8" where
  "pipe_front q = pdata q ! (unat (nread q) mod PIPESIZE)"

definition pipe_drop :: "pipe \<Rightarrow> pipe" where
  "pipe_drop q = q\<lparr>nread := nread q + 1\<rparr>"

definition pipeclose :: "u64 \<Rightarrow> bool \<Rightarrow> ('z pipe_st_scheme, unit) kern" where
  "pipeclose pi writable =
     thn (acquire (PipeLock pi))
     (thn (if writable then
             thn (upd_pipe pi (\<lambda>q. q\<lparr>writeopen := False\<rparr>)) (wakeup (ChPipeRead pi))
           else
             thn (upd_pipe pi (\<lambda>q. q\<lparr>readopen := False\<rparr>)) (wakeup (ChPipeWrite pi)))
     (bnd (get_pipe pi (\<lambda>q. \<not> readopen q \<and> \<not> writeopen q)) (\<lambda>dead.
     if dead then thn (release (PipeLock pi)) (kfree pi)
     else release (PipeLock pi))))"

function pipewrite_loop :: "u64 \<Rightarrow> u64 \<Rightarrow> int \<Rightarrow> int \<Rightarrow> nat \<Rightarrow> ('z pipe_st_scheme, int) kern" where
  "pipewrite_loop pi addr n i p =
     (if i < n then
        bnd (get_pipe pi id) (\<lambda>q.
        bnd (get_proc p id) (\<lambda>pr.
        if \<not> readopen q \<or> killed pr \<noteq> 0 then thn (release (PipeLock pi)) (ret (-1))
        else if nwrite q = nread q + of_nat PIPESIZE then
          thn (wakeup (ChPipeRead pi))
          (sleep (ChPipeWrite pi) (PipeLock pi))
        else
          bnd (copyin (pagetable pr) (addr + to_u64 i) 1) (\<lambda>r.
          case r of
            None \<Rightarrow> thn (wakeup (ChPipeRead pi)) (thn (release (PipeLock pi)) (ret i))
          | Some bs \<Rightarrow>
              thn (upd_pipe pi (pipe_put (hd bs)))
              (pipewrite_loop pi addr n (i + 1) p))))
      else thn (wakeup (ChPipeRead pi)) (thn (release (PipeLock pi)) (ret i)))"
  by pat_completeness auto
termination
  by (relation "measure (\<lambda>(pi, addr, n, i, p). nat (n - i))") auto

declare pipewrite_loop.simps [simp del]

definition pipewrite :: "u64 \<Rightarrow> u64 \<Rightarrow> int \<Rightarrow> ('z pipe_st_scheme, int) kern" where
  "pipewrite pi addr n =
     bnd myproc (\<lambda>me. case me of None \<Rightarrow> ret (-1) | Some p \<Rightarrow>
     thn (acquire (PipeLock pi)) (pipewrite_loop pi addr n 0 p))"

definition pipewrite_resume :: "u64 \<Rightarrow> u64 \<Rightarrow> int \<Rightarrow> int \<Rightarrow> nat \<Rightarrow> ('z pipe_st_scheme, int) kern" where
  "pipewrite_resume pi addr n i p =
     thn (sleep_resume (PipeLock pi)) (pipewrite_loop pi addr n i p)"

function piperead_loop :: "u64 \<Rightarrow> u64 \<Rightarrow> int \<Rightarrow> int \<Rightarrow> nat \<Rightarrow> ('z pipe_st_scheme, int) kern" where
  "piperead_loop pi addr n i p =
     (if i < n then
        bnd (get_pipe pi id) (\<lambda>q.
        if nread q = nwrite q then ret i
        else
          let ch = pipe_front q in
          thn (upd_pipe pi pipe_drop)
          (bnd (get_proc p pagetable) (\<lambda>pt.
          bnd (copyout pt (addr + to_u64 i) [ch]) (\<lambda>r.
          if r < 0 then ret i
          else piperead_loop pi addr n (i + 1) p))))
      else ret i)"
  by pat_completeness auto
termination
  by (relation "measure (\<lambda>(pi, addr, n, i, p). nat (n - i))") auto

declare piperead_loop.simps [simp del]

definition piperead_wait :: "u64 \<Rightarrow> u64 \<Rightarrow> int \<Rightarrow> nat \<Rightarrow> ('z pipe_st_scheme, int) kern" where
  "piperead_wait pi addr n p =
     bnd (get_pipe pi id) (\<lambda>q.
     if nread q = nwrite q \<and> writeopen q then
       bnd (get_proc p killed) (\<lambda>k.
       if k \<noteq> 0 then thn (release (PipeLock pi)) (ret (-1))
       else sleep (ChPipeRead pi) (PipeLock pi))
     else
       bnd (piperead_loop pi addr n 0 p) (\<lambda>i.
       thn (wakeup (ChPipeWrite pi))
       (thn (release (PipeLock pi))
       (ret i))))"

definition piperead :: "u64 \<Rightarrow> u64 \<Rightarrow> int \<Rightarrow> ('z pipe_st_scheme, int) kern" where
  "piperead pi addr n =
     bnd myproc (\<lambda>me. case me of None \<Rightarrow> ret (-1) | Some p \<Rightarrow>
     thn (acquire (PipeLock pi)) (piperead_wait pi addr n p))"

definition piperead_resume :: "u64 \<Rightarrow> u64 \<Rightarrow> int \<Rightarrow> nat \<Rightarrow> ('z pipe_st_scheme, int) kern" where
  "piperead_resume pi addr n p = thn (sleep_resume (PipeLock pi)) (piperead_wait pi addr n p)"

subsection \<open>The ring\<close>

definition pipe_bytes :: "pipe \<Rightarrow> u8 list" where
  "pipe_bytes q = ring PIPESIZE (pdata q) (nread q) (nwrite q)"

definition pipe_ok :: "pipe \<Rightarrow> bool" where
  "pipe_ok q \<longleftrightarrow> length (pdata q) = PIPESIZE \<and> unat (nwrite q - nread q) \<le> PIPESIZE"

lemma PIPESIZE_facts: "PIPESIZE dvd 2 ^ 32" "PIPESIZE < 2 ^ 32" "0 < PIPESIZE"
  by (simp_all add: PIPESIZE_def)

lemma pipe_put_bytes:
  assumes "pipe_ok q" and "length (pipe_bytes q) < PIPESIZE"
  shows "pipe_bytes (pipe_put b q) = pipe_bytes q @ [b]" and "pipe_ok (pipe_put b q)"
  using assms ring_put [OF PIPESIZE_facts(1,2), of "pdata q" "nwrite q" "nread q" b]
    unat_succ_diff [OF _ PIPESIZE_facts(2), of "nwrite q" "nread q"]
  by (simp_all add: pipe_ok_def pipe_bytes_def pipe_put_def)

lemma pipe_drop_bytes:
  assumes "pipe_bytes q \<noteq> []"
  shows "pipe_front q = hd (pipe_bytes q)" and "pipe_bytes (pipe_drop q) = tl (pipe_bytes q)"
    and "pipe_ok q \<Longrightarrow> pipe_ok (pipe_drop q)"
  using assms ring_Cons [of "nread q" "nwrite q" PIPESIZE "pdata q"] unat_diff_succ [of "nread q" "nwrite q"]
  by (simp_all add: pipe_ok_def pipe_bytes_def pipe_drop_def pipe_front_def)

lemma pipe_bytes_bounded: "pipe_ok q \<Longrightarrow> length (pipe_bytes q) \<le> PIPESIZE"
  by (simp add: pipe_ok_def pipe_bytes_def)

interpretation pipe_ring: bounded_queue PIPESIZE pipe_put pipe_drop pipe_front pipe_bytes pipe_ok
  by unfold_locales (simp_all add: pipe_put_bytes pipe_drop_bytes pipe_bytes_bounded)

definition empty_pipe :: pipe where
  "empty_pipe = \<lparr>pdata = replicate PIPESIZE 0, nread = 0, nwrite = 0, readopen = True, writeopen = True\<rparr>"

definition demo_pipe :: pipe_st where
  "demo_pipe = log_st.extend demo_log (pipe_st.fields (\<lambda>_. empty_pipe))"

declare demo_pipe_def [demos] pipe_st.defs [demos]

subsection \<open>Writing\<close>

lemma pipe_apply [simp]:
  "upd_pipe pi f s = Ret () (s\<lparr>pipes := (pipes s)(pi := f (pipes s pi))\<rparr>)"
  "get_pipe pi g s = Ret (g (pipes s pi)) s"
  by (simp_all add: upd_pipe_def get_pipe_def)

lemma pipe_full:
  assumes "pipe_ok q"
  shows "nwrite q = nread q + of_nat PIPESIZE \<longleftrightarrow> length (pipe_bytes q) = PIPESIZE"
proof -
  have "nwrite q = nread q + of_nat PIPESIZE \<longleftrightarrow> nwrite q - nread q = of_nat PIPESIZE"
    by (simp add: diff_eq_eq add.commute)
  also have "\<dots> \<longleftrightarrow> unat (nwrite q - nread q) = unat (of_nat PIPESIZE :: u32)"
    by (rule word_unat_eq_iff)
  finally show ?thesis by (simp add: pipe_bytes_def PIPESIZE_def)
qed

lemma pipe_put_open [simp]: "readopen (pipe_put b q) = readopen q" "writeopen (pipe_put b q) = writeopen q"
  by (simp_all add: pipe_put_def)

definition pipe_writer :: "u64 \<Rightarrow> nat \<Rightarrow> 'z pipe_st_scheme \<Rightarrow> bool" where
  "pipe_writer pi p s \<longleftrightarrow> pipe_ok (pipes s pi) \<and> readopen (pipes s pi) \<and> killed (procs s ! p) = 0"

lemma pipewrite_loop_put:
  assumes "pipe_writer pi p s" and "length (pipe_bytes (pipes s pi)) + length bs \<le> PIPESIZE"
    and "ubytes (mem s) (pagetable (procs s ! p)) (addr + to_u64 i) (length bs) = map Some bs"
    and "i + int (length bs) \<le> n"
  shows "pipewrite_loop pi addr n i p s = pipewrite_loop pi addr n (i + int (length bs)) p
     (s\<lparr>pipes := (pipes s)(pi := fold pipe_put bs (pipes s pi))\<rparr>)"
  using assms
proof (induction bs arbitrary: i s)
  case (Cons b bs)
  let ?q = "pipes s pi" and ?pt = "pagetable (procs s ! p)"
  let ?s = "s\<lparr>pipes := (pipes s)(pi := pipe_put b ?q)\<rparr>"
  have ok: "pipe_ok ?q" "readopen ?q" "killed (procs s ! p) = 0" "length (pipe_bytes ?q) < PIPESIZE"
    using Cons.prems(1,2) by (auto simp: pipe_writer_def)
  have bytes: "ubytes (mem s) ?pt (addr + to_u64 i) 1 = [Some b]"
    "ubytes (mem s) ?pt (addr + to_u64 (i + 1)) (length bs) = map Some bs"
    using Cons.prems(3) ubytes_split [of 1 "length (b # bs)" "mem s" ?pt "addr + to_u64 i"]
    by (simp_all add: to_u64_Suc add.assoc ubytes_def)
  have "pipewrite_loop pi addr n i p s = pipewrite_loop pi addr n (i + 1) p ?s"
    using ok pipe_full [OF ok(1)] Cons.prems(4) bytes(1)
    by (subst pipewrite_loop.simps) (simp add: run_simps copyin_spec)
  also have "\<dots> = pipewrite_loop pi addr n (i + 1 + int (length bs)) p
     (?s\<lparr>pipes := (pipes ?s)(pi := fold pipe_put bs (pipes ?s pi))\<rparr>)"
    using Cons.prems ok pipe_put_bytes [OF ok(1,4), of b] bytes(2)
    by (intro Cons.IH) (simp_all add: pipe_writer_def)
  finally show ?case by (simp add: add_ac fun_upd_def cong: if_cong)
qed simp

lemma wakeup_proc_self: "pstate p \<noteq> SLEEPING \<Longrightarrow> wakeup_proc ch p = p"
  by (simp add: wakeup_proc_def)

lemma pipewrite_fits:
  assumes "pipe_writer pi p s" and "cur s = Some p" and "length (procs s) = NPROC" and "held s = {}"
    and "ubytes (mem s) (pagetable (procs s ! p)) addr (length bs) = map Some bs"
    and "length (pipe_bytes (pipes s pi)) + length bs \<le> PIPESIZE"
  shows "pipewrite pi addr (int (length bs)) s = Ret (int (length bs)) (s\<lparr>
     pipes := (pipes s)(pi := fold pipe_put bs (pipes s pi)), procs := map (wakeup_proc (ChPipeRead pi)) (procs s)\<rparr>)"
proof -
  let ?s = "s\<lparr>held := {PipeLock pi}\<rparr>"
  let ?t = "?s\<lparr>pipes := (pipes s)(pi := fold pipe_put bs (pipes s pi))\<rparr>"
  have "pipe_writer pi p ?s" using assms(1) by (simp add: pipe_writer_def)
  then have "pipewrite pi addr (int (length bs)) s = pipewrite_loop pi addr (int (length bs)) (int (length bs)) p ?t"
    using pipewrite_loop_put [of pi p ?s bs addr 0 "int (length bs)"] assms(2,4,5,6)
    by (simp add: pipewrite_def run_simps to_u64_def)
  moreover have "wakeup (ChPipeRead pi) ?t = Ret () (?t\<lparr>procs := map (wakeup_proc (ChPipeRead pi)) (procs s)\<rparr>)"
    by (subst wakeup_eq) (use assms(3) in simp_all)
  moreover have "s\<lparr>held := {}\<rparr> = s" using assms(4) by simp
  ultimately show ?thesis using assms(4) by (simp add: pipewrite_loop.simps run_simps)
qed

text \<open>
  C20. Writing to a pipe whose reader is there: when the bytes fit they are appended to the
  pipe, the readers are woken and the count is returned; otherwise the pipe is filled to its
  capacity with the first of them, the readers are woken and the writer sleeps.
\<close>

theorem pipewrite_appends:
  assumes "pipe_writer pi p s" and "cur s = Some p" and "length (procs s) = NPROC" and "p < NPROC"
    and "held s = {}" and "ubytes (mem s) (pagetable (procs s ! p)) addr (length bs) = map Some bs"
  shows "if length (pipe_bytes (pipes s pi)) + length bs \<le> PIPESIZE
     then \<exists>t. pipewrite pi addr (int (length bs)) s = Ret (int (length bs)) t \<and>
       pipe_bytes (pipes t pi) = pipe_bytes (pipes s pi) @ bs \<and> pipe_ok (pipes t pi) \<and> held t = {} \<and>
       procs t = map (wakeup_proc (ChPipeRead pi)) (procs s)
     else \<exists>t. pipewrite pi addr (int (length bs)) s = Sleeps (ChPipeWrite pi) t \<and>
       pipe_bytes (pipes t pi) = pipe_bytes (pipes s pi) @ take (PIPESIZE - length (pipe_bytes (pipes s pi))) bs \<and>
       length (pipe_bytes (pipes t pi)) = PIPESIZE \<and> held t = {} \<and>
       procs t = (map (wakeup_proc (ChPipeRead pi)) (procs s))[p := (procs t ! p)] \<and>
       pstate (procs t ! p) = SLEEPING \<and> chan (procs t ! p) = Some (ChPipeWrite pi)"
proof -
  let ?q = "pipes s pi" and ?n = "int (length bs)"
  let ?room = "PIPESIZE - length (pipe_bytes ?q)"
  let ?bs = "take ?room bs"
  let ?s = "s\<lparr>held := {PipeLock pi}\<rparr>"
  let ?t = "?s\<lparr>pipes := (pipes s)(pi := fold pipe_put ?bs ?q)\<rparr>"
  have q: "pipe_ok ?q" "pipe_writer pi p ?s" using assms(1) by (auto simp: pipe_writer_def)
  have len: "length (pipe_bytes ?q) + length ?bs \<le> PIPESIZE"
    using pipe_bytes_bounded [OF q(1)] by auto
  have "ubytes (mem s) (pagetable (procs s ! p)) addr (length ?bs) = map Some ?bs"
    using assms(6) ubytes_take [of "length ?bs" "length bs" "mem s" "pagetable (procs s ! p)" addr]
    by (auto simp: take_map min_def)
  then have run: "pipewrite pi addr ?n s = pipewrite_loop pi addr ?n (int (length ?bs)) p ?t"
    using pipewrite_loop_put [OF q(2), of ?bs addr 0 ?n] len assms(2,5)
    by (simp add: pipewrite_def run_simps to_u64_def)
  have bytes: "pipe_ok (pipes ?t pi)" "pipe_bytes (pipes ?t pi) = pipe_bytes ?q @ ?bs"
    using pipe_ring.enq_all_contents [OF q(1) len] by simp_all
  have wk: "wakeup (ChPipeRead pi) ?t = Ret () (?t\<lparr>procs := map (wakeup_proc (ChPipeRead pi)) (procs s)\<rparr>)"
    by (subst wakeup_eq) (use assms(3) in simp_all)
  show ?thesis
  proof (cases "length (pipe_bytes ?q) + length bs \<le> PIPESIZE")
    case True
    then have "?bs = bs" by simp
    with True bytes assms(5) pipewrite_fits [OF assms(1-3,5,6) True] show ?thesis by simp
  next
    case False
    then have l: "length ?bs = ?room" "?room < length bs"
      using pipe_bytes_bounded [OF q(1)] by auto
    then have full: "length (pipe_bytes (pipes ?t pi)) = PIPESIZE"
      using bytes(2) pipe_bytes_bounded [OF q(1)] by simp
    have op: "readopen (fold pipe_put ?bs ?q)"
    proof -
      have "readopen (fold pipe_put xs r) = readopen r" for xs r by (induction xs arbitrary: r) simp_all
      with assms(1) show ?thesis by (simp add: pipe_writer_def)
    qed
    let ?u = "?t\<lparr>procs := map (wakeup_proc (ChPipeRead pi)) (procs s)\<rparr>"
    have "sleep (ChPipeWrite pi) (PipeLock pi) ?u = Sleeps (ChPipeWrite pi) (?u\<lparr>held := {}, cur := None,
        procs := (procs ?u)[p := (procs ?u ! p)\<lparr>chan := Some (ChPipeWrite pi), pstate := SLEEPING\<rparr>]\<rparr>)"
      by (rule sleep_eq) (use assms in simp_all)
    then have "pipewrite_loop pi addr ?n (int (length ?bs)) p ?t = Sleeps (ChPipeWrite pi) (?u\<lparr>held := {}, cur := None,
        procs := (procs ?u)[p := (procs ?u ! p)\<lparr>chan := Some (ChPipeWrite pi), pstate := SLEEPING\<rparr>]\<rparr>)"
      using l op pipe_full [OF bytes(1)] full wk assms(1)
      by (subst pipewrite_loop.simps) (simp add: run_simps pipe_writer_def)
    with run bytes full False assms(3,4) show ?thesis by simp
  qed
qed

definition demo_writer :: "memory \<Rightarrow> u8 list \<Rightarrow> pipe_st" where
  "demo_writer m bs = demo_pipe\<lparr>mem := m, procs := (procs demo_pipe)[1 := (procs demo_pipe ! 1)\<lparr>pagetable := demo_root\<rparr>],
     pipes := (\<lambda>_. fold pipe_put bs empty_pipe)\<rparr>"

lemma demo_writer_facts:
  "cur (demo_writer m bs) = Some (Suc 0)" "length (procs (demo_writer m bs)) = NPROC" "held (demo_writer m bs) = {}"
  "procs (demo_writer m bs) ! Suc 0 = (procs demo_kproc ! 1)\<lparr>pagetable := demo_root\<rparr>"
  "mem (demo_writer m bs) = m" "pipes (demo_writer m bs) pi = fold pipe_put bs empty_pipe"
  "killed (procs demo_kproc ! Suc 0) = 0" "pipe_ok empty_pipe" "pipe_bytes empty_pipe = []" "readopen empty_pipe"
  by (simp_all add: demo_writer_def demos idle_proc_def NPROC_def empty_pipe_def pipe_ok_def pipe_bytes_def)

lemma demo_user_bytes:
  "\<exists>m. user_pages m demo_root \<and> (\<forall>va. vpn va = 0 \<longrightarrow> user_writable m demo_root va) \<and>
     ubytes m demo_root 16 3 = map Some [1, 2, 3]"
proof -
  obtain m where m: "user_pages m demo_root" "\<And>va. vpn va = 0 \<Longrightarrow> user_writable m demo_root va"
    using demo_user_mem by blast
  let ?s = "demo_kmem\<lparr>mem := m\<rparr>" and ?bs = "[1, 2, 3 :: u8]"
  have "vpn (16 + of_nat i) = 0" if "i < 3" for i
    using low_page [of "16 + i"] that by simp
  then have "\<forall>i < length ?bs. user_writable (mem ?s) demo_root (16 + of_nat i)"
    using m(2) by simp
  then obtain m' where "wrote m m' demo_root 16 ?bs"
    using copyout_wrote [of ?s demo_root ?bs 16] m(1) by auto
  moreover from this have "ubytes m' demo_root 16 3 = map Some ?bs"
    using wrote_read [of m m' demo_root 16 ?bs] by (simp add: numeral_3_eq_3)
  ultimately show ?thesis
    using m(2) by (intro exI [of _ m']) (simp add: wrote_pages wrote_writable)
qed

lemma pipewrite_appends_witness:
  "\<exists>m t. pipewrite 0x80005000 16 3 (demo_writer m []) = Ret 3 t \<and> pipe_bytes (pipes t 0x80005000) = [1, 2, 3]"
proof -
  obtain m where m: "ubytes m demo_root 16 3 = map Some [1, 2, 3]"
    using demo_user_bytes by blast
  let ?s = "demo_writer m []"
  have h: "pipe_writer 0x80005000 1 ?s" "cur ?s = Some 1" "length (procs ?s) = NPROC" "1 < NPROC" "held ?s = {}"
    "ubytes (mem ?s) (pagetable (procs ?s ! 1)) 16 (length [1, 2, 3 :: u8]) = map Some [1, 2, 3]"
    using m by (simp_all add: pipe_writer_def demo_writer_facts NPROC_def numeral_3_eq_3)
  show ?thesis
    using pipewrite_appends [OF h] by (auto simp: demo_writer_facts PIPESIZE_def)
qed

subsection \<open>Reading\<close>

definition pipe_reader :: "u64 \<Rightarrow> nat \<Rightarrow> 'z pipe_st_scheme \<Rightarrow> bool" where
  "pipe_reader pi p s \<longleftrightarrow> pipe_ok (pipes s pi) \<and> user_pages (mem s) (pagetable (procs s ! p))"

lemma pipe_drop_open [simp]: "readopen (pipe_drop q) = readopen q" "writeopen (pipe_drop q) = writeopen q"
  by (simp_all add: pipe_drop_def)

definition took :: "u64 \<Rightarrow> nat \<Rightarrow> 'z pipe_st_scheme \<Rightarrow> 'z pipe_st_scheme \<Rightarrow> nat \<Rightarrow> u64 \<Rightarrow> bool" where
  "took pi p s t k va \<longleftrightarrow> pipe_ok (pipes t pi) \<and> pipe_bytes (pipes t pi) = drop k (pipe_bytes (pipes s pi)) \<and>
     wrote (mem s) (mem t) (pagetable (procs s ! p)) va (take k (pipe_bytes (pipes s pi))) \<and>
     procs t = procs s \<and> held t = held s"

lemma piperead_loop_takes:
  assumes "pipe_reader pi p s" and "n = i + int m" and "k = min m (length (pipe_bytes (pipes s pi)))"
    and "\<forall>j < k. user_writable (mem s) (pagetable (procs s ! p)) (addr + to_u64 i + of_nat j)"
  shows "\<exists>t. piperead_loop pi addr n i p s = Ret (i + int k) t \<and> took pi p s t k (addr + to_u64 i)"
  using assms
proof (induction m arbitrary: i s k)
  case 0
  then show ?case
    by (simp add: piperead_loop.simps took_def pipe_reader_def wrote_refl)
next
  case (Suc m)
  let ?q = "pipes s pi" and ?pt = "pagetable (procs s ! p)"
  have q: "pipe_ok ?q" "user_pages (mem s) ?pt" using Suc.prems(1) by (auto simp: pipe_reader_def)
  show ?case
  proof (cases "pipe_bytes ?q = []")
    case True
    then have "nread ?q = nwrite ?q" by (simp add: pipe_bytes_def)
    with True q Suc.prems show ?thesis
      by (simp add: piperead_loop.simps run_simps took_def wrote_refl)
  next
    case False
    then obtain c cs where c: "pipe_bytes ?q = c # cs" by (cases "pipe_bytes ?q") auto
    note dr = pipe_drop_bytes [OF False]
    let ?s = "s\<lparr>pipes := (pipes s)(pi := pipe_drop ?q)\<rparr>"
    have k: "k = Suc (min m (length cs))" using Suc.prems(3) c by simp
    have "user_writable (mem ?s) ?pt (addr + to_u64 i)" using Suc.prems(4) k by force
    then obtain m' where m': "copyout ?pt (addr + to_u64 i) [c] ?s = Ret 0 (?s\<lparr>mem := m'\<rparr>)"
      "wrote (mem s) m' ?pt (addr + to_u64 i) [c]"
      using copyout_byte [of ?s ?pt "addr + to_u64 i" c] q(2) by auto
    let ?t = "?s\<lparr>mem := m'\<rparr>"
    have ne: "nread ?q \<noteq> nwrite ?q" using False by (simp add: pipe_bytes_def)
    have run: "piperead_loop pi addr n i p s = piperead_loop pi addr n (i + 1) p ?t"
      using ne Suc.prems(2) m'(1) dr(1) c by (subst piperead_loop.simps) (simp add: run_simps)
    have "pipe_reader pi p ?t" using dr(3) q wrote_pages [OF m'(2)] by (simp add: pipe_reader_def)
    moreover have "n = i + 1 + int m" using Suc.prems(2) by simp
    moreover have "min m (length cs) = min m (length (pipe_bytes (pipes ?t pi)))" using dr(2) c by simp
    moreover have "\<forall>j < min m (length cs). user_writable (mem ?t) (pagetable (procs ?t ! p)) (addr + to_u64 (i + 1) + of_nat j)"
    proof (intro allI impI)
      fix j
      assume "j < min m (length cs)"
      then have "user_writable (mem s) ?pt (addr + to_u64 i + of_nat (Suc j))" using Suc.prems(4) k by blast
      then show "user_writable (mem ?t) (pagetable (procs ?t ! p)) (addr + to_u64 (i + 1) + of_nat j)"
        unfolding to_u64_step by (simp add: wrote_writable [OF m'(2)])
    qed
    ultimately obtain t where t: "piperead_loop pi addr n (i + 1) p ?t = Ret (i + 1 + int (min m (length cs))) t"
      "took pi p ?t t (min m (length cs)) (addr + to_u64 (i + 1))"
      using Suc.IH by blast
    have "wrote (mem s) (mem t) ?pt (addr + to_u64 i) ([c] @ take (min m (length cs)) cs)"
      using t(2) dr(2) c pipe_bytes_bounded [OF q(1)]
      by (intro wrote_append [OF m'(2)]) (simp_all add: took_def to_u64_Suc add.assoc PIPESIZE_def)
    then have "took pi p s t k (addr + to_u64 i)"
      using t(2) dr(2) c k by (simp add: took_def)
    with run t(1) k show ?thesis by auto
  qed
qed

lemma piperead_some:
  assumes "pipe_reader pi p s" and "cur s = Some p" and "length (procs s) = NPROC" and "held s = {}"
    and "pipe_bytes (pipes s pi) \<noteq> [] \<or> \<not> writeopen (pipes s pi)"
    and "k = min m (length (pipe_bytes (pipes s pi)))"
    and "\<forall>j < k. user_writable (mem s) (pagetable (procs s ! p)) (addr + of_nat j)"
  shows "\<exists>t. piperead pi addr (int m) s = Ret (int k) t \<and> held t = {} \<and>
     pipe_bytes (pipes t pi) = drop k (pipe_bytes (pipes s pi)) \<and> pipe_ok (pipes t pi) \<and>
     wrote (mem s) (mem t) (pagetable (procs s ! p)) addr (take k (pipe_bytes (pipes s pi))) \<and>
     procs t = map (wakeup_proc (ChPipeWrite pi)) (procs s)"
proof -
  let ?s = "s\<lparr>held := {PipeLock pi}\<rparr>"
  have "pipe_reader pi p ?s" "to_u64 0 = 0" using assms(1) by (simp_all add: pipe_reader_def to_u64_def)
  then obtain t where t: "piperead_loop pi addr (int m) 0 p ?s = Ret (int k) t" "took pi p ?s t k addr"
    using piperead_loop_takes [of pi p ?s "int m" 0 m k addr] assms(6,7) by auto
  have "wakeup (ChPipeWrite pi) t = Ret () (t\<lparr>procs := map (wakeup_proc (ChPipeWrite pi)) (procs t)\<rparr>)"
    by (rule wakeup_eq) (use t(2) assms(3) in \<open>simp_all add: took_def\<close>)
  with t assms show ?thesis
    by (auto simp: piperead_def piperead_wait_def run_simps took_def pipe_bytes_def)
qed

text \<open>
  C21. Reading from a pipe: an empty pipe with a writer puts the reader to sleep, with the pipe's
  lock dropped and the pipe unchanged; otherwise the oldest bytes, as many as were asked for and
  are there (none at the end of file), move from the pipe to the reader's memory, the writers
  are woken, and the count is returned.
\<close>

theorem piperead_takes:
  assumes "pipe_reader pi p s" and "cur s = Some p" and "length (procs s) = NPROC" and "p < NPROC"
    and "held s = {}" and "killed (procs s ! p) = 0"
    and "k = min m (length (pipe_bytes (pipes s pi)))"
    and "\<forall>j < k. user_writable (mem s) (pagetable (procs s ! p)) (addr + of_nat j)"
  shows "if pipe_bytes (pipes s pi) = [] \<and> writeopen (pipes s pi)
     then \<exists>t. piperead pi addr (int m) s = Sleeps (ChPipeRead pi) t \<and> pipes t = pipes s \<and> held t = {} \<and>
       pstate (procs t ! p) = SLEEPING \<and> chan (procs t ! p) = Some (ChPipeRead pi)
     else \<exists>t. piperead pi addr (int m) s = Ret (int k) t \<and> held t = {} \<and>
       pipe_bytes (pipes t pi) = drop k (pipe_bytes (pipes s pi)) \<and> pipe_ok (pipes t pi) \<and>
       wrote (mem s) (mem t) (pagetable (procs s ! p)) addr (take k (pipe_bytes (pipes s pi))) \<and>
       procs t = map (wakeup_proc (ChPipeWrite pi)) (procs s)"
proof (cases "pipe_bytes (pipes s pi) = [] \<and> writeopen (pipes s pi)")
  case True
  let ?s = "s\<lparr>held := {PipeLock pi}\<rparr>"
  have "sleep (ChPipeRead pi) (PipeLock pi) ?s = (Sleeps (ChPipeRead pi) (?s\<lparr>held := {}, cur := None,
      procs := (procs ?s)[p := (procs ?s ! p)\<lparr>chan := Some (ChPipeRead pi), pstate := SLEEPING\<rparr>]\<rparr>)
      :: (int, _) outcome)"
    by (rule sleep_eq) (use assms in simp_all)
  with True assms show ?thesis
    by (simp add: piperead_def piperead_wait_def run_simps pipe_bytes_def)
next
  case False
  with piperead_some [OF assms(1-3,5) _ assms(7,8)] show ?thesis by auto
qed

lemma demo_writer_pipe:
  "length bs \<le> PIPESIZE \<Longrightarrow> pipe_ok (fold pipe_put bs empty_pipe) \<and> pipe_bytes (fold pipe_put bs empty_pipe) = bs"
  using pipe_ring.enq_all_contents [of empty_pipe bs] by (simp add: demo_writer_facts)

lemma piperead_takes_witness:
  "\<exists>m t. piperead 0x80005000 16 2 (demo_writer m [7, 8, 9]) = Ret 2 t \<and> pipe_bytes (pipes t 0x80005000) = [9] \<and>
     ubytes (mem t) demo_root 16 2 = [Some 7, Some 8]"
proof -
  obtain m where m: "user_pages m demo_root" "\<And>va. vpn va = 0 \<Longrightarrow> user_writable m demo_root va"
    using demo_user_mem by blast
  let ?s = "demo_writer m [7, 8, 9]"
  have bytes: "pipe_bytes (pipes ?s 0x80005000) = [7, 8, 9]" "pipe_ok (pipes ?s 0x80005000)"
    using demo_writer_pipe [of "[7, 8, 9]"] by (simp_all add: demo_writer_facts PIPESIZE_def)
  have low: "vpn (16 + of_nat j) = 0" if "j < 2" for j
    using low_page [of "16 + j"] that by simp
  have h: "pipe_reader 0x80005000 1 ?s" "cur ?s = Some 1" "length (procs ?s) = NPROC" "1 < NPROC" "held ?s = {}"
    "killed (procs ?s ! 1) = 0" "2 = min 2 (length (pipe_bytes (pipes ?s 0x80005000)))"
    "\<forall>j < 2. user_writable (mem ?s) (pagetable (procs ?s ! 1)) (16 + of_nat j)"
    using m low bytes by (simp_all add: pipe_reader_def demo_writer_facts NPROC_def)
  obtain t where t: "piperead 0x80005000 16 2 ?s = Ret 2 t" "pipe_bytes (pipes t 0x80005000) = [9]"
    "wrote m (mem t) demo_root 16 [7, 8]"
    using piperead_takes [OF h] bytes by (auto simp: demo_writer_facts numeral_2_eq_2)
  have "ubytes (mem t) demo_root 16 (length [7, 8 :: u8]) = map Some [7, 8]"
    by (rule wrote_read [OF t(3)]) simp
  with t(1,2) show ?thesis by (auto simp: numeral_2_eq_2)
qed

text \<open>
  C22. What one process writes into an empty pipe another reads out of it, byte for byte and in
  order, whatever the two address spaces map where.
\<close>

theorem pipe_round_trip:
  assumes "pipe_writer pi p s" and "cur s = Some p" and "length (procs s) = NPROC" and "held s = {}"
    and "ubytes (mem s) (pagetable (procs s ! p)) src (length bs) = map Some bs"
    and "pipe_bytes (pipes s pi) = []" and "bs \<noteq> []" and "length bs \<le> PIPESIZE" and "length bs \<le> m"
    and "r < NPROC" and "user_pages (mem s) (pagetable (procs s ! r))"
    and "\<forall>j < length bs. user_writable (mem s) (pagetable (procs s ! r)) (dst + of_nat j)"
  shows "\<exists>t u. pipewrite pi src (int (length bs)) s = Ret (int (length bs)) t \<and>
     piperead pi dst (int m) (t\<lparr>cur := Some r\<rparr>) = Ret (int (length bs)) u \<and>
     ubytes (mem u) (pagetable (procs s ! r)) dst (length bs) = map Some bs \<and> pipe_bytes (pipes u pi) = []"
proof -
  let ?t = "s\<lparr>pipes := (pipes s)(pi := fold pipe_put bs (pipes s pi)), procs := map (wakeup_proc (ChPipeRead pi)) (procs s)\<rparr>"
  have ok: "pipe_ok (pipes s pi)" using assms(1) by (simp add: pipe_writer_def)
  have q: "pipe_ok (pipes ?t pi)" "pipe_bytes (pipes ?t pi) = bs"
    using pipe_ring.enq_all_contents [OF ok, of bs] assms(6,8) by simp_all
  have t: "pipewrite pi src (int (length bs)) s = Ret (int (length bs)) ?t"
    using assms by (intro pipewrite_fits) simp_all
  have pt: "pagetable (wakeup_proc ch pr) = pagetable pr" for ch pr by (simp add: wakeup_proc_def)
  have "\<exists>u. piperead pi dst (int m) (?t\<lparr>cur := Some r\<rparr>) = Ret (int (length bs)) u \<and> held u = {} \<and>
     pipe_bytes (pipes u pi) = drop (length bs) (pipe_bytes (pipes (?t\<lparr>cur := Some r\<rparr>) pi)) \<and> pipe_ok (pipes u pi) \<and>
     wrote (mem (?t\<lparr>cur := Some r\<rparr>)) (mem u) (pagetable (procs (?t\<lparr>cur := Some r\<rparr>) ! r)) dst
       (take (length bs) (pipe_bytes (pipes (?t\<lparr>cur := Some r\<rparr>) pi))) \<and>
     procs u = map (wakeup_proc (ChPipeWrite pi)) (procs (?t\<lparr>cur := Some r\<rparr>))"
    using assms q by (intro piperead_some) (simp_all add: pipe_reader_def pt)
  then obtain u where u: "piperead pi dst (int m) (?t\<lparr>cur := Some r\<rparr>) = Ret (int (length bs)) u"
    "pipe_bytes (pipes u pi) = []" "wrote (mem s) (mem u) (pagetable (procs s ! r)) dst bs"
    using q assms(3,10) by (auto simp: pt)
  have "length bs < 2 ^ 64" using assms(8) by (simp add: PIPESIZE_def)
  from wrote_read [OF u(3) this] t u(1,2) show ?thesis by auto
qed

lemma pipe_round_trip_witness:
  "\<exists>m t u. pipewrite 0x80005000 16 3 (demo_writer m []) = Ret 3 t \<and>
     piperead 0x80005000 100 512 (t\<lparr>cur := Some 1\<rparr>) = Ret 3 u \<and> ubytes (mem u) demo_root 100 3 = [Some 1, Some 2, Some 3]"
proof -
  obtain m where m: "user_pages m demo_root" "\<And>va. vpn va = 0 \<Longrightarrow> user_writable m demo_root va"
    "ubytes m demo_root 16 3 = map Some [1, 2, 3]"
    using demo_user_bytes by blast
  let ?s = "demo_writer m []"
  have low: "vpn (100 + of_nat j) = 0" if "j < 3" for j
    using low_page [of "100 + j"] that by simp
  have h: "pipe_writer 0x80005000 1 ?s" "cur ?s = Some 1" "length (procs ?s) = NPROC" "held ?s = {}"
    "ubytes (mem ?s) (pagetable (procs ?s ! 1)) 16 (length [1, 2, 3 :: u8]) = map Some [1, 2, 3]"
    "pipe_bytes (pipes ?s 0x80005000) = []" "[1, 2, 3 :: u8] \<noteq> []" "length [1, 2, 3 :: u8] \<le> PIPESIZE"
    "length [1, 2, 3 :: u8] \<le> 512" "1 < NPROC" "user_pages (mem ?s) (pagetable (procs ?s ! 1))"
    "\<forall>j < length [1, 2, 3 :: u8]. user_writable (mem ?s) (pagetable (procs ?s ! 1)) (100 + of_nat j)"
    using m low by (simp_all add: pipe_writer_def demo_writer_facts NPROC_def numeral_3_eq_3 PIPESIZE_def)
  from pipe_round_trip [OF h] obtain t u where "pipewrite 0x80005000 16 3 ?s = Ret 3 t"
    "piperead 0x80005000 100 512 (t\<lparr>cur := Some 1\<rparr>) = Ret 3 u"
    "ubytes (mem u) demo_root 100 3 = [Some 1, Some 2, Some 3]"
    by (auto simp: demo_writer_facts numeral_3_eq_3)
  then show ?thesis by blast
qed

text \<open>
  C23. The ends of a pipe: writing when no reader is left fails, reading an empty pipe whose
  writer is gone is end of file, and a killed process neither waits nor writes; none of these
  changes the pipe, and each drops the pipe's lock.
\<close>

theorem pipe_end_conditions:
  assumes "cur s = Some p" and "length (procs s) = NPROC" and "held s = {}" and "0 < n"
  shows "(\<not> readopen (pipes s pi) \<or> killed (procs s ! p) \<noteq> 0 \<longrightarrow> pipewrite pi addr n s = Ret (-1) s) \<and>
    (pipe_bytes (pipes s pi) = [] \<and> writeopen (pipes s pi) \<and> killed (procs s ! p) \<noteq> 0 \<longrightarrow>
       piperead pi addr n s = Ret (-1) s) \<and>
    (pipe_bytes (pipes s pi) = [] \<and> \<not> writeopen (pipes s pi) \<longrightarrow>
       piperead pi addr n s = Ret 0 (s\<lparr>procs := map (wakeup_proc (ChPipeWrite pi)) (procs s)\<rparr>))"
proof -
  have [simp]: "s\<lparr>held := {}\<rparr> = s" using assms(3) by simp
  have wk: "wakeup (ChPipeWrite pi) (s\<lparr>held := {PipeLock pi}\<rparr>) =
      Ret () (s\<lparr>held := {PipeLock pi}, procs := map (wakeup_proc (ChPipeWrite pi)) (procs s)\<rparr>)"
    by (subst wakeup_eq) (use assms(2) in simp_all)
  have e: "pipe_bytes (pipes s pi) = [] \<longleftrightarrow> nread (pipes s pi) = nwrite (pipes s pi)"
    by (simp add: pipe_bytes_def)
  show ?thesis
    using assms by (simp add: pipewrite_def pipewrite_loop.simps piperead_def piperead_wait_def piperead_loop.simps
        run_simps wk e)
qed

lemma pipe_end_conditions_witness:
  "piperead 0 16 5 (demo_writer (\<lambda>_. 0) []\<lparr>pipes := (\<lambda>_. empty_pipe\<lparr>writeopen := False\<rparr>)\<rparr>) =
     Ret 0 (demo_writer (\<lambda>_. 0) []\<lparr>pipes := (\<lambda>_. empty_pipe\<lparr>writeopen := False\<rparr>),
       procs := map (wakeup_proc (ChPipeWrite 0)) (procs (demo_writer (\<lambda>_. 0) []))\<rparr>)"
proof -
  let ?s = "demo_writer (\<lambda>_. 0) []\<lparr>pipes := (\<lambda>_. empty_pipe\<lparr>writeopen := False\<rparr>)\<rparr>"
  have h: "cur ?s = Some 1" "length (procs ?s) = NPROC" "held ?s = {}" "(0 :: int) < 5"
    by (simp_all add: demo_writer_facts)
  have "pipe_bytes (pipes ?s 0) = []" by (simp add: pipe_bytes_def empty_pipe_def)
  then show ?thesis using pipe_end_conditions [OF h, of 0 16] by (simp add: empty_pipe_def)
qed

end
