(* ===== verification/File.thy ===== *)
theory File
  imports Pipe
begin

section \<open>Open files: \<^verbatim>\<open>kernel/core/file.c\<close>\<close>

text \<open>
  The system-wide table of open files and the operations that dispatch on what a file is: a
  pipe, the console or an inode. A pointer to a slot that may be null is an option. The
  reads and writes of inodes go through a kernel buffer of \<open>BSIZE\<close> bytes, one chunk per
  iteration. \<open>pipealloc\<close> of \<^verbatim>\<open>kernel/core/pipe.c\<close> is here because it allocates files.
\<close>

datatype filetype = FD_NONE | FD_PIPE | FD_CONSOLE | FD_INODE

record open_file =
  ftype :: filetype
  fref :: int
  readable :: bool
  writable :: bool
  fpipe :: u64
  fip :: "nat option"
  foff :: u32

definition NFILE :: nat where "NFILE = 64"

record file_st = pipe_st +
  ftable :: "open_file list"

definition upd_file :: "nat \<Rightarrow> (open_file \<Rightarrow> open_file) \<Rightarrow> ('z file_st_scheme, unit) kern" where
  "upd_file f g = modify (\<lambda>s. s\<lparr>ftable := (ftable s)[f := g (ftable s ! f)]\<rparr>)"

definition get_file :: "nat \<Rightarrow> (open_file \<Rightarrow> 'a) \<Rightarrow> ('z file_st_scheme, 'a) kern" where
  "get_file f g = gets (\<lambda>s. g (ftable s ! f))"

definition empty_file :: open_file where
  "empty_file = \<lparr>ftype = FD_NONE, fref = 0, readable = False, writable = False, fpipe = 0,
     fip = None, foff = 0\<rparr>"

definition fileinit :: "('z file_st_scheme, unit) kern" where
  "fileinit = for_each [0..<NFILE] (\<lambda>i. upd_file i (\<lambda>_. empty_file))"

definition filealloc :: "('z file_st_scheme, nat option) kern" where
  "filealloc =
     thn (acquire FtableLock)
     (bnd (gets (\<lambda>s. find (\<lambda>i. fref (ftable s ! i) = 0) [0..<NFILE])) (\<lambda>r.
     case r of
       Some i \<Rightarrow>
         thn (upd_file i (\<lambda>_. empty_file\<lparr>fref := 1\<rparr>))
         (thn (release FtableLock)
         (ret (Some i)))
     | None \<Rightarrow> thn (release FtableLock) (ret None)))"

definition filedup :: "nat option \<Rightarrow> ('z file_st_scheme, nat option) kern" where
  "filedup fo = (case fo of None \<Rightarrow> ret None | Some f \<Rightarrow>
     thn (acquire FtableLock)
     (bnd (get_file f fref) (\<lambda>r.
     if r < 1 then thn (release FtableLock) (ret None)
     else
       thn (upd_file f (\<lambda>q. q\<lparr>fref := fref q + 1\<rparr>))
       (thn (release FtableLock)
       (ret (Some f))))))"

definition fileclose :: "nat option \<Rightarrow> ('z file_st_scheme, unit) kern" where
  "fileclose fo = (case fo of None \<Rightarrow> ret () | Some f \<Rightarrow>
     thn (acquire FtableLock)
     (bnd (get_file f fref) (\<lambda>r.
     if r < 1 then release FtableLock
     else
       thn (upd_file f (\<lambda>q. q\<lparr>fref := fref q - 1\<rparr>))
       (bnd (get_file f id) (\<lambda>ff.
       if 0 < fref ff then release FtableLock
       else
         thn (upd_file f (\<lambda>q. q\<lparr>ftype := FD_NONE, readable := False, writable := False, fpipe := 0,
           fip := None, foff := 0\<rparr>))
         (thn (release FtableLock)
         (if ftype ff = FD_PIPE \<and> fpipe ff \<noteq> 0 then pipeclose (fpipe ff) (writable ff)
          else whenk (ftype ff = FD_INODE \<and> fip ff \<noteq> None) (iput (fip ff)))))))))"

definition pipealloc :: "('z file_st_scheme, int \<times> nat option \<times> nat option) kern" where
  "pipealloc =
     bnd filealloc (\<lambda>f0.
     bnd (if f0 = None then ret None else filealloc) (\<lambda>f1.
     let bad = thn (whenk (f0 \<noteq> None) (fileclose f0))
               (thn (whenk (f1 \<noteq> None) (fileclose f1)) (ret (-1, f0, f1))) in
     case (f0, f1) of
       (Some a, Some b) \<Rightarrow>
         bnd kalloc (\<lambda>pi.
         if pi = 0 then bad
         else
           thn (upd_pipe pi (\<lambda>q. q\<lparr>readopen := True, writeopen := True, nread := 0, nwrite := 0\<rparr>))
           (thn (upd_file a (\<lambda>f. f\<lparr>ftype := FD_PIPE, readable := True, writable := False, fpipe := pi\<rparr>))
           (thn (upd_file b (\<lambda>f. f\<lparr>ftype := FD_PIPE, readable := False, writable := True, fpipe := pi\<rparr>))
           (ret (0, f0, f1)))))
     | _ \<Rightarrow> bad))"

text \<open>
  \<open>struct stat\<close> of \<^verbatim>\<open>kernel/include/stat.h\<close> as the 24 bytes \<open>filestat\<close> copies out; the four
  bytes between \<open>nlink\<close> and \<open>size\<close> are padding the code never writes, so what they hold is an
  argument.
\<close>

definition stat_bytes :: "u8 list \<Rightarrow> inode \<Rightarrow> u8 list" where
  "stat_bytes pad ip = le32 (idev ip) @ le32 (inum ip) @ le16 (itype ip) @ le16 (inlink ip) @
     pad @ le64 (ucast (isize ip))"

definition filestat :: "u8 list \<Rightarrow> nat option \<Rightarrow> u64 \<Rightarrow> ('z file_st_scheme, int) kern" where
  "filestat pad fo addr =
     bnd myproc (\<lambda>me.
     case (fo, me) of
       (Some f, Some p) \<Rightarrow>
         bnd (get_proc p pagetable) (\<lambda>pt.
         bnd (get_file f id) (\<lambda>ff.
         if pt = 0 then ret (-1)
         else case (ftype ff, fip ff) of
           (FD_INODE, Some i) \<Rightarrow>
             thn (ilock (Some i))
             (bnd (get_inode i id) (\<lambda>ip.
             thn (iunlock (Some i))
             (bnd (copyout pt addr (stat_bytes pad ip)) (\<lambda>r.
             ret (if r < 0 then -1 else 0)))))
         | _ \<Rightarrow> ret (-1)))
     | _ \<Rightarrow> ret (-1))"

definition min_int :: "int \<Rightarrow> int \<Rightarrow> int" where
  "min_int a b = (if a < b then a else b)"

function inode_read_loop :: "nat \<Rightarrow> u64 \<Rightarrow> u64 \<Rightarrow> int \<Rightarrow> int \<Rightarrow> ('z file_st_scheme, int) kern" where
  "inode_read_loop f pt addr n tot =
     (if tot < n then
        let m = min_int (n - tot) (int BSIZE) in
        bnd (get_file f id) (\<lambda>ff.
        bnd (readi (fip ff) (ucast (foff ff)) (word_of_int m)) (\<lambda>(r, bs).
        if r < 0 then ret (if 0 < tot then tot else -1)
        else if r = 0 then ret tot
        else
          bnd (copyout pt (addr + to_u64 tot) bs) (\<lambda>q.
          if q < 0 then ret (-1)
          else
            thn (upd_file f (\<lambda>g. g\<lparr>foff := foff g + word_of_int r\<rparr>))
            (if r < m then ret (tot + r)
             else inode_read_loop f pt addr n (tot + r)))))
      else ret tot)"
  by pat_completeness auto
termination
  by (relation "measure (\<lambda>(f, pt, addr, n, tot). nat (n - tot))") auto

declare inode_read_loop.simps [simp del]

definition fileread :: "nat option \<Rightarrow> u64 \<Rightarrow> int \<Rightarrow> ('z file_st_scheme, int) kern" where
  "fileread fo addr n = (case fo of None \<Rightarrow> ret (-1) | Some f \<Rightarrow>
     bnd (get_file f id) (\<lambda>ff.
     if \<not> readable ff \<or> n < 0 then ret (-1)
     else case ftype ff of
       FD_CONSOLE \<Rightarrow>
         bnd myproc (\<lambda>me. case me of None \<Rightarrow> ret (-1) | Some p \<Rightarrow>
         bnd (get_proc p pagetable) (\<lambda>pt. consoleread pt addr n))
     | FD_PIPE \<Rightarrow> piperead (fpipe ff) addr n
     | FD_INODE \<Rightarrow>
         bnd myproc (\<lambda>me. case me of None \<Rightarrow> ret (-1) | Some p \<Rightarrow>
         bnd (get_proc p pagetable) (\<lambda>pt.
         if pt = 0 then ret (-1) else inode_read_loop f pt addr n 0))
     | FD_NONE \<Rightarrow> ret (-1)))"

function console_write_loop :: "u64 \<Rightarrow> u64 \<Rightarrow> int \<Rightarrow> int \<Rightarrow> ('z file_st_scheme, int) kern" where
  "console_write_loop pt addr n i =
     (if i < n then
        bnd (copyin pt (addr + to_u64 i) 1) (\<lambda>r.
        case r of
          None \<Rightarrow> thn consolerelease (ret (-1))
        | Some bs \<Rightarrow> thn (consputc (uint (hd bs))) (console_write_loop pt addr n (i + 1)))
      else thn consolerelease (ret n))"
  by pat_completeness auto
termination
  by (relation "measure (\<lambda>(pt, addr, n, i). nat (n - i))") auto

declare console_write_loop.simps [simp del]

function inode_write_loop :: "nat \<Rightarrow> u64 \<Rightarrow> u64 \<Rightarrow> int \<Rightarrow> int \<Rightarrow> ('z file_st_scheme, int) kern" where
  "inode_write_loop f pt addr n tot =
     (if tot < n then
        let m = min_int (n - tot) (int BSIZE) in
        bnd (copyin pt (addr + to_u64 tot) (nat m)) (\<lambda>b.
        case b of
          None \<Rightarrow> ret (if 0 < tot then tot else -1)
        | Some bs \<Rightarrow>
            bnd (get_file f id) (\<lambda>ff.
            bnd (writei (fip ff) (ucast (foff ff)) bs) (\<lambda>w.
            if w < 0 then ret (if 0 < tot then tot else -1)
            else if w = 0 then ret tot
            else
              thn (upd_file f (\<lambda>g. g\<lparr>foff := foff g + word_of_int w\<rparr>))
              (if w < m then ret (tot + w)
               else inode_write_loop f pt addr n (tot + w)))))
      else ret tot)"
  by pat_completeness auto
termination
  by (relation "measure (\<lambda>(f, pt, addr, n, tot). nat (n - tot))") auto

declare inode_write_loop.simps [simp del]

definition filewrite :: "nat option \<Rightarrow> u64 \<Rightarrow> int \<Rightarrow> ('z file_st_scheme, int) kern" where
  "filewrite fo addr n = (case fo of None \<Rightarrow> ret (-1) | Some f \<Rightarrow>
     bnd (get_file f id) (\<lambda>ff.
     if \<not> writable ff \<or> n < 0 then ret (-1)
     else case ftype ff of
       FD_CONSOLE \<Rightarrow>
         bnd myproc (\<lambda>me. case me of None \<Rightarrow> ret (-1) | Some p \<Rightarrow>
         bnd (get_proc p pagetable) (\<lambda>pt.
         if pt = 0 then ret (-1) else thn consoleacquire (console_write_loop pt addr n 0)))
     | FD_PIPE \<Rightarrow> pipewrite (fpipe ff) addr n
     | FD_INODE \<Rightarrow>
         bnd myproc (\<lambda>me. case me of None \<Rightarrow> ret (-1) | Some p \<Rightarrow>
         bnd (get_proc p pagetable) (\<lambda>pt.
         if pt = 0 then ret (-1) else inode_write_loop f pt addr n 0))
     | FD_NONE \<Rightarrow> ret (-1)))"

end
