(* ===== verification/Proc.thy ===== *)
theory Proc
  imports File
begin

section \<open>Processes: \<^verbatim>\<open>kernel/core/proc.c\<close>\<close>

text \<open>
  Creation, loading, duplication and death of processes. User registers live in the trap frame
  page in memory, at the offsets of \<open>struct trapframe\<close>. The channel a parent sleeps on in \<open>wait\<close>
  is its own slot. \<open>wait_loop\<close> is what a process woken in \<open>wait\<close> runs again; a call of
  \<open>proc_exit\<close> leaves the processor for good.
\<close>

definition KSTACK_PAGES :: nat where "KSTACK_PAGES = 4"
definition KSTACK_SIZE :: u64 where "KSTACK_SIZE = 4 * PGSIZE"
definition USERSTACK :: u64 where "USERSTACK = 1"
definition MAXARG :: nat where "MAXARG = 32"

abbreviation tf_epc :: u64 where "tf_epc \<equiv> 24"
abbreviation tf_sp :: u64 where "tf_sp \<equiv> 48"
abbreviation tf_a0 :: u64 where "tf_a0 \<equiv> 112"
abbreviation tf_a1 :: u64 where "tf_a1 \<equiv> 120"
abbreviation tf_a2 :: u64 where "tf_a2 \<equiv> 128"
abbreviation tf_a7 :: u64 where "tf_a7 \<equiv> 168"

definition TRAPFRAME_SIZE :: u32 where "TRAPFRAME_SIZE = 288"

definition get_tf :: "nat \<Rightarrow> u64 \<Rightarrow> ('z kmem_st_scheme, u64) kern" where
  "get_tf p off = gets (\<lambda>s. load64 (mem s) (trapframe (procs s ! p) + off))"

definition set_tf :: "nat \<Rightarrow> u64 \<Rightarrow> u64 \<Rightarrow> ('z kmem_st_scheme, unit) kern" where
  "set_tf p off v = modify (\<lambda>s. s\<lparr>mem := store64 (mem s) (trapframe (procs s ! p) + off) v\<rparr>)"

subsection \<open>Loading a program\<close>

definition ELF_MAGIC :: u32 where "ELF_MAGIC = 0x464c457f"
definition PT_LOAD :: u32 where "PT_LOAD = 1"
definition PF_X :: u32 where "PF_X = 1"
definition PF_W :: u32 where "PF_W = 2"
definition PF_R :: u32 where "PF_R = 4"

record elfhdr =
  e_magic :: u32
  e_entry :: u64
  e_phoff :: u64
  e_phentsize :: u16
  e_phnum :: u16

record proghdr =
  ph_type :: u32
  ph_flags :: u32
  ph_off :: u64
  ph_vaddr :: u64
  ph_filesz :: u64
  ph_memsz :: u64

definition word64_at :: "nat \<Rightarrow> u8 list \<Rightarrow> u64" where
  "word64_at off bs = of_le (slice off 8 bs)"

definition elfhdr_of :: "u8 list \<Rightarrow> elfhdr" where
  "elfhdr_of bs = \<lparr>e_magic = word32_at 0 bs, e_entry = word64_at 24 bs, e_phoff = word64_at 32 bs,
     e_phentsize = word16_at 54 bs, e_phnum = word16_at 56 bs\<rparr>"

definition proghdr_of :: "u8 list \<Rightarrow> proghdr" where
  "proghdr_of bs = \<lparr>ph_type = word32_at 0 bs, ph_flags = word32_at 4 bs, ph_off = word64_at 8 bs,
     ph_vaddr = word64_at 16 bs, ph_filesz = word64_at 32 bs, ph_memsz = word64_at 40 bs\<rparr>"

definition flags2perm :: "u32 \<Rightarrow> u64" where
  "flags2perm flags =
     PTE_U OR (if flags AND PF_R \<noteq> 0 then PTE_R else 0) OR
     (if flags AND PF_W \<noteq> 0 then PTE_W else 0) OR (if flags AND PF_X \<noteq> 0 then PTE_X else 0)"

text \<open>\<open>uvmmaprange\<close>: on failure at address \<open>a\<close> the pages from \<open>va\<close> to \<open>a\<close> are freed again.\<close>

definition uvmmaprange :: "u64 \<Rightarrow> u64 \<Rightarrow> u64 \<Rightarrow> u64 \<Rightarrow> ('z kmem_st_scheme, int) kern" where
  "uvmmaprange pt va len perm =
     (if va mod PGSIZE \<noteq> 0 then panic ''uvmmaprange: va not aligned''
      else if len mod PGSIZE \<noteq> 0 then panic ''uvmmaprange: sz not aligned''
      else
        bnd (search (page_range va (va + len)) (\<lambda>a.
          bnd kalloc (\<lambda>pa.
          if pa = 0 then ret (Some a)
          else
            thn (upd_mem (\<lambda>m. memset m pa 0 4096))
            (bnd (mappages pt a PGSIZE pa perm) (\<lambda>r.
            if r \<noteq> 0 then thn (kfree pa) (ret (Some a)) else ret None)))))
        (\<lambda>err. case err of
           None \<Rightarrow> ret 0
         | Some a \<Rightarrow>
             thn (whenk (va < a) (uvmunmap pt va ((a - va) div PGSIZE) True)) (ret (-1))))"

text \<open>
  \<open>uvmload_from_inode\<close> reads the file straight into the mapped pages. The iteration count is
  bounded by the length because every chunk has at least one byte.
\<close>

function uvmload_from_inode :: "u64 \<Rightarrow> u64 \<Rightarrow> nat \<Rightarrow> u64 \<Rightarrow> u64 \<Rightarrow> u64 \<Rightarrow> ('z fs_st_scheme, int) kern" where
  "uvmload_from_inode pt dstva ip file_off len i =
     (if i < len then
        let va0 = PGROUNDDOWN (dstva + i); off = (dstva + i) - va0;
            n = (if len - i < PGSIZE - off then len - i else PGSIZE - off) in
        bnd (walkaddr pt va0) (\<lambda>pa0.
        if pa0 = 0 then ret (-1)
        else
          bnd (readi (Some ip) (file_off + i) (ucast n)) (\<lambda>(rd, bs).
          thn (upd_mem (\<lambda>m. store_bytes m (pa0 + off) bs))
          (if rd < 0 \<or> to_u64 rd \<noteq> n then ret (-1)
           else uvmload_from_inode pt dstva ip file_off len (i + n))))
      else ret 0)"
  by pat_completeness auto
termination
proof (relation "measure (\<lambda>(pt, d, ip, fo, len, i). unat (len - i))", goal_cases)
  case 1
  then show ?case by simp
next
  case (2 pt dstva ip fo len i va0 off n)
  have "off = of_nat (page_off (dstva + i))"
    using 2(2,3) by (simp add: page_off_def)
  moreover have "page_off (dstva + i) < 18446744073709551616"
    by (rule less_trans [OF page_off_less]) simp
  ultimately have off: "unat off < 4096" by (simp add: unat64_of_nat)
  then have "unat (PGSIZE - off) = 4096 - unat off"
    by (subst unat_sub_small) (simp_all add: PGSIZE_def word_le_nat_alt)
  with off have room: "0 < unat (PGSIZE - off)" by simp
  have "unat (len - i) = unat len - unat i"
    using 2(1) by (intro unat_sub_small) simp
  with 2(1) have left: "0 < unat (len - i)" by (simp add: word_less_nat_alt)
  have n: "n \<le> len - i" "0 < unat n"
    using 2(4) room left by (auto simp: not_less)
  have "unat (len - (i + n)) = unat (len - i) - unat n"
    using unat_sub_small [OF n(1)] by (simp only: diff_diff_eq)
  with n(2) left show ?case by simp
qed

declare uvmload_from_inode.simps [simp del]

text \<open>
  The checks on one program header and the loading of its segment: \<open>Inl\<close> on failure, else the
  end of the image so far.
\<close>

definition load_segment :: "u64 \<Rightarrow> nat \<Rightarrow> u64 \<Rightarrow> proghdr \<Rightarrow> u64 \<Rightarrow> ('z fs_st_scheme, unit + u64) kern" where
  "load_segment pt ip file_size ph hi =
     (if ph_type ph \<noteq> PT_LOAD then ret (Inr hi)
      else if ph_memsz ph = 0 then ret (Inr hi)
      else if ph_memsz ph < ph_filesz ph then ret (Inl ())
      else if ph_vaddr ph mod PGSIZE \<noteq> 0 \<or> ph_off ph mod PGSIZE \<noteq> 0 then ret (Inl ())
      else if file_size < ph_off ph + ph_filesz ph then ret (Inl ())
      else if ph_vaddr ph + ph_memsz ph < ph_vaddr ph then ret (Inl ())
      else
        let seg_end = ph_vaddr ph + ph_memsz ph in
        if TRAPFRAME \<le> seg_end then ret (Inl ())
        else
          let alloc_sz = PGROUNDUP (ph_memsz ph) in
          bnd (uvmmaprange pt (ph_vaddr ph) alloc_sz (flags2perm (ph_flags ph))) (\<lambda>r.
          if r < 0 then ret (Inl ())
          else
            bnd (uvmload_from_inode pt (ph_vaddr ph) ip (ph_off ph) (ph_filesz ph) 0) (\<lambda>r.
            if r < 0 then
              thn (uvmunmap pt (ph_vaddr ph) (alloc_sz div PGSIZE) True) (ret (Inl ()))
            else ret (Inr (if hi < seg_end then seg_end else hi)))))"

text \<open>The loop over the program headers; the result is the success flag and \<open>max\<close>.\<close>

fun load_segments :: "nat list \<Rightarrow> u64 \<Rightarrow> nat \<Rightarrow> u64 \<Rightarrow> elfhdr \<Rightarrow> u64 \<Rightarrow>
    ('z fs_st_scheme, int \<times> u64) kern" where
  "load_segments [] pt ip file_size eh hi = ret (0, hi)"
| "load_segments (n # ns) pt ip file_size eh hi =
     bnd (readi (Some ip) (e_phoff eh + of_nat n * ucast (e_phentsize eh)) 56) (\<lambda>(r, bs).
     if r \<noteq> 56 then ret (-1, hi)
     else
       bnd (load_segment pt ip file_size (proghdr_of bs) hi) (\<lambda>q.
       case q of
         Inl _ \<Rightarrow> ret (-1, hi)
       | Inr hi \<Rightarrow> load_segments ns pt ip file_size eh hi))"

text \<open>
  \<open>load_elf\<close> yields its result and the values it stores through \<open>entry\<close> and \<open>maxva\<close>, which the
  callers have set to 0.
\<close>

definition load_elf :: "u64 \<Rightarrow> u8 list \<Rightarrow> ('z fs_st_scheme, int \<times> u64 \<times> u64) kern" where
  "load_elf pt path =
     bnd (namei path) (\<lambda>ipo. case ipo of None \<Rightarrow> ret (-1, 0, 0) | Some ip \<Rightarrow>
     let bad = thn (iput (Some ip)) (ret (-1, 0, 0)) in
     thn (ilock (Some ip))
     (bnd (get_inode ip id) (\<lambda>node.
     if itype node \<noteq> T_FILE then thn (iunlockput (Some ip)) (ret (-1, 0, 0))
     else
       let file_size = ucast (isize node) :: u64 in
       thn (iunlock (Some ip))
       (if file_size < 64 then bad
        else
          bnd (readi (Some ip) 0 64) (\<lambda>(r, bs).
          let eh = elfhdr_of bs in
          if r \<noteq> 64 then bad
          else if e_magic eh \<noteq> ELF_MAGIC then bad
          else if e_phentsize eh \<noteq> 56 then bad
          else if file_size < e_phoff eh + ucast (e_phnum eh) * ucast (e_phentsize eh) then bad
          else
            bnd (load_segments [0..<unat (e_phnum eh)] pt ip file_size eh 0) (\<lambda>(r, hi).
            thn (iput (Some ip))
            (ret (r, e_entry eh, hi))))))))"

text \<open>\<open>setup_user_stack\<close>: the new size, which is also the initial stack pointer, or \<open>None\<close>.\<close>

definition setup_user_stack :: "u64 \<Rightarrow> u64 \<Rightarrow> ('z kmem_st_scheme, u64 option) kern" where
  "setup_user_stack pt oldsz =
     (let base = PGROUNDUP oldsz; stack_bytes = (USERSTACK + 1) * PGSIZE in
      if base + stack_bytes < base \<or> TRAPFRAME < base + stack_bytes then ret None
      else
        bnd (uvmalloc pt base (base + stack_bytes) PTE_W) (\<lambda>newsz.
        if newsz = 0 then ret None
        else
          thn (uvmclear pt (newsz - stack_bytes))
          (ret (Some newsz))))"

subsection \<open>Page tables and slots of processes\<close>

definition proc_pagetable :: "nat \<Rightarrow> ('z vm_st_scheme, u64) kern" where
  "proc_pagetable p =
     bnd uvmcreate (\<lambda>pt.
     if pt = 0 then ret 0
     else
       bnd (gets trampoline) (\<lambda>tr.
       bnd (mappages pt TRAMPOLINE PGSIZE tr (PTE_R OR PTE_X)) (\<lambda>r.
       if r \<noteq> 0 then
         thn (uvmunmap pt TRAMPOLINE 1 False)
         (thn (uvmfree pt 0)
         (ret 0))
       else
         bnd (get_proc p trapframe) (\<lambda>tf.
         bnd (mappages pt TRAPFRAME PGSIZE tf (PTE_R OR PTE_W)) (\<lambda>r.
         if r \<noteq> 0 then
           thn (uvmunmap pt TRAPFRAME 1 False)
           (thn (uvmunmap pt TRAMPOLINE 1 False)
           (thn (uvmfree pt 0)
           (ret 0)))
         else ret pt)))))"

definition proc_freepagetable :: "u64 \<Rightarrow> u64 \<Rightarrow> ('z kmem_st_scheme, unit) kern" where
  "proc_freepagetable pt len =
     thn (uvmunmap pt TRAPFRAME 1 False)
     (thn (uvmunmap pt TRAMPOLINE 1 False)
     (uvmfree pt len))"

definition freeproc :: "nat \<Rightarrow> ('z fs_st_scheme, unit) kern" where
  "freeproc p =
     bnd (get_proc p id) (\<lambda>q.
     thn (whenk (pagetable q \<noteq> 0)
       (thn (proc_freepagetable (pagetable q) (sz q))
       (upd_proc p (\<lambda>q. q\<lparr>pagetable := 0\<rparr>))))
     (thn (upd_proc p (\<lambda>q. q\<lparr>sz := 0\<rparr>))
     (thn (whenk (trapframe q \<noteq> 0)
       (thn (kfree (trapframe q))
       (upd_proc p (\<lambda>q. q\<lparr>trapframe := 0\<rparr>))))
     (thn (upd_proc p (\<lambda>q. q\<lparr>ofile := replicate NOFILE None\<rparr>))
     (thn (whenk (cwd q \<noteq> None)
       (thn (iput (cwd q))
       (upd_proc p (\<lambda>q. q\<lparr>cwd := None\<rparr>))))
     (upd_proc p (\<lambda>q. q\<lparr>pid := 0, pstate := UNUSED, chan := None, killed := 0, xstate := 0,
        parent := None, start := NoCode, cpu_id := -1, context_of := zero_context\<rparr>)))))))"

definition align16 :: "u64 \<Rightarrow> u64" where
  "align16 a = a AND NOT 0xF"

definition allocproc :: "('z fs_st_scheme, nat option) kern" where
  "allocproc =
     bnd (search [0..<NPROC] (\<lambda>i.
       thn (acquire (ProcLock i))
       (bnd (get_proc i pstate) (\<lambda>st.
       if st \<noteq> UNUSED then thn (release (ProcLock i)) (ret None)
       else
         bnd allocpid (\<lambda>n.
         thn (upd_proc i (\<lambda>q. q\<lparr>pid := n, pstate := USED, chan := None, killed := 0, xstate := 0,
           parent := None, cwd := None, ofile := replicate NOFILE None, start := NoCode,
           cpu_id := -1, sz := 0\<rparr>))
         (bnd kalloc (\<lambda>tf.
         thn (upd_proc i (\<lambda>q. q\<lparr>trapframe := tf\<rparr>))
         (if tf = 0 then thn (freeproc i) (thn (release (ProcLock i)) (ret (Some None)))
          else
            thn (upd_mem (\<lambda>m. memset m tf 0 4096))
            (bnd (proc_pagetable i) (\<lambda>pt.
            thn (upd_proc i (\<lambda>q. q\<lparr>pagetable := pt\<rparr>))
            (if pt = 0 then thn (freeproc i) (thn (release (ProcLock i)) (ret (Some None)))
             else
               thn (upd_proc i (\<lambda>q. q\<lparr>context_of := zero_context\<rparr>))
               (bnd (get_proc i kstack_top) (\<lambda>top.
               if top = 0 then panic ''allocproc: no kstack''
               else
                 thn (upd_proc i (\<lambda>q. q\<lparr>context_of := zero_context\<lparr>c_sp := align16 top, c_ra := UserEntry\<rparr>\<rparr>))
                 (ret (Some (Some i))))))))))))))))
     (\<lambda>r. case r of Some v \<Rightarrow> ret v | None \<Rightarrow> ret None)"

definition kstack_top_of :: "nat \<Rightarrow> u64" where
  "kstack_top_of ix = TRAMPOLINE - of_nat (ix * (KSTACK_PAGES + 1) + 1) * PGSIZE"

definition proc_init :: "('z fs_st_scheme, unit) kern" where
  "proc_init =
     thn (for_each [0..<NPROC] (\<lambda>i.
       upd_proc i (\<lambda>q. q\<lparr>pid := 0, pstate := UNUSED, chan := None, killed := 0, xstate := 0,
         parent := None, cwd := None, ofile := replicate NOFILE None, start := NoCode, pagetable := 0,
         trapframe := 0, sz := 0, context_of := zero_context, kstack_base := 0, kstack_top := 0,
         cpu_id := -1\<rparr>)))
     (for_each [0..<NPROC] (\<lambda>i.
       let top = kstack_top_of i; base = top - KSTACK_SIZE in
       thn (upd_proc i (\<lambda>q. q\<lparr>kstack_base := base, kstack_top := top\<rparr>))
       (for_each [0..<KSTACK_PAGES] (\<lambda>pg.
         bnd kalloc (\<lambda>pa.
         if pa = 0 then panic ''proc_init: kalloc kstack''
         else
           thn (upd_mem (\<lambda>m. memset m pa 0 4096))
           (bnd (gets kernel_pagetable) (\<lambda>kpt.
           bnd (mappages kpt (base + of_nat pg * PGSIZE) PGSIZE pa (PTE_R OR PTE_W)) (\<lambda>r.
           if r \<noteq> 0 then panic ''proc_init: mappages kstack'' else ret ()))))))))"

definition proc_create :: "code \<Rightarrow> ('z kproc_scheme, int) kern" where
  "proc_create fn =
     bnd (search [0..<NPROC] (\<lambda>i.
       thn (acquire (ProcLock i))
       (bnd (get_proc i pstate) (\<lambda>st.
       if st \<noteq> UNUSED then thn (release (ProcLock i)) (ret None)
       else
         bnd allocpid (\<lambda>n.
         thn (upd_proc i (\<lambda>q. q\<lparr>pid := n, pstate := RUNNABLE, chan := None, killed := 0, xstate := 0,
           parent := None, cwd := None, ofile := replicate NOFILE None, start := fn, pagetable := 0,
           trapframe := 0, sz := 0, cpu_id := -1, context_of := zero_context\<rparr>))
         (bnd (get_proc i kstack_top) (\<lambda>top.
         if top = 0 then panic ''proc_create: no kstack''
         else
           thn (upd_proc i (\<lambda>q. q\<lparr>context_of := zero_context\<lparr>c_sp := align16 top, c_ra := ProcEntry\<rparr>\<rparr>))
           (bnd (get_proc i pid) (\<lambda>n.
           thn (release (ProcLock i))
           (ret (Some n)))))))))))
     (\<lambda>r. case r of Some n \<Rightarrow> ret n | None \<Rightarrow> ret (-1))"

definition proc_create_user :: "u8 list \<Rightarrow> ('z fs_st_scheme, int) kern" where
  "proc_create_user path =
     bnd allocproc (\<lambda>po. case po of None \<Rightarrow> ret (-1) | Some p \<Rightarrow>
     thn (release (ProcLock p))
     (bnd (get_proc p pagetable) (\<lambda>pt.
     bnd (load_elf pt path) (\<lambda>(r, entry, maxva).
     let bad = thn (acquire (ProcLock p))
               (thn (upd_proc p (\<lambda>q. q\<lparr>sz := PGROUNDUP maxva\<rparr>))
               (thn (freeproc p)
               (thn (release (ProcLock p))
               (ret (-1))))) in
     if r < 0 then bad
     else
       bnd (setup_user_stack pt maxva) (\<lambda>st. case st of None \<Rightarrow> bad | Some newsz \<Rightarrow>
       thn (acquire (ProcLock p))
       (thn (upd_proc p (\<lambda>q. q\<lparr>sz := newsz\<rparr>))
       (thn (set_tf p tf_epc entry)
       (thn (set_tf p tf_sp newsz)
       (thn (upd_proc p (\<lambda>q. q\<lparr>pstate := RUNNABLE\<rparr>))
       (bnd (get_proc p pid) (\<lambda>n.
       thn (release (ProcLock p))
       (ret n))))))))))))"

text \<open>\<open>userinit\<close>; the path is \<^verbatim>\<open>/init\<close>.\<close>

definition userinit :: "('z file_st_scheme, unit) kern" where
  "userinit =
     bnd (proc_create_user [47, 105, 110, 105, 116]) (\<lambda>n.
     if n < 0 then panic ''userinit''
     else
       thn (modify (\<lambda>s. s\<lparr>initproc := (case find (\<lambda>i. pid (procs s ! i) = n) [0..<NPROC] of
              Some i \<Rightarrow> Some i | None \<Rightarrow> initproc s)\<rparr>))
       (bnd (gets initproc) (\<lambda>io. case io of None \<Rightarrow> panic ''userinit: no initproc'' | Some ip \<Rightarrow>
       bnd (namei [47]) (\<lambda>root. case root of None \<Rightarrow> panic ''userinit: no root'' | Some r \<Rightarrow>
       thn (upd_proc ip (\<lambda>q. q\<lparr>cwd := Some r\<rparr>))
       (bnd filealloc (\<lambda>fo. case fo of None \<Rightarrow> panic ''userinit: filealloc'' | Some f \<Rightarrow>
       thn (upd_file f (\<lambda>g. g\<lparr>ftype := FD_CONSOLE, readable := True, writable := True\<rparr>))
       (thn (upd_proc ip (\<lambda>q. q\<lparr>ofile := (ofile q)[0 := Some f]\<rparr>))
       (bnd (filedup (Some f)) (\<lambda>f1.
       thn (upd_proc ip (\<lambda>q. q\<lparr>ofile := (ofile q)[1 := f1]\<rparr>))
       (bnd (filedup (Some f)) (\<lambda>f2.
       upd_proc ip (\<lambda>q. q\<lparr>ofile := (ofile q)[2 := f2]\<rparr>))))))))))))"

subsection \<open>System calls on processes\<close>

definition growproc :: "int \<Rightarrow> ('z kmem_st_scheme, int) kern" where
  "growproc n =
     bnd myproc (\<lambda>me. case me of None \<Rightarrow> ret (-1) | Some p \<Rightarrow>
     bnd (get_proc p id) (\<lambda>q.
     if pagetable q = 0 then ret (-1)
     else if 0 < n then
       let newsz = sz q + to_u64 n in
       if newsz < sz q \<or> TRAPFRAME < newsz then ret (-1)
       else
         bnd (uvmalloc (pagetable q) (sz q) newsz PTE_W) (\<lambda>allocsz.
         if allocsz = 0 then ret (-1)
         else thn (upd_proc p (\<lambda>q. q\<lparr>sz := allocsz\<rparr>)) (ret 0))
     else if n < 0 then
       let newsz = sint (sz q) + n in
       if newsz < 0 then ret (-1)
       else
         bnd (uvmdealloc (pagetable q) (sz q) (to_u64 newsz)) (\<lambda>v.
         thn (upd_proc p (\<lambda>q. q\<lparr>sz := v\<rparr>)) (ret 0))
     else ret 0))"

definition fork :: "('z file_st_scheme, int) kern" where
  "fork =
     bnd myproc (\<lambda>me. case me of None \<Rightarrow> ret (-1) | Some p \<Rightarrow>
     bnd (get_proc p id) (\<lambda>pp.
     if pagetable pp = 0 then ret (-1)
     else
       bnd allocproc (\<lambda>no. case no of None \<Rightarrow> ret (-1) | Some np \<Rightarrow>
       bnd (get_proc np id) (\<lambda>nq.
       bnd (uvmcopy (pagetable pp) (pagetable nq) (sz pp)) (\<lambda>r.
       if r < 0 then
         thn (freeproc np)
         (thn (release (ProcLock np))
         (ret (-1)))
       else
         thn (upd_proc np (\<lambda>q. q\<lparr>sz := sz pp\<rparr>))
         (thn (upd_mem (\<lambda>m. memmove m (trapframe nq) (trapframe pp) TRAPFRAME_SIZE))
         (thn (set_tf np tf_a0 0)
         (thn (for_each [0..<NOFILE] (\<lambda>fd.
           whenk (ofile pp ! fd \<noteq> None)
             (bnd (filedup (ofile pp ! fd)) (\<lambda>f.
              upd_proc np (\<lambda>q. q\<lparr>ofile := (ofile q)[fd := f]\<rparr>)))))
         (thn (whenk (cwd pp \<noteq> None)
           (bnd (idup (cwd pp)) (\<lambda>c. upd_proc np (\<lambda>q. q\<lparr>cwd := c\<rparr>))))
         (bnd (get_proc np pid) (\<lambda>n.
         thn (release (ProcLock np))
         (thn (acquire WaitLock)
         (thn (upd_proc np (\<lambda>q. q\<lparr>parent := Some p\<rparr>))
         (thn (release WaitLock)
         (thn (acquire (ProcLock np))
         (thn (upd_proc np (\<lambda>q. q\<lparr>pstate := RUNNABLE\<rparr>))
         (thn (release (ProcLock np))
         (ret n))))))))))))))))))"

text \<open>
  One scan of the table in \<open>wait\<close>: \<open>Inl\<close> the result of the call, or \<open>Inr\<close> whether the process
  has children.
\<close>

fun wait_scan :: "nat list \<Rightarrow> nat \<Rightarrow> u64 \<Rightarrow> bool \<Rightarrow> ('z fs_st_scheme, int + bool) kern" where
  "wait_scan [] p addr havekids = ret (Inr havekids)"
| "wait_scan (i # is) p addr havekids =
     bnd (get_proc i parent) (\<lambda>pa.
     if pa \<noteq> Some p then wait_scan is p addr havekids
     else
       thn (acquire (ProcLock i))
       (bnd (get_proc i id) (\<lambda>pp.
       if pstate pp = ZOMBIE then
         bnd (get_proc p pagetable) (\<lambda>pt.
         bnd (if addr \<noteq> 0 then copyout pt addr (le32 (word_of_int (xstate pp))) else ret 0) (\<lambda>r.
         if r < 0 then
           thn (release (ProcLock i))
           (thn (release WaitLock)
           (ret (Inl (-1))))
         else
           thn (freeproc i)
           (thn (release (ProcLock i))
           (thn (release WaitLock)
           (ret (Inl (pid pp)))))))
       else
         thn (release (ProcLock i))
         (wait_scan is p addr True))))"

definition wait_loop :: "nat \<Rightarrow> u64 \<Rightarrow> ('z fs_st_scheme, int) kern" where
  "wait_loop p addr =
     bnd (wait_scan [0..<NPROC] p addr False) (\<lambda>r. case r of Inl v \<Rightarrow> ret v | Inr havekids \<Rightarrow>
     bnd (get_proc p killed) (\<lambda>k.
     if \<not> havekids \<or> k \<noteq> 0 then thn (release WaitLock) (ret (-1))
     else sleep (ChProc p) WaitLock))"

definition wait :: "u64 \<Rightarrow> ('z fs_st_scheme, int) kern" where
  "wait addr =
     bnd myproc (\<lambda>me. case me of None \<Rightarrow> ret (-1) | Some p \<Rightarrow>
     thn (acquire WaitLock) (wait_loop p addr))"

definition wait_resume :: "nat \<Rightarrow> u64 \<Rightarrow> ('z fs_st_scheme, int) kern" where
  "wait_resume p addr = thn (sleep_resume WaitLock) (wait_loop p addr)"

text \<open>
  The argument strings \<open>exec\<close> pushes on the new stack, highest first; the result is the stack
  pointer and the addresses of the strings, or \<open>None\<close> for \<open>goto bad\<close>.
\<close>

fun push_args :: "u64 \<Rightarrow> u64 \<Rightarrow> u64 \<Rightarrow> u64 list \<Rightarrow> u8 list list \<Rightarrow>
    ('z kmem_st_scheme, (u64 \<times> u64 list) option) kern" where
  "push_args pt stackbase sp uargv [] = ret (Some (sp, uargv))"
| "push_args pt stackbase sp uargv (arg # args) =
     (if MAXARG \<le> length uargv then ret None
      else
        let sp = align16 (sp - of_nat (length arg + 1)) in
        if sp < stackbase then ret None
        else
          bnd (copyout pt sp (arg @ [0])) (\<lambda>r.
          if r < 0 then ret None
          else push_args pt stackbase sp (uargv @ [sp]) args))"

definition exec :: "u8 list \<Rightarrow> u8 list list \<Rightarrow> ('z fs_st_scheme, int) kern" where
  "exec name argv =
     bnd myproc (\<lambda>me. case me of None \<Rightarrow> ret (-1) | Some p \<Rightarrow>
     bnd (get_proc p pagetable) (\<lambda>pt.
     if pt = 0 then ret (-1)
     else
       bnd (proc_pagetable p) (\<lambda>newpt.
       if newpt = 0 then ret (-1)
       else
         let bad = (\<lambda>freesz. thn (proc_freepagetable newpt freesz) (ret (-1))) in
         bnd (load_elf newpt name) (\<lambda>(r, entry, maxva).
         if r < 0 then bad 0
         else
           bnd (setup_user_stack newpt maxva) (\<lambda>st. case st of
             None \<Rightarrow> bad (PGROUNDUP maxva)
           | Some newsz \<Rightarrow>
               let stackbase = newsz - USERSTACK * PGSIZE in
               bnd (push_args newpt stackbase newsz [] argv) (\<lambda>args. case args of
                 None \<Rightarrow> bad newsz
               | Some (sp, uargv) \<Rightarrow>
                   let argc = length uargv;
                       sp = align16 (sp - of_nat (argc + 1) * 8) in
                   if sp < stackbase then bad newsz
                   else
                     bnd (copyout newpt sp (concat (map le64 (uargv @ [0])))) (\<lambda>r.
                     if r < 0 then bad newsz
                     else
                       bnd (get_proc p id) (\<lambda>q.
                       thn (upd_proc p (\<lambda>q. q\<lparr>pagetable := newpt, sz := newsz\<rparr>))
                       (thn (set_tf p tf_epc entry)
                       (thn (set_tf p tf_sp sp)
                       (thn (set_tf p tf_a1 sp)
                       (thn (proc_freepagetable (pagetable q) (sz q))
                       (ret (int argc))))))))))))))"

definition proc_exit :: "int \<Rightarrow> ('z file_st_scheme, 'a) kern" where
  "proc_exit status =
     bnd myproc (\<lambda>me. case me of None \<Rightarrow> panic ''proc_exit'' | Some p \<Rightarrow>
     bnd (gets initproc) (\<lambda>init.
     if init = Some p then panic ''init exiting''
     else
       thn (for_each [0..<NOFILE] (\<lambda>fd.
         bnd (get_proc p (\<lambda>q. ofile q ! fd)) (\<lambda>f.
         whenk (f \<noteq> None)
           (thn (upd_proc p (\<lambda>q. q\<lparr>ofile := (ofile q)[fd := None]\<rparr>))
           (fileclose f)))))
       (bnd (get_proc p cwd) (\<lambda>c.
       thn (whenk (c \<noteq> None) (thn (iput c) (upd_proc p (\<lambda>q. q\<lparr>cwd := None\<rparr>))))
       (thn (acquire WaitLock)
       (thn (for_each [0..<NPROC] (\<lambda>i.
         bnd (get_proc i parent) (\<lambda>pa.
         whenk (pa = Some p)
           (thn (upd_proc i (\<lambda>q. q\<lparr>parent := init\<rparr>))
           (wakeup_on (map_option ChProc init))))))
       (bnd (get_proc p parent) (\<lambda>pa.
       thn (whenk (pa \<noteq> None) (wakeup_on (map_option ChProc pa)))
       (thn (acquire (ProcLock p))
       (thn (upd_proc p (\<lambda>q. q\<lparr>xstate := status, pstate := ZOMBIE\<rparr>))
       (thn (release WaitLock)
       (leaves
         (thn sched
         (scheduler_return p))))))))))))))"

end
