(* ===== verification/Clock.thy ===== *)
theory Clock
  imports Proc
begin

section \<open>The tick counter: \<^verbatim>\<open>kernel/core/trap.c\<close>\<close>

text \<open>
  The global 32-bit tick counter, advanced by the timer interrupt of hart 0, and the sleep for
  a number of ticks, whose test is on the difference of two counter values and so survives
  the counter's wrap-around. \<open>ticks_sleep_loop\<close> is what a woken sleeper runs again; the counter
  value it started from is its argument.
\<close>

record clock_st = file_st +
  ticks :: u32

definition on_timer_tick :: "('z clock_st_scheme, unit) kern" where
  "on_timer_tick =
     bnd (gets hart) (\<lambda>h.
     if h \<noteq> 0 then ret ()
     else
       thn (acquire TicksLock)
       (thn (modify (\<lambda>s. s\<lparr>ticks := ticks s + 1\<rparr>))
       (thn (wakeup ChTicks)
       (release TicksLock))))"

definition ticks_get :: "('z clock_st_scheme, u32) kern" where
  "ticks_get =
     thn (acquire TicksLock)
     (bnd (gets ticks) (\<lambda>t.
     thn (release TicksLock)
     (ret t)))"

definition ticks_sleep_loop :: "u32 \<Rightarrow> u32 \<Rightarrow> ('z clock_st_scheme, int) kern" where
  "ticks_sleep_loop start0 n =
     bnd (gets ticks) (\<lambda>t.
     if t - start0 < n then
       bnd myproc (\<lambda>me.
       bnd (case me of None \<Rightarrow> ret False | Some p \<Rightarrow> get_proc p (\<lambda>q. killed q \<noteq> 0)) (\<lambda>k.
       if k then thn (release TicksLock) (ret (-1))
       else sleep ChTicks TicksLock))
     else thn (release TicksLock) (ret 0))"

definition ticks_sleep :: "u32 \<Rightarrow> ('z clock_st_scheme, int) kern" where
  "ticks_sleep n =
     thn (acquire TicksLock)
     (bnd (gets ticks) (\<lambda>start0. ticks_sleep_loop start0 n))"

definition ticks_sleep_resume :: "u32 \<Rightarrow> u32 \<Rightarrow> ('z clock_st_scheme, int) kern" where
  "ticks_sleep_resume start0 n = thn (sleep_resume TicksLock) (ticks_sleep_loop start0 n)"

end
