(* ===== verification/Syscall.thy ===== *)
theory Syscall
  imports Clock
begin

section \<open>System calls: \<^verbatim>\<open>kernel/core/syscall.c\<close>\<close>

text \<open>
  The handlers take their arguments from the caller's trap frame and return the 64-bit value
  the dispatcher stores in \<open>a0\<close>. A handler that dereferences the current process when there is
  none faults, which ends in \<open>panic("kerneltrap")\<close>. What the handlers print is not modelled.
\<close>

definition MAXPATH :: nat where "MAXPATH = 128"

definition me :: "('z kproc_scheme, nat) kern" where
  "me = bnd myproc (\<lambda>p. case p of None \<Rightarrow> panic ''kerneltrap'' | Some i \<Rightarrow> ret i)"

abbreviation error :: u64 where "error \<equiv> - 1"

text \<open>The file behind a descriptor argument, or \<open>None\<close> when it is out of range or closed.\<close>

definition fd_file :: "nat \<Rightarrow> int \<Rightarrow> ('z kproc_scheme, nat option) kern" where
  "fd_file p fd =
     (if fd < 0 \<or> int NOFILE \<le> fd then ret None
      else get_proc p (\<lambda>q. ofile q ! nat fd))"

definition sys_write :: "('z clock_st_scheme, u64) kern" where
  "sys_write =
     bnd me (\<lambda>p.
     bnd (get_tf p tf_a0) (\<lambda>a0. bnd (get_tf p tf_a1) (\<lambda>va. bnd (get_tf p tf_a2) (\<lambda>a2.
     let fd = c_int a0; n = c_int a2 in
     if n < 0 then ret error
     else
       bnd (fd_file p fd) (\<lambda>fo. case fo of None \<Rightarrow> ret error | Some f \<Rightarrow>
       bnd (filewrite (Some f) va n) (\<lambda>r. ret (to_u64 r)))))))"

definition sys_read :: "('z clock_st_scheme, u64) kern" where
  "sys_read =
     bnd me (\<lambda>p.
     bnd (get_tf p tf_a0) (\<lambda>a0. bnd (get_tf p tf_a1) (\<lambda>va. bnd (get_tf p tf_a2) (\<lambda>a2.
     let fd = c_int a0; n = c_int a2 in
     if n < 0 then ret error
     else
       bnd (fd_file p fd) (\<lambda>fo. case fo of None \<Rightarrow> ret error | Some f \<Rightarrow>
       bnd (fileread (Some f) va n) (\<lambda>r. ret (to_u64 r)))))))"

definition sys_yield :: "('z clock_st_scheme, u64) kern" where
  "sys_yield = thn yield (ret 0)"

definition sys_exit :: "('z clock_st_scheme, u64) kern" where
  "sys_exit = bnd me (\<lambda>p. bnd (get_tf p tf_a0) (\<lambda>a0. proc_exit (c_int a0)))"

definition sys_sbrk :: "('z clock_st_scheme, u64) kern" where
  "sys_sbrk =
     bnd me (\<lambda>p.
     bnd (get_tf p tf_a0) (\<lambda>a0.
     bnd (get_proc p sz) (\<lambda>addr.
     bnd (growproc (c_int a0)) (\<lambda>r.
     ret (if r < 0 then error else addr)))))"

definition sys_fork :: "('z clock_st_scheme, u64) kern" where
  "sys_fork = bnd fork (\<lambda>r. ret (to_u64 r))"

definition sys_wait :: "('z clock_st_scheme, u64) kern" where
  "sys_wait =
     bnd me (\<lambda>p. bnd (get_tf p tf_a0) (\<lambda>addr. bnd (wait addr) (\<lambda>r. ret (to_u64 r))))"

text \<open>The loop of \<open>sys_exec\<close> that copies the argument vector in; \<open>None\<close> is an error return.\<close>

fun fetch_args :: "nat list \<Rightarrow> u64 \<Rightarrow> u64 \<Rightarrow> u8 list list \<Rightarrow>
    ('z kmem_st_scheme, u8 list list option) kern" where
  "fetch_args [] pt uargv args = ret (Some args)"
| "fetch_args (i # is) pt uargv args =
     bnd (copyin pt (uargv + of_nat i * 8) 8) (\<lambda>r. case r of None \<Rightarrow> ret None | Some bs \<Rightarrow>
     let uptr = of_le bs in
     if uptr = 0 then ret (Some args)
     else
       bnd (copyinstr pt uptr MAXPATH) (\<lambda>a. case a of None \<Rightarrow> ret None | Some arg \<Rightarrow>
       if i = MAXARG - 1 then ret None
       else fetch_args is pt uargv (args @ [arg])))"

definition sys_exec :: "('z clock_st_scheme, u64) kern" where
  "sys_exec =
     bnd me (\<lambda>p.
     bnd (get_proc p pagetable) (\<lambda>pt.
     bnd (get_tf p tf_a0) (\<lambda>a0.
     bnd (copyinstr pt a0 MAXPATH) (\<lambda>po. case po of None \<Rightarrow> ret error | Some path \<Rightarrow>
     bnd (get_tf p tf_a1) (\<lambda>uargv.
     bnd (if uargv \<noteq> 0 then fetch_args [0..<MAXARG] pt uargv [] else ret (Some [])) (\<lambda>ao.
     case ao of None \<Rightarrow> ret error | Some args \<Rightarrow>
     bnd (exec path args) (\<lambda>r. ret (to_u64 r))))))))"

definition sys_close :: "('z clock_st_scheme, u64) kern" where
  "sys_close =
     bnd me (\<lambda>p.
     bnd (get_tf p tf_a0) (\<lambda>a0.
     let fd = c_int a0 in
     bnd (fd_file p fd) (\<lambda>fo. case fo of None \<Rightarrow> ret error | Some f \<Rightarrow>
     thn (upd_proc p (\<lambda>q. q\<lparr>ofile := (ofile q)[nat fd := None]\<rparr>))
     (thn (fileclose (Some f))
     (ret 0)))))"

definition sys_fstat :: "u8 list \<Rightarrow> ('z clock_st_scheme, u64) kern" where
  "sys_fstat pad =
     bnd me (\<lambda>p.
     bnd (get_tf p tf_a0) (\<lambda>a0. bnd (get_tf p tf_a1) (\<lambda>st.
     bnd (fd_file p (c_int a0)) (\<lambda>fo. case fo of None \<Rightarrow> ret error | Some f \<Rightarrow>
     bnd (filestat pad (Some f) st) (\<lambda>r. ret (to_u64 r))))))"

text \<open>The first free descriptor of a process.\<close>

definition free_fd :: "proc \<Rightarrow> nat option" where
  "free_fd q = find (\<lambda>i. ofile q ! i = None) [0..<NOFILE]"

definition sys_dup :: "('z clock_st_scheme, u64) kern" where
  "sys_dup =
     bnd me (\<lambda>p.
     bnd (get_tf p tf_a0) (\<lambda>a0.
     bnd (fd_file p (c_int a0)) (\<lambda>fo. case fo of None \<Rightarrow> ret error | Some f \<Rightarrow>
     bnd (get_proc p free_fd) (\<lambda>r. case r of None \<Rightarrow> ret error | Some i \<Rightarrow>
     bnd (filedup (Some f)) (\<lambda>g.
     thn (upd_proc p (\<lambda>q. q\<lparr>ofile := (ofile q)[i := g]\<rparr>))
     (ret (if g = None then error else of_nat i)))))))"

fun streq :: "u8 list \<Rightarrow> u8 list \<Rightarrow> bool" where
  "streq (a # as) (b # bs) = (if a \<noteq> b then False else streq as bs)"
| "streq as bs = (as = [] \<and> bs = [])"

definition fdalloc :: "nat \<Rightarrow> ('z kproc_scheme, int) kern" where
  "fdalloc f =
     bnd me (\<lambda>p.
     bnd (get_proc p free_fd) (\<lambda>r. case r of None \<Rightarrow> ret (-1) | Some i \<Rightarrow>
     thn (upd_proc p (\<lambda>q. q\<lparr>ofile := (ofile q)[i := Some f]\<rparr>))
     (ret (int i))))"

text \<open>The type of an inode, read under its lock.\<close>

definition locked_inode :: "nat \<Rightarrow> (inode \<Rightarrow> 'a) \<Rightarrow> ('z fs_st_scheme, 'a) kern" where
  "locked_inode i f =
     thn (ilock (Some i))
     (bnd (get_inode i f) (\<lambda>v.
     thn (iunlock (Some i))
     (ret v)))"

text \<open>An update of an inode under its lock, written to disk.\<close>

definition change_inode :: "nat \<Rightarrow> (inode \<Rightarrow> inode) \<Rightarrow> ('z fs_st_scheme, unit) kern" where
  "change_inode i f =
     thn (ilock (Some i))
     (thn (upd_inode i f)
     (thn (iupdate (Some i))
     (iunlock (Some i))))"

definition T_DEVICE :: u16 where "T_DEVICE = 3"

definition create :: "u8 list \<Rightarrow> u16 \<Rightarrow> ('z fs_st_scheme, nat option) kern" where
  "create path type =
     bnd (nameiparent path) (\<lambda>(dpo, name). case dpo of None \<Rightarrow> ret None | Some dp \<Rightarrow>
     bnd (locked_inode dp itype) (\<lambda>dtype.
     if dtype \<noteq> T_DIR then thn (iput (Some dp)) (ret None)
     else
       bnd (dirlookup dp name) (\<lambda>found. case found of
         Some (ip, _) \<Rightarrow>
           bnd (locked_inode ip itype) (\<lambda>ity.
           if type = T_FILE \<and> (ity = T_FILE \<or> ity = T_DEVICE) then
             thn (iput (Some dp)) (ret (Some ip))
           else
             thn (iput (Some ip))
             (thn (iput (Some dp))
             (ret None)))
       | None \<Rightarrow>
           bnd (get_inode dp idev) (\<lambda>dev.
           bnd (ialloc dev type) (\<lambda>ipo. case ipo of None \<Rightarrow> thn (iput (Some dp)) (ret None) | Some ip \<Rightarrow>
           thn (change_inode ip (\<lambda>n. n\<lparr>itype := type, imajor := 0, iminor := 0, inlink := 1, isize := 0,
             iaddrs := replicate (NDIRECT + 1) 0\<rparr>))
           (let fail = thn (change_inode ip (\<lambda>n. n\<lparr>inlink := 0\<rparr>))
                       (thn (iput (Some ip))
                       (thn (iput (Some dp))
                       (ret None))) in
            bnd (get_inode ip inum) (\<lambda>ino.
            bnd (get_inode dp inum) (\<lambda>dino.
            bnd (if type = T_DIR then
                   bnd (dirlink ip [46] ino) (\<lambda>r.
                   if r < 0 then ret r else dirlink ip [46, 46] dino)
                 else ret 0) (\<lambda>r.
            if r < 0 then fail
            else
              bnd (dirlink dp name ino) (\<lambda>r.
              if r < 0 then fail
              else
                thn (whenk (type = T_DIR) (change_inode dp (\<lambda>n. n\<lparr>inlink := inlink n + 1\<rparr>)))
                (thn (iput (Some dp))
                (ret (Some ip)))))))))))))"

definition O_WRONLY :: int where "O_WRONLY = 0x001"
definition O_RDWR :: int where "O_RDWR = 0x002"
definition O_CREATE :: int where "O_CREATE = 0x200"
definition O_TRUNC :: int where "O_TRUNC = 0x400"

definition may_read :: "int \<Rightarrow> bool" where
  "may_read omode \<longleftrightarrow> omode AND O_WRONLY = 0"

definition may_write :: "int \<Rightarrow> bool" where
  "may_write omode \<longleftrightarrow> omode AND O_WRONLY \<noteq> 0 \<or> omode AND O_RDWR \<noteq> 0"

text \<open>\<^verbatim>\<open>console\<close>\<close>

definition console_name :: "u8 list" where
  "console_name = [99, 111, 110, 115, 111, 108, 101]"

definition sys_open :: "('z clock_st_scheme, u64) kern" where
  "sys_open =
     bnd me (\<lambda>p.
     bnd (get_tf p tf_a1) (\<lambda>a1.
     let omode = c_int a1 in
     bnd (get_proc p pagetable) (\<lambda>pt.
     bnd (get_tf p tf_a0) (\<lambda>a0.
     bnd (copyinstr pt a0 MAXPATH) (\<lambda>po. case po of None \<Rightarrow> ret error | Some path \<Rightarrow>
     bnd filealloc (\<lambda>fo. case fo of None \<Rightarrow> ret error | Some f \<Rightarrow>
     bnd (fdalloc f) (\<lambda>fd.
     let undo = thn (upd_proc p (\<lambda>q. q\<lparr>ofile := (ofile q)[nat fd := None]\<rparr>))
                (thn (fileclose (Some f))
                (ret error)) in
     if fd < 0 then thn (fileclose (Some f)) (ret error)
     else if streq path console_name then
       thn (upd_file f (\<lambda>g. g\<lparr>ftype := FD_CONSOLE, readable := may_read omode,
             writable := may_write omode\<rparr>))
       (if \<not> may_read omode \<and> \<not> may_write omode then undo else ret (to_u64 fd))
     else
       bnd (if omode AND O_CREATE \<noteq> 0 then create path T_FILE else namei path) (\<lambda>ipo.
       case ipo of None \<Rightarrow> undo | Some ip \<Rightarrow>
       bnd (locked_inode ip itype) (\<lambda>type.
       if type = T_DIR \<and> may_write omode then thn (iput (Some ip)) undo
       else
         thn (whenk (omode AND O_TRUNC \<noteq> 0 \<and> type = T_FILE) (itrunc (Some ip)))
         (thn (upd_file f (\<lambda>g. g\<lparr>ftype := FD_INODE, fip := Some ip, foff := 0,
               readable := may_read omode, writable := may_write omode\<rparr>))
         (if \<not> may_read omode \<and> \<not> may_write omode then undo else ret (to_u64 fd))))))))))))"

definition sys_chdir :: "('z clock_st_scheme, u64) kern" where
  "sys_chdir =
     bnd me (\<lambda>p.
     bnd (get_proc p pagetable) (\<lambda>pt.
     bnd (get_tf p tf_a0) (\<lambda>a0.
     bnd (copyinstr pt a0 MAXPATH) (\<lambda>po. case po of None \<Rightarrow> ret error | Some path \<Rightarrow>
     bnd (namei path) (\<lambda>ipo. case ipo of None \<Rightarrow> ret error | Some ip \<Rightarrow>
     bnd (locked_inode ip itype) (\<lambda>type.
     if type \<noteq> T_DIR then thn (iput (Some ip)) (ret error)
     else
       thn (acquire (ProcLock p))
       (bnd (get_proc p cwd) (\<lambda>old.
       thn (upd_proc p (\<lambda>q. q\<lparr>cwd := Some ip\<rparr>))
       (thn (release (ProcLock p))
       (thn (whenk (old \<noteq> None) (iput old))
       (ret 0)))))))))))"

definition sys_mkdir :: "('z clock_st_scheme, u64) kern" where
  "sys_mkdir =
     bnd me (\<lambda>p.
     bnd (get_proc p pagetable) (\<lambda>pt.
     bnd (get_tf p tf_a0) (\<lambda>a0.
     bnd (copyinstr pt a0 MAXPATH) (\<lambda>po. case po of None \<Rightarrow> ret error | Some path \<Rightarrow>
     bnd (create path T_DIR) (\<lambda>ipo. case ipo of None \<Rightarrow> ret error | Some ip \<Rightarrow>
     thn (iput (Some ip)) (ret 0))))))"

definition isdirempty :: "nat \<Rightarrow> ('z fs_st_scheme, bool) kern" where
  "isdirempty d =
     thn (ilock (Some d))
     (bnd (get_inode d id) (\<lambda>dp.
     if itype dp \<noteq> T_DIR then thn (iunlock (Some d)) (ret False)
     else
       bnd (search (drop 2 (dirent_offs (isize dp))) (\<lambda>off.
         bnd (readi (Some d) (ucast off) (of_nat DIRENT_SIZE)) (\<lambda>(n, bs).
         if n \<noteq> int DIRENT_SIZE then ret (Some False)
         else if de_inum (dirent_of bs) \<noteq> 0 then ret (Some False)
         else ret None))) (\<lambda>r.
       thn (iunlock (Some d))
       (ret (r = None)))))"

definition sys_unlink :: "('z clock_st_scheme, u64) kern" where
  "sys_unlink =
     bnd me (\<lambda>p.
     bnd (get_proc p pagetable) (\<lambda>pt.
     bnd (get_tf p tf_a0) (\<lambda>a0.
     bnd (copyinstr pt a0 MAXPATH) (\<lambda>po. case po of None \<Rightarrow> ret error | Some path \<Rightarrow>
     bnd (nameiparent path) (\<lambda>(dpo, name). case dpo of None \<Rightarrow> ret error | Some dp \<Rightarrow>
     bnd (locked_inode dp itype) (\<lambda>dptype.
     if dptype \<noteq> T_DIR then thn (iput (Some dp)) (ret error)
     else if streq name [46] \<or> streq name [46, 46] then thn (iput (Some dp)) (ret error)
     else
       bnd (dirlookup dp name) (\<lambda>found. case found of
         None \<Rightarrow> thn (iput (Some dp)) (ret error)
       | Some (ip, off) \<Rightarrow>
           let give_up = thn (iput (Some ip)) (thn (iput (Some dp)) (ret error)) in
           bnd (locked_inode ip (\<lambda>n. (itype n, inlink n))) (\<lambda>(iptype, nlink).
           if sint nlink < 1 then give_up
           else
             bnd (if iptype = T_DIR then isdirempty ip else ret True) (\<lambda>empty.
             if \<not> empty then give_up
             else
               bnd (writei (Some dp) (ucast off) (replicate DIRENT_SIZE 0)) (\<lambda>w.
               if w \<noteq> int DIRENT_SIZE then give_up
               else
                 thn (whenk (iptype = T_DIR)
                   (change_inode dp (\<lambda>n. if 0 < sint (inlink n) then n\<lparr>inlink := inlink n - 1\<rparr> else n)))
                 (thn (iput (Some dp))
                 (thn (change_inode ip (\<lambda>n. n\<lparr>inlink := inlink n - 1\<rparr>))
                 (thn (iput (Some ip))
                 (ret 0))))))))))))))"

definition sys_link :: "('z clock_st_scheme, u64) kern" where
  "sys_link =
     bnd me (\<lambda>p.
     bnd (get_proc p pagetable) (\<lambda>pt.
     bnd (get_tf p tf_a0) (\<lambda>a0.
     bnd (copyinstr pt a0 MAXPATH) (\<lambda>oo. case oo of None \<Rightarrow> ret error | Some oldpath \<Rightarrow>
     bnd (get_tf p tf_a1) (\<lambda>a1.
     bnd (copyinstr pt a1 MAXPATH) (\<lambda>no. case no of None \<Rightarrow> ret error | Some newpath \<Rightarrow>
     bnd (namei oldpath) (\<lambda>ipo. case ipo of None \<Rightarrow> ret error | Some ip \<Rightarrow>
     thn (ilock (Some ip))
     (bnd (get_inode ip itype) (\<lambda>type.
     if type = T_DIR then
       thn (iunlock (Some ip))
       (thn (iput (Some ip))
       (ret error))
     else
       thn (upd_inode ip (\<lambda>n. n\<lparr>inlink := inlink n + 1\<rparr>))
       (thn (iupdate (Some ip))
       (thn (iunlock (Some ip))
       (let bad = thn (change_inode ip (\<lambda>n. if 0 < sint (inlink n) then n\<lparr>inlink := inlink n - 1\<rparr> else n))
                  (thn (iput (Some ip))
                  (ret error)) in
        bnd (nameiparent newpath) (\<lambda>(dpo, name). case dpo of None \<Rightarrow> bad | Some dp \<Rightarrow>
        bnd (locked_inode dp itype) (\<lambda>dptype.
        bnd (get_inode dp idev) (\<lambda>ddev.
        bnd (get_inode ip idev) (\<lambda>dev.
        bnd (get_inode ip inum) (\<lambda>ino.
        if dptype \<noteq> T_DIR \<or> ddev \<noteq> dev then thn (iput (Some dp)) bad
        else
          bnd (dirlink dp name ino) (\<lambda>r.
          if r < 0 then thn (iput (Some dp)) bad
          else
            thn (iput (Some dp))
            (thn (iput (Some ip))
            (ret 0))))))))))))))))))))"

definition sys_getpid :: "('z clock_st_scheme, u64) kern" where
  "sys_getpid =
     bnd myproc (\<lambda>mo. case mo of None \<Rightarrow> ret error | Some p \<Rightarrow>
     bnd (get_proc p pid) (\<lambda>n. ret (to_u64 n)))"

definition sys_sleep :: "('z clock_st_scheme, u64) kern" where
  "sys_sleep =
     bnd me (\<lambda>p.
     bnd (get_tf p tf_a0) (\<lambda>a0.
     let n = c_int a0 in
     if n < 0 then ret error
     else
       bnd (ticks_sleep (word_of_int n)) (\<lambda>r.
       ret (if r < 0 then error else 0))))"

definition sys_uptime :: "('z clock_st_scheme, u64) kern" where
  "sys_uptime = bnd ticks_get (\<lambda>t. ret (ucast t))"

definition sys_kill :: "('z clock_st_scheme, u64) kern" where
  "sys_kill =
     bnd me (\<lambda>p. bnd (get_tf p tf_a0) (\<lambda>a0. bnd (kill (c_int a0)) (\<lambda>r. ret (to_u64 r))))"

definition sys_hello_id :: "('z clock_st_scheme, u64) kern" where
  "sys_hello_id =
     bnd myproc (\<lambda>mo. case mo of None \<Rightarrow> ret error | Some p \<Rightarrow>
     bnd (get_tf p tf_a0) (\<lambda>a0. ret (to_u64 (c_int a0))))"

definition sys_pipe :: "('z clock_st_scheme, u64) kern" where
  "sys_pipe =
     bnd me (\<lambda>p.
     bnd (get_tf p tf_a0) (\<lambda>fdarray.
     bnd pipealloc (\<lambda>(r, rfo, wfo).
     case (rfo, wfo) of
       (Some rd, Some wr) \<Rightarrow>
         let close = thn (fileclose (Some rd)) (thn (fileclose (Some wr)) (ret error));
             clear = (\<lambda>fd. upd_proc p (\<lambda>q. q\<lparr>ofile := (ofile q)[nat fd := None]\<rparr>)) in
         if r < 0 then ret error
         else
           bnd (fdalloc rd) (\<lambda>fd0.
           if fd0 < 0 then close
           else
             bnd (fdalloc wr) (\<lambda>fd1.
             if fd1 < 0 then thn (clear fd0) close
             else
               bnd (get_proc p pagetable) (\<lambda>pt.
               bnd (copyout pt fdarray (le32 (word_of_int fd0) @ le32 (word_of_int fd1))) (\<lambda>q.
               if q < 0 then thn (clear fd0) (thn (clear fd1) close)
               else ret 0))))
     | _ \<Rightarrow> ret error)))"

text \<open>The table \<open>syscalls\<close>, indexed by the numbers of \<^verbatim>\<open>kernel/include/syscall.h\<close>.\<close>

definition syscalls :: "u8 list \<Rightarrow> int \<Rightarrow> ('z clock_st_scheme, u64) kern option" where
  "syscalls pad num =
     (if num = 1 then Some sys_write else if num = 2 then Some sys_yield
      else if num = 3 then Some sys_exit else if num = 4 then Some sys_sbrk
      else if num = 5 then Some sys_fork else if num = 6 then Some sys_wait
      else if num = 7 then Some sys_exec else if num = 8 then Some sys_read
      else if num = 9 then Some sys_close else if num = 10 then Some sys_dup
      else if num = 11 then Some sys_open else if num = 12 then Some sys_getpid
      else if num = 13 then Some sys_sleep else if num = 14 then Some sys_uptime
      else if num = 15 then Some sys_kill else if num = 16 then Some sys_pipe
      else if num = 17 then Some (sys_fstat pad) else if num = 18 then Some sys_chdir
      else if num = 19 then Some sys_mkdir else if num = 20 then Some sys_unlink
      else if num = 21 then Some sys_link else if num = 25 then Some sys_hello_id
      else None)"

definition syscall :: "u8 list \<Rightarrow> ('z clock_st_scheme, unit) kern" where
  "syscall pad =
     bnd me (\<lambda>p.
     bnd (get_tf p tf_a7) (\<lambda>a7.
     bnd (case syscalls pad (c_int a7) of Some h \<Rightarrow> h | None \<Rightarrow> ret error) (\<lambda>r.
     set_tf p tf_a0 r)))"

end
