(* ===== verification/Trap.thy ===== *)
theory Trap
  imports Syscall
begin

section \<open>Traps: \<^verbatim>\<open>kernel/core/trap.c\<close>\<close>

text \<open>
  The handlers of traps from user and kernel mode. What the hardware delivers with a trap is an
  argument: the cause, the program counter, the previous privilege, the interrupt number the
  PLIC hands out, the bytes waiting in the UART and what the registers of the disk read (\<open>hw\<close>). The
  control and status registers the code writes are part of the state, as are the addresses of the
  assembly entry points. The diagnostics the handlers print are not modelled.
\<close>

definition SCAUSE_SSI :: u64 where "SCAUSE_SSI = 1"
definition SCAUSE_SEI :: u64 where "SCAUSE_SEI = 9"
definition SCAUSE_ECALL_U :: u64 where "SCAUSE_ECALL_U = 8"
definition SCAUSE_ECALL_S :: u64 where "SCAUSE_ECALL_S = 9"
definition SSTATUS_SPP :: u64 where "SSTATUS_SPP = push_bit 8 1"
definition SSTATUS_SPIE :: u64 where "SSTATUS_SPIE = push_bit 5 1"
definition UART0_IRQ :: int where "UART0_IRQ = 10"
definition VIRTIO0_IRQ :: int where "VIRTIO0_IRQ = 1"

record trap_st = clock_st +
  stvec :: u64
  sepc :: u64
  sstatus :: u64
  sip :: u64
  kernelvec :: u64
  usertrap_entry :: u64
  uservec :: u64
  userret :: u64

text \<open>The software interrupt by which machine mode passes the timer on is cleared before it is served.\<close>

definition clearsip_ssip :: "('z trap_st_scheme, unit) kern" where
  "clearsip_ssip = modify (\<lambda>s. s\<lparr>sip := sip s AND NOT 2\<rparr>)"

definition uart_isr :: "u8 list \<Rightarrow> ('z con_st_scheme, unit) kern" where
  "uart_isr bytes = for_each bytes (\<lambda>c. consoleintr (uint c))"

text \<open>The jump into \<open>userret\<close>: its address and its two arguments.\<close>

record user_entry =
  ue_fn :: u64
  ue_trapframe :: u64
  ue_satp :: u64

definition usertrapret :: "('z trap_st_scheme, user_entry) kern" where
  "usertrapret =
     bnd myproc (\<lambda>mo. case mo of None \<Rightarrow> panic ''usertrapret: no proc'' | Some p \<Rightarrow>
     bnd (get_proc p id) (\<lambda>q.
     if trapframe q = 0 \<or> pagetable q = 0 then panic ''usertrapret: no proc''
     else
       thn (modify (\<lambda>s. s\<lparr>stvec := TRAMPOLINE + (uservec s - trampoline s)\<rparr>))
       (bnd (gets satp) (\<lambda>ks.
       thn (set_tf p 0 ks)
       (thn (set_tf p 8 (kstack_top q))
       (bnd (gets usertrap_entry) (\<lambda>ut.
       thn (set_tf p 16 ut)
       (bnd (gets hart) (\<lambda>h.
       thn (set_tf p 32 (to_u64 h))
       (thn (modify (\<lambda>s. s\<lparr>sstatus := (sstatus s AND NOT SSTATUS_SPP) OR SSTATUS_SPIE\<rparr>))
       (bnd (get_tf p tf_epc) (\<lambda>epc.
       thn (modify (\<lambda>s. s\<lparr>sepc := epc\<rparr>))
       (bnd (gets (\<lambda>s. TRAMPOLINE + (userret s - trampoline s))) (\<lambda>fn.
       ret \<lparr>ue_fn = fn, ue_trapframe = TRAPFRAME, ue_satp = MAKE_SATP (pagetable q)\<rparr>))))))))))))))"

text \<open>The interrupts both handlers serve; the result tells whether it was one of them.\<close>

definition external_interrupt :: "(u32 \<Rightarrow> u32) \<Rightarrow> int \<Rightarrow> u8 list \<Rightarrow> ('z con_st_scheme, unit) kern" where
  "external_interrupt hw irq bytes =
     (if irq = UART0_IRQ then uart_isr bytes
      else if irq = VIRTIO0_IRQ then virtio_disk_isr hw
      else ret ())"

definition timer_yield :: "('z kproc_scheme, unit) kern" where
  "timer_yield =
     bnd myproc (\<lambda>mo. case mo of None \<Rightarrow> ret () | Some p \<Rightarrow>
     bnd (get_proc p pstate) (\<lambda>st. if st = RUNNING then yield else ret ()))"

definition killed_check :: "nat \<Rightarrow> ('z file_st_scheme, unit) kern" where
  "killed_check p = bnd (get_proc p killed) (\<lambda>k. if k \<noteq> 0 then proc_exit (-1) else ret ())"

text \<open>The end of \<open>usertrap\<close>, which also runs after the process has yielded in it.\<close>

definition usertrap_tail :: "nat \<Rightarrow> ('z trap_st_scheme, user_entry) kern" where
  "usertrap_tail p = thn (killed_check p) usertrapret"

text \<open>What \<open>usertrap\<close> does for each cause.\<close>

definition usertrap_cause :: "nat \<Rightarrow> u8 list \<Rightarrow> u64 \<Rightarrow> (u32 \<Rightarrow> u32) \<Rightarrow> int \<Rightarrow> u8 list \<Rightarrow> ('z trap_st_scheme, unit) kern" where
  "usertrap_cause p pad scause hw irq bytes =
     (if scause = SCAUSE_ECALL_U then
        thn (killed_check p)
        (bnd (get_tf p tf_epc) (\<lambda>e.
        thn (set_tf p tf_epc (e + 4))
        (syscall pad)))
      else if bit scause 63 then
        let code = scause AND 0xfff in
        if code = SCAUSE_SSI then thn clearsip_ssip (thn on_timer_tick timer_yield)
        else if code = SCAUSE_SEI then external_interrupt hw irq bytes
        else ret ()
      else proc_exit (-1))"

definition usertrap :: "u8 list \<Rightarrow> u64 \<Rightarrow> u64 \<Rightarrow> (u32 \<Rightarrow> u32) \<Rightarrow> int \<Rightarrow> u8 list \<Rightarrow> ('z trap_st_scheme, user_entry) kern" where
  "usertrap pad scause epc hw irq bytes =
     bnd myproc (\<lambda>mo. case mo of None \<Rightarrow> panic ''usertrap: no proc'' | Some p \<Rightarrow>
     bnd (get_proc p trapframe) (\<lambda>tf.
     if tf = 0 then panic ''usertrap: no proc''
     else
       bnd (gets sstatus) (\<lambda>st.
       if st AND SSTATUS_SPP \<noteq> 0 then panic ''usertrap: not from user''
       else
         thn (modify (\<lambda>s. s\<lparr>stvec := kernelvec s\<rparr>))
         (thn (set_tf p tf_epc epc)
         (thn (usertrap_cause p pad scause hw irq bytes)
         (usertrap_tail p))))))"

definition kerneltrap :: "u64 \<Rightarrow> u64 \<Rightarrow> (u32 \<Rightarrow> u32) \<Rightarrow> int \<Rightarrow> u8 list \<Rightarrow> ('z trap_st_scheme, unit) kern" where
  "kerneltrap scause epc hw irq bytes =
     bnd (gets sstatus) (\<lambda>st.
     let restore = modify (\<lambda>s. s\<lparr>sepc := epc, sstatus := st\<rparr>); code = scause AND 0xfff in
     if bit scause 63 then
       if code = SCAUSE_SSI then thn clearsip_ssip (thn on_timer_tick (thn timer_yield restore))
       else if code = SCAUSE_SEI then thn (external_interrupt hw irq bytes) restore
       else panic ''kerneltrap''
     else if code = SCAUSE_ECALL_S then panic ''kerneltrap: ecall''
     else panic ''kerneltrap'')"

end
