(* ===== verification/Device.thy ===== *)
theory Device
  imports Trap
begin

section \<open>The UART and the interrupt controller: \<^verbatim>\<open>kernel/drivers/uart.c\<close>, \<^verbatim>\<open>kernel/drivers/plic.c\<close>\<close>

text \<open>
  A device is its state and what a load or a store of one of its registers does; both are parameters
  (\<open>mrd\<close>, \<open>mwr\<close>), since a load can change the device too. Waiting for the transmitter is a least
  fixed point without a value when the device never becomes idle. The theories on the console take
  what \<open>uart_putc\<close> sends as a list of bytes, and \<open>uart_isr\<close> as a loop over the bytes that arrived; the
  last part shows that a UART that behaves as its data sheet says implements both.
\<close>

record ('a, 'v, 'd) mmio =
  mrd :: "'a \<Rightarrow> 'd \<Rightarrow> 'v \<times> 'd"
  mwr :: "'a \<Rightarrow> 'v \<Rightarrow> 'd \<Rightarrow> 'd"

subsection \<open>The UART\<close>

type_synonym 'd uart = "(nat, u8, 'd) mmio"

definition RHR :: nat where "RHR = 0"
definition THR :: nat where "THR = 0"
definition DLL :: nat where "DLL = 0"
definition IER :: nat where "IER = 1"
definition DLM :: nat where "DLM = 1"
definition LCR :: nat where "LCR = 3"
definition LSR :: nat where "LSR = 5"
definition LSR_RX_READY :: u8 where "LSR_RX_READY = push_bit 0 1"
definition LSR_TX_IDLE :: u8 where "LSR_TX_IDLE = push_bit 5 1"

definition dev_init :: "'d uart \<Rightarrow> 'd \<Rightarrow> 'd" where
  "dev_init D d =
     (let d = mwr D IER 0x00 d;
          (lcr, d) = mrd D LCR d;
          d = mwr D LCR (lcr OR push_bit 7 1) d;
          d = mwr D DLL 0x03 d;
          d = mwr D DLM 0x00 d;
          lcr = 0;
          d = mwr D LCR (lcr OR push_bit 0 3) d;
          (ier, d) = mrd D IER d
      in mwr D IER (ier OR push_bit 0 1) d)"

partial_function (option) dev_putc :: "'d uart \<Rightarrow> u8 \<Rightarrow> 'd \<Rightarrow> 'd option" where
  "dev_putc D ch d =
     (if fst (mrd D LSR d) AND LSR_TX_IDLE = 0 then dev_putc D ch (snd (mrd D LSR d))
      else Some (mwr D THR ch (snd (mrd D LSR d))))"

fun dev_puts :: "'d uart \<Rightarrow> u8 list \<Rightarrow> 'd \<Rightarrow> 'd option" where
  "dev_puts D [] d = Some d"
| "dev_puts D (c # s) d = (if c = 0 then Some d else Option.bind (dev_putc D c d) (dev_puts D s))"

definition dev_getc :: "'d uart \<Rightarrow> 'd \<Rightarrow> int \<times> 'd" where
  "dev_getc D d =
     (let (lsr, d) = mrd D LSR d in
      if lsr AND LSR_RX_READY = 0 then (-1, d)
      else (let (c, d) = mrd D RHR d in (uint c, d)))"

partial_function (option) dev_isr ::
  "'d uart \<Rightarrow> 'd \<Rightarrow> 'z con_st_scheme \<Rightarrow> ((unit, 'z con_st_scheme) outcome \<times> 'd) option" where
  "dev_isr D d s =
     (if fst (dev_getc D d) = -1 then Some (Ret () s, snd (dev_getc D d))
      else
        (case consoleintr (fst (dev_getc D d)) s of
           Ret _ t \<Rightarrow> dev_isr D (snd (dev_getc D d)) t
         | Panic e \<Rightarrow> Some (Panic e, snd (dev_getc D d))
         | Sleeps c t \<Rightarrow> Some (Sleeps c t, snd (dev_getc D d))
         | Leaves t \<Rightarrow> Some (Leaves t, snd (dev_getc D d))))"

subsection \<open>The interrupt controller\<close>

type_synonym 'd plic = "(u64, u32, 'd) mmio"

definition PLIC_PRIORITY :: u64 where "PLIC_PRIORITY = PLIC + 0x0"
definition PLIC_SENABLE :: "int \<Rightarrow> u64" where "PLIC_SENABLE h = PLIC + 0x2080 + word_of_int h * 0x100"
definition PLIC_SPRIORITY :: "int \<Rightarrow> u64" where "PLIC_SPRIORITY h = PLIC + 0x201000 + word_of_int h * 0x2000"
definition PLIC_SCLAIM :: "int \<Rightarrow> u64" where "PLIC_SCLAIM h = PLIC + 0x201004 + word_of_int h * 0x2000"

definition plic_set_priority :: "'d plic \<Rightarrow> int \<Rightarrow> int \<Rightarrow> 'd \<Rightarrow> 'd" where
  "plic_set_priority D irq prio = mwr D (PLIC_PRIORITY + word_of_int (irq * 4)) (word_of_int prio)"

definition plic_init :: "'d plic \<Rightarrow> 'd \<Rightarrow> 'd" where
  "plic_init D d = plic_set_priority D VIRTIO0_IRQ 1 (plic_set_priority D UART0_IRQ 1 d)"

definition plic_enable :: "'d plic \<Rightarrow> int \<Rightarrow> int \<Rightarrow> 'd \<Rightarrow> 'd" where
  "plic_enable D h irq d =
     (let a = PLIC_SENABLE h + 4 * word_of_int (irq div 32); (v, d) = mrd D a d
      in mwr D a (v OR push_bit (nat (irq mod 32)) 1) d)"

definition plic_inithart :: "'d plic \<Rightarrow> int \<Rightarrow> 'd \<Rightarrow> 'd" where
  "plic_inithart D h d =
     (let d = plic_enable D h UART0_IRQ d;
          d = plic_enable D h VIRTIO0_IRQ d
      in mwr D (PLIC_SPRIORITY h) 0 d)"

definition plic_claim :: "'d plic \<Rightarrow> int \<Rightarrow> 'd \<Rightarrow> int \<times> 'd" where
  "plic_claim D h d = (let (v, d) = mrd D (PLIC_SCLAIM h) d in (sint v, d))"

definition plic_complete :: "'d plic \<Rightarrow> int \<Rightarrow> int \<Rightarrow> 'd \<Rightarrow> 'd" where
  "plic_complete D h irq d = mwr D (PLIC_SCLAIM h) (word_of_int irq) d"

text \<open>The addresses stay inside the page-aligned window \<open>kvminit\<close> maps at \<open>PLIC\<close>.\<close>

lemma plic_window:
  assumes "0 \<le> h" and "h < 8" and "a \<in> {PLIC_SENABLE h, PLIC_SPRIORITY h, PLIC_SCLAIM h}"
  shows "PLIC \<le> a \<and> a < PLIC + 0x400000"
proof -
  from assms(1,2) have "h \<in> {0, 1, 2, 3, 4, 5, 6, 7}" by auto
  then show ?thesis
    using assms(3) by (auto simp: PLIC_SENABLE_def PLIC_SPRIORITY_def PLIC_SCLAIM_def PLIC_def)
qed

subsection \<open>A UART as its data sheet has it\<close>

text \<open>
  \<open>rx\<close> is what waits in the receiver, \<open>tx\<close> what was sent, \<open>busy\<close> for how many more looks at the line
  status the transmitter is busy.
\<close>

definition uart_device :: "'d uart \<Rightarrow> ('d \<Rightarrow> u8 list) \<Rightarrow> ('d \<Rightarrow> u8 list) \<Rightarrow> ('d \<Rightarrow> nat) \<Rightarrow> bool" where
  "uart_device D rx tx busy \<longleftrightarrow> (\<forall>d.
     (case mrd D LSR d of (v, d') \<Rightarrow>
        (v AND LSR_RX_READY = 0 \<longleftrightarrow> rx d = []) \<and> (v AND LSR_TX_IDLE = 0 \<longleftrightarrow> busy d \<noteq> 0) \<and>
        rx d' = rx d \<and> tx d' = tx d \<and> busy d' = busy d - 1) \<and>
     (rx d \<noteq> [] \<longrightarrow> (case mrd D RHR d of (v, d') \<Rightarrow> v = hd (rx d) \<and> rx d' = tl (rx d) \<and> tx d' = tx d)) \<and>
     (\<forall>c. busy d = 0 \<longrightarrow> rx (mwr D THR c d) = rx d \<and> tx (mwr D THR c d) = tx d @ [c]))"

lemma uart_deviceD:
  assumes "uart_device D rx tx busy"
  shows "fst (mrd D LSR d) AND LSR_RX_READY = 0 \<longleftrightarrow> rx d = []" "fst (mrd D LSR d) AND LSR_TX_IDLE = 0 \<longleftrightarrow> busy d \<noteq> 0"
    "rx (snd (mrd D LSR d)) = rx d" "tx (snd (mrd D LSR d)) = tx d" "busy (snd (mrd D LSR d)) = busy d - 1"
    "rx d \<noteq> [] \<Longrightarrow> fst (mrd D RHR d) = hd (rx d)" "rx d \<noteq> [] \<Longrightarrow> rx (snd (mrd D RHR d)) = tl (rx d)"
    "rx d \<noteq> [] \<Longrightarrow> tx (snd (mrd D RHR d)) = tx d"
    "busy d = 0 \<Longrightarrow> rx (mwr D THR c d) = rx d" "busy d = 0 \<Longrightarrow> tx (mwr D THR c d) = tx d @ [c]"
  using assms unfolding uart_device_def by (auto simp: case_prod_beta)

text \<open>\<open>uart_putc\<close> returns, and has sent its byte.\<close>

lemma dev_putc_sends:
  assumes "uart_device D rx tx busy"
  shows "\<exists>d'. dev_putc D c d = Some d' \<and> tx d' = tx d @ [c] \<and> rx d' = rx d"
proof (induction "busy d" arbitrary: d)
  case 0
  then show ?case using uart_deviceD [OF assms] by (subst dev_putc.simps) simp
next
  case (Suc n)
  then have "busy (snd (mrd D LSR d)) = n" using uart_deviceD(5) [OF assms, of d] by simp
  from Suc(1) [OF this [symmetric]] Suc(2) show ?case
    using uart_deviceD(2-4) [OF assms, of d] by (subst dev_putc.simps) simp
qed

lemma dev_puts_sends:
  assumes "uart_device D rx tx busy"
  shows "\<exists>d'. dev_puts D s d = Some d' \<and> tx d' = tx d @ takeWhile (\<lambda>c. c \<noteq> 0) s \<and> rx d' = rx d"
proof (induction s arbitrary: d)
  case (Cons c s)
  obtain e where "dev_putc D c d = Some e" "tx e = tx d @ [c]" "rx e = rx d" using dev_putc_sends [OF assms] by blast
  then show ?case using Cons.IH [of e] by auto
qed simp

lemma dev_getc_reads:
  assumes "uart_device D rx tx busy"
  shows "rx d = [] \<Longrightarrow> fst (dev_getc D d) = -1"
    "rx d \<noteq> [] \<Longrightarrow> fst (dev_getc D d) = uint (hd (rx d))"
    "rx (snd (dev_getc D d)) = tl (rx d)" "tx (snd (dev_getc D d)) = tx d"
proof -
  have g: "dev_getc D d = (let d1 = snd (mrd D LSR d) in if rx d = [] then (-1, d1) else (uint (fst (mrd D RHR d1)), snd (mrd D RHR d1)))"
    using uart_deviceD(1) [OF assms, of d] by (simp add: dev_getc_def case_prod_beta Let_def)
  note U = uart_deviceD [OF assms, of d] and V = uart_deviceD [OF assms, of "snd (mrd D LSR d)"]
  show "rx d = [] \<Longrightarrow> fst (dev_getc D d) = -1" "rx d \<noteq> [] \<Longrightarrow> fst (dev_getc D d) = uint (hd (rx d))"
    using U(3) V(6) by (simp_all add: g Let_def)
  show "rx (snd (dev_getc D d)) = tl (rx d)" "tx (snd (dev_getc D d)) = tx d"
    using U(3,4) V(7,8) by (auto simp: g Let_def)
qed

text \<open>The interrupt handler gives the console every byte that has arrived, in order, and empties the receiver.\<close>

lemma dev_isr_drains:
  assumes "uart_device D rx tx busy" and "uart_isr (rx d) s = Ret () t"
  shows "\<exists>d'. dev_isr D d s = Some (Ret () t, d') \<and> rx d' = [] \<and> tx d' = tx d"
  using assms(2)
proof (induction "rx d" arbitrary: d s)
  case Nil
  then show ?case
    using dev_getc_reads [OF assms(1), of d] by (subst dev_isr.simps) (simp add: uart_isr_def)
next
  case (Cons c bs)
  note G = dev_getc_reads [OF assms(1), of d]
  have c: "fst (dev_getc D d) = uint c" "rx (snd (dev_getc D d)) = bs" using G Cons(2) [symmetric] by simp_all
  obtain u where u: "consoleintr (uint c) s = Ret () u" "uart_isr bs u = Ret () t"
    using Cons(2) [symmetric] Cons(3) by (auto simp: uart_isr_def thn_Ret_iff)
  have "uint c \<noteq> -1" using uint_ge_0 [of c] by linarith
  then show ?case
    using Cons(1) [of "snd (dev_getc D d)" u] c u G(4) by (subst dev_isr.simps) simp
qed

subsection \<open>Entry points and start-up\<close>

text \<open>
  \<open>trap_init\<close>: the tick counter is reset once, by hart 0; every hart gets the kernel's trap vector and
  a cleared software interrupt.
\<close>

record boot_st = trap_st +
  trap_once :: bool

definition trap_init :: "('z boot_st_scheme, unit) kern" where
  "trap_init =
     thn (modify (\<lambda>s. if hart s = 0 \<and> \<not> trap_once s then s\<lparr>ticks := 0, trap_once := True\<rparr> else s))
     (thn (modify (\<lambda>s. s\<lparr>stvec := kernelvec s\<rparr>))
     clearsip_ssip)"

text \<open>Where a new process starts: the lock the scheduler handed over is released first.\<close>

definition release_mine :: "('z kproc_scheme, unit) kern" where
  "release_mine = bnd myproc (\<lambda>mo. case mo of None \<Rightarrow> ret () | Some p \<Rightarrow> release (ProcLock p))"

definition user_start :: "('z trap_st_scheme, user_entry) kern" where
  "user_start = thn release_mine usertrapret"

text \<open>A kernel task: \<open>body\<close> is what its entry does; a task that returns gives up its slot.\<close>

definition proc_entry :: "('z kproc_scheme, unit) kern \<Rightarrow> ('z kproc_scheme, unit) kern" where
  "proc_entry body =
     thn release_mine
     (thn body
     (bnd myproc (\<lambda>mo. case mo of None \<Rightarrow> panic ''proc_entry'' | Some p \<Rightarrow>
       leaves
         (thn (acquire (ProcLock p))
         (thn (upd_proc p (\<lambda>q. q\<lparr>pstate := UNUSED\<rparr>))
         (scheduler_return p))))))"

end
