(* ===== verification/Scheduler.thy ===== *)
theory Scheduler
  imports ProcTable
begin

section \<open>The scheduler's pass over the process table: \<^verbatim>\<open>scheduler\<close> of \<^verbatim>\<open>kernel/core/proc.c\<close>\<close>

text \<open>
  One turn of the endless loop of \<open>scheduler\<close>: every slot is visited once. What a process does from
  the switch to it until the switch back is the parameter \<open>run\<close>; it begins and ends with the lock of
  the process held. The result says whether a process was found; if none was, the hart waits for
  an interrupt before the next turn.
\<close>

definition dispatch :: "(nat \<Rightarrow> ('z kproc_scheme, unit) kern) \<Rightarrow> nat \<Rightarrow> ('z kproc_scheme, bool) kern" where
  "dispatch run i =
     bnd (scheduler_visit i) (\<lambda>found.
     if found then
       thn (run i)
       (thn (scheduler_return i)
       (ret True))
     else ret False)"

primrec scheduler_slots :: "(nat \<Rightarrow> ('z kproc_scheme, unit) kern) \<Rightarrow> nat list \<Rightarrow> bool \<Rightarrow> ('z kproc_scheme, bool) kern" where
  "scheduler_slots run [] found = ret found"
| "scheduler_slots run (i # slots) found = bnd (dispatch run i) (\<lambda>f. scheduler_slots run slots (found \<or> f))"

definition scheduler_pass :: "(nat \<Rightarrow> ('z kproc_scheme, unit) kern) \<Rightarrow> ('z kproc_scheme, bool) kern" where
  "scheduler_pass run = scheduler_slots run [0..<NPROC] False"

text \<open>The whole function never returns: \<open>n\<close> is the number of its turns that are looked at.\<close>

primrec scheduler_turns :: "(nat \<Rightarrow> ('z kproc_scheme, unit) kern) \<Rightarrow> nat \<Rightarrow> ('z kproc_scheme, unit) kern" where
  "scheduler_turns run 0 = ret ()"
| "scheduler_turns run (Suc n) = bnd (scheduler_pass run) (\<lambda>found. scheduler_turns run n)"

definition scheduler :: "(nat \<Rightarrow> ('z kproc_scheme, unit) kern) \<Rightarrow> nat \<Rightarrow> ('z kproc_scheme, unit) kern" where
  "scheduler run n = thn (modify (\<lambda>s. s\<lparr>cur := None\<rparr>)) (scheduler_turns run n)"

text \<open>
  A process that, while it runs, changes its own slot only (as \<open>work\<close> says) and comes back with its
  lock held.
\<close>

definition runs_alone :: "(nat \<Rightarrow> ('z kproc_scheme, unit) kern) \<Rightarrow> (nat \<Rightarrow> proc \<Rightarrow> proc) \<Rightarrow> bool" where
  "runs_alone run work \<longleftrightarrow> (\<forall>i s. i < length (procs s) \<longrightarrow> cur s = Some i \<longrightarrow> held s = {ProcLock i} \<longrightarrow>
     run i s = Ret () (s\<lparr>procs := (procs s)[i := work i (procs s ! i)]\<rparr>))"

definition turn :: "(nat \<Rightarrow> proc \<Rightarrow> proc) \<Rightarrow> nat \<Rightarrow> proc \<Rightarrow> proc" where
  "turn work i q = (if pstate q = RUNNABLE then work i (q\<lparr>pstate := RUNNING\<rparr>) else q)"

lemma dispatch_turn:
  assumes "runs_alone run work" and "held s = {}" and "cur s = None" and "i < length (procs s)"
  shows "dispatch run i s = Ret (pstate (procs s ! i) = RUNNABLE) (s\<lparr>procs := (procs s)[i := turn work i (procs s ! i)]\<rparr>)"
proof (cases "pstate (procs s ! i) = RUNNABLE")
  case True
  let ?q = "(procs s ! i)\<lparr>pstate := RUNNING\<rparr>"
  let ?t = "s\<lparr>held := {ProcLock i}, cur := Some i, procs := (procs s)[i := ?q]\<rparr>"
  have v: "scheduler_visit i s = Ret True ?t" using True assms(2,4) by (simp add: scheduler_visit_eq)
  have "run i ?t = Ret () (?t\<lparr>procs := (procs ?t)[i := work i (procs ?t ! i)]\<rparr>)"
    using assms(1,4) unfolding runs_alone_def by simp
  then have r: "run i ?t = Ret () (?t\<lparr>procs := (procs s)[i := work i ?q]\<rparr>)" using assms(4) by simp
  show ?thesis
    using v r True assms(2,3) by (simp add: dispatch_def run_simps scheduler_return_def turn_def)
next
  case False
  then have "scheduler_visit i s = Ret False s" using assms(2,4) by (simp add: scheduler_visit_eq)
  with False show ?thesis by (simp add: dispatch_def run_simps turn_def)
qed

lemma slots_turn:
  assumes "runs_alone run work"
  shows "held s = {} \<Longrightarrow> cur s = None \<Longrightarrow> length (procs s) = n \<Longrightarrow> k \<le> n \<Longrightarrow>
     scheduler_slots run [k..<n] found s =
       Ret (found \<or> (\<exists>i \<in> {k..<n}. pstate (procs s ! i) = RUNNABLE))
         (s\<lparr>procs := take k (procs s) @ map (\<lambda>i. turn work i (procs s ! i)) [k..<n]\<rparr>)"
proof (induction "n - k" arbitrary: k s found)
  case 0
  then show ?case by simp
next
  case (Suc m)
  let ?ps = "(procs s)[k := turn work k (procs s ! k)]"
  have k: "k < n" "m = n - Suc k" using Suc(2) by simp_all
  have up: "[k..<n] = k # [Suc k..<n]" using k(1) by (rule upt_conv_Cons)
  have "dispatch run k s = Ret (pstate (procs s ! k) = RUNNABLE) (s\<lparr>procs := ?ps\<rparr>)"
    using Suc.prems k by (intro dispatch_turn [OF assms]) simp_all
  moreover have "take (Suc k) ?ps = take k (procs s) @ [turn work k (procs s ! k)]"
    using Suc.prems(3) k by (simp add: take_Suc_conv_app_nth)
  moreover have "?ps ! i = procs s ! i" if "i \<in> {Suc k..<n}" for i using that by simp
  moreover have "{k..<n} = insert k {Suc k..<n}" using k by auto
  ultimately show ?case
    using Suc(1) [OF k(2), of "s\<lparr>procs := ?ps\<rparr>" "found \<or> pstate (procs s ! k) = RUNNABLE"] Suc.prems k(1)
    unfolding up by (simp add: bnd_apply disj_assoc cong: map_cong)
qed



end
