(* ===== verification/KernelLog.thy ===== *)
theory KernelLog
  imports Printf
begin

section \<open>Logging, string helpers and the boot-time file print\<close>

text \<open>
  The log macros of \<^verbatim>\<open>kernel/include/log.h\<close>, the string helpers that \<^verbatim>\<open>proc.c\<close>, \<^verbatim>\<open>fs.c\<close>, \<^verbatim>\<open>spinlock.c\<close>
  and \<^verbatim>\<open>sleeplock.c\<close> keep for themselves, and \<open>fs_read_file\<close> of \<^verbatim>\<open>fs.c\<close>. The formats passed to
  \<open>printf\<close> here ask for the arguments that are given.
\<close>

definition kprint :: "u8 list \<Rightarrow> varg list \<Rightarrow> ('z log_st_scheme, unit) kern" where
  "kprint fmt args = the (printf (Some fmt) args)"

subsection \<open>Logging\<close>

definition LOG_LEVEL_DEBUG :: int where "LOG_LEVEL_DEBUG = 0"
definition LOG_LEVEL_INFO :: int where "LOG_LEVEL_INFO = 1"
definition LOG_LEVEL_WARN :: int where "LOG_LEVEL_WARN = 2"
definition LOG_LEVEL_ERROR :: int where "LOG_LEVEL_ERROR = 3"
definition LOG_LEVEL_NONE :: int where "LOG_LEVEL_NONE = 4"

text \<open>The line: level, hart, process, source position, message; \<open>src\<close> and \<open>line\<close> are where the macro stands.\<close>

definition log_impl :: "string \<Rightarrow> u8 list \<Rightarrow> int \<Rightarrow> u8 list \<Rightarrow> varg list \<Rightarrow> ('z log_st_scheme, unit) kern" where
  "log_impl level_str src line fmt args =
     bnd myproc (\<lambda>mo.
     bnd (gets hart) (\<lambda>h.
     case mo of
       Some p \<Rightarrow>
         bnd (get_proc p pid) (\<lambda>n.
         kprint (chars ''[%s] [CPU %d] [PID %d] (%s:%d) '' @ fmt @ [10])
           ([VStr (Some (chars level_str)), VNum (to_u64 h), VNum (to_u64 n), VStr (Some src), VNum (to_u64 line)] @ args))
     | None \<Rightarrow>
         kprint (chars ''[%s] [CPU %d] [PID -] (%s:%d) '' @ fmt @ [10])
           ([VStr (Some (chars level_str)), VNum (to_u64 h), VStr (Some src), VNum (to_u64 line)] @ args)))"

text \<open>The macros; \<open>min_level\<close> is the constant \<open>LOG_LEVEL\<close> of the build.\<close>

definition LOG_DEBUG :: "int \<Rightarrow> u8 list \<Rightarrow> int \<Rightarrow> u8 list \<Rightarrow> varg list \<Rightarrow> ('z log_st_scheme, unit) kern" where
  "LOG_DEBUG min_level src line fmt args =
     (if min_level \<le> LOG_LEVEL_DEBUG then log_impl ''DEBUG'' src line fmt args else ret ())"

definition LOG_INFO :: "int \<Rightarrow> u8 list \<Rightarrow> int \<Rightarrow> u8 list \<Rightarrow> varg list \<Rightarrow> ('z log_st_scheme, unit) kern" where
  "LOG_INFO min_level src line fmt args =
     (if min_level \<le> LOG_LEVEL_INFO then log_impl ''INFO'' src line fmt args else ret ())"

definition LOG_WARN :: "int \<Rightarrow> u8 list \<Rightarrow> int \<Rightarrow> u8 list \<Rightarrow> varg list \<Rightarrow> ('z log_st_scheme, unit) kern" where
  "LOG_WARN min_level src line fmt args =
     (if min_level \<le> LOG_LEVEL_WARN then log_impl ''WARN'' src line fmt args else ret ())"

definition LOG_ERROR :: "int \<Rightarrow> u8 list \<Rightarrow> int \<Rightarrow> u8 list \<Rightarrow> varg list \<Rightarrow> ('z log_st_scheme, unit) kern" where
  "LOG_ERROR min_level src line fmt args =
     (if min_level \<le> LOG_LEVEL_ERROR then log_impl ''ERROR'' src line fmt args else ret ())"

text \<open>With logging switched off the macros do nothing.\<close>

lemma log_none:
  "LOG_DEBUG LOG_LEVEL_NONE src line fmt args = ret ()" "LOG_INFO LOG_LEVEL_NONE src line fmt args = ret ()"
  "LOG_WARN LOG_LEVEL_NONE src line fmt args = ret ()" "LOG_ERROR LOG_LEVEL_NONE src line fmt args = ret ()"
  by (simp_all add: LOG_DEBUG_def LOG_INFO_def LOG_WARN_def LOG_ERROR_def LOG_LEVEL_NONE_def LOG_LEVEL_DEBUG_def
      LOG_LEVEL_INFO_def LOG_LEVEL_WARN_def LOG_LEVEL_ERROR_def)

subsection \<open>String helpers\<close>

definition kmemset :: "memory \<Rightarrow> u64 \<Rightarrow> int \<Rightarrow> u32 \<Rightarrow> memory" where
  "kmemset m dst c n = fold (\<lambda>i m. m(dst + of_nat i := word_of_int c)) [0..<unat n] m"

fun kstrlen_from :: "u32 \<Rightarrow> u8 list \<Rightarrow> u32" where
  "kstrlen_from n [] = n"
| "kstrlen_from n (c # s) = (if c \<noteq> 0 then kstrlen_from (n + 1) s else n)"

definition kstrlen :: "u8 list \<Rightarrow> u32" where
  "kstrlen s = kstrlen_from 0 s"

text \<open>The copies of a name into a field of \<open>n\<close> bytes: the bytes stored, terminator included.\<close>

fun copy_name :: "nat \<Rightarrow> u8 list \<Rightarrow> u8 list" where
  "copy_name 0 src = []"
| "copy_name (Suc room) [] = []"
| "copy_name (Suc room) (c # src) = (if c \<noteq> 0 then c # copy_name room src else [])"

definition kstrncpy :: "u8 list \<Rightarrow> int \<Rightarrow> u8 list" where
  "kstrncpy src n = copy_name (nat (n - 1)) src @ [0]"

definition sl_namecpy :: "u8 list \<Rightarrow> int \<Rightarrow> u8 list" where
  "sl_namecpy src n = copy_name (nat (n - 1)) src @ [0]"

lemma kstrlen_from_eq: "kstrlen_from n s = n + of_nat (length (takeWhile (\<lambda>c. c \<noteq> 0) s))"
  by (induction s arbitrary: n) auto

lemma kstrncpy_eq: "kstrncpy src n = take (nat (n - 1)) (takeWhile (\<lambda>c. c \<noteq> 0) src) @ [0]"
proof -
  have "copy_name k src = take k (takeWhile (\<lambda>c. c \<noteq> 0) src)" for k
    by (induction k src rule: copy_name.induct) auto
  then show ?thesis by (simp add: kstrncpy_def)
qed

text \<open>A name with its terminator never leaves its field.\<close>

lemma kstrncpy_fits: "1 \<le> n \<Longrightarrow> int (length (kstrncpy src n)) \<le> n"
  by (simp add: kstrncpy_eq)

subsection \<open>Printing a file\<close>

definition CHUNK :: u32 where "CHUNK = 128"

function read_chunks :: "nat \<Rightarrow> u32 \<Rightarrow> u32 \<Rightarrow> ('z log_st_scheme, unit) kern" where
  "read_chunks i len off =
     (if off < len then
        let n = min CHUNK (len - off) in
        bnd (readi (Some i) (ucast off) n) (\<lambda>(rd, bs).
        if rd < 0 \<or> word_of_int rd \<noteq> n then
          kprint (chars ''\<newline>[fs] read failed at off=%d\<newline>'') [VNum (ucast off)]
        else
          thn (for_each bs uart_putc)
          (read_chunks i len (off + n)))
      else ret ())"
  by pat_completeness auto
termination
proof (relation "measure (\<lambda>(i, len, off). unat len - unat off)")
  fix i and len off n :: u32 and x :: "int \<times> u8 list" and xa y
  assume l: "off < len" "n = min CHUNK (len - off)"
  have le: "off \<le> len" using l(1) by simp
  have n: "unat n \<le> unat (len - off)" "0 < unat n"
    using l unfolding word_less_nat_alt by (auto simp: min_def CHUNK_def word_le_nat_alt unat_sub_if_size word_size)
  have s: "unat (len - off) = unat len - unat off" using le by (simp add: unat_sub word_le_nat_alt)
  have "unat (off + n) = unat off + unat n"
    using n(1) s l(1) unat32_less [of len] by (intro unat_add_small) (simp add: word_less_nat_alt)
  then show "((i, len, off + n), i, len, off) \<in> measure (\<lambda>(i, len, off). unat len - unat off)"
    using n l(1) by (simp add: word_less_nat_alt)
qed simp

declare read_chunks.simps [simp del]

definition fs_read_file :: "u8 list option \<Rightarrow> ('z log_st_scheme, unit) kern" where
  "fs_read_file po =
     (case po of
        None \<Rightarrow> ret ()
      | Some path \<Rightarrow>
          bnd (namei path) (\<lambda>ipo. case ipo of
            None \<Rightarrow> kprint (chars ''[fs] %s not found\<newline>'') [VStr (Some path)]
          | Some ip \<Rightarrow>
              thn (ilock (Some ip))
              (bnd (get_inode ip itype) (\<lambda>ty.
              if ty \<noteq> T_FILE then
                thn (kprint (chars ''[fs] %s is not a regular file\<newline>'') [VStr (Some path)])
                (iunlockput (Some ip))
              else
                bnd (get_inode ip isize) (\<lambda>len.
                thn (kprint (chars ''[fs] Reading %s (%d bytes)\<newline>'') [VStr (Some path), VNum (ucast len)])
                (thn (kprint (chars ''--- File Content Start ---\<newline>'') [])
                (thn (read_chunks ip len 0)
                (thn (kprint (chars ''\<newline>--- File Content End ---\<newline>'') [])
                (thn (iunlock (Some ip))
                (iput (Some ip)))))))))))"

end
