(* ===== verification/LockBalance.thy ===== *)
theory LockBalance
  imports Trap
begin

section \<open>Lock discipline of the whole kernel\<close>

text \<open>
  Every path through every kernel function, error returns included, gives back the locks it takes.
  \<open>own A m B\<close>: called with the locks \<open>A\<close> (and any others, which it leaves alone), the call \<open>m\<close>, if it
  returns a value \<open>v\<close>, returns with the locks \<open>B v\<close> in their place, in the same process. The rules
  follow the control flow of a definition; each function's own specification is then a rule for
  its callers. The console takes its lock once it is initialised, so that is part of the judgment.
\<close>

subsection \<open>The judgment\<close>

datatype anylock = Spin lockid | Slp slid

definition locks_of :: "'z sleep_st_scheme \<Rightarrow> anylock set" where
  "locks_of s = Spin ` held s \<union> Slp ` {l. sl_locked (slocks s l) \<noteq> 0}"

definition gives_up :: "('z con_st_scheme, 'a) kern \<Rightarrow> bool" where
  "gives_up m \<longleftrightarrow> (\<forall>s t. (\<exists>c. m s = Sleeps c t) \<or> m s = Leaves t \<longrightarrow> held t = {})"

definition own :: "anylock set \<Rightarrow> ('z con_st_scheme, 'a) kern \<Rightarrow> ('a \<Rightarrow> anylock set) \<Rightarrow> bool" where
  "own A m B \<longleftrightarrow> gives_up m \<and> (\<forall>s H v t. m s = Ret v t \<longrightarrow> c_locking s \<longrightarrow> locks_of s = A \<union> H \<longrightarrow> A \<inter> H = {} \<longrightarrow>
     c_locking t \<and> cur t = cur s \<and> locks_of t = B v \<union> H \<and> B v \<inter> H = {})"

lemma gives_up_simps [simp]:
  "gives_up (ret v)" "gives_up (gets f)" "gives_up (modify g)" "gives_up (panic e)" "gives_up (acquire l)" "gives_up (release l)"
  "gives_up (set_slock i k)"
  by (simp_all add: gives_up_def acquire_def release_def set_slock_def)

lemma gives_up_bnd: "gives_up m \<Longrightarrow> (\<And>v. gives_up (f v)) \<Longrightarrow> gives_up (bnd m f)"
  unfolding gives_up_def by (auto simp: bnd_apply split: outcome.splits)

lemma gives_up_thn: "gives_up m \<Longrightarrow> gives_up n \<Longrightarrow> gives_up (thn m n)"
  unfolding thn_def by (rule gives_up_bnd)

lemma gives_up_frame: "(\<And>s. (\<exists>v t. m s = Ret v t) \<or> (\<exists>e. m s = Panic e)) \<Longrightarrow> gives_up m"
  unfolding gives_up_def by (metis outcome.distinct(3,5,7,9))

lemma ownI:
  assumes "gives_up m" and "\<And>s H v t. m s = Ret v t \<Longrightarrow> c_locking s \<Longrightarrow> locks_of s = A \<union> H \<Longrightarrow> A \<inter> H = {} \<Longrightarrow>
     c_locking t \<and> cur t = cur s \<and> locks_of t = B v \<union> H \<and> B v \<inter> H = {}"
  shows "own A m B"
  using assms unfolding own_def by blast

lemma ownD:
  "own A m B \<Longrightarrow> m s = Ret v t \<Longrightarrow> c_locking s \<Longrightarrow> locks_of s = A \<union> H \<Longrightarrow> A \<inter> H = {} \<Longrightarrow>
     c_locking t \<and> cur t = cur s \<and> locks_of t = B v \<union> H \<and> B v \<inter> H = {}"
  unfolding own_def by blast

lemma own_ret: "own A (ret v) (\<lambda>_. A)" and own_gets: "(\<And>v. B v = A) \<Longrightarrow> own A (gets f) B"
  and own_panic: "own A (panic e) B"
  by (auto simp: own_def)

lemma own_ret_eq: "A = B v \<Longrightarrow> own A (ret v) B"
  by (auto simp: own_def)

lemma own_modify:
  "(\<And>s. held (f s) = held s \<and> slocks (f s) = slocks s \<and> cur (f s) = cur s \<and> c_locking (f s) = c_locking s) \<Longrightarrow>
     (\<And>v. B v = A) \<Longrightarrow> own A (modify f) B"
  by (auto simp: own_def locks_of_def)

lemma own_bnd:
  assumes "own A m C" and "\<And>v. own (C v) (f v) B"
  shows "own A (bnd m f) B"
proof (rule ownI)
  show "gives_up (bnd m f)" using assms by (intro gives_up_bnd) (simp_all add: own_def)
next
  fix s H w u
  assume r: "bnd m f s = Ret w u" and s: "c_locking s" "locks_of s = A \<union> H" "A \<inter> H = {}"
  then obtain v t where t: "m s = Ret v t" "f v t = Ret w u" by auto
  from ownD [OF assms(1) t(1) s] have c: "c_locking t" "cur t = cur s" "locks_of t = C v \<union> H" "C v \<inter> H = {}"
    by auto
  from ownD [OF assms(2) t(2) c(1,3,4)] c(2)
  show "c_locking u \<and> cur u = cur s \<and> locks_of u = B w \<union> H \<and> B w \<inter> H = {}" by simp
qed

lemma own_thn: "own A m C \<Longrightarrow> (\<And>v. own (C v) n B) \<Longrightarrow> own A (thn m n) B"
  unfolding thn_def by (rule own_bnd) simp_all

lemma own_if: "(b \<Longrightarrow> own A m B) \<Longrightarrow> (\<not> b \<Longrightarrow> own A n B) \<Longrightarrow> own A (if b then m else n) B"
  by simp

lemma own_option:
  "(x = None \<Longrightarrow> own A m B) \<Longrightarrow> (\<And>v. x = Some v \<Longrightarrow> own A (f v) B) \<Longrightarrow>
     own A (case x of None \<Rightarrow> m | Some v \<Rightarrow> f v) B"
  by (cases x) simp_all

lemma own_sum:
  "(\<And>v. x = Inl v \<Longrightarrow> own A (f v) B) \<Longrightarrow> (\<And>v. x = Inr v \<Longrightarrow> own A (g v) B) \<Longrightarrow>
     own A (case x of Inl v \<Rightarrow> f v | Inr v \<Rightarrow> g v) B"
  by (cases x) simp_all

lemma own_prod: "(\<And>a b. x = (a, b) \<Longrightarrow> own A (f a b) B) \<Longrightarrow> own A (case x of (a, b) \<Rightarrow> f a b) B"
  by (cases x) simp_all

lemma own_filetype:
  "(x = FD_NONE \<Longrightarrow> own A a B) \<Longrightarrow> (x = FD_CONSOLE \<Longrightarrow> own A b B) \<Longrightarrow> (x = FD_INODE \<Longrightarrow> own A c B) \<Longrightarrow>
     (x = FD_PIPE \<Longrightarrow> own A d B) \<Longrightarrow>
     own A (case x of FD_NONE \<Rightarrow> a | FD_CONSOLE \<Rightarrow> b | FD_INODE \<Rightarrow> c | FD_PIPE \<Rightarrow> d) B"
  by (cases x) simp_all

text \<open>The locks held may depend on a value that is looked at later.\<close>

lemma own_pre_if: "(b \<Longrightarrow> own X m B) \<Longrightarrow> (\<not> b \<Longrightarrow> own Y m B) \<Longrightarrow> own (if b then X else Y) m B"
  by simp

lemma own_pre_option:
  "(x = None \<Longrightarrow> own X m B) \<Longrightarrow> (\<And>v. x = Some v \<Longrightarrow> own (Y v) m B) \<Longrightarrow>
     own (case x of None \<Rightarrow> X | Some v \<Rightarrow> Y v) m B"
  by (cases x) simp_all

lemma own_pre_sum:
  "(\<And>v. x = Inl v \<Longrightarrow> own (X v) m B) \<Longrightarrow> (\<And>v. x = Inr v \<Longrightarrow> own (Y v) m B) \<Longrightarrow>
     own (case x of Inl v \<Rightarrow> X v | Inr v \<Rightarrow> Y v) m B"
  by (cases x) simp_all

lemma own_for_each: "(\<And>i. own A (f i) (\<lambda>_. A)) \<Longrightarrow> own A (for_each is f) (\<lambda>_. A)"
  by (induction "is") (auto intro: own_ret own_thn)

lemma own_search: "(\<And>i. own A (f i) (\<lambda>_. A)) \<Longrightarrow> own A (search is f) (\<lambda>_. A)"
proof (induction "is")
  case (Cons i "is")
  then show ?case
    by (auto intro!: own_bnd [where C = "\<lambda>_. A"] own_ret split: option.split)
qed (simp add: own_ret)

text \<open>
  A call that is balanced with nothing held is balanced whatever is held; one that takes or gives
  back a lock does so whatever else is held.
\<close>

lemma own_frame: "own A m B \<Longrightarrow> A \<inter> X = {} \<Longrightarrow> own (A \<union> X) m (\<lambda>v. B v \<union> X)"
proof (rule ownI)
  assume "own A m B"
  then show "gives_up m" by (simp add: own_def)
next
  fix s H v t
  assume a: "own A m B" "A \<inter> X = {}" "m s = Ret v t" "c_locking s" "locks_of s = A \<union> X \<union> H" "(A \<union> X) \<inter> H = {}"
  with ownD [OF a(1,3,4), of "X \<union> H"] have "c_locking t" "cur t = cur s" "locks_of t = B v \<union> (X \<union> H)" "B v \<inter> (X \<union> H) = {}"
    by (auto simp: Un_assoc)
  with a show "c_locking t \<and> cur t = cur s \<and> locks_of t = B v \<union> X \<union> H \<and> (B v \<union> X) \<inter> H = {}" by blast
qed

definition balanced :: "('z con_st_scheme, 'a) kern \<Rightarrow> bool" where
  "balanced m \<longleftrightarrow> own {} m (\<lambda>_. {})"

named_theorems bal "functions that return with the locks they were called with"

lemma own_post: "own A m B \<Longrightarrow> (\<And>v. C v = B v) \<Longrightarrow> own A m C"
  by (simp add: own_def)

lemma own_pre: "own A m B \<Longrightarrow> X = A \<Longrightarrow> own X m B"
  by simp

lemma own_call: "balanced m \<Longrightarrow> (\<And>v. B v = A) \<Longrightarrow> own A m B"
  by (rule own_post [OF own_frame [of "{}" m "\<lambda>_. {}" A, simplified]]) (simp_all add: balanced_def)

lemma own_take: "own {} m B \<Longrightarrow> (\<And>v. C v = B v \<union> A) \<Longrightarrow> own A m C"
  by (rule own_post [OF own_frame [of "{}" m B A, simplified]])

lemma own_give:
  assumes "own {l} m (\<lambda>_. {})" and "l \<in> A" and "\<And>v. C v = A - {l}"
  shows "own A m C"
proof -
  have "{l} \<union> (A - {l}) = A" using assms(2) by blast
  with own_frame [OF assms(1), of "A - {l}"] have "own A m (\<lambda>_. A - {l})" by simp
  then show ?thesis by (rule own_post) (rule assms(3))
qed

lemma locks_of_held [simp]: "locks_of (s\<lparr>held := insert l (held s)\<rparr>) = insert (Spin l) (locks_of s)"
  "locks_of (s\<lparr>held := held s - {l}\<rparr>) = locks_of s - {Spin l}"
  by (auto simp: locks_of_def)

lemma own_acquire: "(\<And>v. C v = insert (Spin l) A) \<Longrightarrow> own A (acquire l) C"
proof (rule own_post [where B = "\<lambda>_. insert (Spin l) A"], rule ownI, simp)
  fix s H v t
  assume "acquire l s = Ret v t" "c_locking s" "locks_of s = A \<union> H" "A \<inter> H = {}"
  moreover from this have "Spin l \<notin> locks_of s" by (auto simp: acquire_def locks_of_def split: if_splits)
  ultimately show "c_locking t \<and> cur t = cur s \<and> locks_of t = insert (Spin l) A \<union> H \<and> insert (Spin l) A \<inter> H = {}"
    by (auto simp: acquire_def split: if_splits)
qed

lemma own_release: "Spin l \<in> A \<Longrightarrow> (\<And>v. C v = A - {Spin l}) \<Longrightarrow> own A (release l) C"
proof (rule own_give [where l = "Spin l"], rule ownI, simp)
  fix s H v t
  assume "release l s = Ret v t" "c_locking s" "locks_of s = {Spin l} \<union> H" "{Spin l} \<inter> H = {}"
  moreover from this have "t = s\<lparr>held := held s - {l}\<rparr>" by (simp add: release_def split: if_splits)
  ultimately show "c_locking t \<and> cur t = cur s \<and> locks_of t = {} \<union> H \<and> {} \<inter> H = {}" by simp
qed

text \<open>A call that sleeps or leaves does not return, and \<open>sched\<close> checks that it holds no other lock.\<close>

lemma no_return: "sleep c l s \<noteq> Ret v t" "leaves m s \<noteq> Ret w u"
  by (simp_all add: sleep_def leaves_def split: outcome.splits)

lemma sched_cases: "(\<exists>e. sched s = Panic e) \<or> (\<exists>q. sched s = Ret () s \<and> held s = {ProcLock q})"
proof (cases "cur s")
  case (Some q)
  have "held s = {ProcLock q}" if "ProcLock q \<in> held s" "card (held s) = 1"
    using that by (metis card_1_singletonE singletonD)
  with Some show ?thesis by (cases "ProcLock q \<in> held s \<and> card (held s) = 1") (auto simp: sched_def bnd_apply)
qed (simp add: sched_def bnd_apply)

definition stops :: "('z kcore_scheme, unit) kern \<Rightarrow> bool" where
  "stops n \<longleftrightarrow> (\<forall>s. (\<exists>e. n s = Panic e) \<or> (\<exists>t. n s = Ret () t \<and> held t = {}))"

lemma stopsD: "stops n \<Longrightarrow> (\<exists>e. n s = Panic e) \<or> (\<exists>t. n s = Ret () t \<and> held t = {})"
  by (simp add: stops_def)

lemma stops_thn: "(\<And>s. (\<exists>e. m s = Panic e) \<or> (\<exists>t. m s = Ret () t)) \<Longrightarrow> stops n \<Longrightarrow> stops (thn m n)"
  unfolding stops_def thn_apply by (metis outcome.simps(17,18))

lemma stops_sched: "stops (thn sched (scheduler_return p))"
  unfolding stops_def
proof
  fix s
  show "(\<exists>e. thn sched (scheduler_return p) s = Panic e) \<or>
      (\<exists>t. thn sched (scheduler_return p) s = Ret () t \<and> held t = {})"
    using sched_cases [of s] by (auto simp: thn_apply scheduler_return_def release_def)
qed

lemma stops_sleep_enter: "stops (sleep_enter c l)"
  unfolding stops_def
proof
  fix s :: "'z kproc_scheme"
  show "(\<exists>e. sleep_enter c l s = Panic e) \<or> (\<exists>t. sleep_enter c l s = Ret () t \<and> held t = {})"
  proof (cases "cur s")
    case (Some p)
    let ?m = "thn (acquire (ProcLock p)) (thn (release l)
      (thn (upd_proc p (\<lambda>q. q\<lparr>chan := Some c, pstate := SLEEPING\<rparr>)) (thn sched (scheduler_return p)))) :: ('z kproc_scheme, unit) kern"
    have "stops ?m" by (intro stops_thn stops_sched) (simp_all add: acquire_def release_def)
    moreover have "sleep_enter c l s = ?m s" using Some by (simp add: sleep_enter_def bnd_apply)
    ultimately show ?thesis by (simp only: stops_def)
  qed (simp add: sleep_enter_def bnd_apply)
qed

lemma leaves_thn: "leaves (thn m n) = thn m (leaves n)"
  by (rule ext) (simp add: leaves_def thn_apply split: outcome.split)

lemma gives_up_sched: "gives_up (leaves (thn sched (scheduler_return p)))"
  unfolding gives_up_def
proof (intro allI impI)
  fix s t
  assume "(\<exists>c. leaves (thn sched (scheduler_return p)) s = Sleeps c t) \<or> leaves (thn sched (scheduler_return p)) s = Leaves t"
  then show "held t = {}" using stopsD [OF stops_sched, of p s] by (auto simp: leaves_def simp del: thn_Ret_iff)
qed

lemma gives_up_sleep: "gives_up (sleep c l)"
  unfolding gives_up_def
proof (intro allI impI)
  fix s t
  assume "(\<exists>d. sleep c l s = Sleeps d t) \<or> sleep c l s = Leaves t"
  then show "held t = {}" using stopsD [OF stops_sleep_enter, of c l s] by (auto simp: sleep_def)
qed

lemma own_sleep: "own A (sleep c l) B" and own_leaves: "own A (leaves (thn sched (scheduler_return p))) B"
  by (rule ownI, rule gives_up_sleep gives_up_sched, simp only: no_return)+

lemma own_leaves_thn: "own A (thn m (leaves n)) B \<Longrightarrow> own A (leaves (thn m n)) B"
  by (simp only: leaves_thn)

lemma own_whenk: "own A m (\<lambda>_. A) \<Longrightarrow> (\<And>v. C v = A) \<Longrightarrow> own A (whenk b m) C"
  by (simp add: whenk_def own_ret_eq own_post)

lemma own_unlock_if: "own X m (\<lambda>_. A) \<Longrightarrow> (\<And>v. C v = A) \<Longrightarrow> own (if b then X else A) (whenk b m) C"
  by (simp add: whenk_def own_ret_eq own_post)

lemmas own_rules = refl own_unlock_if own_pre_option own_pre_sum own_panic own_ret own_ret_eq own_gets own_if own_option
  own_sum own_prod own_filetype own_for_each own_search own_bnd own_thn own_acquire own_release own_sleep own_leaves
  own_leaves_thn own_whenk

subsection \<open>Process table and memory\<close>

lemma balanced_access [bal]:
  "balanced (upd_proc i f)" "balanced (get_proc i g)" "balanced myproc" "balanced (upd_mem h)"
  "balanced (upd_buf b k)" "balanced (get_buf b l)" "balanced (upd_data b d)"
  by (auto simp: balanced_def own_def locks_of_def upd_proc_def get_proc_def myproc_def upd_mem_def upd_buf_def
      get_buf_def upd_data_def)

lemma balanced_proc [bal]: "balanced allocpid" "balanced (wakeup_on c)" "balanced (wakeup ch)" "balanced yield" "balanced (kill n)"
  unfolding balanced_def allocpid_def wakeup_on_def wakeup_def yield_def kill_def
  by (rule own_rules own_modify own_call bal | simp add: insert_Diff_if)+

lemma balanced_alloc [bal]: "balanced kalloc" "balanced (kfree pa)"
  unfolding balanced_def kalloc_def kfree_def
  by (rule own_rules own_modify own_call bal | simp add: insert_Diff_if)+

lemma balanced_walk [bal]: "balanced (walk_levels n pt va alloc)"
proof (induction n arbitrary: pt)
  case (Suc n)
  show ?case
    unfolding balanced_def walk_levels.simps Let_def by (rule own_rules own_call bal Suc | simp add: insert_Diff_if)+
qed (simp add: balanced_def own_ret)

lemma balanced_lookup [bal]: "balanced (walk pt va alloc)" "balanced (walkaddr pt va)"
  unfolding balanced_def walk_def walkaddr_def by (rule own_rules own_call bal | simp add: insert_Diff_if)+

lemma balanced_mappages_loop [bal]: "balanced (mappages_loop n pt a final pa perm)"
proof (induction n arbitrary: a pa)
  case (Suc n)
  show ?case
    unfolding balanced_def mappages_loop.simps Let_def by (rule own_rules own_call bal Suc | simp add: insert_Diff_if)+
qed (simp add: balanced_def own_panic)

lemma balanced_map [bal]: "balanced (mappages pt va len pa perm)" "balanced (uvmunmap pt va np f)"
  unfolding balanced_def mappages_def uvmunmap_def by (rule own_rules own_call bal | simp add: insert_Diff_if)+

lemma balanced_dealloc [bal]: "balanced (uvmdealloc pt old new)" "balanced uvmcreate" "balanced (uvmclear pt va)"
  unfolding balanced_def uvmdealloc_def uvmcreate_def uvmclear_def by (rule own_rules own_call bal | simp add: insert_Diff_if)+

lemma balanced_freewalk [bal]: "balanced (freewalk d pt)"
proof (induction d arbitrary: pt)
  case (Suc d)
  show ?case
    unfolding balanced_def freewalk.simps Let_def by (rule own_rules own_call bal Suc | simp add: insert_Diff_if)+
qed (simp add: balanced_def own_panic)

lemma balanced_uvm [bal]:
  "balanced (uvmalloc pt old new perm)" "balanced (uvmfree pt len)" "balanced (uvmcopy pt pt' len)"
  unfolding balanced_def uvmalloc_def uvmfree_def uvmcopy_def by (rule own_rules own_call bal | simp add: insert_Diff_if)+

lemma balanced_copyout [bal]: "balanced (copyout pt va bs)"
proof (induction pt va bs rule: copyout.induct)
  case (1 pt dstva src)
  show ?case
    unfolding balanced_def copyout.simps [of pt dstva src] Let_def by (rule own_rules own_call bal 1 | simp add: insert_Diff_if)+
qed

lemma balanced_copyin [bal]: "balanced (copyin pt va len)"
proof (induction pt va len rule: copyin.induct)
  case (1 pt srcva len)
  show ?case
    unfolding balanced_def copyin.simps [of pt srcva len] Let_def by (rule own_rules own_call bal 1 | simp add: insert_Diff_if)+
qed

lemma balanced_copyinstr [bal]: "balanced (copyinstr pt va limit)"
proof (induction pt va limit rule: copyinstr.induct)
  case (1 pt srcva limit)
  show ?case
    unfolding balanced_def copyinstr.simps [of pt srcva limit] Let_def by (rule own_rules own_call bal 1 | simp add: insert_Diff_if)+
qed

subsection \<open>Sleep locks and buffers\<close>

lemma set_slock_own:
  "sl_locked k \<noteq> 0 \<Longrightarrow> locks_of (s\<lparr>slocks := (slocks s)(l := k)\<rparr>) = insert (Slp l) (locks_of s)"
  "sl_locked k = 0 \<Longrightarrow> locks_of (s\<lparr>slocks := (slocks s)(l := k)\<rparr>) = locks_of s - {Slp l}"
  by (auto simp: locks_of_def)

lemma balanced_holding [bal]: "balanced (sl_holding_locked l)" "balanced (holdingsleep l)"
  unfolding balanced_def holdingsleep_def sl_holding_locked_def by (rule own_rules own_call bal | simp add: insert_Diff_if)+

lemma own_acquiresleep: "(\<And>v. C v = insert (Slp l) A) \<Longrightarrow> own A (acquiresleep l) C"
proof (rule own_post [where B = "\<lambda>_. insert (Slp l) A"], rule ownI)
  show "gives_up (acquiresleep l)"
    unfolding acquiresleep_def acquiresleep_loop_def myproc_def get_proc_def
    by (intro gives_up_thn gives_up_bnd gives_up_sleep gives_up_simps) (auto intro!: gives_up_thn gives_up_bnd gives_up_sleep split: option.split)
next
  fix s H v t
  assume a: "acquiresleep l s = Ret v t" "c_locking s" "locks_of s = A \<union> H" "A \<inter> H = {}"
  let ?u = "s\<lparr>held := insert (SleepLock l) (held s)\<rparr>"
  have free: "SleepLock l \<notin> held s" "sl_locked (slocks s l) = 0"
    using a(1) by (auto simp: acquiresleep_def acquire_def acquiresleep_loop_def run_simps no_return split: if_splits)
  have "sl_locked (my_token s) \<noteq> 0" by (simp add: my_token_def split: option.split)
  moreover from free a(1) have "t = s\<lparr>slocks := (slocks s)(l := my_token s)\<rparr>"
    by (auto simp: acquiresleep_def acquire_def acquiresleep_loop_def run_simps set_slock_def release_def my_token_def
        split: option.splits)
  moreover have "Slp l \<notin> locks_of s" using free by (auto simp: locks_of_def)
  ultimately show "c_locking t \<and> cur t = cur s \<and> locks_of t = insert (Slp l) A \<union> H \<and> insert (Slp l) A \<inter> H = {}"
    using a(2-4) by (auto simp: set_slock_own)
qed

lemma own_set_free: "Slp l \<in> A \<Longrightarrow> (\<And>v. C v = A - {Slp l}) \<Longrightarrow> own A (set_slock l initsleeplock) C"
proof (rule own_give [where l = "Slp l"], rule ownI, simp)
  fix s H v t
  assume "set_slock l initsleeplock s = Ret v t" "c_locking s" "locks_of s = {Slp l} \<union> H" "{Slp l} \<inter> H = {}"
  then show "c_locking t \<and> cur t = cur s \<and> locks_of t = {} \<union> H \<and> {} \<inter> H = {}"
    by (auto simp: set_slock_def set_slock_own initsleeplock_def)
qed

lemma own_releasesleep: "Slp l \<in> A \<Longrightarrow> (\<And>v. C v = A - {Slp l}) \<Longrightarrow> own A (releasesleep l) C"
  by (rule own_give [where l = "Slp l"], unfold releasesleep_def)
    (rule own_rules own_set_free own_call bal | simp add: insert_Diff_if)+

lemma balanced_disk [bal]: "balanced (disk_rw b w)" "balanced (bread_fill b)" "balanced (bwrite b)"
  unfolding balanced_def disk_rw_def bread_fill_def bwrite_def
  by (rule own_rules own_modify own_call bal | simp add: insert_Diff_if)+

lemma own_bget: "own {} (bget dev bno) (\<lambda>b. {Slp (BufLock b)})"
  unfolding bget_def by (rule own_rules own_acquiresleep own_call bal | simp add: insert_Diff_if)+

lemma own_bread_fill: "own {Slp (BufLock b)} (bread_fill b) (\<lambda>b. {Slp (BufLock b)})"
  unfolding bread_fill_def by (rule own_rules own_call bal | simp add: insert_Diff_if)+

lemma own_bread: "(\<And>b. C b = insert (Slp (BufLock b)) A) \<Longrightarrow> own A (bread dev bno) C"
  by (rule own_take [where B = "\<lambda>b. {Slp (BufLock b)}"], unfold bread_def)
    (rule own_bnd own_bget own_bread_fill | simp)+

lemma own_brelse: "Slp (BufLock b) \<in> A \<Longrightarrow> (\<And>v. C v = A - {Slp (BufLock b)}) \<Longrightarrow> own A (brelse b) C"
  by (rule own_give [where l = "Slp (BufLock b)"], unfold brelse_def)
    (rule own_rules own_modify own_releasesleep own_call bal | simp add: insert_Diff_if)+

lemmas own_bufs = own_bread own_brelse own_acquiresleep own_releasesleep

subsection \<open>Inodes\<close>

lemma balanced_inode_access [bal]: "balanced (upd_inode i f)" "balanced (get_inode i g)"
  by (auto simp: balanced_def own_def locks_of_def upd_inode_def get_inode_def)

lemma balanced_blocks [bal]: "balanced (readsb d)" "balanced (bzero dev bno)"
  unfolding balanced_def readsb_def bzero_def by (rule own_rules own_bufs own_call bal | simp add: insert_Diff_if)+

lemma balanced_bitmap [bal]: "balanced (balloc dev)" "balanced (bfree dev b)"
  unfolding balanced_def balloc_def bfree_def Let_def by (rule own_rules own_bufs own_call bal | simp add: insert_Diff_if)+

lemma balanced_itable [bal]: "balanced (iget dev ino)" "balanced (idup ipo)"
  unfolding balanced_def iget_def idup_def by (rule own_rules own_call bal | simp add: insert_Diff_if)+

lemma balanced_ialloc [bal]: "balanced (ialloc dev type)"
  unfolding balanced_def ialloc_def Let_def by (rule own_rules own_bufs own_call bal | simp add: insert_Diff_if)+

lemma own_ilock: "(\<And>v. C v = insert (Slp (InodeLock i)) A) \<Longrightarrow> own A (ilock (Some i)) C"
  by (rule own_take [where B = "\<lambda>_. {Slp (InodeLock i)}"], unfold ilock_def option.case)
    (rule own_rules own_bufs own_call bal | simp add: insert_Diff_if)+

lemma own_iunlock: "Slp (InodeLock i) \<in> A \<Longrightarrow> (\<And>v. C v = A - {Slp (InodeLock i)}) \<Longrightarrow> own A (iunlock (Some i)) C"
  by (rule own_give [where l = "Slp (InodeLock i)"], unfold iunlock_def option.case)
    (rule own_rules own_bufs own_call bal | simp add: insert_Diff_if)+

lemma own_lock_if_needed:
  "(\<And>b. C b = (if b then insert (Slp (InodeLock i)) A else A)) \<Longrightarrow> own A (inode_lock_if_needed i) C"
proof (rule own_take [where B = "\<lambda>b. if b then {Slp (InodeLock i)} else {}"])
  show "own {} (inode_lock_if_needed i) (\<lambda>b. if b then {Slp (InodeLock i)} else {})"
    unfolding inode_lock_if_needed_def by (rule own_rules own_ilock own_call bal | simp)+
qed (auto split: if_splits)

lemmas own_inodes = own_bufs own_ilock own_iunlock own_lock_if_needed

lemma own_bool: "balanced m \<Longrightarrow> own A (f True) B \<Longrightarrow> own A (f False) B \<Longrightarrow> own A (bnd m f) B"
proof (rule own_bnd)
  fix v
  assume "own A (f True) B" "own A (f False) B"
  then show "own A (f v) B" by (cases v) simp_all
qed (rule own_call, simp_all)

lemma whenk_simps: "whenk True m = m" "whenk False m = ret ()"
  by (simp_all add: whenk_def)

lemma balanced_iupdate [bal]: "balanced (iupdate ipo)"
proof -
  have "own {} (iupdate (Some i)) (\<lambda>_. {})" for i
    unfolding iupdate_def option.case
    by (rule own_bool, rule bal, unfold whenk_simps not_True_eq_False not_False_eq_True)
      (rule own_rules own_inodes own_call bal | simp add: insert_Diff_if)+
  then show ?thesis by (cases ipo) (simp_all add: balanced_def iupdate_def own_ret)
qed

lemma balanced_bmap [bal]: "balanced (bmap i bn alloc)"
  unfolding balanced_def bmap_def Let_def by (rule own_rules own_inodes own_call bal | simp add: insert_Diff_if)+

lemma balanced_itrunc [bal]: "balanced (itrunc ipo)"
  unfolding balanced_def itrunc_def by (rule own_rules own_inodes own_call bal | simp add: insert_Diff_if)+

lemma balanced_iput [bal]: "balanced (iput ipo)"
  unfolding balanced_def iput_def by (rule own_rules own_inodes own_call bal | simp add: insert_Diff_if)+

lemma own_iunlockput:
  "Slp (InodeLock i) \<in> A \<Longrightarrow> (\<And>v. C v = A - {Slp (InodeLock i)}) \<Longrightarrow> own A (iunlockput (Some i)) C"
  unfolding iunlockput_def by (rule own_rules own_inodes own_call bal | simp)+

lemma balanced_readi_loop [bal]: "balanced (readi_loop i off n tot acc)"
proof (induction i off n tot acc rule: readi_loop.induct)
  case (1 i off n tot acc)
  show ?case
    unfolding balanced_def readi_loop.simps [of i off n tot acc] Let_def
    by (rule own_rules own_inodes own_call bal 1 | simp add: insert_Diff_if)+
qed

lemma balanced_writei_loop [bal]: "balanced (writei_loop i off src n tot)"
proof (induction i off src n tot rule: writei_loop.induct)
  case (1 i off src n tot)
  show ?case
    unfolding balanced_def writei_loop.simps [of i off src n tot] Let_def
    by (rule own_rules own_inodes own_call bal 1 | simp add: insert_Diff_if)+
qed

lemma balanced_contents [bal]: "balanced (readi ipo off n)" "balanced (writei ipo off src)"
  unfolding balanced_def readi_def writei_def Let_def
  by (rule own_rules own_inodes own_call bal | simp add: insert_Diff_if)+

subsection \<open>Paths, console, pipes, files\<close>

lemma balanced_dirs [bal]: "balanced (dirlookup d name)" "balanced proc_cwddup"
  unfolding balanced_def dirlookup_def proc_cwddup_def Let_def
  by (rule own_rules own_inodes own_call bal | simp add: insert_Diff_if)+

lemma balanced_dirlink [bal]: "balanced (dirlink d name ino)"
  unfolding balanced_def dirlink_def Let_def by (rule own_rules own_inodes own_call bal | simp add: insert_Diff_if)+

lemma balanced_namex_loop [bal]: "balanced (namex_loop ip p w name)"
proof (induction ip p w name rule: namex_loop.induct)
  case (1 ip p w name)
  show ?case
    unfolding balanced_def namex_loop.simps [of ip p w name]
    by (rule own_rules own_inodes own_iunlockput own_call bal 1 | simp add: insert_Diff_if)+
qed

lemma balanced_namex [bal]: "balanced (namex path w)"
  unfolding balanced_def namex_def by (rule own_rules own_inodes own_call bal | simp)+

lemma balanced_namei [bal]: "balanced (namei path)" "balanced (nameiparent path)"
  unfolding balanced_def namei_def nameiparent_def by (rule own_rules own_inodes own_call bal | simp)+

text \<open>The console's lock is taken because \<open>c_locking\<close> is set.\<close>

lemma own_consoleacquire: "(\<And>v. C v = insert (Spin ConsLock) A) \<Longrightarrow> own A (consoleacquire) C"
proof (rule own_post, rule ownI)
  show "gives_up (consoleacquire)"
    unfolding consoleacquire_def by (rule gives_up_bnd) (simp_all add: whenk_def)
next
  fix s H v t
  assume "consoleacquire s = Ret v t" "c_locking s" "locks_of s = A \<union> H" "A \<inter> H = {}"
  then show "c_locking t \<and> cur t = cur s \<and> locks_of t = insert (Spin ConsLock) A \<union> H \<and> insert (Spin ConsLock) A \<inter> H = {}"
    using ownD [OF own_acquire [OF refl], of ConsLock s v t A H] by (simp add: consoleacquire_def bnd_apply)
qed

lemma own_consolerelease: "Spin ConsLock \<in> A \<Longrightarrow> (\<And>v. C v = A - {Spin ConsLock}) \<Longrightarrow> own A consolerelease C"
proof (rule own_give [where l = "Spin ConsLock"], rule ownI)
  show "gives_up consolerelease"
    unfolding consolerelease_def by (rule gives_up_bnd) (simp_all add: whenk_def)
next
  fix s H v t
  assume "consolerelease s = Ret v t" "c_locking s" "locks_of s = {Spin ConsLock} \<union> H" "{Spin ConsLock} \<inter> H = {}"
  then show "c_locking t \<and> cur t = cur s \<and> locks_of t = {} \<union> H \<and> {} \<inter> H = {}"
    using ownD [OF own_release [OF _ refl], of ConsLock "{Spin ConsLock}" s v t H] by (simp add: consolerelease_def bnd_apply)
qed

lemmas own_consoles = own_consoleacquire own_consolerelease own_modify

lemma balanced_consputc [bal]: "balanced (consputc c)"
  unfolding balanced_def consputc_def uart_putc_def by (rule own_rules own_modify own_call bal | simp)+

lemma balanced_kill_line [bal]: "balanced (kill_line e w)"
proof (induction e w rule: kill_line.induct)
  case (1 e w)
  show ?case
    unfolding balanced_def kill_line.simps [of e w] by (rule own_rules own_consoles own_call bal 1 | simp)+
qed

lemma con_frames [simp]: "held (con_put c s) = held s" "slocks (con_put c s) = slocks s" "cur (con_put c s) = cur s"
  "c_locking (con_put c s) = c_locking s" "held (con_take s) = held s" "slocks (con_take s) = slocks s"
  "cur (con_take s) = cur s" "c_locking (con_take s) = c_locking s"
  by (simp_all add: con_put_def con_take_def)

lemma balanced_console [bal]: "balanced (consoleintr c)" "balanced consolegetc"
  unfolding balanced_def consoleintr_def consolegetc_def Let_def
  by (rule own_rules own_consoles own_call bal | simp add: insert_Diff_if)+

lemma own_consoleread_at: "own {Spin ConsLock} (consoleread_at pt dstva n i) (\<lambda>_. {})"
proof (induction pt dstva n i rule: consoleread_at.induct)
  case (1 pt dstva n i)
  show ?case
    unfolding consoleread_at.simps [of pt dstva n i]
    by (rule own_rules own_consoles own_pre [OF 1] own_call bal | simp)+
qed

lemma balanced_pipe_access [bal]: "balanced (upd_pipe pi f)" "balanced (get_pipe pi g)"
  by (auto simp: balanced_def own_def locks_of_def upd_pipe_def get_pipe_def)

lemma balanced_pipeclose [bal]: "balanced (pipeclose pi w)"
  unfolding balanced_def pipeclose_def by (rule own_rules own_call bal | simp)+

lemma own_pipewrite_loop: "own {Spin (PipeLock pi)} (pipewrite_loop pi addr n i p) (\<lambda>_. {})"
proof (induction pi addr n i p rule: pipewrite_loop.induct)
  case (1 pi addr n i p)
  show ?case
    unfolding pipewrite_loop.simps [of pi addr n i p] by (rule own_rules 1 own_call bal | simp)+
qed

lemma balanced_piperead_loop [bal]: "balanced (piperead_loop pi addr n i p)"
proof (induction pi addr n i p rule: piperead_loop.induct)
  case (1 pi addr n i p)
  show ?case
    unfolding balanced_def piperead_loop.simps [of pi addr n i p] Let_def by (rule own_rules own_call bal 1 | simp)+
qed

lemma own_piperead_wait: "own {Spin (PipeLock pi)} (piperead_wait pi addr n p) (\<lambda>_. {})"
  unfolding piperead_wait_def by (rule own_rules own_call bal | simp)+

lemma balanced_streams [bal]: "balanced (consoleread pt dstva n)" "balanced (pipewrite pi addr n)" "balanced (piperead pi addr n)"
  unfolding balanced_def consoleread_def pipewrite_def piperead_def
  by (rule own_rules own_consoles own_consoleread_at own_pipewrite_loop own_piperead_wait own_call bal | simp)+

lemma balanced_file_access [bal]: "balanced (upd_file f g)" "balanced (get_file f h)"
  by (auto simp: balanced_def own_def locks_of_def upd_file_def get_file_def)

lemma balanced_ftable [bal]: "balanced filealloc" "balanced (filedup fo)" "balanced (fileclose fo)"
  unfolding balanced_def filealloc_def filedup_def fileclose_def
  by (rule own_rules own_call bal | simp add: insert_Diff_if)+

lemma balanced_pipealloc [bal]: "balanced pipealloc"
  unfolding balanced_def pipealloc_def Let_def by (rule own_rules own_call bal | simp)+

lemma balanced_filestat [bal]: "balanced (filestat pad fo addr)"
  unfolding balanced_def filestat_def by (rule own_rules own_inodes own_call bal | simp)+

lemma balanced_inode_read_loop [bal]: "balanced (inode_read_loop f pt addr n tot)"
proof (induction f pt addr n tot rule: inode_read_loop.induct)
  case (1 f pt addr n tot)
  show ?case
    unfolding balanced_def inode_read_loop.simps [of f pt addr n tot] Let_def by (rule own_rules own_call bal 1 | simp)+
qed

lemma balanced_inode_write_loop [bal]: "balanced (inode_write_loop f pt addr n tot)"
proof (induction f pt addr n tot rule: inode_write_loop.induct)
  case (1 f pt addr n tot)
  show ?case
    unfolding balanced_def inode_write_loop.simps [of f pt addr n tot] Let_def by (rule own_rules own_call bal 1 | simp)+
qed

lemma own_console_write_loop: "own {Spin ConsLock} (console_write_loop pt addr n i) (\<lambda>_. {})"
proof (induction pt addr n i rule: console_write_loop.induct)
  case (1 pt addr n i)
  show ?case
    unfolding console_write_loop.simps [of pt addr n i] by (rule own_rules own_consoles 1 own_call bal | simp)+
qed

lemma balanced_file_io [bal]: "balanced (fileread fo addr n)" "balanced (filewrite fo addr n)"
  unfolding balanced_def fileread_def filewrite_def
  by (rule own_rules own_consoles own_console_write_loop own_call bal | simp)+

subsection \<open>Processes\<close>

lemma own_search_post:
  "(\<And>i. own A (f i) (\<lambda>r. case r of None \<Rightarrow> A | Some v \<Rightarrow> B v)) \<Longrightarrow>
     own A (search is f) (\<lambda>r. case r of None \<Rightarrow> A | Some v \<Rightarrow> B v)"
proof (induction "is")
  case (Cons i "is")
  show ?case
    unfolding search.simps
    by (rule own_bnd [where C = "\<lambda>r. case r of None \<Rightarrow> A | Some v \<Rightarrow> B v"], rule Cons.prems)
      (auto split: option.split intro: own_ret_eq Cons)
qed (simp add: own_ret_eq)

lemma balanced_tf [bal]: "balanced (get_tf p off)" "balanced (set_tf p off v)"
  unfolding balanced_def get_tf_def set_tf_def by (rule own_gets own_modify refl | simp)+

lemma balanced_image [bal]: "balanced (uvmmaprange pt va len perm)" "balanced (setup_user_stack pt old)"
    "balanced (proc_freepagetable pt len)"
  unfolding balanced_def uvmmaprange_def setup_user_stack_def proc_freepagetable_def Let_def
  by (rule own_rules own_call bal | simp)+

lemma balanced_pagetable [bal]: "balanced (proc_pagetable p)"
  unfolding balanced_def proc_pagetable_def by (rule own_rules own_call bal | simp)+

lemma balanced_uvmload [bal]: "balanced (uvmload_from_inode pt dstva ip fo len i)"
proof (induction pt dstva ip fo len i rule: uvmload_from_inode.induct)
  case (1 pt dstva ip fo len i)
  show ?case
    unfolding balanced_def uvmload_from_inode.simps [of pt dstva ip fo len i] Let_def
    by (rule own_rules own_call bal 1 | simp)+
qed

lemma balanced_segment [bal]: "balanced (load_segment pt ip file_size ph hi)"
  unfolding balanced_def load_segment_def Let_def by (rule own_rules own_call bal | simp)+

lemma balanced_segments [bal]: "balanced (load_segments ns pt ip file_size eh hi)"
proof (induction ns arbitrary: hi)
  case (Cons n ns)
  show ?case unfolding balanced_def load_segments.simps by (rule own_rules own_call bal Cons | simp)+
qed (simp add: balanced_def own_ret)

lemma balanced_load_elf [bal]: "balanced (load_elf pt path)"
  unfolding balanced_def load_elf_def Let_def
  by (rule own_rules own_inodes own_iunlockput own_call bal | simp add: insert_Diff_if)+

lemma balanced_freeproc [bal]: "balanced (freeproc p)"
  unfolding balanced_def freeproc_def by (rule own_rules own_call bal | simp)+

text \<open>\<open>allocproc\<close> returns with the lock of the process it has found.\<close>

lemma own_allocproc:
  "(\<And>r. C r = (case r of None \<Rightarrow> A | Some p \<Rightarrow> insert (Spin (ProcLock p)) A)) \<Longrightarrow> own A allocproc C"
proof (rule own_take [where B = "\<lambda>r. case r of None \<Rightarrow> {} | Some p \<Rightarrow> {Spin (ProcLock p)}"])
  show "own {} allocproc (\<lambda>r. case r of None \<Rightarrow> {} | Some p \<Rightarrow> {Spin (ProcLock p)})"
    unfolding allocproc_def
    by (rule own_bnd, rule own_search_post [where B = "case_option {} (\<lambda>p. {Spin (ProcLock p)})"])
      (rule own_rules own_call bal | simp add: insert_Diff_if)+
qed (auto split: option.splits)

lemma balanced_create [bal]: "balanced (proc_create fn)" "balanced (proc_create_user path)"
  unfolding balanced_def proc_create_def proc_create_user_def Let_def
  by (rule own_rules own_allocproc own_call bal | simp add: insert_Diff_if)+

lemma balanced_growproc [bal]: "balanced (growproc n)"
  unfolding balanced_def growproc_def Let_def by (rule own_rules own_call bal | simp)+

lemma balanced_fork [bal]: "balanced fork"
  unfolding balanced_def fork_def by (rule own_rules own_allocproc own_call bal | simp add: insert_Diff_if)+

lemma own_wait_scan:
  "own {Spin WaitLock} (wait_scan is p addr k) (\<lambda>r. case r of Inl _ \<Rightarrow> {} | Inr _ \<Rightarrow> {Spin WaitLock})"
proof (induction "is" arbitrary: k)
  case (Cons i "is")
  show ?case
    unfolding wait_scan.simps by (rule own_rules own_pre [OF Cons] own_call bal | simp add: insert_Diff_if)+
qed (simp add: own_ret_eq)

lemma own_wait_loop: "own {Spin WaitLock} (wait_loop p addr) (\<lambda>_. {})"
  unfolding wait_loop_def by (rule own_rules own_wait_scan own_call bal | simp)+

lemma balanced_wait [bal]: "balanced (wait addr)"
  unfolding balanced_def wait_def by (rule own_rules own_wait_loop own_call bal | simp)+

lemma balanced_push_args [bal]: "balanced (push_args pt stackbase sp uargv args)"
proof (induction args arbitrary: sp uargv)
  case (Cons a args)
  show ?case unfolding balanced_def push_args.simps Let_def by (rule own_rules own_call bal Cons | simp)+
qed (simp add: balanced_def own_ret)

lemma balanced_exec [bal]: "balanced (exec name argv)"
  unfolding balanced_def exec_def Let_def by (rule own_rules own_call bal | simp)+

lemma own_proc_exit: "own A (proc_exit status) B"
  unfolding proc_exit_def
  by (rule own_rules own_call bal | simp add: insert_Diff_if)+

lemma balanced_exit [bal]: "balanced (proc_exit status)"
  unfolding balanced_def by (rule own_proc_exit)

subsection \<open>System calls\<close>

lemma balanced_clock [bal]: "balanced on_timer_tick" "balanced ticks_get" "balanced (ticks_sleep n)"
  unfolding balanced_def on_timer_tick_def ticks_get_def ticks_sleep_def ticks_sleep_loop_def
  by (rule own_rules own_modify own_call bal | simp)+

lemma balanced_args [bal]: "balanced me" "balanced (fd_file p fd)"
  unfolding balanced_def me_def fd_file_def by (rule own_rules own_call bal | simp)+

lemma balanced_fdalloc [bal]: "balanced (fdalloc f)" "balanced (locked_inode i g)" "balanced (change_inode i h)"
    "balanced (isdirempty i)"
  unfolding balanced_def fdalloc_def locked_inode_def change_inode_def isdirempty_def
  by (rule own_rules own_inodes own_call bal | simp add: insert_Diff_if)+

lemma balanced_fetch_args [bal]: "balanced (fetch_args is pt uargv args)"
proof (induction "is" arbitrary: args)
  case (Cons i "is")
  show ?case unfolding balanced_def fetch_args.simps Let_def by (rule own_rules own_call bal Cons | simp)+
qed (simp add: balanced_def own_ret)

lemma balanced_sys_proc [bal]:
  "balanced sys_yield" "balanced sys_exit" "balanced sys_sbrk" "balanced sys_fork" "balanced sys_wait"
  "balanced sys_exec" "balanced sys_getpid" "balanced sys_sleep" "balanced sys_uptime" "balanced sys_kill" "balanced sys_hello_id"
  unfolding balanced_def sys_yield_def sys_exit_def sys_sbrk_def sys_fork_def sys_wait_def sys_exec_def sys_getpid_def
    sys_sleep_def sys_uptime_def sys_kill_def sys_hello_id_def Let_def
  by (rule own_rules own_call bal | simp)+

lemma balanced_sys_file [bal]:
  "balanced sys_write" "balanced sys_read" "balanced sys_close" "balanced (sys_fstat pad)" "balanced sys_dup" "balanced sys_pipe"
  unfolding balanced_def sys_write_def sys_read_def sys_close_def sys_fstat_def sys_dup_def sys_pipe_def Let_def
  by (rule own_rules own_call bal | simp)+

lemma balanced_create_inode [bal]: "balanced (create path type)"
  unfolding balanced_def create_def Let_def by (rule own_rules own_call bal | simp)+

lemma balanced_sys_dir [bal]:
  "balanced sys_open" "balanced sys_chdir" "balanced sys_mkdir" "balanced sys_unlink" "balanced sys_link"
  unfolding balanced_def sys_open_def sys_chdir_def sys_mkdir_def sys_unlink_def sys_link_def Let_def
  by (rule own_rules own_inodes own_call bal | simp add: insert_Diff_if)+

lemma balanced_handler: "syscalls pad num = Some h \<Longrightarrow> balanced h"
  by (auto simp: syscalls_def bal split: if_splits)

lemma balanced_syscall [bal]: "balanced (syscall pad)"
  unfolding balanced_def syscall_def by (rule own_rules own_call balanced_handler bal | simp)+

subsection \<open>System calls and traps keep the discipline\<close>

lemma balanced_Ret:
  assumes "balanced m" and "m s = Ret v t" and "c_locking s"
  shows "c_locking t \<and> cur t = cur s \<and> held t = held s \<and> (\<forall>l. sl_locked (slocks t l) = 0 \<longleftrightarrow> sl_locked (slocks s l) = 0)"
proof -
  from ownD [OF assms(1) [unfolded balanced_def] assms(2,3), of "locks_of s"]
  have "c_locking t" "cur t = cur s" and l: "locks_of t = locks_of s" by auto
  have "Spin k \<in> locks_of u \<longleftrightarrow> k \<in> held u" "Slp i \<in> locks_of u \<longleftrightarrow> sl_locked (slocks u i) \<noteq> 0"
    for k i and u :: "'z con_st_scheme"
    by (auto simp: locks_of_def)
  with l have "k \<in> held t \<longleftrightarrow> k \<in> held s" "sl_locked (slocks t i) \<noteq> 0 \<longleftrightarrow> sl_locked (slocks s i) \<noteq> 0" for k i
    by metis+
  then show ?thesis using \<open>c_locking t\<close> \<open>cur t = cur s\<close> by blast
qed

lemma balanced_gives_up: "balanced m \<Longrightarrow> m s = Sleeps c t \<or> m s = Leaves t \<Longrightarrow> held t = {}"
  unfolding balanced_def own_def gives_up_def by blast


lemma balanced_killed_check [bal]: "balanced (killed_check p)"
  unfolding balanced_def killed_check_def by (rule own_rules own_call bal | simp)+

lemma balanced_disk_isr [bal]: "balanced (virtio_disk_isr hw)"
  unfolding balanced_def virtio_disk_isr_def complete_used_locked_def complete_one_def write_reg_def
  by (rule own_rules own_modify own_call bal | simp add: insert_Diff_if)+

lemma balanced_cause [bal]: "balanced timer_yield" "balanced (external_interrupt hw irq bytes)"
    "balanced (usertrap_cause p pad scause hw irq bytes)"
  unfolding balanced_def Let_def timer_yield_def external_interrupt_def uart_isr_def usertrap_cause_def clearsip_ssip_def
  by (rule own_rules own_modify own_call bal | simp)+

lemma usertrapret_Ret:
  fixes s :: "'z trap_st_scheme"
  assumes "cur s = Some p" and "usertrapret s = Ret ue t"
  shows "cur t = Some p \<and> held t = held s \<and> killed (procs t ! p) = killed (procs s ! p) \<and>
     sstatus t = (sstatus s AND NOT SSTATUS_SPP) OR SSTATUS_SPIE \<and> sepc t = load64 (mem t) (trapframe (procs t ! p) + tf_epc) \<and>
     ue = \<lparr>ue_fn = TRAMPOLINE + (userret t - trampoline t), ue_trapframe = TRAPFRAME, ue_satp = MAKE_SATP (pagetable (procs t ! p))\<rparr>"
  using assms by (auto simp: usertrapret_def get_tf_def set_tf_def split: if_splits)

lemma proc_exit_no_return: "proc_exit st s \<noteq> Ret v t"
  by (auto simp: proc_exit_def no_return split: option.splits if_splits)

lemma killed_check_Ret: "killed_check p s = Ret v t \<Longrightarrow> t = s \<and> killed (procs s ! p) = 0"
  by (auto simp: killed_check_def bnd_apply proc_exit_no_return split: if_splits)

lemma usertrap_cause_Ret:
  "usertrap_cause p pad scause hw irq bytes s = Ret v t \<Longrightarrow>
     scause = SCAUSE_ECALL_U \<and> killed (procs s ! p) = 0 \<or> bit scause 63"
  by (auto simp: usertrap_cause_def proc_exit_no_return dest: killed_check_Ret split: if_splits)

lemma and_bits: "((x AND NOT a) OR b) AND a = b AND a" "((x AND NOT a) OR b) AND b = b" for x a b :: u64
  by (auto intro!: bit_word_eqI simp: bit_simps)

lemma sstatus_user: "((x AND NOT SSTATUS_SPP) OR SSTATUS_SPIE) AND SSTATUS_SPP = 0"
    "((x AND NOT SSTATUS_SPP) OR SSTATUS_SPIE) AND SSTATUS_SPIE \<noteq> 0"
  unfolding and_bits by (simp_all add: SSTATUS_SPP_def SSTATUS_SPIE_def)


definition demo_trap :: trap_st where
  "demo_trap = clock_st.extend (file_st.extend (pipe_st.extend demo_pipe (file_st.fields (replicate NFILE empty_file)))
       (clock_st.fields 0)) (trap_st.fields 0 0 0 0 0 0 0 0)
     \<lparr>procs := (procs demo_pipe)[1 := (procs demo_pipe ! 1)\<lparr>pagetable := 0x80003000, trapframe := 0x80004000\<rparr>],
      mem := store64 (\<lambda>_. 0) (0x80004000 + tf_a7) 12\<rparr>"

lemma demo_trap_fields:
  "c_locking demo_trap" "held demo_trap = {}" "cur demo_trap = Some (Suc 0)" "sstatus demo_trap = 0"
  "procs demo_trap ! Suc 0 = idle_proc\<lparr>pid := 1, pstate := RUNNING, pagetable := 0x80003000, trapframe := 0x80004000\<rparr>"
  "mem demo_trap = store64 (\<lambda>_. 0) 0x800040A8 12"
  by (simp_all add: demo_trap_def file_st.defs clock_st.defs trap_st.defs demos NPROC_def)

lemma demo_getpid:
  "load64 (mem s) (trapframe (procs s ! p) + tf_a7) = 12 \<Longrightarrow> cur s = Some p \<Longrightarrow>
     syscall [] s = Ret () (s\<lparr>mem := store64 (mem s) (trapframe (procs s ! p) + tf_a0) (to_u64 (pid (procs s ! p)))\<rparr>)"
  by (simp add: syscall_def me_def get_tf_def set_tf_def syscalls_def c_int_def sys_getpid_def bnd_apply)

lemma demo_killed: "killed (procs s ! p) = 0 \<Longrightarrow> killed_check p s = Ret () s"
  by (simp add: killed_check_def bnd_apply)

lemma demo_return: "cur s = Some p \<Longrightarrow> trapframe (procs s ! p) \<noteq> 0 \<Longrightarrow> pagetable (procs s ! p) \<noteq> 0 \<Longrightarrow>
    \<exists>ue t. usertrapret s = Ret ue t"
  by (simp add: usertrapret_def get_tf_def set_tf_def run_simps)


lemma demo_load: "load64 (store64 (store64 (\<lambda>_. 0) 0x800040A8 12) 0x80004018 e) 0x800040A8 = 12"
  by (subst load64_store64_disj) (simp_all add: disj_def)


end
