(* ===== verification/Boot.thy ===== *)
theory Boot
  imports Device Scheduler KernelLog
begin

section \<open>The boot: \<^verbatim>\<open>kernel/core/main.c\<close>\<close>

text \<open>
  \<open>main\<close> is where every hart enters the kernel. Hart 0 calls the initialisers, in an order in which
  each finds what it needs, and lets the others go; then every hart turns into its scheduler. The state is that of
  the kernel with the devices beside it; what a load or a store of a device register does is the
  parameter \<open>board\<close>. The UART is written by \<open>uart_init\<close> only: what \<open>printf\<close> sends is in \<open>uart_out\<close>.
\<close>

subsection \<open>The initialisers in order\<close>

record ('u, 'p) board =
  uart_regs :: "'u uart"
  plic_regs :: "'p plic"
  disk_reads :: "u32 \<Rightarrow> u32"
  disk_pages :: u64

record ('u, 'p) main_st = boot_st +
  uart_dev :: 'u
  plic_dev :: 'p
  started :: bool

definition on_uart :: "('u \<Rightarrow> 'u) \<Rightarrow> (('u, 'p, 'z) main_st_scheme, unit) kern" where
  "on_uart f = modify (\<lambda>s. s\<lparr>uart_dev := f (uart_dev s)\<rparr>)"

definition on_plic :: "('p \<Rightarrow> 'p) \<Rightarrow> (('u, 'p, 'z) main_st_scheme, unit) kern" where
  "on_plic f = modify (\<lambda>s. s\<lparr>plic_dev := f (plic_dev s)\<rparr>)"

definition cpuid :: "('z kcore_scheme, int) kern" where
  "cpuid = gets hart"

definition print_boot_logo :: "('z log_st_scheme, unit) kern" where
  "print_boot_logo =
     thn (kprint [10] [])
     (thn (kprint (chars '' _   _            ___   ____  '' @ [10]) [])
     (thn (kprint (chars ''| '' @ [92] @ chars '' | | ___ _  _ / _ '' @ [92] @ chars '' / ___| '' @ [10]) [])
     (thn (kprint (chars ''|  '' @ [92] @ chars ''| |/ _ '' @ [92] @ chars '' '' @ [92] @ chars ''/ / | | '' @ [92] @ chars ''___ '' @ [92] @ chars '' '' @ [10]) [])
     (thn (kprint (chars ''| |'' @ [92] @ chars ''  |  __/>  <| |_| |___) |'' @ [10]) [])
     (thn (kprint (chars ''|_| '' @ [92] @ chars ''_|'' @ [92] @ chars ''___/_/'' @ [92] @ chars ''_'' @ [92, 92] @ chars ''___/|____/ '' @ [10]) [])
     (kprint [10] []))))))"

definition plic_inithart_here :: "('u, 'p) board \<Rightarrow> (('u, 'p, 'z) main_st_scheme, unit) kern" where
  "plic_inithart_here B = bnd cpuid (\<lambda>h. on_plic (plic_inithart (plic_regs B) h))"

text \<open>Hart 0.\<close>

definition boot_hart :: "('u, 'p) board \<Rightarrow> (('u, 'p, 'z) main_st_scheme, unit) kern" where
  "boot_hart B =
     thn (on_uart (dev_init (uart_regs B)))
     (thn printfinit
     (thn print_boot_logo
     (thn kinit
     (thn kvminit
     (thn kvminithart
     (thn proc_init
     (thn (on_plic (plic_init (plic_regs B)))
     (thn (plic_inithart_here B)
     (thn binit
     (thn (virtio_disk_init (disk_reads B) (disk_pages B))
     (thn (kprint (chars ''[NexOS] Mounting filesystem...'' @ [10]) [])
     (thn (fsinit 0)
     (thn fileinit
     (thn userinit
     (thn trap_init
     (modify (\<lambda>s. s\<lparr>started := True\<rparr>)))))))))))))))))"

text \<open>The other harts. One that finds \<open>started\<close> unset spins: for it the call does not go on.\<close>

definition wait_started :: "(('u, 'p, 'z) main_st_scheme, unit) kern" where
  "wait_started = bnd (gets started) (\<lambda>b. if b then ret () else hang)"

definition secondary_hart :: "('u, 'p) board \<Rightarrow> (('u, 'p, 'z) main_st_scheme, unit) kern" where
  "secondary_hart B =
     thn wait_started
     (thn kvminithart
     (thn (plic_inithart_here B)
     trap_init))"

definition main_init :: "('u, 'p) board \<Rightarrow> (('u, 'p, 'z) main_st_scheme, unit) kern" where
  "main_init B = bnd cpuid (\<lambda>id. if id = 0 then boot_hart B else secondary_hart B)"

definition main ::
  "('u, 'p) board \<Rightarrow> (nat \<Rightarrow> (('u, 'p, 'z) main_st_scheme, unit) kern) \<Rightarrow> nat \<Rightarrow> (('u, 'p, 'z) main_st_scheme, unit) kern" where
  "main B run n = thn (main_init B) (scheduler run n)"

end
