(* ===== verification/Blocks.thy ===== *)
theory Blocks
  imports Inode
begin

section \<open>Block allocation\<close>

text \<open>
  The bitmap of used blocks read off the disk, and \<open>balloc\<close>, \<open>bfree\<close>, \<open>bzero\<close> and \<open>readsb\<close> as
  operations on the disk, with any buffers held by the caller besides the blocks they touch.
\<close>

lemma io_fs: "io dev H s t \<Longrightarrow> sb t = sb s \<and> itable t = itable s \<and> procs t = procs s \<and> cur t = cur s \<and>
    held t = held s \<and> mem t = mem s"
  by (auto simp: io_def cache_step_def)

lemma read_pattern:
  "bnd (bread dev bno) (\<lambda>b. bnd (get_buf b bdata) (\<lambda>bs. thn (brelse b) (ret (f bs)))) =
   bnd (read_block dev bno) (\<lambda>bs. ret (f bs))"
  by (rule ext) (auto simp: read_block_def run_simps split: outcome.splits)

lemma readsb_eq: "readsb dev = bnd (read_block (word_of_int dev) 1) (\<lambda>bs. ret (superblock_of bs))"
  unfolding readsb_def by (rule read_pattern)

lemma bzero_eq: "bzero dev bno = modify_block dev bno (\<lambda>_. replicate BSIZE 0)"
  by (simp add: bzero_def modify_block_def)

subsection \<open>The bitmap\<close>

definition used :: "(u32 \<Rightarrow> u8 list) \<Rightarrow> superblock \<Rightarrow> nat \<Rightarrow> bool" where
  "used d sbk n \<longleftrightarrow> bit_set (d (BBLOCK (of_nat n) sbk)) (n mod BPB)"

lemma BPB_pos [simp]: "0 < BPB" and BPB_small: "BPB < 2 ^ 32"
  by (simp_all add: BPB_def BSIZE_def)

lemma bit_set_iff: "bit_set bs bi \<longleftrightarrow> bit (bs ! (bi div 8)) (bi mod 8)"
  by (simp add: bit_set_def push_bit_of_1 and_exp_eq_0_iff_not_bit)

lemma bit_index_eq: "bi = bj \<longleftrightarrow> bi div 8 = bj div 8 \<and> bi mod 8 = (bj mod 8 :: nat)"
  by (metis div_mult_mod_eq)

lemma bit_set_set: "bj div 8 < length bs \<Longrightarrow> bit_set (set_bit_at bi bs) bj \<longleftrightarrow> bi = bj \<or> bit_set bs bj"
  unfolding bit_index_eq [of bi bj]
  by (auto simp: bit_set_iff set_bit_at_def nth_list_update_if bit_simps)

lemma bit_set_clear: "bj div 8 < length bs \<Longrightarrow> bit_set (clear_bit_at bi bs) bj \<longleftrightarrow> bi \<noteq> bj \<and> bit_set bs bj"
  unfolding bit_index_eq [of bi bj]
  by (auto simp: bit_set_iff clear_bit_at_def nth_list_update_if bit_simps)

lemma length_bit_at [simp]: "length (set_bit_at bi bs) = length bs" "length (clear_bit_at bi bs) = length bs"
  by (simp_all add: set_bit_at_def clear_bit_at_def)

lemma unat_BBLOCK_div:
  assumes "n < 2 ^ 32"
  shows "(of_nat n :: u32) div of_nat BPB = of_nat (n div BPB)"
proof -
  have "n div BPB < 4294967296"
    by (rule le_less_trans [OF div_le_dividend]) (use assms in simp)
  with assms BPB_small show ?thesis by (simp add: word_unat_eq_iff unat_div unat32_of_nat)
qed

lemma BBLOCK_chunk:
  assumes "b + bi < 2 ^ 32" and "BPB dvd b" and "bi < BPB"
  shows "BBLOCK (of_nat (b + bi)) sbk = BBLOCK (of_nat b) sbk" and "(b + bi) mod BPB = bi"
proof -
  obtain k where k: "b = BPB * k" using assms(2) by (rule dvdE)
  then have "(b + bi) div BPB = b div BPB" using assms(3) by simp
  then show "BBLOCK (of_nat (b + bi)) sbk = BBLOCK (of_nat b) sbk"
    using assms(1) unfolding BBLOCK_def by (simp only: unat_BBLOCK_div [OF assms(1)] unat_BBLOCK_div)
  show "(b + bi) mod BPB = bi" using k assms(3) by simp
qed

text \<open>A search for the first index of a range, in chunks.\<close>

lemma find_append: "find P (xs @ ys) = (case find P xs of Some x \<Rightarrow> Some x | None \<Rightarrow> find P ys)"
  by (induction xs) auto

lemma find_shift: "find P [a..<a + n] = map_option (\<lambda>i. a + i) (find (\<lambda>i. P (a + i)) [0..<n])"
proof (induction n)
  case (Suc n)
  then show ?case by (cases "find (\<lambda>i. P (a + i)) [0..<n]") (auto simp: find_append)
qed simp

lemma find_chunk:
  assumes "b \<le> lim"
  shows "find P [b..<lim] = (case find (\<lambda>i. P (b + i)) [0..<min BPB (lim - b)] of
     Some i \<Rightarrow> Some (b + i) | None \<Rightarrow> find P [b + BPB..<lim])"
proof -
  let ?n = "min BPB (lim - b)"
  have "[b..<lim] = [b..<b + ?n] @ [b + ?n..<lim]"
    using assms upt_add_eq_append [of b "b + ?n" "lim - (b + ?n)"] by simp
  moreover have "[b + ?n..<lim] = [b + BPB..<lim]" by (auto simp: min_def)
  ultimately show ?thesis
    using find_shift [of P b ?n] by (simp add: find_append split: option.splits)
qed

subsection \<open>balloc and bfree\<close>

definition took_block :: "superblock \<Rightarrow> nat \<Rightarrow> (u32 \<Rightarrow> u8 list) \<Rightarrow> (u32 \<Rightarrow> u8 list)" where
  "took_block sbk n d = (d(BBLOCK (of_nat n) sbk := set_bit_at (n mod BPB) (d (BBLOCK (of_nat n) sbk))))
     (of_nat n := replicate BSIZE 0)"

text \<open>The blocks \<open>balloc\<close> touches are not among those the caller holds.\<close>

definition free_to_alloc :: "'z fs_st_scheme \<Rightarrow> nat set \<Rightarrow> bool" where
  "free_to_alloc s H \<longleftrightarrow> card H < NBUF \<and> (\<forall>n < unat (sb_size (sb s)). not_held s H (BBLOCK (of_nat n) (sb s)) \<and>
     (\<not> used (disk s) (sb s) n \<longrightarrow> not_held s H (of_nat n)))"

lemma free_to_alloc_io: "io dev H s t \<Longrightarrow> disk t = disk s \<Longrightarrow> free_to_alloc t H = free_to_alloc s H"
  using io_fs [of dev H s t] ioD(5) [of dev H s t] by (simp add: free_to_alloc_def)

definition balloc_body :: "u32 \<Rightarrow> superblock \<Rightarrow> nat \<Rightarrow> ('z fs_st_scheme, u32 option) kern" where
  "balloc_body dev sbk b =
     bnd (bread dev (BBLOCK (of_nat b) sbk)) (\<lambda>bp.
     bnd (get_buf bp bdata) (\<lambda>bs.
     case find (\<lambda>bi. \<not> bit_set bs bi) [0..<min BPB (unat (sb_size sbk) - b)] of
       Some bi \<Rightarrow>
         thn (upd_data bp (set_bit_at bi))
         (thn (bwrite bp)
         (thn (brelse bp)
         (thn (bzero dev (of_nat (b + bi)))
         (ret (Some (of_nat (b + bi)))))))
     | None \<Rightarrow> thn (brelse bp) (ret None)))"

lemma found_bit:
  assumes "find (\<lambda>bi. \<not> used d sbk (b + bi)) [0..<min BPB (lim - b)] = r" and "b < lim" and "lim < 2 ^ 32" and "BPB dvd b"
  shows "find (\<lambda>bi. \<not> bit_set (d (BBLOCK (of_nat b) sbk)) bi) [0..<min BPB (lim - b)] = r"
proof -
  have "used d sbk (b + bi) = bit_set (d (BBLOCK (of_nat b) sbk)) bi" if "bi < min BPB (lim - b)" for bi
  proof -
    have "b + bi < 2 ^ 32" "bi < BPB" using that assms(2,3) by auto
    then show ?thesis using BBLOCK_chunk(1) [of b bi sbk] BBLOCK_chunk(2) [of b bi] assms(4) by (simp add: used_def)
  qed
  then have "find (\<lambda>bi. \<not> bit_set (d (BBLOCK (of_nat b) sbk)) bi) [0..<min BPB (lim - b)] =
      find (\<lambda>bi. \<not> used d sbk (b + bi)) [0..<min BPB (lim - b)]"
    by (intro find_cong) auto
  with assms(1) show ?thesis by simp
qed

lemma balloc_body_spec:
  fixes s :: "'z fs_st_scheme"
  assumes c: "cache_ok dev s H" "calm s" "free_to_alloc s H" and b: "b < unat (sb_size (sb s))" "BPB dvd b"
    and f: "find (\<lambda>bi. \<not> used (disk s) (sb s) (b + bi)) [0..<min BPB (unat (sb_size (sb s)) - b)] = r"
  shows "\<exists>t. balloc_body dev (sb s) b s = Ret (map_option (\<lambda>bi. of_nat (b + bi)) r) t \<and> io dev H s t \<and>
     disk t = (case r of None \<Rightarrow> disk s | Some bi \<Rightarrow> took_block (sb s) (b + bi) (disk s))"
proof -
  let ?lim = "unat (sb_size (sb s))" and ?B = "BBLOCK (of_nat b) (sb s)"
  have lim: "?lim < 2 ^ 32" using unat32_less by simp
  note f' = found_bit [OF f b(1) lim b(2)]
  have nh: "not_held s H ?B" "card H < NBUF" using c(3) b(1) by (auto simp: free_to_alloc_def)
  obtain bp u where u: "bread dev ?B s = Ret bp u" "opened dev H s ?B bp u"
    by (rule bread_opens [OF c(1,2) nh])
  have bd: "bdata (bufs u ! bp) = disk s ?B" using u(2) by (simp add: opened_def)
  show ?thesis
  proof (cases r)
    case None
    obtain t where "brelse bp u = Ret () t" "io dev H s t" "disk t = disk s" by (rule opened_read [OF u(2) c(2)])
    with u bd f' None show ?thesis by (simp add: balloc_body_def run_simps)
  next
    case (Some bi)
    from f Some have bi: "bi < min BPB (?lim - b)" "\<not> used (disk s) (sb s) (b + bi)"
      by (auto dest: find_SomeD)
    then have n: "b + bi < ?lim" "bi < BPB" by auto
    with lim have n32: "b + bi < 2 ^ 32" by linarith
    note ch = BBLOCK_chunk(1) [OF n32 b(2) n(2), of "sb s"] BBLOCK_chunk(2) [OF n32 b(2) n(2)]
    have len: "length (disk s k) = BSIZE" for k using cache_okD(6) [OF c(1)] .
    obtain t where t: "thn (upd_data bp (set_bit_at bi)) (thn (bwrite bp) (brelse bp)) u = Ret () t" "io dev H s t"
      "disk t = (disk s)(?B := set_bit_at bi (disk s ?B))"
      by (rule opened_modify [where f = "set_bit_at bi", OF u(2) c(2)]) (use len in simp_all)
    have "not_held s H (of_nat (b + bi))"
      using c(3) n(1) bi(2) unfolding free_to_alloc_def by blast
    then have "not_held t H (of_nat (b + bi))" using ioD(5) [OF t(2)] by blast
    then obtain v where v: "bzero dev (of_nat (b + bi)) t = Ret () v" "io dev H t v"
      "disk v = (disk t)(of_nat (b + bi) := replicate BSIZE 0)"
      using modify_block_spec [of dev t H "of_nat (b + bi)" "\<lambda>_. replicate BSIZE 0"] ioD(1,4) [OF t(2)] c(2) nh(2)
      by (auto simp: bzero_eq)
    have "balloc_body dev (sb s) b s =
        thn (thn (upd_data bp (set_bit_at bi)) (thn (bwrite bp) (brelse bp)))
          (thn (bzero dev (of_nat (b + bi))) (ret (Some (of_nat (b + bi))))) u"
      using u(1) bd f' Some by (simp add: balloc_body_def bnd_apply thn_assoc)
    also have "\<dots> = Ret (Some (of_nat (b + bi))) v"
      by (subst thn_run [where m = "thn (upd_data bp (set_bit_at bi)) (thn (bwrite bp) (brelse bp))" and s = u and t = t and v = "()"],
          rule t(1), subst thn_run [where m = "bzero dev (of_nat (b + bi))" and s = t and t = v and v = "()"], rule v(1)) (rule refl)
    finally show ?thesis
      using Some io_trans [OF t(2) v(2)] v(3) t(3) ch by (simp add: took_block_def)
  qed
qed

lemma balloc_search:
  fixes s :: "'z fs_st_scheme"
  assumes "cache_ok dev s H" and "calm s" and "free_to_alloc s H" and "BPB dvd b"
    and "unat (sb_size (sb s)) \<le> b + m * BPB" and "b < unat (sb_size (sb s)) + BPB"
  shows "\<exists>t. search (map (\<lambda>k. b + k * BPB) [0..<(unat (sb_size (sb s)) - b + BPB - 1) div BPB]) (balloc_body dev (sb s)) s =
       Ret (map_option of_nat (find (\<lambda>n. \<not> used (disk s) (sb s) n) [b..<unat (sb_size (sb s))])) t \<and> io dev H s t \<and>
     disk t = (case find (\<lambda>n. \<not> used (disk s) (sb s) n) [b..<unat (sb_size (sb s))] of
       None \<Rightarrow> disk s | Some n \<Rightarrow> took_block (sb s) n (disk s))"
  using assms
proof (induction m arbitrary: b s)
  case 0
  then show ?case by (simp add: io_refl)
next
  case (Suc m)
  let ?lim = "unat (sb_size (sb s))" and ?P = "\<lambda>n. \<not> used (disk s) (sb s) n"
  show ?case
  proof (cases "b < ?lim")
    case False
    then show ?thesis using Suc.prems by (simp add: io_refl)
  next
    case True
    have "(?lim - b + BPB - 1) div BPB = Suc ((?lim - (b + BPB) + BPB - 1) div BPB)"
    proof -
      have "(?lim - b + BPB - 1) div BPB = Suc ((?lim - b - 1) div BPB)"
        using True div_add_self2 [of BPB "?lim - b - 1"] by (simp add: add.commute)
      moreover have "(?lim - b - 1) div BPB = (?lim - (b + BPB) + BPB - 1) div BPB"
      proof (cases "?lim \<le> b + BPB")
        case True
        then have "?lim - b - 1 < BPB" using \<open>b < ?lim\<close> by arith
        with True show ?thesis by simp
      next
        case False
        then have "?lim - b - 1 = ?lim - (b + BPB) + BPB - 1" by auto
        then show ?thesis by simp
      qed
      ultimately show ?thesis by simp
    qed
    then have list: "map (\<lambda>k. b + k * BPB) [0..<(?lim - b + BPB - 1) div BPB] =
        b # map (\<lambda>k. (b + BPB) + k * BPB) [0..<(?lim - (b + BPB) + BPB - 1) div BPB]"
      by (simp add: map_upt_Suc add_ac del: upt_Suc)
    obtain t where t: "balloc_body dev (sb s) b s = Ret (map_option (\<lambda>bi. of_nat (b + bi))
        (find (\<lambda>bi. ?P (b + bi)) [0..<min BPB (?lim - b)])) t" "io dev H s t"
      "disk t = (case find (\<lambda>bi. ?P (b + bi)) [0..<min BPB (?lim - b)] of
        None \<Rightarrow> disk s | Some bi \<Rightarrow> took_block (sb s) (b + bi) (disk s))"
      using balloc_body_spec [OF Suc.prems(1-3) True Suc.prems(4) refl] by blast
    have split: "find ?P [b..<?lim] = (case find (\<lambda>i. ?P (b + i)) [0..<min BPB (?lim - b)] of
       Some i \<Rightarrow> Some (b + i) | None \<Rightarrow> find ?P [b + BPB..<?lim])"
      using True by (intro find_chunk) simp
    show ?thesis
    proof (cases "find (\<lambda>i. ?P (b + i)) [0..<min BPB (?lim - b)]")
      case (Some bi)
      then show ?thesis using t split unfolding list by (simp add: bnd_apply)
    next
      case None
      have d: "disk t = disk s" "sb t = sb s" using t(3) None io_fs [OF t(2)] by simp_all
      have "\<exists>v. search (map (\<lambda>k. b + BPB + k * BPB) [0..<(unat (sb_size (sb t)) - (b + BPB) + BPB - 1) div BPB])
          (balloc_body dev (sb t)) t =
         Ret (map_option of_nat (find (\<lambda>n. \<not> used (disk t) (sb t) n) [b + BPB..<unat (sb_size (sb t))])) v \<and> io dev H t v \<and>
       disk v = (case find (\<lambda>n. \<not> used (disk t) (sb t) n) [b + BPB..<unat (sb_size (sb t))] of
         None \<Rightarrow> disk t | Some n \<Rightarrow> took_block (sb t) n (disk t))"
        using Suc.prems True ioD(1,4) [OF t(2)] free_to_alloc_io [OF t(2) d(1)]
        by (intro Suc.IH) (simp_all add: d)
      then obtain v where v: "search (map (\<lambda>k. b + BPB + k * BPB) [0..<(?lim - (b + BPB) + BPB - 1) div BPB])
          (balloc_body dev (sb s)) t = Ret (map_option of_nat (find ?P [b + BPB..<?lim])) v" "io dev H t v"
        "disk v = (case find ?P [b + BPB..<?lim] of None \<Rightarrow> disk s | Some n \<Rightarrow> took_block (sb s) n (disk s))"
        unfolding d by blast
      then show ?thesis using t(1) None split io_trans [OF t(2) v(2)] unfolding list by (simp add: bnd_apply)
    qed
  qed
qed

lemma balloc_eq:
  "balloc dev = bnd (gets sb) (\<lambda>sbk.
     bnd (search (map (\<lambda>k. 0 + k * BPB) [0..<(unat (sb_size sbk) - 0 + BPB - 1) div BPB]) (balloc_body dev sbk))
     (\<lambda>r. case r of Some v \<Rightarrow> ret v | None \<Rightarrow> ret 0))"
  unfolding balloc_def balloc_body_def by simp

lemma balloc_spec:
  assumes "cache_ok dev s H" and "calm s" and "free_to_alloc s H"
  shows "\<exists>t. balloc dev s = Ret (case find (\<lambda>n. \<not> used (disk s) (sb s) n) [0..<unat (sb_size (sb s))] of
       None \<Rightarrow> 0 | Some n \<Rightarrow> of_nat n) t \<and> io dev H s t \<and>
     disk t = (case find (\<lambda>n. \<not> used (disk s) (sb s) n) [0..<unat (sb_size (sb s))] of
       None \<Rightarrow> disk s | Some n \<Rightarrow> took_block (sb s) n (disk s))"
proof -
  have "unat (sb_size (sb s)) \<le> 0 + unat (sb_size (sb s)) * BPB"
    using BPB_pos by (cases BPB) auto
  from balloc_search [OF assms _ this] obtain t where t:
    "search (map (\<lambda>k. 0 + k * BPB) [0..<(unat (sb_size (sb s)) - 0 + BPB - 1) div BPB]) (balloc_body dev (sb s)) s =
       Ret (map_option of_nat (find (\<lambda>n. \<not> used (disk s) (sb s) n) [0..<unat (sb_size (sb s))])) t"
    "io dev H s t"
    "disk t = (case find (\<lambda>n. \<not> used (disk s) (sb s) n) [0..<unat (sb_size (sb s))] of
       None \<Rightarrow> disk s | Some n \<Rightarrow> took_block (sb s) n (disk s))"
    by auto
  from t(2,3) show ?thesis
    unfolding balloc_eq bnd_apply gets_apply outcome.case t(1)
    by (intro exI [of _ t]) (auto split: option.splits)
qed

lemma bfree_spec:
  assumes "cache_ok dev s H" and "calm s" and "card H < NBUF" and "not_held s H (BBLOCK b (sb s))"
  shows "if used (disk s) (sb s) (unat b)
     then \<exists>t. bfree dev b s = Ret () t \<and> io dev H s t \<and>
       disk t = (disk s)(BBLOCK b (sb s) := clear_bit_at (unat b mod BPB) (disk s (BBLOCK b (sb s))))
     else bfree dev b s = Panic ''bfree: freeing free block''"
proof -
  let ?B = "BBLOCK b (sb s)" and ?f = "clear_bit_at (unat b mod BPB)"
  obtain bp u where u: "bread dev ?B s = Ret bp u" "opened dev H s ?B bp u"
    by (rule bread_opens [OF assms(1,2,4,3)])
  have bd: "bdata (bufs u ! bp) = disk s ?B" using u(2) by (simp add: opened_def)
  obtain r where r: "brelse bp u = Ret () r" by (rule opened_read [OF u(2) assms(2)])
  obtain t where t: "thn (upd_data bp ?f) (thn (bwrite bp) (brelse bp)) u = Ret () t" "io dev H s t"
    "disk t = (disk s)(?B := ?f (disk s ?B))"
    by (rule opened_modify [where f = ?f, OF u(2) assms(2)]) (use cache_okD(6) [OF assms(1)] in simp_all)
  have use: "used (disk s) (sb s) (unat b) = bit_set (disk s ?B) (unat b mod BPB)" by (simp add: used_def)
  have "bfree dev b s = (if bit_set (disk s ?B) (unat b mod BPB)
      then thn (upd_data bp ?f) (thn (bwrite bp) (brelse bp)) u else Panic ''bfree: freeing free block'')"
    using u(1) bd r by (simp add: bfree_def bnd_apply Let_def thn_apply [of "brelse bp"])
  with t show ?thesis unfolding use by auto
qed

subsection \<open>The set of used blocks\<close>

definition used_set :: "'z fs_st_scheme \<Rightarrow> nat set" where
  "used_set s = {n. n < unat (sb_size (sb s)) \<and> used (disk s) (sb s) n}"

text \<open>The bitmap's own blocks, and block 0, are marked used.\<close>

definition bitmap_ok :: "'z fs_st_scheme \<Rightarrow> bool" where
  "bitmap_ok s \<longleftrightarrow> (\<forall>n. length (disk s n) = BSIZE) \<and> (0 < unat (sb_size (sb s)) \<longrightarrow> 0 \<in> used_set s) \<and>
     (\<forall>n < unat (sb_size (sb s)). unat (BBLOCK (of_nat n) (sb s)) \<in> used_set s)"

lemma bit_in_block: "n mod BPB div 8 < BSIZE"
proof -
  have "n mod BPB < BSIZE * 8" using mod_less_divisor [OF BPB_pos, of n] by (simp add: BPB_def)
  then show ?thesis by (simp add: less_mult_imp_div_less)
qed

lemma BBLOCK_same:
  assumes "m < 2 ^ 32" and "n < 2 ^ 32" and "BBLOCK (of_nat m) sbk = BBLOCK (of_nat n) sbk"
  shows "m div BPB = n div BPB"
proof -
  have "(of_nat (m div BPB) :: u32) = of_nat (n div BPB)"
    using assms by (simp add: BBLOCK_def unat_BBLOCK_div)
  then have "unat (of_nat (m div BPB) :: u32) = unat (of_nat (n div BPB) :: u32)" by simp
  moreover have "m div BPB < 4294967296" "n div BPB < 4294967296"
    using le_less_trans [OF div_le_dividend assms(1)] le_less_trans [OF div_le_dividend assms(2)] by simp_all
  ultimately show ?thesis by (simp only: unat32_of_nat)
qed

lemma used_update:
  assumes "m < 2 ^ 32" and "n < 2 ^ 32" and "length (d (BBLOCK (of_nat n) sbk)) = BSIZE"
  shows "used (d(BBLOCK (of_nat n) sbk := set_bit_at (n mod BPB) (d (BBLOCK (of_nat n) sbk)))) sbk m \<longleftrightarrow> m = n \<or> used d sbk m"
    and "used (d(BBLOCK (of_nat n) sbk := clear_bit_at (n mod BPB) (d (BBLOCK (of_nat n) sbk)))) sbk m \<longleftrightarrow> m \<noteq> n \<and> used d sbk m"
proof -
  have len: "m mod BPB div 8 < length (d (BBLOCK (of_nat n) sbk))" using bit_in_block assms(3) by simp
  have eq: "n mod BPB = m mod BPB \<longleftrightarrow> m = n" if "BBLOCK (of_nat m) sbk = BBLOCK (of_nat n) sbk"
    using BBLOCK_same [OF assms(1,2) that] by (metis div_mult_mod_eq)
  show "used (d(BBLOCK (of_nat n) sbk := set_bit_at (n mod BPB) (d (BBLOCK (of_nat n) sbk)))) sbk m \<longleftrightarrow> m = n \<or> used d sbk m"
    using eq bit_set_set [OF len] by (auto simp: used_def)
  show "used (d(BBLOCK (of_nat n) sbk := clear_bit_at (n mod BPB) (d (BBLOCK (of_nat n) sbk)))) sbk m \<longleftrightarrow> m \<noteq> n \<and> used d sbk m"
    using eq bit_set_clear [OF len] by (auto simp: used_def)
qed

lemma used_other: "(\<And>n. d' (BBLOCK (of_nat m) sbk) = d (BBLOCK (of_nat m) sbk)) \<Longrightarrow> used d' sbk m = used d sbk m"
  by (simp add: used_def)

lemma used_setD: "n \<in> used_set s \<Longrightarrow> n < 2 ^ 32" "n \<in> used_set s \<Longrightarrow> n < unat (sb_size (sb s))"
  using unat32_less [of "sb_size (sb s)"] by (auto simp: used_set_def)

lemma used_took_block:
  assumes "bitmap_ok s" and "n < unat (sb_size (sb s))" and "n \<notin> used_set s" and "m < unat (sb_size (sb s))"
  shows "used (took_block (sb s) n (disk s)) (sb s) m \<longleftrightarrow> m = n \<or> used (disk s) (sb s) m"
proof -
  have lt: "m < 2 ^ 32" "n < 2 ^ 32" using assms(2,4) unat32_less [of "sb_size (sb s)"] by auto
  have "BBLOCK (of_nat m) (sb s) \<noteq> of_nat n"
  proof
    assume e: "BBLOCK (of_nat m) (sb s) = of_nat n"
    have "unat (BBLOCK (of_nat m) (sb s)) \<in> used_set s" using assms(1,4) by (simp add: bitmap_ok_def)
    then show False using e assms(3) lt by (simp add: unat32_of_nat)
  qed
  then have "used (took_block (sb s) n (disk s)) (sb s) m =
      used ((disk s)(BBLOCK (of_nat n) (sb s) := set_bit_at (n mod BPB) (disk s (BBLOCK (of_nat n) (sb s))))) (sb s) m"
    by (simp add: took_block_def used_def)
  also have "\<dots> \<longleftrightarrow> m = n \<or> used (disk s) (sb s) m"
    using assms(1) by (intro used_update lt) (simp add: bitmap_ok_def)
  finally show ?thesis .
qed

lemma free_to_alloc_quiet: "free_to_alloc s {}"
  by (simp add: free_to_alloc_def)

lemma quietD: "quiet_cache dev s \<Longrightarrow> cache_ok dev s {}" "quiet_cache dev s \<Longrightarrow> calm s"
  by (auto simp: quiet_cache_def)


text \<open>
  C28. \<open>bfree\<close> marks a used block free, and no other, and leaves every block outside the bitmap as it
  is; freeing a block that is free already is a panic.
\<close>

theorem bfree_frees:
  assumes "quiet_cache dev s" and "bitmap_ok s" and "n < unat (sb_size (sb s))"
  shows "if n \<in> used_set s then \<exists>t. bfree dev (of_nat n) s = Ret () t \<and> quiet_cache dev t \<and>
       used_set t = used_set s - {n} \<and> (\<forall>k. k \<noteq> BBLOCK (of_nat n) (sb s) \<longrightarrow> disk t k = disk s k)
     else bfree dev (of_nat n) s = Panic ''bfree: freeing free block''"
proof -
  have lt: "n < 2 ^ 32" using assms(3) unat32_less [of "sb_size (sb s)"] by simp
  then have un: "unat (of_nat n :: u32) = n" by (simp add: unat32_of_nat)
  have nh: "not_held s {} (BBLOCK (of_nat n) (sb s))" by simp
  note spec = bfree_spec [OF quietD [OF assms(1)] _ nh, simplified un]
  show ?thesis
  proof (cases "n \<in> used_set s")
    case True
    then have "used (disk s) (sb s) n" by (simp add: used_set_def)
    with spec obtain t where t: "bfree dev (of_nat n) s = Ret () t" "io dev {} s t"
      "disk t = (disk s)(BBLOCK (of_nat n) (sb s) := clear_bit_at (n mod BPB) (disk s (BBLOCK (of_nat n) (sb s))))"
      by auto
    have sb: "sb t = sb s" using io_fs [OF t(2)] by simp
    have len: "length (disk s (BBLOCK (of_nat n) (sb s))) = BSIZE" using assms(2) by (simp add: bitmap_ok_def)
    have "used (disk t) (sb s) m \<longleftrightarrow> m \<noteq> n \<and> used (disk s) (sb s) m" if "m < unat (sb_size (sb s))" for m
      unfolding t(3) using that unat32_less [of "sb_size (sb s)"] by (intro used_update lt len) simp
    then have "used_set t = used_set s - {n}" by (auto simp: used_set_def sb)
    with True t quiet_io [OF assms(1) t(2)] show ?thesis by auto
  next
    case False
    with spec assms(3) show ?thesis by (simp add: used_set_def)
  qed
qed

text \<open>An example disk: the bitmap, in block 10, marks blocks 0 to 10 as used.\<close>

definition demo_bitmap :: "u8 list" where
  "demo_bitmap = [255, 7] @ replicate 510 0"

definition demo_disk :: fs_st where
  "demo_disk = demo_fs\<lparr>disk := (\<lambda>_. replicate BSIZE 0)(10 := demo_bitmap)\<rparr>"

lemma length_demo_bitmap: "length demo_bitmap = BSIZE"
  by (simp add: demo_bitmap_def BSIZE_def)

lemma demo_disk_fields:
  "sb_size (sb demo_disk) = 1000" "sb_bmapstart (sb demo_disk) = 10"
  "disk demo_disk = (\<lambda>_. replicate BSIZE 0)(10 := demo_bitmap)"
  by (simp_all add: demo_disk_def demos)

lemma demo_disk_quiet: "quiet_cache 1 demo_disk"
proof -
  have "set (procs demo_disk) \<subseteq> insert (idle_proc\<lparr>pid := 1, pstate := RUNNING\<rparr>) (set (replicate NPROC idle_proc))"
    by (simp add: demo_disk_def demos set_update_subset_insert)
  then have "set (procs demo_disk) \<subseteq> {idle_proc, idle_proc\<lparr>pid := 1, pstate := RUNNING\<rparr>}"
    by (auto simp: NPROC_def)
  moreover have "pstate idle_proc \<noteq> SLEEPING" by (simp add: idle_proc_def)
  ultimately have "calm demo_disk" by (force simp: calm_def demo_disk_def demos)
  moreover have "cache_ok 1 demo_disk {}"
    using length_demo_bitmap
    by (simp add: cache_ok_def demo_disk_def demos idle_buf_def zero_buf_def atLeast0LessThan)
  ultimately show ?thesis by (simp add: quiet_cache_def)
qed

lemma demo_BBLOCK: "n < 1000 \<Longrightarrow> BBLOCK (of_nat n) (sb demo_disk) = 10"
proof -
  assume n: "n < 1000"
  then have "n div BPB = 0" by (simp add: BPB_def BSIZE_def)
  with n show ?thesis by (simp add: BBLOCK_def unat_BBLOCK_div demo_disk_fields)
qed

lemma demo_disk_used: "used (disk demo_disk) (sb demo_disk) n \<longleftrightarrow> n < 11" if "n < 1000"
proof -
  have B: "BBLOCK (of_nat n) (sb demo_disk) = 10" using that by (rule demo_BBLOCK)
  have "bit_set demo_bitmap n \<longleftrightarrow> n < 11"
  proof (cases "n < 16")
    case True
    then have "n \<in> {0, 1, 2, 3, 4, 5, 6, 7, 8, 9, 10, 11, 12, 13, 14, 15}"
      by (simp only: insert_iff empty_iff) presburger
    then show ?thesis by (auto simp: bit_set_iff demo_bitmap_def)
  next
    case False
    then have "demo_bitmap ! (n div 8) = 0"
      using that by (auto simp: demo_bitmap_def nth_append nth_Cons' )
    then show ?thesis using False by (simp add: bit_set_iff)
  qed
  then show ?thesis using that by (simp add: used_def B demo_disk_fields BPB_def BSIZE_def)
qed

lemma demo_disk_used_set: "used_set demo_disk = {..<11}"
  using demo_disk_used by (auto simp: used_set_def demo_disk_fields)

lemma demo_disk_bitmap: "bitmap_ok demo_disk"
  by (simp add: bitmap_ok_def demo_disk_used_set demo_disk_fields length_demo_bitmap demo_BBLOCK)


lemma bfree_frees_witness:
  "(\<exists>t. bfree 1 9 demo_disk = Ret () t \<and> used_set t = {..<11} - {9}) \<and>
   bfree 1 500 demo_disk = Panic ''bfree: freeing free block''"
  using bfree_frees [OF demo_disk_quiet demo_disk_bitmap, of 9]
    bfree_frees [OF demo_disk_quiet demo_disk_bitmap, of 500]
  by (auto simp: demo_disk_used_set demo_disk_fields)

end
