(* ===== verification/Contents.thy ===== *)
theory Contents
  imports Blocks
begin

section \<open>File contents\<close>

text \<open>
  A file as the sequence of its blocks, whatever the disk blocks that hold them: \<open>faddr\<close> is the
  block map read off the inode and its indirect block, \<open>fblock\<close> the contents, zeros where
  nothing is mapped. \<open>bmap\<close> allocates without changing the contents; \<open>readi\<close> and \<open>writei\<close> read
  and overwrite a range of the bytes.
\<close>

definition faddr :: "'z fs_st_scheme \<Rightarrow> nat \<Rightarrow> nat \<Rightarrow> u32" where
  "faddr s i k =
     (let a = iaddrs (itable s ! i) in
      if k < NDIRECT then a ! k
      else if k < MAXFILE \<and> a ! NDIRECT \<noteq> 0 then entry_at (k - NDIRECT) (disk s (a ! NDIRECT))
      else 0)"

definition fblock :: "'z fs_st_scheme \<Rightarrow> nat \<Rightarrow> nat \<Rightarrow> u8 list" where
  "fblock s i k = (if faddr s i k = 0 then replicate BSIZE 0 else disk s (faddr s i k))"

definition fbyte :: "'z fs_st_scheme \<Rightarrow> nat \<Rightarrow> nat \<Rightarrow> u8" where
  "fbyte s i n = fblock s i (n div BSIZE) ! (n mod BSIZE)"

definition indirect :: "'z fs_st_scheme \<Rightarrow> nat \<Rightarrow> u32" where
  "indirect s i = iaddrs (itable s ! i) ! NDIRECT"

text \<open>Blocks that belong to the bitmap or to the table of inodes.\<close>

definition meta :: "'z fs_st_scheme \<Rightarrow> u32 set" where
  "meta s = (\<lambda>n. BBLOCK (of_nat n) (sb s)) ` {..<unat (sb_size (sb s))} \<union>
     (\<lambda>n. IBLOCK n (sb s)) ` {n. n < sb_ninodes (sb s)}"

lemma metaI:
  "n < unat (sb_size (sb s)) \<Longrightarrow> BBLOCK (of_nat n) (sb s) \<in> meta s"
  "m < sb_ninodes (sb s) \<Longrightarrow> IBLOCK m (sb s) \<in> meta s"
  by (auto simp: meta_def)

definition layout_ok :: "'z fs_st_scheme \<Rightarrow> bool" where
  "layout_ok s \<longleftrightarrow> bitmap_ok s \<and> (\<forall>a \<in> meta s. unat a \<in> used_set s) \<and>
     (\<forall>n < unat (sb_size (sb s)). \<forall>m < sb_ninodes (sb s). BBLOCK (of_nat n) (sb s) \<noteq> IBLOCK m (sb s))"

definition owned_block :: "'z fs_st_scheme \<Rightarrow> u32 \<Rightarrow> bool" where
  "owned_block s a \<longleftrightarrow> unat a \<in> used_set s \<and> a \<notin> meta s"

text \<open>
  A well-formed file: its blocks are used, are no metadata, and are distinct.
\<close>

definition file_wf :: "'z fs_st_scheme \<Rightarrow> nat \<Rightarrow> bool" where
  "file_wf s i \<longleftrightarrow> i < length (itable s) \<and> length (iaddrs (itable s ! i)) = NDIRECT + 1 \<and> layout_ok s \<and>
     (indirect s i \<noteq> 0 \<longrightarrow> owned_block s (indirect s i)) \<and>
     (\<forall>k. faddr s i k \<noteq> 0 \<longrightarrow> owned_block s (faddr s i k) \<and> faddr s i k \<noteq> indirect s i) \<and>
     (\<forall>k l. faddr s i k \<noteq> 0 \<longrightarrow> faddr s i k = faddr s i l \<longrightarrow> k = l)"

text \<open>A file system call in progress: a quiet cache, and the call works on inode \<open>i\<close>.\<close>

definition at_inode :: "u32 \<Rightarrow> 'z fs_st_scheme \<Rightarrow> nat \<Rightarrow> bool" where
  "at_inode dev s i \<longleftrightarrow> quiet_cache dev s \<and> file_wf s i \<and> idev (itable s ! i) = dev"

lemma NDIRECT_vals: "NDIRECT = 12" "NINDIRECT = 128" "MAXFILE = 140" "BSIZE = 512"
  by (simp_all add: NDIRECT_def NINDIRECT_def MAXFILE_def BSIZE_def)

lemma inode_apply [simp]:
  "upd_inode i f s = Ret () (s\<lparr>itable := (itable s)[i := f (itable s ! i)]\<rparr>)"
  "get_inode i g s = Ret (g (itable s ! i)) s"
  by (simp_all add: upd_inode_def get_inode_def)

lemma cache_ok_itable [simp]: "cache_ok dev (s\<lparr>itable := T\<rparr>) H = cache_ok dev s H"
  by (simp add: cache_ok_def held_buf_def idle_buf_def my_token_def split: option.splits cong: if_cong)

lemma quiet_itable [simp]: "quiet_cache dev (s\<lparr>itable := T\<rparr>) = quiet_cache dev s"
  by (simp add: quiet_cache_def calm_def)

lemma faddr_cong:
  "itable t ! i = itable s ! i \<Longrightarrow> disk t (indirect s i) = disk s (indirect s i) \<Longrightarrow> faddr t i k = faddr s i k"
  by (simp add: faddr_def indirect_def Let_def)

lemma io_faddr: "io dev H s t \<Longrightarrow> disk t = disk s \<Longrightarrow> faddr t i k = faddr s i k"
  using io_fs [of dev H s t] by (intro faddr_cong) simp_all

lemma entry_indirect:
  "k < NINDIRECT \<Longrightarrow> indirect s i \<noteq> 0 \<Longrightarrow> entry_at k (disk s (indirect s i)) = faddr s i (NDIRECT + k)"
  by (simp add: faddr_def indirect_def Let_def MAXFILE_def)

text \<open>Looking a block up without allocating.\<close>

lemma bmap_lookup:
  assumes "quiet_cache dev s" and "idev (itable s ! i) = dev"
  shows "\<exists>t. bmap i bn False s = Ret (faddr s i (unat bn)) t \<and> io dev {} s t \<and> disk t = disk s"
proof -
  let ?ip = "itable s ! i"
  have r: "\<exists>t. io dev {} s t \<and> disk t = disk s" using io_refl [OF quietD(1) [OF assms(1)]] by blast
  consider "unat bn < NDIRECT" | "\<not> unat bn < NDIRECT" "\<not> unat bn - NDIRECT < NINDIRECT"
    | "\<not> unat bn < NDIRECT" "unat bn - NDIRECT < NINDIRECT" "iaddrs ?ip ! NDIRECT = 0"
    | "\<not> unat bn < NDIRECT" "unat bn - NDIRECT < NINDIRECT" "iaddrs ?ip ! NDIRECT \<noteq> 0" by blast
  then show ?thesis
  proof cases
    case 4
    let ?a = "iaddrs ?ip ! NDIRECT"
    obtain b u where u: "bread dev ?a s = Ret b u" "opened dev {} s ?a b u"
      by (rule bread_opens [OF quietD [OF assms(1)]]) simp_all
    obtain t where t: "brelse b u = Ret () t" "io dev {} s t" "disk t = disk s"
      by (rule opened_read [OF u(2) quietD(2) [OF assms(1)]])
    have maxf: "unat bn < MAXFILE" using 4(1,2) unfolding MAXFILE_def by arith
    have "faddr s i (unat bn) = entry_at (unat bn - NDIRECT) (disk s ?a)"
      using 4 maxf by (simp add: faddr_def Let_def)
    with 4 u t assms(2) show ?thesis
      by (auto simp: bmap_def run_simps Let_def opened_def)
  qed (use r io_refl [OF quietD(1) [OF assms(1)]] in \<open>auto simp: bmap_def run_simps Let_def faddr_def MAXFILE_def\<close>)
qed

subsection \<open>bmap allocates without changing the contents\<close>

text \<open>
  \<open>grown dev s t i\<close>: from \<open>s\<close> to \<open>t\<close> at most blocks were added to file \<open>i\<close>; its contents and all
  other used blocks are the same.
\<close>

definition same_but_map :: "'z fs_st_scheme \<Rightarrow> 'z fs_st_scheme \<Rightarrow> nat \<Rightarrow> bool" where
  "same_but_map s t i \<longleftrightarrow> sb t = sb s \<and> held t = held s \<and> cur t = cur s \<and> procs t = procs s \<and> mem t = mem s \<and>
     hart t = hart s \<and> (\<forall>j. slocks t (InodeLock j) = slocks s (InodeLock j)) \<and>
     (\<exists>a. length a = length (iaddrs (itable s ! i)) \<and> itable t = (itable s)[i := (itable s ! i)\<lparr>iaddrs := a\<rparr>])"

definition grown :: "'z fs_st_scheme \<Rightarrow> 'z fs_st_scheme \<Rightarrow> nat \<Rightarrow> bool" where
  "grown s t i \<longleftrightarrow> file_wf t i \<and> same_but_map s t i \<and> fblock t i = fblock s i \<and>
     used_set s \<subseteq> used_set t \<and> (\<forall>k. faddr s i k \<noteq> 0 \<longrightarrow> faddr t i k = faddr s i k) \<and>
     (\<forall>a. unat a \<in> used_set s \<longrightarrow> a \<notin> meta s \<longrightarrow> a \<noteq> indirect s i \<longrightarrow> disk t a = disk s a) \<and>
     (\<forall>n < sb_ninodes (sb s). disk t (IBLOCK n (sb s)) = disk s (IBLOCK n (sb s))) \<and>
     (indirect t i = indirect s i \<or> indirect s i = 0 \<and> unat (indirect t i) \<notin> used_set s)"

lemma io_same_but_map: "io dev H s t \<Longrightarrow> same_but_map s t i"
  unfolding io_def cache_step_def same_but_map_def
  by (auto intro!: exI [of _ "iaddrs (itable s ! i)"])

lemma file_wfD:
  assumes "file_wf s i"
  shows "i < length (itable s)" "length (iaddrs (itable s ! i)) = NDIRECT + 1" "layout_ok s" "bitmap_ok s"
    "indirect s i \<noteq> 0 \<Longrightarrow> owned_block s (indirect s i)"
    "faddr s i k \<noteq> 0 \<Longrightarrow> owned_block s (faddr s i k)" "faddr s i k \<noteq> 0 \<Longrightarrow> faddr s i k \<noteq> indirect s i"
    "faddr s i k \<noteq> 0 \<Longrightarrow> faddr s i k = faddr s i l \<Longrightarrow> k = l"
  using assms unfolding file_wf_def by (auto simp: layout_ok_def)

text \<open>The effect of a \<open>balloc\<close> that found block \<open>n\<close>.\<close>

definition took :: "'z fs_st_scheme \<Rightarrow> 'z fs_st_scheme \<Rightarrow> nat \<Rightarrow> bool" where
  "took s t n \<longleftrightarrow> disk t = took_block (sb s) n (disk s) \<and> sb t = sb s \<and> itable t = itable s \<and>
     n < unat (sb_size (sb s)) \<and> n \<notin> used_set s"

lemma took_fresh:
  assumes "took s t n" and "layout_ok s"
  shows "used_set t = insert n (used_set s)" "unat (of_nat n :: u32) = n" "(of_nat n :: u32) \<noteq> 0"
    "disk t (of_nat n) = replicate BSIZE 0" "meta t = meta s"
    "unat a \<in> used_set s \<Longrightarrow> a \<notin> (\<lambda>n. BBLOCK (of_nat n) (sb s)) ` {..<unat (sb_size (sb s))} \<Longrightarrow> disk t a = disk s a"
    "unat a \<in> used_set s \<Longrightarrow> a \<noteq> of_nat n" "layout_ok t"
proof -
  have n: "n < unat (sb_size (sb s))" "n \<notin> used_set s" and bm: "bitmap_ok s"
    using assms by (auto simp: took_def layout_ok_def)
  have lt: "n < 2 ^ 32" using n(1) unat32_less [of "sb_size (sb s)"] by simp
  then show u: "unat (of_nat n :: u32) = n" by (simp add: unat32_of_nat)
  show us: "used_set t = insert n (used_set s)"
    using used_took_block [OF bm n] n(1) assms(1) by (auto simp: used_set_def took_def)
  have "0 \<in> used_set s" using bm n(1) by (simp add: bitmap_ok_def)
  then have "n \<noteq> 0" using n(2) by (cases n) auto
  then show "(of_nat n :: u32) \<noteq> 0" using u by (metis unat_0)
  show "disk t (of_nat n) = replicate BSIZE 0" "meta t = meta s"
    using assms(1) by (simp_all add: took_def took_block_def meta_def)
  show diff: "a \<noteq> of_nat n" if "unat a \<in> used_set s" for a :: u32 using that u n(2) by metis
  show "disk t a = disk s a" if "unat a \<in> used_set s" "a \<notin> (\<lambda>n. BBLOCK (of_nat n) (sb s)) ` {..<unat (sb_size (sb s))}"
    using that n(1) assms(1) diff [OF that(1)] by (auto simp: took_def took_block_def)
  have len: "length (disk t k) = BSIZE" for k
    using bm assms(1) by (simp add: bitmap_ok_def took_def took_block_def)
  have sb: "sb t = sb s" using assms(1) by (simp add: took_def)
  show "layout_ok t"
    using assms(2) len by (auto simp: layout_ok_def bitmap_ok_def us sb \<open>meta t = meta s\<close>)
qed

lemma owned_data:
  assumes "took s t n" and "layout_ok s" and "owned_block s a"
  shows "disk t a = disk s a" "owned_block t a" "a \<noteq> of_nat n"
  using took_fresh [OF assms(1,2)] assms(3) by (auto simp: owned_block_def meta_def)

lemma took_file:
  assumes tk: "took s t n" and wf: "file_wf s i"
  shows "faddr t i k = faddr s i k" "fblock t i = fblock s i" "file_wf t i" "indirect t i = indirect s i"
    "owned_block t (of_nat n)" "faddr t i k \<noteq> of_nat n" "indirect t i \<noteq> of_nat n"
proof -
  note D = file_wfD [OF wf]
  note F = took_fresh [OF tk D(3)]
  have it: "itable t = itable s" using tk by (simp add: took_def)
  have fa: "faddr t i l = faddr s i l" for l
  proof (cases "indirect s i = 0")
    case True
    then show ?thesis by (simp add: faddr_def it indirect_def Let_def)
  next
    case False
    then show ?thesis using owned_data [OF tk D(3) D(5) [OF False]] by (intro faddr_cong) (simp_all add: it)
  qed
  then show "faddr t i k = faddr s i k" .
  have "fblock t i k = fblock s i k" for k
    using owned_data [OF tk D(3) D(6)] by (auto simp: fblock_def fa)
  then show "fblock t i = fblock s i" ..
  show ind: "indirect t i = indirect s i" by (simp add: indirect_def it)
  show "file_wf t i"
    using D F owned_data [OF tk D(3)] by (auto simp: file_wf_def fa ind it)
  have "of_nat n \<notin> meta s"
  proof
    assume "of_nat n \<in> meta s"
    then have "n \<in> used_set s" using D(3) F(2) by (metis layout_ok_def)
    then show False using tk by (simp add: took_def)
  qed
  then show "owned_block t (of_nat n)" using F by (simp add: owned_block_def)
  show "faddr t i k \<noteq> of_nat n" using owned_data(3) [OF tk D(3) D(6) [of k]] F(3) by (auto simp: fa)
  show "indirect t i \<noteq> of_nat n" using owned_data(3) [OF tk D(3) D(5)] F(3) by (auto simp: ind)
qed

text \<open>A fresh zero block entered into the map.\<close>

lemma map_block:
  assumes wf: "file_wf t i" and a: "owned_block t a" "a \<noteq> 0" "disk t a = replicate BSIZE 0" "a \<noteq> indirect t i"
    and new: "\<And>k. faddr t i k \<noteq> a" "faddr t i at_k = 0"
    and same: "used_set u = used_set t" "meta u = meta t" "layout_ok u" "length (itable u) = length (itable t)"
      "length (iaddrs (itable u ! i)) = NDIRECT + 1" "indirect u i = indirect t i"
    and disk: "\<And>x. x \<noteq> indirect t i \<Longrightarrow> disk u x = disk t x"
    and fa: "\<And>k. faddr u i k = (if k = at_k then a else faddr t i k)"
  shows "file_wf u i" "fblock u i = fblock t i"
proof -
  note D = file_wfD [OF wf]
  have own: "owned_block u x = owned_block t x" for x by (simp add: owned_block_def same)
  have inj: "k = l" if "faddr u i k \<noteq> 0" "faddr u i k = faddr u i l" for k l
    using that D(8) [of k l] new(1) [of k] new(1) [of l] by (auto simp: fa split: if_splits)
  show "file_wf u i"
    unfolding file_wf_def own same
  proof (intro conjI allI impI)
    fix k l
    assume "faddr u i k \<noteq> 0" "faddr u i k = faddr u i l"
    then show "k = l" by (rule inj)
  next
    fix k
    assume "faddr u i k \<noteq> 0"
    then show "owned_block t (faddr u i k)" "faddr u i k \<noteq> indirect t i"
      using a D(6,7) [of k] by (auto simp: fa split: if_splits)
  qed (use D same in auto)
  have "fblock u i k = fblock t i k" for k
    using a new disk D(7) [of k] by (auto simp: fblock_def fa)
  then show "fblock u i = fblock t i" ..
qed

lemma balloc_took:
  assumes "cache_ok dev s H" and "calm s" and "free_to_alloc s H"
  obtains t where "io dev H s t" "balloc dev s = Ret 0 t" "disk t = disk s" "used_set s = {..<unat (sb_size (sb s))}"
    | n t where "io dev H s t" "balloc dev s = Ret (of_nat n) t" "took s t n"
proof -
  let ?f = "find (\<lambda>n. \<not> used (disk s) (sb s) n) [0..<unat (sb_size (sb s))]"
  obtain t where t: "balloc dev s = Ret (case ?f of None \<Rightarrow> 0 | Some n \<Rightarrow> of_nat n) t" "io dev H s t"
    "disk t = (case ?f of None \<Rightarrow> disk s | Some n \<Rightarrow> took_block (sb s) n (disk s))"
    using balloc_spec [OF assms] by blast
  show thesis
  proof (cases ?f)
    case None
    then have "used_set s = {..<unat (sb_size (sb s))}" by (auto simp: find_None_iff used_set_def)
    with that(1) [OF t(2)] t None show thesis by simp
  next
    case (Some n)
    then have "took s t n"
      using find_SomeD [OF Some] t(3) io_fs [OF t(2)] by (auto simp: took_def used_set_def)
    with that(2) [OF t(2)] t(1) Some show thesis by simp
  qed
qed

lemma quiet_took: "quiet_cache dev s \<Longrightarrow> io dev {} s t \<Longrightarrow> quiet_cache dev t"
  by (rule quiet_io)

lemma same_but_mapD:
  assumes "same_but_map s t i"
  shows "sb t = sb s" "held t = held s" "cur t = cur s" "procs t = procs s" "mem t = mem s" "hart t = hart s"
    "slocks t (InodeLock j) = slocks s (InodeLock j)" "length (itable t) = length (itable s)"
    "meta t = meta s" "idev (itable t ! i) = idev (itable s ! i)"
  using assms by (auto simp: same_but_map_def meta_def nth_list_update_eq
      intro: nth_list_update_eq)
    (cases "i < length (itable s)"; simp add: nth_list_update list_update_beyond)

lemma same_but_map_trans:
  assumes "same_but_map s t i" and "same_but_map t u i"
  shows "same_but_map s u i"
proof -
  obtain a b where a: "length a = length (iaddrs (itable s ! i))" "itable t = (itable s)[i := (itable s ! i)\<lparr>iaddrs := a\<rparr>]"
    and b: "length b = length (iaddrs (itable t ! i))" "itable u = (itable t)[i := (itable t ! i)\<lparr>iaddrs := b\<rparr>]"
    using assms unfolding same_but_map_def by blast
  have "\<exists>c. length c = length (iaddrs (itable s ! i)) \<and> itable u = (itable s)[i := (itable s ! i)\<lparr>iaddrs := c\<rparr>]"
  proof (cases "i < length (itable s)")
    case True
    with a b show ?thesis by (intro exI [of _ b]) simp
  next
    case False
    with a b show ?thesis by (intro exI [of _ a]) (simp add: list_update_beyond)
  qed
  with assms show ?thesis by (simp add: same_but_map_def)
qed

lemma grownD:
  assumes "grown s t i"
  shows "file_wf t i" "same_but_map s t i" "fblock t i = fblock s i" "used_set s \<subseteq> used_set t"
    "faddr s i k \<noteq> 0 \<Longrightarrow> faddr t i k = faddr s i k"
    "unat a \<in> used_set s \<Longrightarrow> a \<notin> meta s \<Longrightarrow> a \<noteq> indirect s i \<Longrightarrow> disk t a = disk s a"
    "n < sb_ninodes (sb s) \<Longrightarrow> disk t (IBLOCK n (sb s)) = disk s (IBLOCK n (sb s))"
    "indirect t i = indirect s i \<or> indirect s i = 0 \<and> unat (indirect t i) \<notin> used_set s"
  using assms unfolding grown_def by blast+

lemma same_but_map_refl: "same_but_map s s i"
  by (auto simp: same_but_map_def intro!: exI [of _ "iaddrs (itable s ! i)"])

lemma grown_refl: "file_wf s i \<Longrightarrow> grown s s i"
  by (simp add: grown_def same_but_map_refl)

lemma grown_trans:
  assumes st: "grown s t i" and tu: "grown t u i"
  shows "grown s u i"
  unfolding grown_def
proof (intro conjI allI impI)
  note S = grownD [OF st] and T = grownD [OF tu]
  have sb: "sb t = sb s" "meta t = meta s" using same_but_mapD(1,9) [OF S(2)] by simp_all
  show "file_wf u i" by (rule T(1))
  show "same_but_map s u i" by (rule same_but_map_trans [OF S(2) T(2)])
  show "fblock u i = fblock s i" using S(3) T(3) by simp
  show "used_set s \<subseteq> used_set u" using S(4) T(4) by simp
  show "faddr u i k = faddr s i k" if "faddr s i k \<noteq> 0" for k using S(5) [OF that] T(5) [of k] that by simp
  show "disk u a = disk s a" if a: "unat a \<in> used_set s" "a \<notin> meta s" "a \<noteq> indirect s i" for a
  proof -
    have "a \<noteq> indirect t i" using S(8) a by auto
    moreover have "unat a \<in> used_set t" using S(4) a(1) by blast
    ultimately show ?thesis using S(6) [OF a] T(6) [of a] a(2) sb by simp
  qed
  show "disk u (IBLOCK n (sb s)) = disk s (IBLOCK n (sb s))" if "n < sb_ninodes (sb s)" for n
    using S(7) [OF that] T(7) [of n] that sb by simp
  show "indirect u i = indirect s i \<or> indirect s i = 0 \<and> unat (indirect u i) \<notin> used_set s"
    using S(4,8) T(8) by auto
qed

lemma grown_at: "grown s t i \<Longrightarrow> quiet_cache dev t \<Longrightarrow> idev (itable s ! i) = dev \<Longrightarrow> at_inode dev t i"
  using same_but_mapD(10) grownD(1,2) by (metis at_inode_def)

text \<open>A step of the cache that keeps the disk; a block taken; a block entered into the map.\<close>

lemma io_grown:
  assumes wf: "file_wf s i" and io: "io dev {} s t" and d: "disk t = disk s"
  shows "grown s t i"
proof -
  have f: "sb t = sb s" "itable t = itable s" using io_fs [OF io] by simp_all
  have fa: "faddr t i k = faddr s i k" for k by (rule io_faddr [OF io d])
  have u: "used_set t = used_set s" "meta t = meta s" "indirect t i = indirect s i"
    by (simp_all add: used_set_def meta_def indirect_def f d)
  have "layout_ok t = layout_ok s" by (simp add: layout_ok_def bitmap_ok_def f d u)
  then have "file_wf t i" using wf by (simp add: file_wf_def owned_block_def fa u f)
  moreover have "fblock t i = fblock s i" by (rule ext) (simp add: fblock_def fa d)
  ultimately show ?thesis
    using io_same_but_map [OF io] by (simp add: grown_def fa u d)
qed

lemma took_grown:
  assumes wf: "file_wf s i" and tk: "took s t n" and same: "same_but_map s t i"
  shows "grown s t i"
proof -
  note L = file_wfD(3) [OF wf]
  note F = took_fresh [OF tk L] and G = took_file [OF tk wf]
  have "disk t a = disk s a" if "unat a \<in> used_set s" "a \<notin> meta s" for a
    using that owned_data(1) [OF tk L] by (simp add: owned_block_def)
  moreover have "disk t (IBLOCK k (sb s)) = disk s (IBLOCK k (sb s))" if k: "k < sb_ninodes (sb s)" for k
  proof (rule F(6))
    have "IBLOCK k (sb s) \<in> meta s" using k by (auto simp: meta_def)
    then show "unat (IBLOCK k (sb s)) \<in> used_set s" using L by (simp add: layout_ok_def)
    show "IBLOCK k (sb s) \<notin> (\<lambda>n. BBLOCK (of_nat n) (sb s)) ` {..<unat (sb_size (sb s))}"
      using L k by (auto simp: layout_ok_def) metis
  qed
  ultimately show ?thesis
    using G same F(1) by (auto simp: grown_def)
qed

lemma map_grown:
  assumes wf: "file_wf t i"
    and a: "owned_block t a" "a \<noteq> 0" "disk t a = replicate BSIZE 0" "a \<noteq> indirect t i" "\<And>k. faddr t i k \<noteq> a"
    and new: "faddr t i at_k = 0" and same: "same_but_map t u i" and ind: "indirect u i = indirect t i"
    and disk: "\<And>x. x \<noteq> indirect t i \<or> indirect t i = 0 \<Longrightarrow> disk u x = disk t x" "\<And>x. length (disk u x) = BSIZE"
    and fa: "\<And>k. faddr u i k = (if k = at_k then a else faddr t i k)"
  shows "grown t u i"
proof -
  note D = file_wfD [OF wf] and S = same_but_mapD [OF same]
  have inm: "indirect t i = 0 \<or> indirect t i \<notin> meta t" using D(5) by (auto simp: owned_block_def)
  have bb: "disk u (BBLOCK (of_nat n) (sb t)) = disk t (BBLOCK (of_nat n) (sb t))" if "n < unat (sb_size (sb t))" for n
    using inm metaI(1) [OF that] by (intro disk(1)) metis
  then have us: "used_set u = used_set t" by (auto simp: used_set_def used_def S(1))
  have ib: "disk u (IBLOCK n (sb t)) = disk t (IBLOCK n (sb t))" if "n < sb_ninodes (sb t)" for n
    using inm metaI(2) [OF that] by (intro disk(1)) metis
  have "layout_ok u" using D(3) disk(2) by (simp add: layout_ok_def bitmap_ok_def us S)
  moreover have "length (iaddrs (itable u ! i)) = NDIRECT + 1"
    using same D(1,2) by (auto simp: same_but_map_def)
  ultimately have "file_wf u i" "fblock u i = fblock t i"
    by (intro map_block [OF wf a(1-4) a(5) new us S(9) _ S(8) _ ind _ fa] disk(1); simp)+
  with same us ib ind disk(1) fa new show ?thesis by (auto simp: grown_def)
qed

definition fresh_map :: "'z fs_st_scheme \<Rightarrow> 'z fs_st_scheme \<Rightarrow> nat \<Rightarrow> bool" where
  "fresh_map s t i \<longleftrightarrow> (\<forall>k. faddr t i k = faddr s i k \<or> unat (faddr t i k) \<notin> used_set s)"

definition bmap_result :: "u32 \<Rightarrow> 'z fs_st_scheme \<Rightarrow> nat \<Rightarrow> nat \<Rightarrow> u32 \<Rightarrow> 'z fs_st_scheme \<Rightarrow> bool" where
  "bmap_result dev s i k a t \<longleftrightarrow> quiet_cache dev t \<and> grown s t i \<and> fresh_map s t i \<and>
     (if a = 0 then MAXFILE \<le> k \<or> used_set t = {..<unat (sb_size (sb t))} else faddr t i k = a)"

lemma bmap_result_full:
  assumes "at_inode dev s i" and "io dev {} s t" and "disk t = disk s" and "used_set s = {..<unat (sb_size (sb s))}"
  shows "bmap_result dev s i k 0 t"
  using assms io_grown [of s i dev t] quiet_io [of dev s t] io_fs [OF assms(2)]
    io_faddr [OF assms(2,3)]
  by (auto simp: bmap_result_def fresh_map_def at_inode_def used_set_def)

lemma bmap_direct:
  assumes at: "at_inode dev s i" and k: "unat bn < NDIRECT"
  shows "\<exists>a t. bmap i bn True s = Ret a t \<and> bmap_result dev s i (unat bn) a t"
proof -
  let ?k = "unat bn"
  have at': "quiet_cache dev s" "file_wf s i" "idev (itable s ! i) = dev" using at by (simp_all add: at_inode_def)
  note D = file_wfD [OF at'(2)]
  have fa: "faddr s i ?k = iaddrs (itable s ! i) ! ?k" using k by (simp add: faddr_def Let_def)
  show ?thesis
  proof (cases "faddr s i ?k = 0")
    case False
    then show ?thesis
      using at k fa grown_refl [OF at'(2)]
      by (auto simp: bmap_def run_simps bmap_result_def fresh_map_def at_inode_def)
  next
    case True
    show ?thesis
    proof (rule balloc_took [OF quietD [OF at'(1)] free_to_alloc_quiet])
      fix t
      assume t: "io dev {} s t" "balloc dev s = Ret 0 t" "disk t = disk s" "used_set s = {..<unat (sb_size (sb s))}"
      have "itable t = itable s" using io_fs [OF t(1)] by simp
      moreover have "(iaddrs (itable s ! i))[?k := 0] = iaddrs (itable s ! i)"
        using True fa by (metis list_update_id)
      ultimately have "bmap i bn True s = Ret 0 t"
        using k True fa t(2) at'(3) by (simp add: bmap_def run_simps)
      with bmap_result_full [OF at t(1,3,4)] show ?thesis by blast
    next
      fix n t
      assume t: "io dev {} s t" "balloc dev s = Ret (of_nat n) t" "took s t n"
      let ?a = "of_nat n :: u32"
      let ?u = "t\<lparr>itable := (itable t)[i := (itable t ! i)\<lparr>iaddrs := (iaddrs (itable t ! i))[?k := ?a]\<rparr>]\<rparr>"
      note F = took_fresh [OF t(3) D(3)] and G = took_file [OF t(3) at'(2)]
      note T = took_grown [OF at'(2) t(3) io_same_but_map [OF t(1)]]
      have it: "itable t = itable s" using t(3) by (simp add: took_def)
      have iu: "itable ?u ! i = (itable s ! i)\<lparr>iaddrs := (iaddrs (itable s ! i))[?k := ?a]\<rparr>"
        using D(1) it by simp
      have ind: "indirect ?u i = indirect t i" using k D(1) by (simp add: indirect_def it)
      have fau: "faddr ?u i l = (if l = ?k then ?a else faddr t i l)" for l
        using k D(1,2) by (auto simp: faddr_def Let_def it nth_list_update)
      have "same_but_map t ?u i"
        by (auto simp: same_but_map_def intro!: exI [of _ "(iaddrs (itable t ! i))[?k := ?a]"])
      then have "grown t ?u i"
        using G F D(4) True k fau ind t(3)
        by (intro map_grown [where a = ?a and at_k = ?k])
          (simp_all add: took_def took_block_def bitmap_ok_def)
      then have "grown s ?u i" by (rule grown_trans [OF T])
      moreover have "quiet_cache dev ?u" using quiet_io [OF at'(1) t(1)] by simp
      moreover have "fresh_map s ?u i"
        using fau G(1) F(2) t(3) by (simp add: fresh_map_def took_def)
      ultimately have "bmap_result dev s i ?k ?a ?u" using F(3) fau by (simp add: bmap_result_def)
      moreover have "bmap i bn True s = Ret ?a ?u"
        using k True fa t(2) at'(3) D(1,2) it by (simp add: bmap_def run_simps)
      ultimately show ?thesis by blast
    qed
  qed
qed

lemma entry_put:
  assumes "4 * k + 4 \<le> length bs"
  shows "entry_at l (put_at (4 * k) (le32 a) bs) = (if l = k then a else entry_at l bs)"
proof (cases "l = k")
  case True
  then show ?thesis using slice_put_at [of "4 * k" "le32 a" bs] assms by (simp add: entry_at_def word32_at_def)
next
  case False
  then have "4 * l + 4 \<le> 4 * k \<or> 4 * k + length (le32 a) \<le> 4 * l" by auto
  then show ?thesis
    using slice_put_at_other [of "4 * k" "le32 a" bs "4 * l" 4] assms False
    by (simp add: entry_at_def word32_at_def)
qed

lemma took_disk: "took s t n \<Longrightarrow> took s (s\<lparr>disk := disk t\<rparr>) n"
  by (simp add: took_def)

lemma took_io:
  "io dev H s u \<Longrightarrow> disk u = disk s \<Longrightarrow> took u v n \<Longrightarrow> took s (s\<lparr>disk := disk v\<rparr>) n"
  using io_fs [of dev H s u] by (simp add: took_def used_set_def)

lemma opened_fs:
  assumes "opened dev H s bno b u"
  shows "itable u = itable s" "sb u = sb s" "disk u = disk s" "used_set u = used_set s" "blockno (bufs u ! b) = bno"
    "bdata (bufs u ! b) = disk s bno" "cache_ok dev u (insert b H)"
  using assms by (auto simp: opened_def cache_step_def used_set_def)

lemma same_but_map_disk [simp]: "same_but_map s (s\<lparr>disk := D\<rparr>) i" "same_but_map (s\<lparr>disk := D\<rparr>) t i = same_but_map s t i"
  by (auto simp: same_but_map_def intro!: exI [of _ "iaddrs (itable s ! i)"])

lemma bmap_entry:
  fixes s :: "'z fs_st_scheme"
  assumes at: "at_inode dev s i" and k: "\<not> unat bn < NDIRECT" "unat bn < MAXFILE" and ind: "indirect s i \<noteq> 0"
  shows "\<exists>a t. bmap i bn True s = Ret a t \<and> bmap_result dev s i (unat bn) a t"
proof -
  let ?k = "unat bn - NDIRECT" and ?x = "indirect s i"
  have at': "quiet_cache dev s" "file_wf s i" "idev (itable s ! i) = dev" using at by (simp_all add: at_inode_def)
  note D = file_wfD [OF at'(2)] and Q = quietD [OF at'(1)]
  have k': "?k < NINDIRECT" "NDIRECT + ?k = unat bn" using k by (simp_all add: NDIRECT_vals)
  have fa: "entry_at ?k (disk s ?x) = faddr s i (unat bn)" using entry_indirect [OF k'(1) ind] k'(2) by simp
  obtain b u where u: "bread dev ?x s = Ret b u" and o: "opened dev {} s ?x b u"
    by (rule bread_opens [OF Q]) simp_all
  note O = opened_fs [OF o]
  define rest where "rest = (\<lambda>addr. bnd (if addr = 0 \<and> True then bnd (balloc dev) (\<lambda>a.
      thn (whenk (a \<noteq> 0) (thn (upd_data b (put_at (4 * ?k) (le32 a))) (bwrite b))) (ret a)) else ret addr)
      (\<lambda>addr. thn (brelse b) (ret addr)) :: ('z fs_st_scheme, u32) kern)"
  have run: "bmap i bn True s = rest (faddr s i (unat bn)) u"
    using k k' ind u O fa at'(3) unfolding rest_def by (simp add: bmap_def run_simps Let_def indirect_def)
  show ?thesis
  proof (cases "faddr s i (unat bn) = 0")
    case False
    obtain t where t: "brelse b u = Ret () t" "io dev {} s t" "disk t = disk s"
      by (rule opened_read [OF o Q(2)])
    then have "rest (faddr s i (unat bn)) u = Ret (faddr s i (unat bn)) t" using False by (simp add: rest_def run_simps)
    moreover have "grown s t i" by (rule io_grown [OF at'(2) t(2,3)])
    ultimately show ?thesis
      using False run quiet_io [OF at'(1) t(2)] grownD(5) [of s t i "unat bn"] io_faddr [OF t(2,3)]
      by (auto simp: bmap_result_def fresh_map_def)
  next
    case True
    have un: "unat (of_nat n :: u32) = n" if "n < unat (sb_size (sb s))" for n
      using that unat32_less [of "sb_size (sb s)"] by (intro unat32_of_nat) simp
    have "free_to_alloc u {b}"
      using D(3) D(5) [OF ind] O metaI [of _ s] un
      by (auto simp: free_to_alloc_def not_held_def owned_block_def used_set_def NBUF_def) 
    show ?thesis
    proof (rule balloc_took [OF O(7) opened_calm [OF o Q(2)] \<open>free_to_alloc u {b}\<close>])
      fix v
      assume v: "io dev {b} u v" "balloc dev u = Ret 0 v" "disk v = disk u" "used_set u = {..<unat (sb_size (sb u))}"
      obtain t where t: "brelse b v = Ret () t" "io dev {} s t" "disk t = disk v"
        by (rule opened_close [OF o Q(2) v(1)]) (simp add: v O)
      then have "rest 0 u = Ret 0 t" using v by (simp add: rest_def run_simps)
      with run True bmap_result_full [OF at t(2)] t(3) v O show ?thesis by auto
    next
      fix n v
      assume v: "io dev {b} u v" "balloc dev u = Ret (of_nat n) v" "took u v n"
      let ?a = "of_nat n :: u32" and ?s = "s\<lparr>disk := disk v\<rparr>"
      have tk: "took s ?s n" using v(3) O by (simp add: took_def)
      note F = took_fresh [OF tk D(3)] and G = took_file [OF tk at'(2)] and T = took_grown [OF at'(2) tk same_but_map_disk(1)]
      have dx: "disk v ?x = disk s ?x" using owned_data(1) [OF tk D(3) D(5) [OF ind]] by simp
      have len: "length (disk v x) = BSIZE" "length (disk s x) = BSIZE" for x
        using F(8) D(4) by (simp_all add: layout_ok_def bitmap_ok_def)
      have fit: "4 * ?k + 4 \<le> length (disk v x)" for x using k' len by (simp add: NDIRECT_vals)
      obtain w where w: "thn (upd_data b (put_at (4 * ?k) (le32 ?a))) (bwrite b) v = Ret () w"
        "opened dev {} (s\<lparr>disk := disk w\<rparr>) ?x b w" "disk w = (disk v)(?x := put_at (4 * ?k) (le32 ?a) (disk s ?x))"
        by (rule opened_write [where f = "put_at (4 * ?k) (le32 ?a)", OF o Q(2) v(1) dx])
          (use fit [of ?x] dx len in \<open>simp add: length_put_at\<close>)
      obtain t where t: "brelse b w = Ret () t" "io dev {} (s\<lparr>disk := disk w\<rparr>) t" "disk t = disk w"
        using opened_read [OF w(2)] Q(2) by (auto simp: calm_def)
      have it: "itable t = itable s" using io_fs [OF t(2)] by simp
      have ex: "entry_at m (put_at (4 * ?k) (le32 ?a) (disk s ?x)) = (if m = ?k then ?a else entry_at m (disk s ?x))" for m
        by (rule entry_put) (use fit [of ?x] dx len in simp)
      have fat: "faddr t i l = (if l = unat bn then ?a else faddr ?s i l)" for l
        using ind k k' dx ex [of "l - NDIRECT"] by (auto simp: faddr_def it t w indirect_def Let_def)
      have same: "same_but_map ?s t i" using io_same_but_map [OF t(2)] by simp
      have ind': "indirect t i = indirect ?s i" by (simp add: indirect_def it)
      have dt: "disk t x = disk ?s x" if "x \<noteq> indirect ?s i \<or> indirect ?s i = 0" for x
        using that ind by (auto simp: t w indirect_def)
      have dl: "length (disk t x) = BSIZE" for x using len fit [of ?x] dx by (simp add: t w length_put_at)
      have "grown ?s t i"
        by (rule map_grown [OF G(3,5) F(3,4) G(7) [symmetric] G(6) _ same ind' dt dl fat]) (use True G(1) in simp_all)
      then have "grown s t i" by (rule grown_trans [OF T])
      moreover have "quiet_cache dev t" by (rule quiet_io [OF at'(1) io_disk [OF t(2)]])
      moreover have "fresh_map s t i" using fat G(1) F(2) tk by (simp add: fresh_map_def took_def)
      ultimately have "bmap_result dev s i (unat bn) ?a t" using F(3) fat by (simp add: bmap_result_def)
      moreover have "rest 0 u = Ret ?a t"
        using F(3) v(2) w(1) t(1) by (simp add: rest_def run_simps)
      ultimately show ?thesis using run True by auto
    qed
  qed
qed

text \<open>A missing indirect block is allocated first; the rest is then the case of a present one.\<close>

lemma bmap_no_indirect:
  fixes s :: "'z fs_st_scheme"
  assumes at: "at_inode dev s i" and k: "\<not> unat bn < NDIRECT" "unat bn < MAXFILE" and ind: "indirect s i = 0"
  shows "\<exists>a t. bmap i bn True s = Ret a t \<and> bmap_result dev s i (unat bn) a t"
proof -
  have at': "quiet_cache dev s" "file_wf s i" "idev (itable s ! i) = dev" using at by (simp_all add: at_inode_def)
  note D = file_wfD [OF at'(2)]
  have k': "unat bn - NDIRECT < NINDIRECT" using k by (simp add: NDIRECT_vals)
  have ind0: "iaddrs (itable s ! i) ! NDIRECT = 0" using ind by (simp add: indirect_def)
  have none: "faddr s i l = 0" if "\<not> l < NDIRECT" for l using ind0 that by (simp add: faddr_def Let_def)
  show ?thesis
  proof (rule balloc_took [OF quietD [OF at'(1)] free_to_alloc_quiet])
    fix t
    assume t: "io dev {} s t" "balloc dev s = Ret 0 t" "disk t = disk s" "used_set s = {..<unat (sb_size (sb s))}"
    then have "bmap i bn True s = Ret 0 t" using k k' ind0 at'(3) by (simp add: bmap_def run_simps Let_def)
    with bmap_result_full [OF at t(1,3,4)] show ?thesis by blast
  next
    fix n t
    assume t: "io dev {} s t" "balloc dev s = Ret (of_nat n) t" "took s t n"
    let ?a = "of_nat n :: u32"
    let ?u = "t\<lparr>itable := (itable t)[i := (itable t ! i)\<lparr>iaddrs := (iaddrs (itable t ! i))[NDIRECT := ?a]\<rparr>]\<rparr>"
    note F = took_fresh [OF t(3) D(3)] and G = took_file [OF t(3) at'(2)] and E = file_wfD [OF G(3)]
    note T = took_grown [OF at'(2) t(3) io_same_but_map [OF t(1)]]
    have it: "itable t = itable s" using t(3) by (simp add: took_def)
    have iu: "indirect ?u i = ?a" using D(1,2) it by (simp add: indirect_def)
    have e0: "entry_at l (replicate BSIZE 0) = 0" if "l < NINDIRECT" for l
      using that by (simp add: entry_at_def word32_at_def slice_def NDIRECT_vals of_le_zeros)
    have fa: "faddr ?u i l = faddr t i l" for l
    proof (cases "l < NDIRECT")
      case True
      then show ?thesis using D(1,2) it by (simp add: faddr_def Let_def)
    next
      case False
      then have "faddr t i l = 0" using none G(1) by simp
      moreover have "faddr ?u i l = 0"
        using False D(1,2) it F(4) e0 [of "l - NDIRECT"] by (auto simp: faddr_def Let_def NDIRECT_vals)
      ultimately show ?thesis by simp
    qed
    have us: "used_set ?u = used_set t" "meta ?u = meta t" by (simp_all add: used_set_def meta_def)
    have lay: "layout_ok ?u = layout_ok t" by (simp add: layout_ok_def bitmap_ok_def us)
    have own: "owned_block ?u x = owned_block t x" for x by (simp add: owned_block_def us)
    have fb: "fblock ?u i = fblock t i" by (rule ext) (simp add: fblock_def fa)
    have "file_wf ?u i"
      unfolding file_wf_def fa lay own iu
      using E(3) G(5,6) E(6,8) D(1,2) it by (auto simp: it)
    moreover have "same_but_map t ?u i"
      by (auto simp: same_but_map_def intro!: exI [of _ "(iaddrs (itable t ! i))[NDIRECT := ?a]"])
    moreover have "disk ?u = disk t" by simp
    moreover have "unat ?a \<notin> used_set s" using F(2) t(3) by (simp add: took_def)
    ultimately have "grown s ?u i"
      unfolding grown_def fb us fa iu using grownD [OF T] same_but_map_trans [of s t i ?u] ind by metis
    have q: "quiet_cache dev ?u" using quiet_io [OF at'(1) t(1)] by simp
    have at_u: "at_inode dev ?u i" by (rule grown_at [OF \<open>grown s ?u i\<close> q at'(3)])
    have "bmap i bn True s = bmap i bn True ?u"
      using k k' ind0 at'(3) t(2) F(3) D(1,2) it by (simp add: bmap_def run_simps Let_def cong: outcome.case_cong if_cong)
    moreover obtain a v where v: "bmap i bn True ?u = Ret a v" "bmap_result dev ?u i (unat bn) a v"
      using bmap_entry [OF at_u k] F(3) iu by auto
    moreover have "fresh_map s v i"
      unfolding fresh_map_def
    proof
      fix l
      have "faddr v i l = faddr s i l \<or> unat (faddr v i l) \<notin> used_set ?u"
        using v(2) fa [of l] G(1) unfolding bmap_result_def fresh_map_def by metis
      then show "faddr v i l = faddr s i l \<or> unat (faddr v i l) \<notin> used_set s"
        using grownD(4) [OF \<open>grown s ?u i\<close>] by blast
    qed
    then have "bmap_result dev s i (unat bn) a v"
      using v(2) grown_trans [OF \<open>grown s ?u i\<close>] by (auto simp: bmap_result_def)
    ultimately show ?thesis by auto
  qed
qed

lemma bmap_alloc:
  assumes "at_inode dev s i"
  shows "\<exists>a t. bmap i bn True s = Ret a t \<and> bmap_result dev s i (unat bn) a t"
proof -
  consider "unat bn < NDIRECT" | "\<not> unat bn < NDIRECT" "unat bn < MAXFILE" | "MAXFILE \<le> unat bn" by linarith
  then show ?thesis
  proof cases
    case 1
    with bmap_direct assms show ?thesis .
  next
    case 2
    with bmap_entry bmap_no_indirect assms show ?thesis by blast
  next
    case 3
    then have "\<not> unat bn < NDIRECT" "\<not> unat bn - NDIRECT < NINDIRECT" by (simp_all add: NDIRECT_vals)
    then have "bmap i bn True s = Ret 0 s" by (simp add: bmap_def run_simps Let_def)
    with 3 assms show ?thesis using grown_refl by (auto simp: bmap_result_def fresh_map_def at_inode_def)
  qed
qed

end
