(* ===== verification/FileData.thy ===== *)
theory FileData
  imports Contents
begin

section \<open>Reading and writing files\<close>

text \<open>
  What \<open>readi\<close> and \<open>writei\<close> do to a file as a sequence of bytes. A file is \<open>dense\<close> when its size is
  one the block map can hold and every block below the size is mapped; \<open>file_bytes\<close> is then the
  whole of its contents, \<open>readi\<close> takes a slice of it and \<open>writei\<close> overwrites one.
\<close>

definition dense :: "'z fs_st_scheme \<Rightarrow> nat \<Rightarrow> bool" where
  "dense s i \<longleftrightarrow> unat (isize (itable s ! i)) \<le> MAXFILE * BSIZE \<and>
     (\<forall>p < unat (isize (itable s ! i)). faddr s i (p div BSIZE) \<noteq> 0)"

definition file_bytes :: "'z fs_st_scheme \<Rightarrow> nat \<Rightarrow> u8 list" where
  "file_bytes s i = map (fbyte s i) [0..<unat (isize (itable s ! i))]"

text \<open>The arithmetic of the copy loops.\<close>

lemma loop_arith:
  assumes lim: "unat off + unat n \<le> MAXFILE * BSIZE" and tot: "tot < n"
  defines "p \<equiv> unat off + unat tot" and "m \<equiv> step_size off tot n"
  shows "unat (ucast ((off + ucast tot) div 512) :: u32) = p div BSIZE"
    "unat (boff off tot) = p mod BSIZE" "p mod BSIZE + unat m \<le> BSIZE"
    "unat (tot + m) = unat tot + unat m" "0 < unat m" "unat tot + unat m \<le> unat n" "p div BSIZE < MAXFILE"
proof -
  have t: "unat tot < unat n" using tot by (simp add: word_less_nat_alt)
  have p: "p < 71680" using lim t by (simp add: p_def NDIRECT_vals)
  have u: "unat (off + ucast tot) = p"
    using p unfolding p_def by (subst unat_add_small) simp_all
  have dv: "unat ((off + ucast tot) div 512) = p div BSIZE" by (simp add: unat_div u NDIRECT_vals)
  then show "unat (ucast ((off + ucast tot) div 512) :: u32) = p div BSIZE"
    using p by (simp add: unsigned_ucast_eq take_bit_nat_eq_self NDIRECT_vals)
  have md: "unat ((off + ucast tot) mod 512) = p mod BSIZE" by (simp add: unat_mod u NDIRECT_vals)
  then show b: "unat (boff off tot) = p mod BSIZE"
    by (simp add: boff_def unsigned_ucast_eq take_bit_nat_eq_self NDIRECT_vals)
  have "unat (512 - boff off tot) = 512 - p mod BSIZE"
    using b by (subst unat_sub_small) (simp_all add: word_le_nat_alt NDIRECT_vals)
  then have "unat m \<le> 512 - p mod BSIZE"
    by (auto simp: m_def step_size_def min_uint_def word_less_nat_alt)
  moreover have "p mod BSIZE < BSIZE" by (simp add: NDIRECT_vals)
  ultimately show "p mod BSIZE + unat m \<le> BSIZE" by (simp add: NDIRECT_vals)
  have "unat m \<le> unat (n - tot)" using step_size_progress(2) [OF tot, of off] by (simp add: m_def word_le_nat_alt)
  also have "unat (n - tot) = unat n - unat tot" using t by (intro unat_sub_small) (simp add: word_le_nat_alt)
  finally show le: "unat tot + unat m \<le> unat n" using t by simp
  then show "unat (tot + m) = unat tot + unat m" using unat32_less [of n] by (intro unat_add_small) simp
  show "0 < unat m" using step_size_progress(3) [OF tot, of off] by (simp add: m_def word_less_nat_alt)
  show "p div BSIZE < MAXFILE" using p by (simp add: NDIRECT_vals div_less_iff_less_mult)
qed

lemma same_block: "p mod BSIZE + j < BSIZE \<Longrightarrow> (p + j) div BSIZE = p div BSIZE \<and> (p + j) mod BSIZE = p mod BSIZE + j"
proof -
  assume j: "p mod BSIZE + j < BSIZE"
  have "p + j = p div BSIZE * BSIZE + (p mod BSIZE + j)" by simp
  then show ?thesis using j by (metis div_mult_self3 div_less mod_less mod_mult_self3 add.commute add_0 div_mult_self1 less_nat_zero_code)
qed

lemma slice_block:
  assumes "length (fblock s i (p div BSIZE)) = BSIZE" and "p mod BSIZE + m \<le> BSIZE"
  shows "slice (p mod BSIZE) m (fblock s i (p div BSIZE)) = map (fbyte s i) [p..<p + m]"
proof (rule nth_equalityI)
  show "length (slice (p mod BSIZE) m (fblock s i (p div BSIZE))) = length (map (fbyte s i) [p..<p + m])"
    using assms by (simp add: length_slice)
next
  fix j
  assume "j < length (slice (p mod BSIZE) m (fblock s i (p div BSIZE)))"
  then have "j < m" using assms by (simp add: length_slice)
  then show "slice (p mod BSIZE) m (fblock s i (p div BSIZE)) ! j = map (fbyte s i) [p..<p + m] ! j"
    using assms same_block [of p j] by (simp add: nth_slice fbyte_def)
qed

lemma length_fblock: "file_wf s i \<Longrightarrow> length (fblock s i k) = BSIZE"
  using file_wfD(4) [of s i] by (simp add: fblock_def bitmap_ok_def)

lemma quiet_open:
  assumes "quiet_cache dev s"
  obtains b u where "bread dev bno s = Ret b u" "opened dev {} s bno b u"
  by (rule bread_opens [OF quietD [OF assms]]) simp_all

lemma readi_loop_spec:
  assumes "at_inode dev s i" and "unat off + unat n \<le> MAXFILE * BSIZE" and "tot \<le> n"
    and "\<forall>p < unat off + unat n. faddr s i (p div BSIZE) \<noteq> 0"
  shows "\<exists>t. readi_loop i off n tot acc s =
       Ret (n, acc @ map (fbyte s i) [unat off + unat tot..<unat off + unat n]) t \<and> io dev {} s t \<and> disk t = disk s"
  using assms
proof (induction "unat (n - tot)" arbitrary: s tot acc rule: less_induct)
  case less
  note at = less.prems(1)
  have at': "quiet_cache dev s" "file_wf s i" "idev (itable s ! i) = dev" using at by (simp_all add: at_inode_def)
  show ?case
  proof (cases "tot < n")
    case False
    then have "tot = n" using less.prems(3) by simp
    then show ?thesis using io_refl [OF quietD(1) [OF at'(1)]] by (simp add: readi_loop.simps)
  next
    case True
    let ?p = "unat off + unat tot" and ?m = "step_size off tot n"
    note A = loop_arith [OF less.prems(2) True]
    let ?bn = "ucast ((off + ucast tot) div 512) :: u32"
    obtain u where u: "bmap i ?bn False s = Ret (faddr s i (?p div BSIZE)) u" "io dev {} s u" "disk u = disk s"
      using bmap_lookup [OF at'(1,3), of ?bn] A(1) by auto
    have "?p < unat off + unat n" using A(5,6) by simp
    then have nz: "faddr s i (?p div BSIZE) \<noteq> 0" using less.prems(4) by blast
    have itu: "itable u = itable s" using io_fs [OF u(2)] by simp
    obtain b v where v: "bread dev (faddr s i (?p div BSIZE)) u = Ret b v" "opened dev {} u (faddr s i (?p div BSIZE)) b v"
      by (rule quiet_open [OF quiet_io [OF at'(1) u(2)]])
    obtain w where w: "brelse b v = Ret () w" "io dev {} u w" "disk w = disk u"
      by (rule opened_read [OF v(2)]) (use quiet_io [OF at'(1) u(2)] in \<open>simp add: quiet_cache_def\<close>)
    have io: "io dev {} s w" "disk w = disk s" using io_trans [OF u(2) w(2)] w(3) u(3) by simp_all
    have at_w: "at_inode dev w i"
      using grown_at [OF io_grown [OF at'(2) io] quiet_io [OF at'(1) io(1)] at'(3)] .
    have fw: "faddr w i = faddr s i" by (rule ext) (rule io_faddr [OF io])
    have fb: "fbyte w i = fbyte s i" by (rule ext) (simp add: fbyte_def fblock_def fw io(2))
    have ch: "slice (unat (boff off tot)) (unat ?m) (bdata (bufs v ! b)) = map (fbyte s i) [?p..<?p + unat ?m]"
    proof -
      have "bdata (bufs v ! b) = fblock s i (?p div BSIZE)" using opened_fs(6) [OF v(2)] nz u(3) by (simp add: fblock_def)
      then show ?thesis using slice_block [OF length_fblock [OF at'(2)] A(3)] A(2) by simp
    qed
    have le: "tot + ?m \<le> n" using A(4,6) by (simp add: word_le_nat_alt)
    have "\<exists>t. readi_loop i off n (tot + ?m) acc' w =
        Ret (n, acc' @ map (fbyte w i) [unat off + unat (tot + ?m)..<unat off + unat n]) t \<and>
        io dev {} w t \<and> disk t = disk w" for acc'
      using less.hyps [OF _ at_w less.prems(2) le] less.prems(4) step_size_progress(1) [OF True] by (simp add: fw)
    from this [of "acc @ map (fbyte s i) [?p..<?p + unat ?m]"]
    obtain t where t: "readi_loop i off n (tot + ?m) (acc @ map (fbyte s i) [?p..<?p + unat ?m]) w =
        Ret (n, acc @ map (fbyte s i) [?p..<?p + unat ?m] @ map (fbyte s i) [?p + unat ?m..<unat off + unat n]) t"
      "io dev {} w t" "disk t = disk w" by (auto simp: fb A(4) add.assoc)
    have "[?p..<?p + unat ?m] @ [?p + unat ?m..<unat off + unat n] = [?p..<unat off + unat n]"
      using A(6) upt_add_eq_append [of ?p "?p + unat ?m" "unat off + unat n - (?p + unat ?m)"] by simp
    then have "map (fbyte s i) [?p..<?p + unat ?m] @ map (fbyte s i) [?p + unat ?m..<unat off + unat n] =
        map (fbyte s i) [?p..<unat off + unat n]" by (metis map_append)
    moreover have "readi_loop i off n tot acc s = readi_loop i off n (tot + ?m) (acc @ map (fbyte s i) [?p..<?p + unat ?m]) w"
      using True u(1) nz v(1) w(1) ch itu at'(3) by (simp add: readi_loop.simps [of i off n tot] run_simps Let_def)
    ultimately show ?thesis using t io_trans [OF io(1) t(2)] io(2) by auto
  qed
qed

lemma my_lock:
  assumes "quiet_cache dev s" and "owns s (InodeLock i)"
  shows "inode_lock_if_needed i s = Ret False s" "holdingsleep (InodeLock i) s = Ret True s"
proof -
  have "held s = {}" using assms(1) by (simp add: quiet_cache_def calm_def)
  then show h: "holdingsleep (InodeLock i) s = Ret True s" using assms(2) by (simp add: holdingsleep_eq)
  then show "inode_lock_if_needed i s = Ret False s" by (simp add: inode_lock_if_needed_def run_simps)
qed

lemma slice_file: "b \<le> unat (isize (itable s ! i)) \<Longrightarrow> slice a (b - a) (file_bytes s i) = map (fbyte s i) [a..<b]"
  by (cases "a \<le> b") (simp_all add: slice_def file_bytes_def drop_map take_map take_upt)

lemma slice_all: "length xs \<le> a + n \<Longrightarrow> slice a n xs = slice a (length xs - a) xs"
  by (simp add: slice_def)

lemma length_file_bytes [simp]: "length (file_bytes s i) = unat (isize (itable s ! i))"
  by (simp add: file_bytes_def)

lemma sint_nat: "unat (w :: u32) < 2147483648 \<Longrightarrow> sint w = int (unat w)"
proof -
  assume "unat w < 2147483648"
  then have "uint w < 2147483648" by (metis of_nat_less_iff of_nat_numeral uint_nat)
  then have "signed_take_bit 31 (uint w) = uint w" by (intro signed_take_bit_int_eq_self) (auto intro: order_trans [of _ 0])
  then show ?thesis by (simp add: sint_uint)
qed

lemma readi_spec:
  fixes off :: u64 and n :: u32
  assumes at: "at_inode dev s i" and dense: "dense s i" and lock: "owns s (InodeLock i)" and ty: "itype (itable s ! i) \<noteq> 0"
  defines "bs \<equiv> slice (unat off) (unat n) (file_bytes s i)"
  shows "\<exists>t. readi (Some i) off n s = Ret (int (length bs), bs) t \<and> io dev {} s t \<and> disk t = disk s"
proof -
  let ?sz = "unat (isize (itable s ! i))"
  have at': "quiet_cache dev s" "file_wf s i" using at by (simp_all add: at_inode_def)
  note L = my_lock [OF at'(1) lock]
  have sz: "?sz \<le> 71680" using dense by (simp add: dense_def NDIRECT_vals)
  have r: "\<exists>t. io dev {} s t \<and> disk t = disk s \<and> Ret v s = Ret v t" for v :: "int \<times> u8 list"
    using io_refl [OF quietD(1) [OF at'(1)]] by blast
  consider "n = 0" | "n \<noteq> 0" "?sz < unat off" | "n \<noteq> 0" "unat off \<le> ?sz" by linarith
  then show ?thesis
  proof cases
    case 1
    then show ?thesis using io_refl [OF quietD(1) [OF at'(1)]] by (simp add: readi_def bs_def slice_def)
  next
    case 2
    then have "(ucast (isize (itable s ! i)) :: u64) < off" by (simp add: word_less_nat_alt)
    then show ?thesis
      using 2 L ty io_refl [OF quietD(1) [OF at'(1)]]
      by (simp add: readi_def run_simps Let_def bs_def slice_def)
  next
    case 3
    let ?s = "isize (itable s ! i)"
    let ?n = "if ucast ?s < off + ucast n then ucast (ucast ?s - off) else n"
    have c1: "\<not> (ucast ?s :: u64) < off" using 3 by (simp add: word_less_nat_alt)
    have o: "unat (off + ucast n) = unat off + unat n"
      using 3 sz unat32_less [of n] by (subst unat_add_small) simp_all
    then have c2: "\<not> off + ucast n < off" by (simp add: word_less_nat_alt)
    have "unat (ucast ?s - off :: u64) = ?sz - unat off" using 3 by (subst unat_sub_small) (simp_all add: word_le_nat_alt)
    then have "unat (ucast (ucast ?s - off :: u64) :: u32) = ?sz - unat off"
      using sz by (simp add: unsigned_ucast_eq take_bit_nat_eq_self)
    then have n: "unat ?n = min (unat n) (?sz - unat off)" using o 3 by (auto simp: word_less_nat_alt)
    then have le: "unat off + unat ?n \<le> ?sz" using 3 by simp
    have bs: "bs = map (fbyte s i) [unat off..<unat off + unat ?n]"
    proof -
      have "bs = slice (unat off) (unat ?n) (file_bytes s i)"
        using n by (simp add: bs_def slice_def min_def)
      then show ?thesis using slice_file [OF le, of "unat off"] by simp
    qed
    obtain t where t: "readi_loop i off ?n 0 [] s = Ret (?n, bs) t" "io dev {} s t" "disk t = disk s"
      using readi_loop_spec [OF at, of off ?n 0 "[]"] le sz dense by (auto simp: bs NDIRECT_vals dense_def)
    have "sint ?n = int (length bs)" using n sz le by (subst sint_nat) (simp_all add: bs)
    then have "readi (Some i) off n s = Ret (int (length bs), bs) t"
      using 3 L ty c1 c2 t(1) by (simp add: readi_def run_simps Let_def)
    with t show ?thesis by blast
  qed
qed

subsection \<open>Writing\<close>

definition blocks_of :: "'z fs_st_scheme \<Rightarrow> nat \<Rightarrow> u32 set" where
  "blocks_of s i = insert (indirect s i) (range (faddr s i))"

text \<open>
  \<open>wrote_file s t i off xs\<close>: from \<open>s\<close> to \<open>t\<close> the bytes of file \<open>i\<close> from \<open>off\<close> on became \<open>xs\<close> and all
  its other bytes stayed; blocks were at most added to it; nothing else on the disk that was in use
  changed, the bitmap apart.
\<close>

definition wrote_file :: "'z fs_st_scheme \<Rightarrow> 'z fs_st_scheme \<Rightarrow> nat \<Rightarrow> nat \<Rightarrow> u8 list \<Rightarrow> bool" where
  "wrote_file s t i off xs \<longleftrightarrow> file_wf t i \<and> same_but_map s t i \<and> used_set s \<subseteq> used_set t \<and> fresh_map s t i \<and>
     (\<forall>p. fbyte t i p = (if off \<le> p \<and> p < off + length xs then xs ! (p - off) else fbyte s i p)) \<and>
     (\<forall>p. off \<le> p \<and> p < off + length xs \<longrightarrow> faddr t i (p div BSIZE) \<noteq> 0) \<and>
     (\<forall>k. faddr s i k \<noteq> 0 \<longrightarrow> faddr t i k = faddr s i k) \<and>
     (\<forall>a. unat a \<in> used_set s \<longrightarrow> a \<notin> meta s \<longrightarrow> a \<notin> blocks_of s i \<longrightarrow> disk t a = disk s a) \<and>
     (\<forall>n < sb_ninodes (sb s). disk t (IBLOCK n (sb s)) = disk s (IBLOCK n (sb s))) \<and>
     (indirect t i = indirect s i \<or> indirect s i = 0 \<and> unat (indirect t i) \<notin> used_set s)"

lemma wrote_fileD:
  assumes "wrote_file s t i off xs"
  shows "file_wf t i" "same_but_map s t i" "used_set s \<subseteq> used_set t" "fresh_map s t i"
    "fbyte t i p = (if off \<le> p \<and> p < off + length xs then xs ! (p - off) else fbyte s i p)"
    "off \<le> p \<Longrightarrow> p < off + length xs \<Longrightarrow> faddr t i (p div BSIZE) \<noteq> 0"
    "faddr s i k \<noteq> 0 \<Longrightarrow> faddr t i k = faddr s i k"
    "unat a \<in> used_set s \<Longrightarrow> a \<notin> meta s \<Longrightarrow> a \<notin> blocks_of s i \<Longrightarrow> disk t a = disk s a"
    "n < sb_ninodes (sb s) \<Longrightarrow> disk t (IBLOCK n (sb s)) = disk s (IBLOCK n (sb s))"
    "indirect t i = indirect s i \<or> indirect s i = 0 \<and> unat (indirect t i) \<notin> used_set s"
  using assms unfolding wrote_file_def by blast+

lemma fresh_map_trans: "fresh_map s t i \<Longrightarrow> fresh_map t u i \<Longrightarrow> used_set s \<subseteq> used_set t \<Longrightarrow> fresh_map s u i"
  unfolding fresh_map_def by (metis subsetD)

lemma fresh_blocks:
  assumes "fresh_map s t i" and "indirect t i = indirect s i \<or> indirect s i = 0 \<and> unat (indirect t i) \<notin> used_set s"
    and "unat a \<in> used_set s" and "a \<notin> blocks_of s i"
  shows "a \<notin> blocks_of t i"
  using assms unfolding blocks_of_def fresh_map_def by (auto simp: image_iff)

lemma wrote_file_trans:
  assumes st: "wrote_file s t i off xs" and tu: "wrote_file t u i (off + length xs) ys"
  shows "wrote_file s u i off (xs @ ys)"
  unfolding wrote_file_def
proof (intro conjI allI impI)
  note S = wrote_fileD [OF st] and T = wrote_fileD [OF tu]
  have sb: "sb t = sb s" "meta t = meta s" using same_but_mapD(1,9) [OF S(2)] by simp_all
  show "file_wf u i" by (rule T(1))
  show "same_but_map s u i" by (rule same_but_map_trans [OF S(2) T(2)])
  show "used_set s \<subseteq> used_set u" using S(3) T(3) by simp
  show "fresh_map s u i" by (rule fresh_map_trans [OF S(4) T(4) S(3)])
  show "fbyte u i p = (if off \<le> p \<and> p < off + length (xs @ ys) then (xs @ ys) ! (p - off) else fbyte s i p)" for p
    using S(5) [of p] T(5) [of p] by (auto simp: nth_append diff_diff_add)
  show "faddr u i (p div BSIZE) \<noteq> 0" if "off \<le> p \<and> p < off + length (xs @ ys)" for p
    using S(6) [of p] T(6) [of p] T(7) [of "p div BSIZE"] that by (cases "p < off + length xs") simp_all
  show "faddr u i k = faddr s i k" if "faddr s i k \<noteq> 0" for k using S(7) [OF that] T(7) [of k] that by simp
  show "disk u a = disk s a" if a: "unat a \<in> used_set s" "a \<notin> meta s" "a \<notin> blocks_of s i" for a
    using S(8) [OF a] T(8) [of a] fresh_blocks [OF S(4,10) a(1,3)] S(3) a sb by auto
  show "disk u (IBLOCK n (sb s)) = disk s (IBLOCK n (sb s))" if "n < sb_ninodes (sb s)" for n
    using S(9) [OF that] T(9) [of n] that sb by simp
  show "indirect u i = indirect s i \<or> indirect s i = 0 \<and> unat (indirect u i) \<notin> used_set s"
    using S(3,10) T(10) by auto
qed

lemma grown_wrote: "grown s t i \<Longrightarrow> fresh_map s t i \<Longrightarrow> wrote_file s t i off []"
  unfolding grown_def wrote_file_def fbyte_def blocks_of_def by auto

text \<open>Overwriting part of one block of the file.\<close>

lemma put_block_wrote:
  assumes wf: "file_wf s i" and nz: "faddr s i (p div BSIZE) \<noteq> 0" and fit: "p mod BSIZE + length xs \<le> BSIZE"
    and same: "same_but_map s t i" and it: "itable t = itable s"
    and d: "disk t = (disk s)(faddr s i (p div BSIZE) := put_at (p mod BSIZE) xs (disk s (faddr s i (p div BSIZE))))"
  shows "wrote_file s t i p xs"
proof -
  let ?k = "p div BSIZE" and ?b = "p mod BSIZE"
  let ?a = "faddr s i ?k"
  note D = file_wfD [OF wf] and S = same_but_mapD [OF same]
  have am: "?a \<notin> meta s" "?a \<noteq> indirect s i" using D(6,7) [OF nz] by (simp_all add: owned_block_def)
  have fa: "faddr t i k = faddr s i k" for k by (rule faddr_cong) (use am(2) it d in simp_all)
  have ind: "indirect t i = indirect s i" by (simp add: indirect_def it)
  have dm: "disk t x = disk s x" if "x \<in> meta s" for x using that am(1) d by auto
  have "disk t (BBLOCK (of_nat n) (sb s)) = disk s (BBLOCK (of_nat n) (sb s))" if "n < unat (sb_size (sb s))" for n
    by (rule dm [OF metaI(1) [OF that]])
  then have us: "used_set t = used_set s" by (auto simp: used_set_def used_def S(1))
  have len: "length (disk s x) = BSIZE" for x using D(4) by (simp add: bitmap_ok_def)
  have len': "length (disk t x) = BSIZE" for x using len fit by (simp add: d length_put_at)
  have "layout_ok t" using D(3) len' by (simp add: layout_ok_def bitmap_ok_def us S)
  then have "file_wf t i" using D by (auto simp: file_wf_def fa us S ind owned_block_def it)
  moreover have inside: "q div BSIZE = ?k" if "p \<le> q" "q < p + length xs" for q
  proof -
    have "?b + (q - p) < BSIZE" using that fit by arith
    then show ?thesis using same_block [of p "q - p"] that(1) by simp
  qed
  moreover have "fbyte t i q = (if p \<le> q \<and> q < p + length xs then xs ! (q - p) else fbyte s i q)" for q
  proof (cases "q div BSIZE = ?k")
    case True
    have q: "q = ?k * BSIZE + q mod BSIZE" "p = ?k * BSIZE + ?b" using True div_mult_mod_eq by metis+
    have "q mod BSIZE < BSIZE" by (simp add: NDIRECT_vals)
    then have "fbyte t i q = (if ?b \<le> q mod BSIZE \<and> q mod BSIZE < ?b + length xs then xs ! (q mod BSIZE - ?b) else fbyte s i q)"
      using nz fit len True by (simp add: fbyte_def fblock_def fa d nth_put_at)
    moreover have "?b \<le> q mod BSIZE \<longleftrightarrow> p \<le> q" "q mod BSIZE < ?b + length xs \<longleftrightarrow> q < p + length xs" "q mod BSIZE - ?b = q - p"
      using q by linarith+
    ultimately show ?thesis by simp
  next
    case False
    then have "faddr s i (q div BSIZE) = 0 \<or> faddr s i (q div BSIZE) \<noteq> ?a" using D(8) nz by metis
    then have "fbyte t i q = fbyte s i q" by (auto simp: fbyte_def fblock_def fa d)
    moreover have "\<not> (p \<le> q \<and> q < p + length xs)" using False inside [of q] by blast
    ultimately show ?thesis by auto
  qed
  moreover have "faddr s i (q div BSIZE) \<noteq> 0" if "p \<le> q" "q < p + length xs" for q
    using nz inside [OF that] by simp
  moreover have "disk t (IBLOCK n (sb s)) = disk s (IBLOCK n (sb s))" if "n < sb_ninodes (sb s)" for n
    by (rule dm [OF metaI(2) [OF that]])
  ultimately show ?thesis
    using same us by (auto simp: wrote_file_def fa ind fresh_map_def d blocks_of_def)
qed

definition disk_full :: "'z fs_st_scheme \<Rightarrow> bool" where
  "disk_full s \<longleftrightarrow> used_set s = {..<unat (sb_size (sb s))}"

lemma put_chunk:
  fixes u :: "'z fs_st_scheme"
  assumes "quiet_cache dev u" and "length (f (disk u a)) = BSIZE"
  obtains b v t where "bread dev a u = Ret b v"
    "\<forall>K :: ('z fs_st_scheme, 'b) kern. thn (upd_data b f) (thn (bwrite b) (thn (brelse b) K)) v = K t"
    "io dev {} u t" "disk t = (disk u)(a := f (disk u a))"
proof -
  obtain b v where v: "bread dev a u = Ret b v" "opened dev {} u a b v" by (rule quiet_open [OF assms(1)])
  let ?w = "thn (upd_data b f) (thn (bwrite b) (brelse b)) :: ('z fs_st_scheme, unit) kern"
  obtain t where t: "?w v = Ret () t" "io dev {} u t" "disk t = (disk u)(a := f (disk u a))"
    by (rule opened_modify [where f = f, OF v(2) quietD(2) [OF assms(1)] assms(2)])
  have "thn (upd_data b f) (thn (bwrite b) (thn (brelse b) K)) v = K t" for K :: "('z fs_st_scheme, 'b) kern"
  proof -
    have "thn (upd_data b f) (thn (bwrite b) (thn (brelse b) K)) v = thn ?w K v" by (simp only: thn_assoc)
    also have "\<dots> = K t" unfolding thn_apply [of ?w] t(1) by simp
    finally show ?thesis .
  qed
  with that v(1) t(2,3) show thesis by blast
qed

lemma writei_loop_spec:
  fixes s :: "'z fs_st_scheme"
  assumes "at_inode dev s i" and "unat off + unat n \<le> MAXFILE * BSIZE" and "tot \<le> n" and "unat n = length src"
  shows "\<exists>r t. writei_loop i off src n tot s = Ret r t \<and> quiet_cache dev t \<and> tot \<le> r \<and> r \<le> n \<and>
     wrote_file s t i (unat off + unat tot) (slice (unat tot) (unat r - unat tot) src) \<and> (r < n \<longrightarrow> disk_full t)"
  using assms
proof (induction "unat (n - tot)" arbitrary: s tot rule: less_induct)
  case less
  have at': "quiet_cache dev s" "file_wf s i" "idev (itable s ! i) = dev" using less.prems(1) by (simp_all add: at_inode_def)
  have none: "wrote_file s s i k []" for k by (rule grown_wrote [OF grown_refl [OF at'(2)]]) (simp add: fresh_map_def)
  show ?case
  proof (cases "tot < n")
    case False
    then have "tot = n" using less.prems(3) by simp
    then show ?thesis using none at'(1) by (auto simp: writei_loop.simps slice_def)
  next
    case True
    let ?p = "unat off + unat tot" and ?m = "step_size off tot n" and ?bn = "ucast ((off + ucast tot) div 512) :: u32"
    let ?chunk = "slice (unat tot) (unat ?m) src"
    note A = loop_arith [OF less.prems(2) True]
    obtain a u where u: "bmap i ?bn True s = Ret a u" "bmap_result dev s i (unat ?bn) a u"
      using bmap_alloc [OF less.prems(1)] by blast
    have g: "grown s u i" "fresh_map s u i" and q: "quiet_cache dev u" using u(2) by (simp_all add: bmap_result_def)
    have su: "wrote_file s u i ?p []" by (rule grown_wrote [OF g])
    show ?thesis
    proof (cases "a = 0")
      case a0: True
      then have "disk_full u" using u(2) A(1,7) by (simp add: bmap_result_def disk_full_def)
      moreover have "writei_loop i off src n tot s = Ret tot u"
        using True u(1) a0 by (simp add: writei_loop.simps [of i off src n tot] run_simps)
      ultimately show ?thesis using q su True by (auto simp: slice_def)
    next
      case False
      have fa: "faddr u i (?p div BSIZE) = a" using u(2) A(1) False by (simp add: bmap_result_def)
      have dv: "idev (itable u ! i) = dev" using same_but_mapD(10) [OF grownD(2) [OF g(1)]] at'(3) by simp
      have len: "length (disk u x) = BSIZE" for x using file_wfD(4) [OF grownD(1) [OF g(1)]] by (simp add: bitmap_ok_def)
      have lc: "length ?chunk = unat ?m" using A(6) less.prems(4) by (simp add: length_slice)
      obtain b v w where w: "bread dev a u = Ret b v"
        "\<forall>K :: ('z fs_st_scheme, u32) kern. thn (upd_data b (put_at (?p mod BSIZE) ?chunk)) (thn (bwrite b) (thn (brelse b) K)) v = K w"
        "io dev {} u w" "disk w = (disk u)(a := put_at (?p mod BSIZE) ?chunk (disk u a))"
        by (rule put_chunk [where 'b = u32, OF q, of "put_at (?p mod BSIZE) ?chunk" a]) (use A(3) lc len in \<open>simp add: length_put_at\<close>)
      have uw: "wrote_file u w i ?p ?chunk"
        by (rule put_block_wrote [OF grownD(1) [OF g(1)]])
          (use False fa A(3) lc w(4) io_same_but_map [OF w(3)] io_fs [OF w(3)] in simp_all)
      have sw: "wrote_file s w i ?p ?chunk" using wrote_file_trans [OF su, of w ?chunk] uw by simp
      have at_w: "at_inode dev w i"
        using wrote_fileD(1,2) [OF sw] quiet_io [OF q w(3)] same_but_mapD(10) at'(3) by (metis at_inode_def)
      have le: "tot + ?m \<le> n" using A(4,6) by (simp add: word_le_nat_alt)
      obtain r t where t: "writei_loop i off src n (tot + ?m) w = Ret r t" "quiet_cache dev t" "tot + ?m \<le> r" "r \<le> n"
        "wrote_file w t i (unat off + unat (tot + ?m)) (slice (unat (tot + ?m)) (unat r - unat (tot + ?m)) src)"
        "r < n \<longrightarrow> disk_full t"
        using less.hyps [OF _ at_w less.prems(2) le less.prems(4)] step_size_progress(1) [OF True] by auto
      have r: "unat tot + unat ?m \<le> unat r" using t(3) A(4) by (simp add: word_le_nat_alt)
      have join: "?chunk @ slice (unat tot + unat ?m) (unat r - (unat tot + unat ?m)) src = slice (unat tot) (unat r - unat tot) src"
        using r take_add [of "unat ?m" "unat r - (unat tot + unat ?m)" "drop (unat tot) src"]
        by (simp add: slice_def add.commute)
      have "wrote_file s t i ?p (slice (unat tot) (unat r - unat tot) src)"
        using wrote_file_trans [OF sw, of t "slice (unat tot + unat ?m) (unat r - (unat tot + unat ?m)) src"] t(5) lc A(4) join
        by (simp add: add.assoc)
      moreover have "writei_loop i off src n tot s = writei_loop i off src n (tot + ?m) w"
        using True u(1) False w(1,2) dv A(2)
        by (simp add: writei_loop.simps [of i off src n tot] bnd_apply Let_def)
      ultimately show ?thesis using t True r by (auto simp: word_le_nat_alt)
    qed
  qed
qed

text \<open>Writing the inode back to its block of the table.\<close>

definition saved :: "'z fs_st_scheme \<Rightarrow> nat \<Rightarrow> bool" where
  "saved s i \<longleftrightarrow> (let ino = inum (itable s ! i) in
     dinode_of (slice (dinode_off ino) DINODE_SIZE (disk s (IBLOCK ino (sb s)))) = inode_dinode (itable s ! i))"

lemma dinode_fits: "dinode_off ino + DINODE_SIZE \<le> BSIZE"
proof -
  have "unat ino mod 8 < 8" by simp
  then show ?thesis unfolding dinode_off_def IPB_def DINODE_SIZE_def BSIZE_def by simp
qed

lemma inode_block_write:
  assumes wf: "file_wf s i" and m: "m < sb_ninodes (sb s)" and len: "length d = BSIZE"
    and same: "sb t = sb s" "length (itable t) = length (itable s)" "iaddrs (itable t ! i) = iaddrs (itable s ! i)"
    and disk: "disk t = (disk s)(IBLOCK m (sb s) := d)"
  shows "file_wf t i" "faddr t i k = faddr s i k" "fbyte t i p = fbyte s i p" "used_set t = used_set s"
    "indirect t i = indirect s i" "meta t = meta s"
proof -
  note D = file_wfD [OF wf]
  have own: "disk t a = disk s a" if "owned_block s a" for a
    using that metaI(2) [OF m] by (auto simp: disk owned_block_def)
  show ind: "indirect t i = indirect s i" by (simp add: indirect_def same)
  have fa: "faddr t i l = faddr s i l" for l
  proof (cases "indirect s i = 0")
    case True
    then show ?thesis by (simp add: faddr_def Let_def same indirect_def)
  next
    case False
    then show ?thesis using own [OF D(5)] by (simp add: faddr_def Let_def same indirect_def)
  qed
  then show "faddr t i k = faddr s i k" .
  show "fbyte t i p = fbyte s i p" using own [OF D(6)] by (auto simp: fbyte_def fblock_def fa)
  have "disk t (BBLOCK (of_nat n) (sb s)) = disk s (BBLOCK (of_nat n) (sb s))" if "n < unat (sb_size (sb s))" for n
    using D(3) that m by (auto simp: disk layout_ok_def)
  then show us: "used_set t = used_set s" by (auto simp: used_set_def used_def same)
  show mt: "meta t = meta s" by (simp add: meta_def same)
  have "layout_ok t" using D(3) len by (auto simp: layout_ok_def bitmap_ok_def us mt same disk)
  then show "file_wf t i" using D by (auto simp: file_wf_def fa us ind mt same owned_block_def)
qed

lemma iupdate_spec:
  fixes s :: "'z fs_st_scheme"
  assumes q: "quiet_cache dev s" and dev: "idev (itable s ! i) = dev" and lock: "owns s (InodeLock i)"
    and len: "length (iaddrs (itable s ! i)) = NDIRECT + 1"
  shows "\<exists>t d. iupdate (Some i) s = Ret () t \<and> io dev {} s t \<and> length d = BSIZE \<and>
     disk t = (disk s)(IBLOCK (inum (itable s ! i)) (sb s) := d) \<and> saved t i"
proof -
  let ?ip = "itable s ! i"
  let ?f = "put_at (dinode_off (inum ?ip)) (dinode_bytes (inode_dinode ?ip))" and ?B = "IBLOCK (inum ?ip) (sb s)"
  have ld: "length (dinode_bytes (inode_dinode ?ip)) = DINODE_SIZE"
    using len by (simp add: length_dinode_bytes inode_dinode_def)
  have bs: "length (disk s ?B) = BSIZE" using cache_okD(6) [OF quietD(1) [OF q]] by simp
  have fit: "length (?f (disk s ?B)) = BSIZE" using dinode_fits ld bs by (simp add: length_put_at)
  obtain b v t where t: "bread dev ?B s = Ret b v"
    "\<forall>K :: ('z fs_st_scheme, unit) kern. thn (upd_data b ?f) (thn (bwrite b) (thn (brelse b) K)) v = K t"
    "io dev {} s t" "disk t = (disk s)(?B := ?f (disk s ?B))"
    by (rule put_chunk [where 'b = unit and f = ?f, OF q fit])
  have run: "iupdate (Some i) s = Ret () t"
    using my_lock(2) [OF q lock] t(1,2) dev by (simp add: iupdate_def bnd_apply thn_apply [of "whenk _ _"])
  have "slice (dinode_off (inum ?ip)) DINODE_SIZE (?f (disk s ?B)) = dinode_bytes (inode_dinode ?ip)"
    using slice_put_at [of "dinode_off (inum ?ip)" "dinode_bytes (inode_dinode ?ip)" "disk s ?B"] dinode_fits ld bs by simp
  then have "saved t i"
    using io_fs [OF t(3)] t(4) len by (simp add: saved_def Let_def dinode_of_bytes inode_dinode_def)
  with run t(3,4) fit show ?thesis by blast
qed

lemma put_file:
  assumes "\<And>p. fbyte t i p = (if off \<le> p \<and> p < off + length xs then xs ! (p - off) else fbyte s i p)"
    and "off \<le> unat (isize (itable s ! i))"
    and "unat (isize (itable t ! i)) = max (unat (isize (itable s ! i))) (off + length xs)"
  shows "file_bytes t i = put_at off xs (file_bytes s i)"
proof (rule nth_equalityI)
  show len: "length (file_bytes t i) = length (put_at off xs (file_bytes s i))"
    using assms(2,3) by (simp add: put_at_def)
  fix p
  assume "p < length (file_bytes t i)"
  then show "file_bytes t i ! p = put_at off xs (file_bytes s i) ! p"
    using assms by (auto simp: file_bytes_def put_at_def nth_append nth_map max_def split: if_splits)
qed

text \<open>An open file: well-formed, dense, locked by the caller, and one of the disk's inodes.\<close>

definition file_ready :: "u32 \<Rightarrow> 'z fs_st_scheme \<Rightarrow> nat \<Rightarrow> bool" where
  "file_ready dev s i \<longleftrightarrow> at_inode dev s i \<and> dense s i \<and> owns s (InodeLock i) \<and> itype (itable s ! i) \<noteq> 0 \<and>
     inum (itable s ! i) < sb_ninodes (sb s)"

lemma writei_spec:
  fixes s :: "'z fs_st_scheme" and off :: u64
  assumes ready: "file_ready dev s i"
    and off: "unat off \<le> unat (isize (itable s ! i))" "unat off + length src \<le> MAXFILE * BSIZE" and ne: "src \<noteq> []"
  shows "\<exists>k t. writei (Some i) off src s = Ret (int k) t \<and> k \<le> length src \<and> (k < length src \<longrightarrow> disk_full t) \<and>
     file_ready dev t i \<and>
     file_bytes t i = put_at (unat off) (take k src) (file_bytes s i) \<and> saved t i \<and>
     (\<forall>a. unat a \<in> used_set s \<longrightarrow> a \<notin> meta s \<longrightarrow> a \<notin> blocks_of s i \<longrightarrow> disk t a = disk s a) \<and>
     itype (itable t ! i) = itype (itable s ! i)"
proof -
  have at: "at_inode dev s i" and dense: "dense s i" and lock: "owns s (InodeLock i)" and ty: "itype (itable s ! i) \<noteq> 0"
    and ino: "inum (itable s ! i) < sb_ninodes (sb s)" using ready by (simp_all add: file_ready_def)
  have at': "quiet_cache dev s" "file_wf s i" "idev (itable s ! i) = dev" using at by (simp_all add: at_inode_def)
  note L = my_lock [OF at'(1) lock] and D = file_wfD [OF at'(2)]
  let ?ip = "itable s ! i"
  let ?sz = "unat (isize ?ip)" and ?n = "of_nat (length src) :: u32"
  have sz: "?sz \<le> 71680" using dense by (simp add: dense_def NDIRECT_vals)
  have ls: "unat off + length src \<le> 71680" using off(2) by (simp add: NDIRECT_vals)
  have n: "unat ?n = length src" "?n \<noteq> 0" using ls ne by (simp_all add: unat32_of_nat word_unat_eq_iff)
  have o: "unat (off + ucast ?n) = unat off + length src" using n ls by (subst unat_add_small) simp_all
  have guards: "\<not> ((ucast (isize ?ip) :: u64) < off \<or> off + ucast ?n < off)" "\<not> of_nat (MAXFILE * BSIZE) < off + ucast ?n"
    using off(1) o ls by (simp_all add: word_less_nat_alt NDIRECT_vals)
  obtain r u where u: "writei_loop i off src ?n 0 s = Ret r u" "quiet_cache dev u" "r \<le> ?n"
    "wrote_file s u i (unat off) (take (unat r) src)" "r < ?n \<longrightarrow> disk_full u"
    using writei_loop_spec [OF at, of off ?n 0 src] off(2) n(1) by (auto simp: slice_def)
  note W = wrote_fileD [OF u(4)] and S = same_but_mapD [OF wrote_fileD(2) [OF u(4)]]
  let ?k = "unat r"
  have k: "?k \<le> length src" using u(3) n(1) by (simp add: word_le_nat_alt)
  have e: "unat (off + ucast r) = unat off + ?k" using k ls by (subst unat_add_small) simp_all
  obtain a where a: "length a = NDIRECT + 1" "itable u = (itable s)[i := ?ip\<lparr>iaddrs := a\<rparr>]"
    using W(2) D(2) by (auto simp: same_but_map_def)
  have iu: "itable u ! i = ?ip\<lparr>iaddrs := a\<rparr>" using a(2) D(1) by simp
  define f where "f = (\<lambda>ip :: inode. if ucast (isize ip) < off + ucast r then ip\<lparr>isize := ucast (off + ucast r)\<rparr> else ip)"
  define v where "v = u\<lparr>itable := (itable u)[i := f (itable u ! i)]\<rparr>"
  have iv: "itable v ! i = f (?ip\<lparr>iaddrs := a\<rparr>)" using D(1) S(8) iu by (simp add: v_def)
  have fields: "iaddrs (itable v ! i) = a" "idev (itable v ! i) = dev" "itype (itable v ! i) = itype ?ip"
    "inum (itable v ! i) = inum ?ip" using at'(3) by (simp_all add: iv f_def)
  have vs: "disk v = disk u" "sb v = sb s" "length (itable v) = length (itable s)" by (simp_all add: v_def S)
  have szv: "unat (isize (itable v ! i)) = max ?sz (unat off + ?k)"
  proof -
    have "unat (ucast (off + ucast r) :: u32) = unat off + ?k"
      using e k ls by (simp add: unsigned_ucast_eq take_bit_nat_eq_self)
    then show ?thesis using e by (auto simp: iv f_def word_less_nat_alt)
  qed
  have qv: "quiet_cache dev v" using u(2) by (simp add: v_def)
  have lockv: "owns v (InodeLock i)" using lock S(3,4,6,7) by (simp add: owns_def v_def split: option.splits)
  obtain t d where t: "iupdate (Some i) v = Ret () t" "io dev {} v t" "length d = BSIZE"
    "disk t = (disk v)(IBLOCK (inum ?ip) (sb v) := d)" "saved t i"
    using iupdate_spec [OF qv fields(2) lockv] a(1) fields by auto
  have ft: "itable t = itable v" "sb t = sb s" using io_fs [OF t(2)] vs by simp_all
  have ds: "disk t = (disk u)(IBLOCK (inum ?ip) (sb u) := d)" using t(4) vs S(1) by simp
  have "inum ?ip < sb_ninodes (sb u)" using ino S(1) by simp
  note X = inode_block_write [OF W(1) this t(3) _ _ _ ds]
  have X': "sb t = sb u" "length (itable t) = length (itable u)" "iaddrs (itable t ! i) = iaddrs (itable u ! i)"
    using ft vs S fields(1) iu by simp_all
  note X = X [OF X']
  have "writei (Some i) off src s = Ret (sint r) t"
    using L n(2) ty guards u(1) t(1) by (simp add: writei_def run_simps Let_def f_def v_def)
  moreover have "sint r = int ?k" using k ls by (intro sint_nat) simp
  moreover have "?k < length src \<longrightarrow> disk_full t"
    using u(5) n(1) X(4) X'(1) by (auto simp: disk_full_def word_less_nat_alt)
  moreover have "at_inode dev t i" using quiet_io [OF qv t(2)] X(1) fields(2) ft(1) by (simp add: at_inode_def)
  moreover have "owns t (InodeLock i)"
    using lockv t(2) by (auto simp: owns_def io_def cache_step_def split: option.splits)
  moreover have "file_bytes t i = put_at (unat off) (take ?k src) (file_bytes s i)"
    by (rule put_file) (use W(5) X(3) off(1) szv ft(1) k in simp_all)
  moreover have "dense t i"
  proof -
    have "faddr t i (p div BSIZE) \<noteq> 0" if p: "p < max ?sz (unat off + ?k)" for p
    proof (cases "p < ?sz")
      case True
      then show ?thesis using dense W(7) X(2) by (simp add: dense_def)
    next
      case False
      then show ?thesis using p off(1) W(6) [of p] X(2) k by simp
    qed
    then show ?thesis using szv sz k ls ft(1) by (simp add: dense_def NDIRECT_vals)
  qed
  moreover have "disk t x = disk s x" if "unat x \<in> used_set s" "x \<notin> meta s" "x \<notin> blocks_of s i" for x
    using that W(8) [OF that] metaI(2) [OF ino] ds S(1) by auto
  ultimately show ?thesis
    using k t(5) ft fields(3,4) ty ino by (intro exI [of _ ?k] exI [of _ t]) (simp add: file_ready_def)
qed

text \<open>
  C29. \<open>writei\<close> refines overwriting a range of a byte sequence: for an open file and an offset not
  past its end, it returns how many bytes it took, and the file's bytes are then the old ones with
  those bytes put at the offset, extending the file where they reach past its end. It takes fewer
  than all of them only on a full disk. The file stays well-formed, its inode is saved in the table
  of inodes, and no block in use that belongs to another file changes.
\<close>

theorem writei_refines:
  assumes "file_ready dev s i" and "unat off \<le> unat (isize (itable s ! i))"
    and "unat off + length src \<le> MAXFILE * BSIZE" and "src \<noteq> []"
  shows "\<exists>k t. writei (Some i) off src s = Ret (int k) t \<and> k \<le> length src \<and> (k < length src \<longrightarrow> disk_full t) \<and>
     file_ready dev t i \<and> file_bytes t i = put_at (unat off) (take k src) (file_bytes s i) \<and> saved t i \<and>
     (\<forall>a. unat a \<in> used_set s \<longrightarrow> a \<notin> meta s \<longrightarrow> a \<notin> blocks_of s i \<longrightarrow> disk t a = disk s a)"
  using writei_spec [OF assms] by blast

text \<open>
  C30. \<open>readi\<close> yields the bytes of an open file from the offset on, as many as asked for and as there
  are, and returns their number; at or past the end it returns 0. It leaves the disk as it is.
\<close>

theorem readi_reads:
  fixes off :: u64 and n :: u32
  assumes "file_ready dev s i"
  shows "\<exists>t. readi (Some i) off n s =
       Ret (int (length (slice (unat off) (unat n) (file_bytes s i))), slice (unat off) (unat n) (file_bytes s i)) t \<and>
     disk t = disk s \<and> quiet_cache dev t"
proof -
  have at: "at_inode dev s i" "dense s i" "owns s (InodeLock i)" "itype (itable s ! i) \<noteq> 0"
    using assms by (simp_all add: file_ready_def)
  obtain t where t: "readi (Some i) off n s =
       Ret (int (length (slice (unat off) (unat n) (file_bytes s i))), slice (unat off) (unat n) (file_bytes s i)) t"
    "io dev {} s t" "disk t = disk s" using readi_spec [OF at] by blast
  have "quiet_cache dev t" using quiet_io [OF _ t(2)] at(1) by (simp add: at_inode_def)
  with t(1,3) show ?thesis by blast
qed

text \<open>
  C31. Writing then reading: what \<open>writei\<close> took of the caller's bytes is what \<open>readi\<close> gives back at the
  same offset.
\<close>

theorem file_write_read_round_trip:
  fixes off :: u64
  assumes "file_ready dev s i" and "unat off \<le> unat (isize (itable s ! i))"
    and "unat off + length src \<le> MAXFILE * BSIZE" and "src \<noteq> []"
  shows "\<exists>k t u. writei (Some i) off src s = Ret (int k) t \<and> (k < length src \<longrightarrow> disk_full t) \<and>
     readi (Some i) off (of_nat k) t = Ret (int k, take k src) u"
proof -
  obtain k t where t: "writei (Some i) off src s = Ret (int k) t" "k \<le> length src" "k < length src \<longrightarrow> disk_full t"
    "file_ready dev t i" "file_bytes t i = put_at (unat off) (take k src) (file_bytes s i)"
    using writei_spec [OF assms] by blast
  have k: "unat (of_nat k :: u32) = k" using t(2) assms(3) by (intro unat32_of_nat) (simp add: NDIRECT_vals)
  have "slice (unat off) k (file_bytes t i) = take k src"
    using assms(2) t(2) by (simp add: t(5) slice_def put_at_def)
  moreover have "\<exists>u. readi (Some i) off (of_nat k) t =
      Ret (int (length (slice (unat off) k (file_bytes t i))), slice (unat off) k (file_bytes t i)) u"
    using readi_spec [of dev t i off "of_nat k"] t(4) k by (auto simp: file_ready_def)
  ultimately show ?thesis using t by (intro exI [of _ k]) auto
qed

text \<open>An example: inode 1, an empty file, open and locked.\<close>

definition demo_inode :: inode where
  "demo_inode = \<lparr>idev = 1, inum = 1, iref = 1, ivalid = True, itype = 2, imajor = 0, iminor = 0,
     inlink = 1, isize = 0, iaddrs = replicate 13 0\<rparr>"

definition demo_file :: fs_st where
  "demo_file = demo_disk\<lparr>itable := (itable demo_disk)[0 := demo_inode],
     slocks := (slocks demo_disk)(InodeLock 0 := my_token demo_disk)\<rparr>"

lemma demo_file_fields:
  "disk demo_file = disk demo_disk" "sb demo_file = sb demo_disk" "itable demo_file ! 0 = demo_inode"
  "length (itable demo_file) = NINODE"
  by (simp_all add: demo_file_def demo_disk_def demos NINODE_def)

lemma demo_file_used: "used_set demo_file = {..<11}"
  using demo_disk_used_set by (simp add: used_set_def demo_file_fields)

lemma demo_IBLOCK: "n < 64 \<Longrightarrow> unat (IBLOCK n (sb demo_disk)) = unat n div 8 + 2"
proof -
  assume n: "n < 64"
  have e: "IBLOCK n (sb demo_disk) = n div 8 + 2" by (simp add: IBLOCK_def IPB_def BSIZE_def DINODE_SIZE_def demo_disk_def demos)
  have "unat n < 64" using n by (simp add: word_less_nat_alt)
  then have "unat (n div 8) < 8" by (simp add: unat_div)
  then have "unat (n div 8 + 2) = unat (n div 8) + 2" by (subst unat_add_small) simp_all
  then show ?thesis unfolding e by (simp add: unat_div)
qed

lemma demo_ninodes: "sb_ninodes (sb demo_disk) = 64"
  by (simp add: demo_disk_def demos)

lemma demo_file_layout: "layout_ok demo_file"
proof -
  have i: "unat (IBLOCK n (sb demo_disk)) < 10" if "n < 64" for n
  proof -
    have "unat n < 64" using that by (simp add: word_less_nat_alt)
    then show ?thesis using demo_IBLOCK [OF that] by simp
  qed
  have "bitmap_ok demo_file"
    using demo_disk_bitmap by (simp add: bitmap_ok_def demo_file_fields demo_file_used demo_disk_used_set)
  moreover have "unat a < 11" if "a \<in> meta demo_file" for a
    using that i by (force simp: meta_def demo_file_fields demo_disk_fields demo_ninodes demo_BBLOCK)
  moreover have "BBLOCK (of_nat n) (sb demo_disk) \<noteq> IBLOCK m (sb demo_disk)" if "n < 1000" "m < 64" for n m
    using i [OF that(2)] demo_BBLOCK [OF that(1)] by auto
  ultimately show ?thesis
    by (simp add: layout_ok_def demo_file_fields demo_disk_fields demo_ninodes demo_file_used)
qed

lemma demo_file_quiet: "quiet_cache 1 demo_file"
  using demo_disk_quiet
  by (simp add: quiet_cache_def calm_def demo_file_def cache_ok_def held_buf_def idle_buf_def my_token_def
      split: option.splits cong: if_cong)

lemma demo_file_map: "faddr demo_file 0 k = 0" "indirect demo_file 0 = 0"
proof -
  have "replicate 13 0 ! j = (0 :: u32)" if "j < 13" for j using that by simp
  then show "faddr demo_file 0 k = 0" "indirect demo_file 0 = 0"
    by (simp_all add: faddr_def indirect_def Let_def demo_file_fields demo_inode_def NDIRECT_vals)
qed

lemma demo_file_ready: "file_ready 1 demo_file 0"
proof -
  have "file_wf demo_file 0"
    by (simp add: file_wf_def demo_file_map demo_file_layout demo_file_fields NINODE_def) (simp add: demo_inode_def NDIRECT_vals)
  moreover have "owns demo_file (InodeLock 0)"
    by (simp add: owns_def demo_file_def my_token_def demo_disk_def demos split: option.splits)
  ultimately show ?thesis
    by (simp add: file_ready_def at_inode_def demo_file_quiet dense_def demo_file_fields demo_ninodes)
      (simp add: demo_inode_def)
qed

lemma writei_refines_witness:
  "\<exists>k t. writei (Some 0) 0 [1, 2, 3] demo_file = Ret (int k) t \<and> k \<le> 3 \<and> (k < 3 \<longrightarrow> disk_full t) \<and>
     file_bytes t 0 = take k [1, 2, 3] \<and> saved t 0 \<and> disk t 1 = replicate BSIZE 0"
proof -
  have "file_bytes demo_file 0 = []" by (simp add: file_bytes_def demo_file_fields demo_inode_def)
  moreover have "(1 :: u32) \<notin> meta demo_file"
  proof -
    have "IBLOCK n (sb demo_disk) \<noteq> 1" if "n < 64" for n
      using demo_IBLOCK [OF that] unat_1 by (metis Suc_1 Suc_n_not_le_n le_add2)
    then show ?thesis
      by (auto simp: meta_def demo_file_fields demo_disk_fields demo_ninodes demo_BBLOCK image_iff)
  qed
  moreover have "(1 :: u32) \<notin> blocks_of demo_file 0" by (auto simp: blocks_of_def demo_file_map)
  ultimately show ?thesis
    using writei_refines [OF demo_file_ready, of 0 "[1, 2, 3]"]
    by (auto simp: NDIRECT_vals put_at_def demo_file_used demo_file_fields demo_disk_fields)
qed

lemma readi_reads_witness:
  "\<exists>t. readi (Some 0) 7 100 demo_file = Ret (0, []) t \<and> disk t = disk demo_file"
proof -
  have "file_bytes demo_file 0 = []" by (simp add: file_bytes_def demo_file_fields demo_inode_def)
  then show ?thesis using readi_reads [OF demo_file_ready, of 7 100] by (auto simp: slice_def)
qed

lemma file_write_read_round_trip_witness:
  "\<exists>k t u. writei (Some 0) 0 [1, 2, 3] demo_file = Ret (int k) t \<and> (k < 3 \<longrightarrow> disk_full t) \<and>
     readi (Some 0) 0 (of_nat k) t = Ret (int k, take k [1, 2, 3]) u"
  using file_write_read_round_trip [OF demo_file_ready, of 0 "[1, 2, 3]"] by (simp add: NDIRECT_vals numeral_3_eq_3)

end
