(* ===== verification/RefCounts.thy ===== *)
theory RefCounts
  imports LockBalance FileData "HOL-Library.Multiset"
begin

section \<open>Reference counts and the shape of the kernel's tables\<close>

text \<open>
  The kernel counts references twice: \<open>fref\<close> of an open file counts the descriptors that point to
  it, \<open>iref\<close> of an in-memory inode counts the current directories and open files that do. A call in
  progress may hold references of its own, which no table shows: the result of \<open>namei\<close> before it is
  stored or given back. \<open>sound A s\<close>: the tables are well formed and every count is the number of
  pointers in the tables plus the references in \<open>A\<close>. The judgment \<open>moves X A m B\<close> follows the
  references the call itself holds, \<open>A\<close> before and \<open>B v\<close> after it returns \<open>v\<close>; whatever other calls
  hold is a frame.
\<close>

subsection \<open>Pointers in the tables\<close>

datatype ref = FileRef nat | NodeRef nat

text \<open>What the counts depend on: for every slot its descriptors, its directory and whether it is dead.\<close>

record shape =
  slots :: "(nat option list \<times> nat option \<times> bool) list"
  fips :: "nat option list"
  who :: "nat option"

definition dead :: "proc \<Rightarrow> bool" where
  "dead q \<longleftrightarrow> pstate q = UNUSED \<or> pstate q = ZOMBIE"

definition slot_of :: "proc \<Rightarrow> nat option list \<times> nat option \<times> bool" where
  "slot_of q = (ofile q, cwd q, dead q)"

definition shape_of :: "'z file_st_scheme \<Rightarrow> shape" where
  "shape_of s = \<lparr>slots = map slot_of (procs s), fips = map fip (ftable s), who = cur s\<rparr>"

definition opt_ref :: "(nat \<Rightarrow> ref) \<Rightarrow> nat option \<Rightarrow> ref multiset" where
  "opt_ref k p = (case p of None \<Rightarrow> {#} | Some i \<Rightarrow> {#k i#})"

fun slot_refs :: "nat option list \<times> nat option \<times> bool \<Rightarrow> ref multiset" where
  "slot_refs (fs, c, d) = sum_list (map (opt_ref FileRef) fs) + opt_ref NodeRef c"

definition refs :: "shape \<Rightarrow> ref multiset" where
  "refs x = sum_list (map slot_refs (slots x)) + sum_list (map (opt_ref NodeRef) (fips x))"

fun refnum :: "'z file_st_scheme \<Rightarrow> ref \<Rightarrow> int" where
  "refnum s (FileRef f) = (if f < NFILE then fref (ftable s ! f) else 0)"
| "refnum s (NodeRef i) = (if i < NINODE then iref (itable s ! i) else 0)"

text \<open>A dead process points to nothing; a file refers to an inode exactly when it is one.\<close>

definition proc_typed :: "proc \<Rightarrow> bool" where
  "proc_typed q \<longleftrightarrow> length (ofile q) = NOFILE \<and> (dead q \<longrightarrow> ofile q = replicate NOFILE None \<and> cwd q = None) \<and>
     (\<forall>i. parent q = Some i \<longrightarrow> i < NPROC)"

definition file_typed :: "open_file \<Rightarrow> bool" where
  "file_typed f \<longleftrightarrow> (ftype f = FD_INODE \<longleftrightarrow> fip f \<noteq> None) \<and> (fref f = 0 \<longrightarrow> fip f = None)"

definition typed :: "'z file_st_scheme \<Rightarrow> bool" where
  "typed s \<longleftrightarrow> length (procs s) = NPROC \<and> list_all proc_typed (procs s) \<and>
     length (ftable s) = NFILE \<and> list_all file_typed (ftable s) \<and>
     length (itable s) = NINODE \<and> list_all (\<lambda>ip. length (iaddrs ip) = NDIRECT + 1) (itable s) \<and>
     length (bufs s) = NBUF \<and> list_all (\<lambda>b. length (bdata b) = BSIZE) (bufs s) \<and> list_all (\<lambda>b. b < NBUF) (lru s) \<and> (\<forall>k. length (disk s k) = BSIZE) \<and>
     length (cbuf s) = INPUT_BUF \<and> (\<forall>a. length (pdata (pipes s a)) = PIPESIZE) \<and>
     (\<forall>p. cur s = Some p \<longrightarrow> p < NPROC) \<and> (\<forall>p. initproc s = Some p \<longrightarrow> p < NPROC)"

definition sound :: "ref multiset \<Rightarrow> 'z file_st_scheme \<Rightarrow> bool" where
  "sound A s \<longleftrightarrow> typed s \<and> (\<forall>r. int (count (refs (shape_of s) + A) r) = refnum s r)"

subsection \<open>The judgments\<close>

definition keeps :: "(ref multiset \<Rightarrow> shape \<Rightarrow> bool) \<Rightarrow> ('z file_st_scheme, 'a) kern \<Rightarrow>
    ('a \<Rightarrow> ref multiset \<Rightarrow> shape \<Rightarrow> bool) \<Rightarrow> bool" where
  "keeps P m Q \<longleftrightarrow> (\<forall>s A H. P A (shape_of s) \<longrightarrow> sound (A + H) s \<longrightarrow>
     (case m s of
        Ret v t \<Rightarrow> \<exists>B. Q v B (shape_of t) \<and> sound (B + H) t
      | Sleeps c t \<Rightarrow> \<exists>B. sound (B + H) t
      | Leaves t \<Rightarrow> \<exists>B. sound (B + H) t
      | Panic e \<Rightarrow> True))"

definition moves :: "(shape \<Rightarrow> bool) \<Rightarrow> ref multiset \<Rightarrow> ('z file_st_scheme, 'a) kern \<Rightarrow> ('a \<Rightarrow> ref multiset) \<Rightarrow> bool" where
  "moves X A m B \<longleftrightarrow> keeps (\<lambda>C x. C = A \<and> X x) m (\<lambda>v C x. C = B v \<and> X x)"

definition quiet :: "('z file_st_scheme, 'a) kern \<Rightarrow> bool" where
  "quiet m \<longleftrightarrow> (\<forall>X. moves X {#} m (\<lambda>_. {#}))"

lemma keepsI:
  "(\<And>s A H. P A (shape_of s) \<Longrightarrow> sound (A + H) s \<Longrightarrow>
     (case m s of
        Ret v t \<Rightarrow> \<exists>B. Q v B (shape_of t) \<and> sound (B + H) t
      | Sleeps c t \<Rightarrow> \<exists>B. sound (B + H) t
      | Leaves t \<Rightarrow> \<exists>B. sound (B + H) t
      | Panic e \<Rightarrow> True)) \<Longrightarrow> keeps P m Q"
  unfolding keeps_def by blast

lemma keeps_bnd:
  fixes m :: "('z file_st_scheme, 'a) kern"
  assumes "keeps P m R" and "\<And>v. keeps (R v) (f v) Q"
  shows "keeps P (bnd m f) Q"
proof (rule keepsI)
  fix s :: "'z file_st_scheme" and A H
  assume "P A (shape_of s)" "sound (A + H) s"
  with assms(1) have m: "case m s of
        Ret v t \<Rightarrow> \<exists>B. R v B (shape_of t) \<and> sound (B + H) t
      | Sleeps c t \<Rightarrow> \<exists>B. sound (B + H) t | Leaves t \<Rightarrow> \<exists>B. sound (B + H) t | Panic e \<Rightarrow> True"
    unfolding keeps_def by blast
  show "case bnd m f s of
        Ret v t \<Rightarrow> \<exists>B. Q v B (shape_of t) \<and> sound (B + H) t
      | Sleeps c t \<Rightarrow> \<exists>B. sound (B + H) t | Leaves t \<Rightarrow> \<exists>B. sound (B + H) t | Panic e \<Rightarrow> True"
  proof (cases "m s")
    case (Ret v t)
    with m obtain B where "R v B (shape_of t)" "sound (B + H) t" by auto
    with assms(2) [of v] Ret show ?thesis unfolding keeps_def by (simp add: bnd_apply)
  qed (use m in \<open>simp_all add: bnd_apply\<close>)
qed

lemma keeps_thn: "keeps P m R \<Longrightarrow> (\<And>v. keeps (R v) n Q) \<Longrightarrow> keeps P (thn m n) Q"
  unfolding thn_def by (rule keeps_bnd)

lemma keeps_weaken:
  "keeps P m Q \<Longrightarrow> (\<And>A x. P' A x \<Longrightarrow> P A x) \<Longrightarrow> (\<And>v A x. Q v A x \<Longrightarrow> Q' v A x) \<Longrightarrow> keeps P' m Q'"
  unfolding keeps_def by (fastforce split: outcome.splits)

lemma keeps_post: "keeps P m Q \<Longrightarrow> (\<And>v A x. Q v A x \<Longrightarrow> Q' v A x) \<Longrightarrow> keeps P m Q'"
  by (rule keeps_weaken)

lemma keeps_pre: "keeps P m Q \<Longrightarrow> (\<And>A x. P' A x \<Longrightarrow> P A x) \<Longrightarrow> keeps P' m Q"
  by (rule keeps_weaken)

lemma keeps_ret: "(\<And>A x. P A x \<Longrightarrow> Q v A x) \<Longrightarrow> keeps P (ret v) Q" and keeps_panic: "keeps P (panic e) Q"
  by (auto simp: keeps_def)

lemma keeps_if: "(b \<Longrightarrow> keeps P m Q) \<Longrightarrow> (\<not> b \<Longrightarrow> keeps P n Q) \<Longrightarrow> keeps P (if b then m else n) Q"
  by simp

lemma keeps_option:
  "(v = None \<Longrightarrow> keeps P m Q) \<Longrightarrow> (\<And>w. v = Some w \<Longrightarrow> keeps P (f w) Q) \<Longrightarrow>
     keeps P (case v of None \<Rightarrow> m | Some w \<Rightarrow> f w) Q"
  by (cases v) simp_all

text \<open>A value read from the state: what is known of the state is known of the value.\<close>

definition seen :: "(ref multiset \<Rightarrow> shape \<Rightarrow> bool) \<Rightarrow> 'z file_st_scheme \<Rightarrow> bool" where
  "seen P s \<longleftrightarrow> (\<exists>A H. P A (shape_of s) \<and> sound (A + H) s)"

lemma keeps_gets:
  fixes f :: "'z file_st_scheme \<Rightarrow> 'a"
  assumes "\<And>s. seen P s \<Longrightarrow> keeps (\<lambda>A x. P A x \<and> x = shape_of s) (k (f s)) Q"
  shows "keeps P (bnd (gets f) k) Q"
proof (rule keepsI)
  fix s :: "'z file_st_scheme" and A H
  assume "P A (shape_of s)" "sound (A + H) s"
  with assms [of s] show "case bnd (gets f) k s of
        Ret v t \<Rightarrow> \<exists>B. Q v B (shape_of t) \<and> sound (B + H) t
      | Sleeps c t \<Rightarrow> \<exists>B. sound (B + H) t | Leaves t \<Rightarrow> \<exists>B. sound (B + H) t | Panic e \<Rightarrow> True"
    unfolding keeps_def seen_def by (simp add: bnd_apply) blast
qed

lemma moves_ret: "moves X A (ret v) (\<lambda>_. A)" and moves_panic: "moves X A (panic e) B"
  by (auto simp: moves_def keeps_def)

lemma moves_post: "moves X A m B \<Longrightarrow> (\<And>v. C v = B v) \<Longrightarrow> moves X A m C"
  by (simp add: moves_def)

lemma moves_pre: "moves X A m B \<Longrightarrow> A' = A \<Longrightarrow> moves X A' m B"
  by simp

lemma moves_ret_eq: "A = B v \<Longrightarrow> moves X A (ret v) B"
  by (auto simp: moves_def keeps_def)

lemma moves_bnd: "moves X A m C \<Longrightarrow> (\<And>v. moves X (C v) (f v) B) \<Longrightarrow> moves X A (bnd m f) B"
  unfolding moves_def by (rule keeps_bnd)

lemma moves_thn: "moves X A m C \<Longrightarrow> (\<And>v. moves X (C v) n B) \<Longrightarrow> moves X A (thn m n) B"
  unfolding thn_def by (rule moves_bnd)

lemma moves_if: "(b \<Longrightarrow> moves X A m B) \<Longrightarrow> (\<not> b \<Longrightarrow> moves X A n B) \<Longrightarrow> moves X A (if b then m else n) B"
  by simp

lemma moves_option:
  "(v = None \<Longrightarrow> moves X A m B) \<Longrightarrow> (\<And>w. v = Some w \<Longrightarrow> moves X A (f w) B) \<Longrightarrow>
     moves X A (case v of None \<Rightarrow> m | Some w \<Rightarrow> f w) B"
  by (cases v) simp_all

lemma moves_sum:
  "(\<And>w. v = Inl w \<Longrightarrow> moves X A (f w) B) \<Longrightarrow> (\<And>w. v = Inr w \<Longrightarrow> moves X A (g w) B) \<Longrightarrow>
     moves X A (case v of Inl w \<Rightarrow> f w | Inr w \<Rightarrow> g w) B"
  by (cases v) simp_all

lemma moves_prod: "(\<And>a b. v = (a, b) \<Longrightarrow> moves X A (f a b) B) \<Longrightarrow> moves X A (case v of (a, b) \<Rightarrow> f a b) B"
  by (cases v) simp_all

lemma moves_filetype:
  "(v = FD_NONE \<Longrightarrow> moves X A a B) \<Longrightarrow> (v = FD_CONSOLE \<Longrightarrow> moves X A b B) \<Longrightarrow> (v = FD_INODE \<Longrightarrow> moves X A c B) \<Longrightarrow>
     (v = FD_PIPE \<Longrightarrow> moves X A d B) \<Longrightarrow>
     moves X A (case v of FD_NONE \<Rightarrow> a | FD_CONSOLE \<Rightarrow> b | FD_INODE \<Rightarrow> c | FD_PIPE \<Rightarrow> d) B"
  by (cases v) simp_all

lemma moves_pre_if: "(b \<Longrightarrow> moves X A m B) \<Longrightarrow> (\<not> b \<Longrightarrow> moves X A' m B) \<Longrightarrow> moves X (if b then A else A') m B"
  by simp

lemma moves_pre_option:
  "(v = None \<Longrightarrow> moves X A m B) \<Longrightarrow> (\<And>w. v = Some w \<Longrightarrow> moves X (A' w) m B) \<Longrightarrow>
     moves X (case v of None \<Rightarrow> A | Some w \<Rightarrow> A' w) m B"
  by (cases v) simp_all

lemma moves_pre_prod: "(\<And>a b. v = (a, b) \<Longrightarrow> moves X (A' a b) m B) \<Longrightarrow> moves X (case v of (a, b) \<Rightarrow> A' a b) m B"
  by (cases v) simp_all

lemma moves_for_each: "(\<And>i. i \<in> set is \<Longrightarrow> moves X A (f i) (\<lambda>_. A)) \<Longrightarrow> moves X A (for_each is f) (\<lambda>_. A)"
  by (induction "is") (auto intro: moves_ret moves_thn)

lemma moves_search: "(\<And>i. i \<in> set is \<Longrightarrow> moves X A (f i) (\<lambda>_. A)) \<Longrightarrow> moves X A (search is f) (\<lambda>_. A)"
proof (induction "is")
  case (Cons i "is")
  then show ?case by (auto intro!: moves_bnd [where C = "\<lambda>_. A"] moves_ret split: option.split)
qed (simp add: moves_ret)

lemma moves_whenk: "(b \<Longrightarrow> moves X A m (\<lambda>_. A)) \<Longrightarrow> (\<And>v. C v = A) \<Longrightarrow> moves X A (whenk b m) C"
  by (auto simp: whenk_def moves_ret_eq intro: moves_post)

lemma moves_frame:
  fixes m :: "('z file_st_scheme, 'a) kern"
  assumes "moves X A m B"
  shows "moves X (A + F) m (\<lambda>v. B v + F)"
  unfolding moves_def
proof (rule keepsI)
  fix s :: "'z file_st_scheme" and C H
  assume "C = A + F \<and> X (shape_of s)" "sound (C + H) s"
  then have "A = A \<and> X (shape_of s)" "sound (A + (F + H)) s" by (simp_all add: add.assoc)
  with assms have "case m s of
        Ret v t \<Rightarrow> \<exists>C. (C = B v \<and> X (shape_of t)) \<and> sound (C + (F + H)) t
      | Sleeps c t \<Rightarrow> \<exists>C. sound (C + (F + H)) t | Leaves t \<Rightarrow> \<exists>C. sound (C + (F + H)) t | Panic e \<Rightarrow> True"
    unfolding moves_def keeps_def by blast
  then show "case m s of
        Ret v t \<Rightarrow> \<exists>C. (C = B v + F \<and> X (shape_of t)) \<and> sound (C + H) t
      | Sleeps c t \<Rightarrow> \<exists>C. sound (C + H) t | Leaves t \<Rightarrow> \<exists>C. sound (C + H) t | Panic e \<Rightarrow> True"
    by (auto simp flip: add.assoc split: outcome.splits)
qed

lemma moves_call: "quiet m \<Longrightarrow> (\<And>v. B v = A) \<Longrightarrow> moves X A m B"
  using moves_frame [of X "{#}" m "\<lambda>_. {#}" A] by (simp add: quiet_def moves_post)

lemma moves_take: "moves X {#} m B \<Longrightarrow> (\<And>v. C v = B v + A) \<Longrightarrow> moves X A m C"
  using moves_frame [of X "{#}" m B A] by (simp add: moves_post)

lemma moves_give:
  assumes "moves X {#r#} m (\<lambda>_. {#})" and "r \<in># A" and "\<And>v. C v = A - {#r#}"
  shows "moves X A m C"
  using moves_frame [OF assms(1), of "A - {#r#}"] assms(2,3) by (simp add: moves_post)

lemma quietI: "(\<And>X. moves X {#} m (\<lambda>_. {#})) \<Longrightarrow> quiet m"
  by (simp add: quiet_def)

text \<open>The references a call holds are to slots of the tables.\<close>

definition valid_ref :: "ref \<Rightarrow> bool" where
  "valid_ref r \<longleftrightarrow> (case r of FileRef f \<Rightarrow> f < NFILE | NodeRef i \<Rightarrow> i < NINODE)"

lemma valid_ref_simps [simp]: "valid_ref (FileRef f) \<longleftrightarrow> f < NFILE" "valid_ref (NodeRef i) \<longleftrightarrow> i < NINODE"
  by (simp_all add: valid_ref_def)

lemma refnum_valid: "refnum s r \<noteq> 0 \<Longrightarrow> valid_ref r"
  by (cases r) (auto split: if_splits)

lemma sound_valid: "sound A s \<Longrightarrow> r \<in># refs (shape_of s) + A \<Longrightarrow> valid_ref r"
  unfolding sound_def using refnum_valid [of s r] by (metis count_eq_zero_iff of_nat_eq_0_iff)

lemma moves_valid:
  fixes m :: "('z file_st_scheme, 'a) kern"
  assumes "(\<And>r. r \<in># A \<Longrightarrow> valid_ref r) \<Longrightarrow> moves X A m B"
  shows "moves X A m B"
proof (cases "\<forall>r \<in># A. valid_ref r")
  case False
  then have "\<not> sound (A + H) s" for H and s :: "'z file_st_scheme" using sound_valid [of "A + H" s] by auto
  then show ?thesis by (simp add: moves_def keeps_def)
qed (use assms in blast)

lemma moves_node: "NodeRef i \<in># A \<Longrightarrow> (i < NINODE \<Longrightarrow> moves X A m B) \<Longrightarrow> moves X A m B"
  using moves_valid [of A X m B] by force

text \<open>Values read from a typed state.\<close>

lemma moves_gets:
  fixes f :: "'z file_st_scheme \<Rightarrow> 'a"
  assumes "\<And>s. typed s \<Longrightarrow> X (shape_of s) \<Longrightarrow> moves X A (k (f s)) B"
  shows "moves X A (bnd (gets f) k) B"
  unfolding moves_def
proof (rule keeps_gets)
  fix s :: "'z file_st_scheme"
  assume "seen (\<lambda>C x. C = A \<and> X x) s"
  then have "typed s" "X (shape_of s)" by (auto simp: seen_def sound_def)
  from assms [OF this] show "keeps (\<lambda>C x. (C = A \<and> X x) \<and> x = shape_of s) (k (f s)) (\<lambda>v C x. C = B v \<and> X x)"
    unfolding moves_def by (rule keeps_pre) simp
qed

lemma quiet_gets: "quiet (gets f)"
  by (rule quietI) (auto simp: moves_def keeps_def)

lemma quiet_modify:
  assumes "\<And>s. typed s \<Longrightarrow> typed (f s) \<and> shape_of (f s) = shape_of s \<and> (\<forall>r. refnum (f s) r = refnum s r)"
  shows "quiet (modify f)"
  by (rule quietI) (use assms in \<open>auto simp: moves_def keeps_def sound_def\<close>)

subsection \<open>Updates of the tables\<close>

lemma sum_list_update:
  "i < length xs \<Longrightarrow> sum_list (map g (xs[i := y])) + g (xs ! i) = (sum_list (map g xs) + g y :: 'b multiset)"
proof (induction xs arbitrary: i)
  case (Cons z zs)
  then show ?case by (cases i) (auto simp: ac_simps)
qed simp

lemma multiset_balance:
  assumes "t + a = x + b" and "B + b = A + a"
  shows "t + B = x + (A :: 'b multiset)"
proof (rule multiset_eqI)
  fix r
  show "count (t + B) r = count (x + A) r"
    using arg_cong [OF assms(1), of "\<lambda>m. count m r"] arg_cong [OF assms(2), of "\<lambda>m. count m r"] by simp
qed

lemma refs_slot:
  "i < length (slots x) \<Longrightarrow> refs (x\<lparr>slots := (slots x)[i := y]\<rparr>) + slot_refs (slots x ! i) = refs x + slot_refs y"
  using sum_list_update [of i "slots x" slot_refs y] by (simp add: refs_def ac_simps)

lemma refs_fip:
  "i < length (fips x) \<Longrightarrow> refs (x\<lparr>fips := (fips x)[i := y]\<rparr>) + opt_ref NodeRef (fips x ! i) = refs x + opt_ref NodeRef y"
  using sum_list_update [of i "fips x" "opt_ref NodeRef" y] by (simp add: refs_def ac_simps)

lemma refs_file:
  "i < length fs \<Longrightarrow> slot_refs (fs[i := y], c, d) + opt_ref FileRef (fs ! i) = slot_refs (fs, c, e) + opt_ref FileRef y"
  using sum_list_update [of i fs "opt_ref FileRef" y] by (simp add: ac_simps)

lemma list_all_update: "list_all P xs \<Longrightarrow> (i < length xs \<Longrightarrow> P y) \<Longrightarrow> list_all P (xs[i := y])"
  by (cases "i < length xs") (auto simp: list_all_length nth_list_update)

lemma list_all_nthD: "list_all P xs \<Longrightarrow> i < length xs \<Longrightarrow> P (xs ! i)"
  by (simp add: list_all_length)

lemma shape_lengths [simp]: "typed s \<Longrightarrow> length (slots (shape_of s)) = NPROC" "typed s \<Longrightarrow> length (fips (shape_of s)) = NFILE"
  by (simp_all add: shape_of_def typed_def)

lemma shape_nth [simp]:
  "typed s \<Longrightarrow> i < NPROC \<Longrightarrow> slots (shape_of s) ! i = slot_of (procs s ! i)"
  "typed s \<Longrightarrow> f < NFILE \<Longrightarrow> fips (shape_of s) ! f = fip (ftable s ! f)"
  "who (shape_of s) = cur s"
  by (simp_all add: shape_of_def typed_def)

lemma typed_proc: "typed s \<Longrightarrow> i < NPROC \<Longrightarrow> proc_typed (procs s ! i)"
  and typed_file: "typed s \<Longrightarrow> f < NFILE \<Longrightarrow> file_typed (ftable s ! f)"
  by (simp_all add: typed_def list_all_length)

text \<open>What each kind of update does to the shape and to the counts.\<close>

lemma shape_upd_proc:
  "typed s \<Longrightarrow> shape_of (s\<lparr>procs := (procs s)[i := q]\<rparr>) = (shape_of s)\<lparr>slots := (slots (shape_of s))[i := slot_of q]\<rparr>"
  "shape_of (s\<lparr>ftable := (ftable s)[f := e]\<rparr>) = (shape_of s)\<lparr>fips := (fips (shape_of s))[f := fip e]\<rparr>"
  by (simp_all add: shape_of_def map_update)

lemma refnum_procs [simp]: "refnum (s\<lparr>procs := ps\<rparr>) r = refnum s r"
  by (cases r) simp_all

lemma sound_upd_proc:
  assumes "sound A s" and "i < NPROC" and "proc_typed q"
    and "B + slot_refs (slot_of q) = A + slot_refs (slot_of (procs s ! i))"
  shows "sound B (s\<lparr>procs := (procs s)[i := q]\<rparr>)"
proof -
  let ?x = "shape_of s" and ?t = "s\<lparr>procs := (procs s)[i := q]\<rparr>"
  from assms(1) have ty: "typed s" and n: "\<And>r. int (count (refs ?x + A) r) = refnum s r" by (auto simp: sound_def)
  from refs_slot [of i ?x "slot_of q"] ty assms(2) have
    "refs (shape_of ?t) + slot_refs (slot_of (procs s ! i)) = refs ?x + slot_refs (slot_of q)"
    by (simp add: shape_upd_proc)
  from multiset_balance [OF this assms(4)] have "refs (shape_of ?t) + B = refs ?x + A" .
  moreover have "typed ?t" using ty assms(2,3) by (auto simp: typed_def intro: list_all_update)
  ultimately show ?thesis using n by (simp add: sound_def)
qed

lemma keeps_upd_proc:
  fixes P :: "ref multiset \<Rightarrow> shape \<Rightarrow> bool"
  assumes "i < NPROC"
    and "\<And>A x q. P A x \<Longrightarrow> length (slots x) = NPROC \<Longrightarrow> slots x ! i = slot_of q \<Longrightarrow> proc_typed q \<Longrightarrow>
      proc_typed (f q) \<and> (\<exists>B. B + slot_refs (slot_of (f q)) = A + slot_refs (slot_of q) \<and>
        Q () B (x\<lparr>slots := (slots x)[i := slot_of (f q)]\<rparr>))"
  shows "keeps P (upd_proc i f) Q"
proof (rule keepsI)
  fix s :: "'z file_st_scheme" and A H
  let ?q = "procs s ! i"
  assume P: "P A (shape_of s)" and s: "sound (A + H) s"
  then have ty: "typed s" by (simp add: sound_def)
  from assms(2) [OF P, of ?q] ty assms(1) typed_proc obtain B where B: "proc_typed (f ?q)"
    "B + slot_refs (slot_of (f ?q)) = A + slot_refs (slot_of ?q)"
    "Q () B ((shape_of s)\<lparr>slots := (slots (shape_of s))[i := slot_of (f ?q)]\<rparr>)" by force
  have "sound (B + H) (s\<lparr>procs := (procs s)[i := f ?q]\<rparr>)"
    using B(2) by (intro sound_upd_proc [OF s assms(1) B(1)]) (simp add: ac_simps)
  with B(3) ty show "case upd_proc i f s of
        Ret v t \<Rightarrow> \<exists>B. Q v B (shape_of t) \<and> sound (B + H) t
      | Sleeps c t \<Rightarrow> \<exists>B. sound (B + H) t | Leaves t \<Rightarrow> \<exists>B. sound (B + H) t | Panic e \<Rightarrow> True"
    by (auto simp: shape_upd_proc)
qed

lemma quiet_upd_proc:
  assumes "\<And>q. proc_typed q \<Longrightarrow> proc_typed (f q) \<and> slot_of (f q) = slot_of q"
  shows "quiet (upd_proc i f)"
  unfolding upd_proc_def
proof (rule quiet_modify, intro conjI allI)
  fix s :: "'z file_st_scheme" and r
  assume ty: "typed s"
  let ?t = "s\<lparr>procs := (procs s)[i := f (procs s ! i)]\<rparr>"
  show "refnum ?t r = refnum s r" by simp
  show "typed ?t" using ty assms typed_proc [OF ty] by (auto simp: typed_def intro: list_all_update)
  show "shape_of ?t = shape_of s"
  proof (cases "i < NPROC")
    case True
    then have "slots (shape_of s) ! i = slot_of (f (procs s ! i))" using ty assms typed_proc [OF ty] by simp
    then show ?thesis using ty by (simp add: shape_upd_proc) (metis list_update_id shape.surjective shape.update_convs(1))
  next
    case False
    with ty show ?thesis by (simp add: shape_of_def typed_def list_update_beyond)
  qed
qed

lemma sound_upd_file:
  assumes "sound A s" and "f < NFILE" and "file_typed e"
    and "\<And>r. int (count B r) + int (count (opt_ref NodeRef (fip e)) r) =
      int (count A r) + int (count (opt_ref NodeRef (fip (ftable s ! f))) r) +
      (if r = FileRef f then fref e - fref (ftable s ! f) else 0)"
  shows "sound B (s\<lparr>ftable := (ftable s)[f := e]\<rparr>)"
proof -
  let ?x = "shape_of s" and ?t = "s\<lparr>ftable := (ftable s)[f := e]\<rparr>"
  from assms(1) have ty: "typed s" and n: "\<And>r. int (count (refs ?x + A) r) = refnum s r" by (auto simp: sound_def)
  from refs_fip [of f ?x "fip e"] ty assms(2) have
    x: "refs (shape_of ?t) + opt_ref NodeRef (fip (ftable s ! f)) = refs ?x + opt_ref NodeRef (fip e)"
    by (simp add: shape_upd_proc)
  have "int (count (refs (shape_of ?t) + B) r) = refnum ?t r" for r
  proof -
    have "refnum ?t r = refnum s r + (if r = FileRef f then fref e - fref (ftable s ! f) else 0)"
      using ty assms(2) by (cases r) (simp_all add: typed_def nth_list_update)
    then show ?thesis using assms(4) [of r] n [of r] arg_cong [OF x, of "\<lambda>m. count m r"] by simp
  qed
  moreover have "typed ?t" using ty assms(2,3) by (auto simp: typed_def intro: list_all_update)
  ultimately show ?thesis by (simp add: sound_def)
qed

lemma sound_upd_inode:
  assumes "sound A s" and "i < NINODE" and "length (iaddrs ip) = NDIRECT + 1"
    and "\<And>r. int (count B r) = int (count A r) + (if r = NodeRef i then iref ip - iref (itable s ! i) else 0)"
  shows "sound B (s\<lparr>itable := (itable s)[i := ip]\<rparr>)"
proof -
  let ?t = "s\<lparr>itable := (itable s)[i := ip]\<rparr>"
  from assms(1) have ty: "typed s" and n: "\<And>r. int (count (refs (shape_of s) + A) r) = refnum s r" by (auto simp: sound_def)
  have "int (count (refs (shape_of ?t) + B) r) = refnum ?t r" for r
  proof -
    have "refnum ?t r = refnum s r + (if r = NodeRef i then iref ip - iref (itable s ! i) else 0)"
      using ty assms(2) by (cases r) (simp_all add: typed_def nth_list_update)
    moreover have "shape_of ?t = shape_of s" by (simp add: shape_of_def)
    ultimately show ?thesis using assms(4) [of r] n [of r] by simp
  qed
  moreover have "typed ?t" using ty assms(2,3) by (auto simp: typed_def intro: list_all_update)
  ultimately show ?thesis by (simp add: sound_def)
qed

lemma typed_inode: "typed s \<Longrightarrow> i < NINODE \<Longrightarrow> length (iaddrs (itable s ! i)) = NDIRECT + 1"
  by (simp add: typed_def list_all_length)

lemma moves_upd_inode:
  assumes "i < NINODE" and "\<And>ip. length (iaddrs ip) = NDIRECT + 1 \<Longrightarrow> length (iaddrs (g ip)) = NDIRECT + 1"
    and "\<And>ip r. int (count (B ()) r) = int (count A r) + (if r = NodeRef i then iref (g ip) - iref ip else 0)"
  shows "moves X A (upd_inode i g) B"
  unfolding moves_def
proof (rule keepsI)
  fix s :: "'z file_st_scheme" and C H
  let ?t = "s\<lparr>itable := (itable s)[i := g (itable s ! i)]\<rparr>"
  assume a: "C = A \<and> X (shape_of s)" "sound (C + H) s"
  then have "typed s" by (simp add: sound_def)
  then have "length (iaddrs (g (itable s ! i))) = NDIRECT + 1" using typed_inode assms(1,2) by blast
  then have "sound (B () + H) ?t"
    using a assms(1) assms(3) [of _ "itable s ! i"] by (intro sound_upd_inode [where A = "A + H"]) simp_all
  moreover have "shape_of ?t = shape_of s" by (simp add: shape_of_def)
  ultimately show "case upd_inode i g s of
        Ret v t \<Rightarrow> \<exists>C. (C = B v \<and> X (shape_of t)) \<and> sound (C + H) t
      | Sleeps c t \<Rightarrow> \<exists>C. sound (C + H) t | Leaves t \<Rightarrow> \<exists>C. sound (C + H) t | Panic e \<Rightarrow> True"
    using a by (auto simp: upd_inode_def)
qed

lemma quiet_upd_inode:
  assumes "\<And>ip. iref (g ip) = iref ip" and "\<And>ip. length (iaddrs ip) = NDIRECT + 1 \<Longrightarrow> length (iaddrs (g ip)) = NDIRECT + 1"
  shows "quiet (upd_inode i g)"
proof (cases "i < NINODE")
  case True
  show ?thesis by (rule quietI, rule moves_upd_inode) (use True assms in simp_all)
next
  case False
  then show ?thesis unfolding upd_inode_def by (intro quiet_modify) (simp add: typed_def list_update_beyond)
qed

lemma moves_inc_inode: "i < NINODE \<Longrightarrow> (\<And>v. B v = add_mset (NodeRef i) A) \<Longrightarrow> moves X A (upd_inode i (\<lambda>ip. ip\<lparr>iref := iref ip + 1\<rparr>)) B"
  by (rule moves_upd_inode) auto

lemma moves_dec_inode:
  "NodeRef i \<in># A \<Longrightarrow> (\<And>v. B v = A - {#NodeRef i#}) \<Longrightarrow> moves X A (upd_inode i (\<lambda>ip. ip\<lparr>iref := iref ip - 1\<rparr>)) B"
proof (rule moves_node, assumption, rule moves_upd_inode)
  fix ip :: inode and r
  assume A: "NodeRef i \<in># A" and B: "\<And>v. B v = A - {#NodeRef i#}"
  from A have "0 < count A (NodeRef i)" by simp
  then show "int (count (B ()) r) = int (count A r) + (if r = NodeRef i then iref (ip\<lparr>iref := iref ip - 1\<rparr>) - iref ip else 0)"
    unfolding B by simp
qed simp_all

text \<open>An open file whose count and inode stay.\<close>

lemma refnum_ftable: "typed s \<Longrightarrow> fref e = fref (ftable s ! f) \<Longrightarrow> refnum (s\<lparr>ftable := (ftable s)[f := e]\<rparr>) r = refnum s r"
  by (cases r; cases "f < length (ftable s)") (auto simp: nth_list_update list_update_beyond not_less)

lemma quiet_upd_file:
  assumes "\<And>e. fref (g e) = fref e \<and> fip (g e) = fip e \<and> ftype (g e) = ftype e"
  shows "quiet (upd_file f g)"
  unfolding upd_file_def
proof (rule quiet_modify, intro conjI allI)
  fix s :: "'z file_st_scheme" and r
  assume ty: "typed s"
  let ?t = "s\<lparr>ftable := (ftable s)[f := g (ftable s ! f)]\<rparr>"
  show "refnum ?t r = refnum s r" using ty assms by (simp add: refnum_ftable)
  have "file_typed (g (ftable s ! f))" if "f < NFILE"
    using typed_file [OF ty that] assms by (simp add: file_typed_def)
  then show "typed ?t" using ty by (auto simp: typed_def intro: list_all_update)
  show "shape_of ?t = shape_of s"
    using assms by (simp add: shape_of_def map_update) (metis list_update_beyond list_update_id map_update not_le)
qed

text \<open>The console buffer, the pipes, the buffers of the cache and the memory.\<close>

lemma refnum_same: "ftable t = ftable s \<Longrightarrow> itable t = itable s \<Longrightarrow> refnum t r = refnum s r"
  by (cases r) simp_all

lemma quiet_same:
  fixes f :: "'z file_st_scheme \<Rightarrow> 'z file_st_scheme"
  assumes "\<And>s. procs (f s) = procs s \<and> ftable (f s) = ftable s \<and> itable (f s) = itable s \<and> bufs (f s) = bufs s \<and> lru (f s) = lru s \<and>
     disk (f s) = disk s \<and> cbuf (f s) = cbuf s \<and> pipes (f s) = pipes s \<and> cur (f s) = cur s \<and> initproc (f s) = initproc s"
  shows "quiet (modify f)"
proof (rule quiet_modify, intro conjI allI)
  fix s :: "'z file_st_scheme" and r
  show "typed (f s)" if "typed s" using that assms by (simp add: typed_def)
  show "shape_of (f s) = shape_of s" using assms by (simp add: shape_of_def)
  show "refnum (f s) r = refnum s r" using assms by (intro refnum_same) simp_all
qed

named_theorems quiets "calls that leave the pointers and the counts as they are"

lemma held_irrelevant [simp]: "shape_of (s\<lparr>held := L\<rparr>) = shape_of s" "sound A (s\<lparr>held := L\<rparr>) \<longleftrightarrow> sound A s"
proof -
  have "refnum (s\<lparr>held := L\<rparr>) r = refnum s r" for r by (rule refnum_same) simp_all
  then show "shape_of (s\<lparr>held := L\<rparr>) = shape_of s" "sound A (s\<lparr>held := L\<rparr>) \<longleftrightarrow> sound A s"
    by (simp_all add: sound_def typed_def shape_of_def)
qed

lemma quiet_locks [quiets]: "quiet (acquire l)" "quiet (release l)"
  by (auto simp: quiet_def moves_def keeps_def acquire_def release_def)

lemma quiet_access [quiets]:
  "quiet (get_proc i g1)" "quiet myproc" "quiet (get_buf b g2)" "quiet (get_inode j g3)" "quiet (get_file f g4)"
  "quiet (get_pipe pi g5)" "quiet (get_tf p off)" "quiet (gets g6)"
  unfolding get_proc_def myproc_def get_buf_def get_inode_def get_file_def get_pipe_def get_tf_def by (rule quiet_gets)+

lemma quiet_fields [quiets]:
  "quiet (upd_mem h)" "quiet (set_tf p off v)" "quiet (set_slock l k)" "quiet (uart_putc c)"
  unfolding upd_mem_def set_tf_def set_slock_def uart_putc_def by (rule quiet_same; simp)+

lemma quiet_upd_buf:
  assumes "\<And>b. length (bdata b) = BSIZE \<Longrightarrow> length (bdata (g b)) = BSIZE"
  shows "quiet (upd_buf b g)"
  unfolding upd_buf_def
proof (rule quiet_modify, intro conjI allI)
  fix s :: "'z file_st_scheme" and r
  let ?t = "s\<lparr>bufs := (bufs s)[b := g (bufs s ! b)]\<rparr>"
  show "shape_of ?t = shape_of s" by (simp add: shape_of_def)
  show "refnum ?t r = refnum s r" by (rule refnum_same) simp_all
  show "typed ?t" if "typed s"
    using that by (auto simp: typed_def intro!: list_all_update assms dest: list_all_nthD)
qed

lemma quiet_upd_data: "(\<And>bs. length bs = BSIZE \<Longrightarrow> length (f bs) = BSIZE) \<Longrightarrow> quiet (upd_data b f)"
  unfolding upd_data_def by (rule quiet_upd_buf) simp

lemma quiet_upd_pipe: "(\<And>q. length (pdata (g q)) = length (pdata q)) \<Longrightarrow> quiet (upd_pipe pi g)"
  unfolding upd_pipe_def
proof (rule quiet_modify, intro conjI allI)
  fix s :: "'z file_st_scheme" and r
  assume g: "\<And>q. length (pdata (g q)) = length (pdata q)"
  let ?t = "s\<lparr>pipes := (pipes s)(pi := g (pipes s pi))\<rparr>"
  show "shape_of ?t = shape_of s" by (simp add: shape_of_def)
  show "refnum ?t r = refnum s r" by (rule refnum_same) simp_all
  show "typed ?t" if "typed s" using that g by (simp add: typed_def)
qed

lemmas moves_rules = refl moves_pre_if moves_pre_option moves_pre_prod moves_panic moves_ret moves_ret_eq moves_if moves_option
  moves_sum moves_prod moves_filetype moves_for_each moves_search moves_bnd moves_thn moves_whenk

subsection \<open>Giving up the processor\<close>

text \<open>The slot of the process changes its state; the pointers in it stay.\<close>

lemma moves_upd_slot:
  fixes f :: "proc \<Rightarrow> proc"
  assumes "\<And>q. proc_typed q \<Longrightarrow> proc_typed (f q) \<and> ofile (f q) = ofile q \<and> cwd (f q) = cwd q"
  shows "moves (\<lambda>_. True) A (upd_proc i f) (\<lambda>_. A)"
proof (cases "i < NPROC")
  case True
  then show ?thesis unfolding moves_def
    by (rule keeps_upd_proc) (use assms in \<open>simp add: slot_of_def\<close>)
next
  case False
  show ?thesis
    unfolding upd_proc_def
    by (rule moves_call, rule quiet_modify) (use False in \<open>simp_all add: typed_def list_update_beyond shape_of_def\<close>)
qed

lemma moves_sched: "moves X A sched (\<lambda>_. A)"
  unfolding moves_def
proof (rule keepsI)
  fix s :: "'z file_st_scheme" and C H
  assume "C = A \<and> X (shape_of s)" "sound (C + H) s"
  with sched_cases [of s] show "case sched s of
        Ret v t \<Rightarrow> \<exists>C. (C = A \<and> X (shape_of t)) \<and> sound (C + H) t
      | Sleeps c t \<Rightarrow> \<exists>C. sound (C + H) t | Leaves t \<Rightarrow> \<exists>C. sound (C + H) t | Panic e \<Rightarrow> True"
    by (elim disjE exE conjE) simp_all
qed

lemma sound_set_cur: "sound A s \<Longrightarrow> sound A (s\<lparr>cur := None\<rparr>)"
proof -
  have "refnum (s\<lparr>cur := None\<rparr>) r = refnum s r" for r by (rule refnum_same) simp_all
  then show "sound A s \<Longrightarrow> sound A (s\<lparr>cur := None\<rparr>)" by (simp add: sound_def typed_def shape_of_def refs_def)
qed

lemma moves_set_cur: "moves (\<lambda>_. True) A (modify (\<lambda>s. s\<lparr>cur := None\<rparr>)) (\<lambda>_. A)"
  by (simp add: moves_def keeps_def sound_set_cur)

lemma moves_scheduler_return: "moves (\<lambda>_. True) A (thn sched (scheduler_return p)) (\<lambda>_. A)"
  unfolding scheduler_return_def by (rule moves_rules moves_sched moves_set_cur moves_call quiets)+

lemma moves_leaves: "moves (\<lambda>_. True) A m (\<lambda>_. A) \<Longrightarrow> moves X A (leaves m) B"
  unfolding moves_def keeps_def leaves_def by (fastforce split: outcome.splits)

lemma moves_sleep: "moves X A (sleep c l) B"
proof -
  have "moves (\<lambda>_. True) A (sleep_enter c l) (\<lambda>_. A)"
    unfolding sleep_enter_def
    by (rule moves_scheduler_return moves_rules moves_upd_slot moves_call quiets
        | simp add: proc_typed_def dead_def)+
  then show ?thesis unfolding moves_def keeps_def sleep_def by (fastforce split: outcome.splits)
qed

subsection \<open>Process table and memory\<close>

text \<open>An update that depends on a test of the slot it updates.\<close>

lemma guarded_upd_proc:
  "bnd (get_proc i g) (\<lambda>b. thn (whenk b (upd_proc i f)) k) = thn (upd_proc i (\<lambda>q. if g q then f q else q)) k"
  by (rule ext) (simp add: run_simps whenk_def)

lemma quiet_wakeup_on [quiets]: "quiet (wakeup_on c)"
  unfolding wakeup_on_def guarded_upd_proc
  by (rule moves_rules moves_call quiets quiet_upd_proc quietI | simp add: slot_of_def proc_typed_def dead_def)+

lemma quiet_wakeup [quiets]: "quiet (wakeup ch)"
  unfolding wakeup_def by (rule quiets)

lemma quiet_yield [quiets]: "quiet yield"
  unfolding yield_def
  by (rule moves_scheduler_return moves_leaves moves_rules moves_upd_slot moves_call quiets quietI
      | simp add: proc_typed_def dead_def)+

lemma quiet_kill [quiets]: "quiet (kill n)"
  unfolding kill_def
  by (rule moves_rules moves_call quiets quiet_upd_proc quietI | simp add: slot_of_def proc_typed_def dead_def)+

lemma quiet_allocpid [quiets]: "quiet allocpid"
  unfolding allocpid_def by (rule moves_rules moves_call quiets quiet_same quietI | simp)+

lemma quiet_alloc [quiets]: "quiet kalloc" "quiet (kfree pa)"
  unfolding kalloc_def kfree_def by (rule moves_rules moves_call quiets quiet_same quietI | simp)+

lemma quiet_walk_levels [quiets]: "quiet (walk_levels n pt va alloc)"
proof (induction n arbitrary: pt)
  case (Suc n)
  show ?case
    unfolding walk_levels.simps Let_def by (rule moves_rules moves_call quiets Suc quietI | simp)+
qed (simp add: quietI moves_ret)

lemma quiet_lookup [quiets]: "quiet (walk pt va alloc)" "quiet (walkaddr pt va)"
  unfolding walk_def walkaddr_def by (rule moves_rules moves_call quiets quietI | simp)+

lemma quiet_mappages_loop [quiets]: "quiet (mappages_loop n pt a final pa perm)"
proof (induction n arbitrary: a pa)
  case (Suc n)
  show ?case
    unfolding mappages_loop.simps Let_def by (rule moves_rules moves_call quiets Suc quietI | simp)+
qed (simp add: quietI moves_panic)

lemma quiet_map [quiets]: "quiet (mappages pt va len pa perm)" "quiet (uvmunmap pt va np f)"
  unfolding mappages_def uvmunmap_def by (rule moves_rules moves_call quiets quietI | simp)+

lemma quiet_dealloc [quiets]: "quiet (uvmdealloc pt old new)" "quiet uvmcreate" "quiet (uvmclear pt va)"
  unfolding uvmdealloc_def uvmcreate_def uvmclear_def by (rule moves_rules moves_call quiets quietI | simp)+

lemma quiet_freewalk [quiets]: "quiet (freewalk d pt)"
proof (induction d arbitrary: pt)
  case (Suc d)
  show ?case
    unfolding freewalk.simps Let_def by (rule moves_rules moves_call quiets Suc quietI | simp)+
qed (simp add: quietI moves_panic)

lemma quiet_uvm [quiets]: "quiet (uvmalloc pt old new perm)" "quiet (uvmfree pt len)" "quiet (uvmcopy pt pt' len)"
  unfolding uvmalloc_def uvmfree_def uvmcopy_def by (rule moves_rules moves_call quiets quietI | simp)+

lemma quiet_copyout [quiets]: "quiet (copyout pt va bs)"
proof (induction pt va bs rule: copyout.induct)
  case (1 pt dstva src)
  show ?case
    unfolding copyout.simps [of pt dstva src] Let_def by (rule moves_rules moves_call quiets 1 quietI | simp)+
qed

lemma quiet_copyin [quiets]: "quiet (copyin pt va len)"
proof (induction pt va len rule: copyin.induct)
  case (1 pt srcva len)
  show ?case
    unfolding copyin.simps [of pt srcva len] Let_def by (rule moves_rules moves_call quiets 1 quietI | simp)+
qed

lemma quiet_copyinstr [quiets]: "quiet (copyinstr pt va limit)"
proof (induction pt va limit rule: copyinstr.induct)
  case (1 pt srcva limit)
  show ?case
    unfolding copyinstr.simps [of pt srcva limit] Let_def by (rule moves_rules moves_call quiets 1 quietI | simp)+
qed

subsection \<open>Sleep locks and buffers\<close>

lemma quiet_sleeplock [quiets]:
  "quiet (sl_holding_locked l)" "quiet (holdingsleep l)" "quiet (acquiresleep l)" "quiet (releasesleep l)"
  unfolding holdingsleep_def sl_holding_locked_def acquiresleep_def acquiresleep_loop_def releasesleep_def
  by (rule moves_rules moves_sleep moves_call quiets quietI | simp)+

lemma bnd_assoc:
  "bnd (bnd m1 f1) k1 = bnd m1 (\<lambda>v. bnd (f1 v) k1)" "bnd (thn n2 m2) k2 = thn n2 (bnd m2 k2)" "bnd (ret v3) k3 = k3 v3"
  "bnd (panic e4) k4 = panic e4"
  "bnd (case p5 of None \<Rightarrow> m5 | Some w \<Rightarrow> f5 w) k5 = (case p5 of None \<Rightarrow> bnd m5 k5 | Some w \<Rightarrow> bnd (f5 w) k5)"
  "bnd (if b6 then m6 else m7) k6 = (if b6 then bnd m6 k6 else bnd m7 k6)"
  by (rule ext, simp add: run_simps split: outcome.split option.split)+

text \<open>A buffer that is handed out is one of the cache.\<close>

lemma lru_buffer: "typed s \<Longrightarrow> find P (lru s) = Some b \<Longrightarrow> b < NBUF" "typed s \<Longrightarrow> find P (rev (lru s)) = Some b \<Longrightarrow> b < NBUF"
  by (auto simp: typed_def list_all_iff find_Some_iff) (metis nth_mem set_rev length_rev)

lemma moves_bget:
  assumes "\<And>b. b < NBUF \<Longrightarrow> moves X A (k b) B"
  shows "moves X A (bnd (bget dev bno) k) B"
  unfolding bget_def bnd_assoc
  by (rule moves_gets assms moves_rules moves_call quiets quiet_upd_buf quietI | (rule lru_buffer, assumption, assumption) | (simp; fail))+

lemma quiet_disk_write: "b < NBUF \<Longrightarrow> quiet (modify (\<lambda>s. s\<lparr>disk := (disk s)(blockno (bufs s ! b) := bdata (bufs s ! b))\<rparr>))"
proof (rule quiet_modify, intro conjI allI)
  fix s :: "'z file_st_scheme" and r
  let ?t = "s\<lparr>disk := (disk s)(blockno (bufs s ! b) := bdata (bufs s ! b))\<rparr>"
  show "shape_of ?t = shape_of s" by (simp add: shape_of_def)
  show "refnum ?t r = refnum s r" by (rule refnum_same) simp_all
  show "typed ?t" if "b < NBUF" "typed s" using that by (simp add: typed_def list_all_length)
qed

lemma quiet_disk_rw [quiets]: "b < NBUF \<Longrightarrow> quiet (disk_rw b w)"
  unfolding disk_rw_def
  by (rule quietI)
    (rule moves_gets [where k = "\<lambda>bs. upd_buf b (\<lambda>q. q\<lparr>bdata := bs\<rparr>)"] moves_rules moves_call quiets quiet_disk_write quiet_upd_buf
      | simp add: typed_def)+

lemma quiet_buffers [quiets]: "b < NBUF \<Longrightarrow> quiet (bwrite b)" "b < NBUF \<Longrightarrow> quiet (bread_fill b)"
  unfolding bwrite_def bread_fill_def by (rule moves_rules moves_call quiets quiet_upd_buf quietI | simp)+

lemma quiet_set_lru: "(\<And>bs. list_all (\<lambda>b. b < NBUF) bs \<Longrightarrow> list_all (\<lambda>b. b < NBUF) (g bs)) \<Longrightarrow> quiet (modify (\<lambda>s. s\<lparr>lru := g (lru s)\<rparr>))"
proof (rule quiet_modify, intro conjI allI)
  fix s :: "'z file_st_scheme" and r
  let ?t = "s\<lparr>lru := g (lru s)\<rparr>"
  show "shape_of ?t = shape_of s" by (simp add: shape_of_def)
  show "refnum ?t r = refnum s r" by (rule refnum_same) simp_all
  show "typed ?t" if "\<And>bs. list_all (\<lambda>b. b < NBUF) bs \<Longrightarrow> list_all (\<lambda>b. b < NBUF) (g bs)" "typed s"
    using that by (simp add: typed_def)
qed

lemma quiet_brelse [quiets]: "b < NBUF \<Longrightarrow> quiet (brelse b)"
  unfolding brelse_def
  by (rule moves_rules moves_call quiets quiet_upd_buf quiet_set_lru quietI | simp add: move_front_def list_all_iff)+

lemma moves_bread:
  assumes "\<And>b. b < NBUF \<Longrightarrow> moves X A (k b) B"
  shows "moves X A (bnd (bread dev bno) k) B"
  unfolding bread_def bnd_assoc(1)
proof (rule moves_bget)
  fix b
  assume b: "b < NBUF"
  have "bnd (bread_fill b) k = thn (bread_fill b) (k b)"
    by (simp only: bread_fill_def thn_def bnd_assoc(1,3))
  moreover have "moves X A (thn (bread_fill b) (k b)) B"
    by (rule moves_thn, rule moves_call, rule quiets, rule b, rule refl, rule assms [OF b])
  ultimately show "moves X A (bnd (bread_fill b) k) B" by simp
qed

subsection \<open>Blocks\<close>

lemmas bit_at_defs = set_bit_at_def clear_bit_at_def

lemma quiet_blocks [quiets]: "quiet (readsb d)" "quiet (bzero dev bno)"
  unfolding readsb_def bzero_def
  by (rule moves_bread moves_rules moves_call quiets quiet_upd_data quietI | (simp; fail))+

lemma quiet_bitmap [quiets]: "quiet (balloc dev)" "quiet (bfree dev b)"
  unfolding balloc_def bfree_def Let_def
  by (rule moves_bread moves_rules moves_call quiets quiet_upd_data quietI | (simp add: bit_at_defs; fail))+

subsection \<open>Inodes\<close>

lemma moves_get_buf: "(\<And>q. moves X A (k (g q)) B) \<Longrightarrow> moves X A (bnd (get_buf b g) k) B"
  unfolding get_buf_def by (rule moves_gets)

lemma moves_get_inode:
  "i < NINODE \<Longrightarrow> (\<And>ip. length (iaddrs ip) = NDIRECT + 1 \<Longrightarrow> moves X A (k (g ip)) B) \<Longrightarrow> moves X A (bnd (get_inode i g) k) B"
  unfolding get_inode_def by (rule moves_gets) (simp add: typed_inode)

lemma find_upt: "find P [0..<n] = Some i \<Longrightarrow> i < n \<and> P i"
  by (auto simp: find_Some_iff)

text \<open>A slot that nothing refers to is taken with one reference.\<close>

lemma moves_take_inode:
  fixes m :: "('z file_st_scheme, 'a) kern"
  assumes "moves X A m B" and "\<And>i. i < NINODE \<Longrightarrow> moves X (add_mset (NodeRef i) A) (k i) B"
    and "\<And>ip. iref (g ip) = 1" and "\<And>ip. length (iaddrs (g ip)) = NDIRECT + 1"
  shows "moves X A (bnd (gets (\<lambda>s. find (\<lambda>i. iref (itable s ! i) = 0) [0..<NINODE])) (\<lambda>e. case e of
     None \<Rightarrow> m | Some i \<Rightarrow> thn (upd_inode i g) (k i))) B"
  unfolding moves_def
proof (rule keepsI)
  fix s :: "'z file_st_scheme" and C H
  assume P: "C = A \<and> X (shape_of s)" and s: "sound (C + H) s"
  show "case bnd (gets (\<lambda>s. find (\<lambda>i. iref (itable s ! i) = 0) [0..<NINODE])) (\<lambda>e. case e of
        None \<Rightarrow> m | Some i \<Rightarrow> thn (upd_inode i g) (k i)) s of
        Ret v t \<Rightarrow> \<exists>C. (C = B v \<and> X (shape_of t)) \<and> sound (C + H) t
      | Sleeps c t \<Rightarrow> \<exists>C. sound (C + H) t | Leaves t \<Rightarrow> \<exists>C. sound (C + H) t | Panic e \<Rightarrow> True"
  proof (cases "find (\<lambda>i. iref (itable s ! i) = 0) [0..<NINODE]")
    case None
    with assms(1) P s show ?thesis by (simp add: moves_def keeps_def bnd_apply)
  next
    case (Some i)
    let ?t = "s\<lparr>itable := (itable s)[i := g (itable s ! i)]\<rparr>"
    from find_upt [OF Some] have i: "i < NINODE" "iref (itable s ! i) = 0" by auto
    have "sound (add_mset (NodeRef i) A + H) ?t"
      using P i assms(3,4) by (intro sound_upd_inode [OF s]) simp_all
    moreover have "shape_of ?t = shape_of s" by (simp add: shape_of_def)
    ultimately show ?thesis
      using Some assms(2) [OF i(1)] P unfolding moves_def keeps_def by (simp add: run_simps upd_inode_def)
  qed
qed

lemma moves_iget: "(\<And>i. B i = add_mset (NodeRef i) A) \<Longrightarrow> moves X A (iget dev ino) B"
  unfolding iget_def
  by (rule moves_thn, rule moves_call, rule quiets, rule refl, rule moves_gets, rule moves_option)
    (rule moves_take_inode moves_inc_inode moves_rules moves_call quiets quietI
      | (drule find_upt, simp; fail) | (simp; fail))+

lemma moves_idup: "i < NINODE \<Longrightarrow> (\<And>r. B r = (case r of None \<Rightarrow> A | Some j \<Rightarrow> add_mset (NodeRef j) A)) \<Longrightarrow> moves X A (idup (Some i)) B"
  unfolding idup_def option.case
  by (rule moves_inc_inode moves_rules moves_call quiets quietI | (simp; fail))+

lemma moves_search_post:
  assumes "\<And>i. moves X A (f i) B" and "B None = A"
  shows "moves X A (search is f) B"
proof (induction "is")
  case (Cons i "is")
  have "moves X (B r) (case r of Some v \<Rightarrow> ret (Some v) | None \<Rightarrow> search is f) B" for r
    using Cons assms(2) by (cases r) (simp_all add: moves_ret_eq)
  then show ?case unfolding search.simps by (rule moves_bnd [OF assms(1)])
qed (simp add: moves_ret_eq assms(2))

lemma length_dinode_addrs [simp]: "length (d_addrs (dinode_of bs)) = NDIRECT + 1"
  by (simp add: dinode_of_def)

lemma length_put_dinode:
  "length (d_addrs d) = NDIRECT + 1 \<Longrightarrow> length bs = BSIZE \<Longrightarrow> length (put_at (dinode_off ino) (dinode_bytes d) bs) = BSIZE"
  using dinode_fits [of ino] by (simp add: length_put_at length_dinode_bytes)

lemma moves_ialloc: "(\<And>r. B r = (case r of None \<Rightarrow> A | Some i \<Rightarrow> add_mset (NodeRef i) A)) \<Longrightarrow> moves X A (ialloc dev type) B"
  unfolding ialloc_def Let_def
  by (rule moves_bnd, rule moves_call, rule quiets, rule refl, rule moves_search_post)
    (rule moves_bread moves_iget moves_rules moves_call quiets quiet_upd_data quietI | (simp add: length_put_dinode; fail))+

lemma quiet_ilock [quiets]: "quiet (ilock ipo)"
  unfolding ilock_def
  by (rule moves_bread moves_get_buf moves_rules moves_call quiets quiet_upd_inode quietI | (simp; fail))+

lemma quiet_iunlock [quiets]: "quiet (iunlock ipo)"
  unfolding iunlock_def by (rule moves_rules moves_call quiets quietI | (simp; fail))+

lemma quiet_lock_if_needed [quiets]: "quiet (inode_lock_if_needed i)"
  unfolding inode_lock_if_needed_def by (rule moves_rules moves_call quiets quietI | (simp; fail))+

lemma quiet_iupdate [quiets]: "i < NINODE \<Longrightarrow> quiet (iupdate (Some i))"
  unfolding iupdate_def option.case
  by (rule moves_bread moves_get_inode moves_rules moves_call quiets quiet_upd_data quietI
      | (simp add: length_put_dinode inode_dinode_def; fail))+

lemma quiet_bmap [quiets]: "quiet (bmap i bn alloc)"
  unfolding bmap_def Let_def
  by (rule moves_bread moves_rules moves_call quiets quiet_upd_inode quiet_upd_data quietI
      | (simp add: length_put_at NINDIRECT_def BSIZE_def; fail))+

lemma quiet_itrunc [quiets]: "i < NINODE \<Longrightarrow> quiet (itrunc (Some i))"
  unfolding itrunc_def option.case
  by (rule moves_bread moves_rules moves_call quiets quiet_upd_inode quietI | (simp; fail))+

lemma moves_iput: "NodeRef i \<in># A \<Longrightarrow> (\<And>v. B v = A - {#NodeRef i#}) \<Longrightarrow> moves X A (iput (Some i)) B"
proof (rule moves_node, assumption, rule moves_give [where r = "NodeRef i"])
  assume "i < NINODE"
  then show "moves X {#NodeRef i#} (iput (Some i)) (\<lambda>_. {#})"
    unfolding iput_def option.case
    by - (rule moves_dec_inode moves_rules moves_call quiets quiet_upd_inode quietI | (simp; fail))+
qed

lemma moves_iunlockput: "NodeRef i \<in># A \<Longrightarrow> (\<And>v. B v = A - {#NodeRef i#}) \<Longrightarrow> moves X A (iunlockput (Some i)) B"
  unfolding iunlockput_def by (rule moves_iput moves_rules moves_call quiets quietI | (simp; fail))+

lemma quiet_readi_loop [quiets]: "quiet (readi_loop i off n tot acc)"
proof (induction i off n tot acc rule: readi_loop.induct)
  case (1 i off n tot acc)
  show ?case
    unfolding readi_loop.simps [of i off n tot acc] Let_def
    by (rule moves_bread moves_rules moves_call quiets 1 quietI | (simp; fail))+
qed

lemma step_size_fits: "unat (boff off tot) + unat (step_size off tot n) \<le> BSIZE"
proof -
  have "step_size off tot n \<le> 512 - boff off tot" by (simp add: step_size_def min_uint_def less_imp_le)
  moreover have "unat (512 - boff off tot) = 512 - unat (boff off tot)"
    using boff_less [of off tot] by (subst unat_sub_small) (simp_all add: word_le_nat_alt)
  ultimately show ?thesis using boff_less [of off tot] by (simp add: word_le_nat_alt BSIZE_def)
qed

lemma quiet_writei_loop [quiets]: "quiet (writei_loop i off src n tot)"
proof (induction i off src n tot rule: writei_loop.induct)
  case (1 i off src n tot)
  have len: "length (put_at (unat (boff off tot)) (slice (unat tot) (unat (step_size off tot n)) src) bs) = BSIZE"
    if "length bs = BSIZE" for bs
  proof -
    have "length (slice (unat tot) (unat (step_size off tot n)) src) \<le> unat (step_size off tot n)" by (simp add: slice_def)
    then show ?thesis using step_size_fits [of off tot n] that by (subst length_put_at) simp_all
  qed
  show ?case
    unfolding writei_loop.simps [of i off src n tot] Let_def
    by (rule moves_bread moves_rules moves_call quiets quiet_upd_data 1 quietI | (simp add: len; fail))+
qed

lemma quiet_readi [quiets]: "quiet (readi ipo off n)"
  unfolding readi_def Let_def by (rule moves_rules moves_call quiets quietI | (simp; fail))+

lemma quiet_writei [quiets]: "i < NINODE \<Longrightarrow> quiet (writei (Some i) off src)"
  unfolding writei_def Let_def option.case
  by (rule moves_rules moves_call quiets quiet_upd_inode quietI | (simp; fail))+

subsection \<open>Directories and paths\<close>

lemma moves_dirlookup: "(\<And>r. B r = (case r of None \<Rightarrow> A | Some (i, off) \<Rightarrow> add_mset (NodeRef i) A)) \<Longrightarrow> moves X A (dirlookup d name) B"
  unfolding dirlookup_def Let_def
  by (rule moves_iget moves_rules moves_call quiets quietI | (simp; fail) | (simp split: option.splits prod.splits; fail))+

lemma quiet_dirlink [quiets]: "d < NINODE \<Longrightarrow> quiet (dirlink d name ino)"
  unfolding dirlink_def Let_def
  by (rule moves_dirlookup moves_iput moves_rules moves_call quiets quietI | (simp; fail))+

text \<open>The pointers of the tables are in range.\<close>

definition in_range :: "'z file_st_scheme \<Rightarrow> bool" where
  "in_range s \<longleftrightarrow> typed s \<and> (\<forall>r. r \<in># refs (shape_of s) \<longrightarrow> valid_ref r)"

lemma sound_in_range: "sound A s \<Longrightarrow> in_range s"
  using sound_valid [of A s] by (auto simp: in_range_def sound_def)

lemma in_sum_list: "x \<in> set xs \<Longrightarrow> r \<in># g x \<Longrightarrow> r \<in># sum_list (map g xs)"
  by (induction xs) auto

lemma in_range_slot: "in_range s \<Longrightarrow> p < NPROC \<Longrightarrow> r \<in># slot_refs (slot_of (procs s ! p)) \<Longrightarrow> valid_ref r"
  using in_sum_list [of "slot_of (procs s ! p)" "map slot_of (procs s)" r slot_refs]
  by (auto simp: in_range_def refs_def shape_of_def typed_def)

lemma in_range_cwd: "in_range s \<Longrightarrow> p < NPROC \<Longrightarrow> cwd (procs s ! p) = Some i \<Longrightarrow> i < NINODE"
  using in_range_slot [of s p "NodeRef i"] by (simp add: slot_of_def opt_ref_def)

lemma in_range_ofile:
  assumes "in_range s" and "p < NPROC" and "fd < NOFILE" and "ofile (procs s ! p) ! fd = Some f"
  shows "f < NFILE"
proof -
  have "length (ofile (procs s ! p)) = NOFILE" using assms(1,2) typed_proc by (auto simp: in_range_def proc_typed_def)
  with assms(3,4) have "Some f \<in> set (ofile (procs s ! p))" by (metis nth_mem)
  then have "FileRef f \<in># sum_list (map (opt_ref FileRef) (ofile (procs s ! p)))"
    by (rule in_sum_list) (simp add: opt_ref_def)
  with in_range_slot [OF assms(1,2), of "FileRef f"] show ?thesis by (simp add: slot_of_def)
qed

lemma in_range_fip:
  assumes "in_range s" and "f < NFILE" and "fip (ftable s ! f) = Some i"
  shows "i < NINODE"
proof -
  have "length (ftable s) = NFILE" using assms(1) by (simp add: in_range_def typed_def)
  with assms(2,3) have "Some i \<in> set (map fip (ftable s))" by (metis nth_mem image_eqI set_map)
  then have "NodeRef i \<in># sum_list (map (opt_ref NodeRef) (map fip (ftable s)))" by (rule in_sum_list) (simp add: opt_ref_def)
  then have "NodeRef i \<in># refs (shape_of s)" by (simp add: refs_def shape_of_def)
  with assms(1) have "valid_ref (NodeRef i)" unfolding in_range_def by blast
  then show ?thesis by simp
qed

lemma in_range_cur: "in_range s \<Longrightarrow> cur s = Some p \<Longrightarrow> p < NPROC"
  by (simp add: in_range_def typed_def)

lemma moves_reads:
  fixes f :: "'z file_st_scheme \<Rightarrow> 'a"
  assumes "\<And>s. in_range s \<Longrightarrow> X (shape_of s) \<Longrightarrow> moves X A (k (f s)) B"
  shows "moves X A (bnd (gets f) k) B"
  unfolding moves_def
proof (rule keeps_gets)
  fix s :: "'z file_st_scheme"
  assume "seen (\<lambda>C x. C = A \<and> X x) s"
  then have "in_range s" "X (shape_of s)" by (auto simp: seen_def intro: sound_in_range)
  from assms [OF this] show "keeps (\<lambda>C x. (C = A \<and> X x) \<and> x = shape_of s) (k (f s)) (\<lambda>v C x. C = B v \<and> X x)"
    unfolding moves_def by (rule keeps_pre) simp
qed

lemma moves_myproc:
  "moves X A (k None) B \<Longrightarrow> (\<And>p. p < NPROC \<Longrightarrow> moves X A (k (Some p)) B) \<Longrightarrow> moves X A (bnd myproc k) B"
  unfolding myproc_def
proof (rule moves_reads)
  fix s :: "'z file_st_scheme"
  assume "moves X A (k None) B" "\<And>p. p < NPROC \<Longrightarrow> moves X A (k (Some p)) B" "in_range s"
  then show "moves X A (k (cur s)) B" by (cases "cur s") (auto dest: in_range_cur)
qed

lemma moves_cwd:
  "p < NPROC \<Longrightarrow> moves X A (k None) B \<Longrightarrow> (\<And>i. i < NINODE \<Longrightarrow> moves X A (k (Some i)) B) \<Longrightarrow> moves X A (bnd (get_proc p cwd) k) B"
  unfolding get_proc_def
proof (rule moves_reads)
  fix s :: "'z file_st_scheme"
  assume "moves X A (k None) B" "\<And>i. i < NINODE \<Longrightarrow> moves X A (k (Some i)) B" "in_range s" "p < NPROC"
  then show "moves X A (k (cwd (procs s ! p))) B" by (cases "cwd (procs s ! p)") (auto dest: in_range_cwd)
qed

abbreviation node_opt :: "nat option \<Rightarrow> ref multiset" where
  "node_opt \<equiv> opt_ref NodeRef"

lemma opt_ref_simps [simp]: "opt_ref k None = {#}" "opt_ref k (Some i) = {#k i#}"
  by (simp_all add: opt_ref_def)

lemma moves_proc_cwddup: "(\<And>r. B r = node_opt r + A) \<Longrightarrow> moves X A proc_cwddup B"
proof (rule moves_take [where B = node_opt])
  show "moves X {#} proc_cwddup node_opt"
    unfolding proc_cwddup_def
    by (simp only: option.case bnd_assoc(3) | rule moves_myproc moves_cwd moves_idup moves_rules moves_call quiets quietI
        | (simp add: opt_ref_def; fail))+
qed (simp add: add.commute)

lemma moves_namex_loop:
  "moves X {#NodeRef ip#} (namex_loop ip p w name) (\<lambda>(r, nm). node_opt r)"
proof (induction ip p w name rule: namex_loop.induct)
  case (1 ip p w name)
  show ?case
    unfolding namex_loop.simps [of ip p w name]
    by (rule moves_pre [OF 1] moves_iunlockput moves_iput moves_dirlookup moves_rules moves_call quiets quietI | (simp; fail))+
qed

lemma moves_namex: "(\<And>v. B v = node_opt (fst v) + A) \<Longrightarrow> moves X A (namex path w) B"
proof (rule moves_take [where B = "\<lambda>(r, nm). node_opt r"])
  show "moves X {#} (namex path w) (\<lambda>(r, nm). node_opt r)"
    unfolding namex_def
    by (rule moves_pre [OF moves_namex_loop] moves_iget moves_proc_cwddup moves_rules moves_call quiets quietI | (simp; fail))+
qed (simp split: prod.split)

lemma moves_namei: "(\<And>r. B r = node_opt r + A) \<Longrightarrow> moves X A (namei path) B"
  unfolding namei_def by (rule moves_namex moves_rules | (simp; fail))+

lemma moves_nameiparent: "(\<And>v. B v = node_opt (fst v) + A) \<Longrightarrow> moves X A (nameiparent path) B"
  unfolding nameiparent_def by (rule moves_namex)

end
