(* ===== verification/RefTables.thy ===== *)
theory RefTables
  imports RefCounts
begin

section \<open>Reference counts of the open-file table and of every system call\<close>

text \<open>
  The judgments of \<open>RefCounts\<close> for the console, the pipes, the table of open files, the life of
  processes and the system calls, and what they show: no system call loses a reference or keeps one
  too many, whatever it returns, and the tables stay well formed.
\<close>

subsection \<open>Console and pipes\<close>

lemma quiet_console [quiets]: "quiet consoleacquire" "quiet consolerelease" "quiet (consputc c)"
  unfolding consoleacquire_def consolerelease_def consputc_def
  by (rule moves_rules moves_call quiets quietI | (simp; fail))+

lemma quiet_con_take [quiets]: "quiet (modify con_take)"
  by (rule quiet_same) (simp add: con_take_def)

lemma quiet_consoleread_at [quiets]: "quiet (consoleread_at pt va n i)"
proof (induction pt va n i rule: consoleread_at.induct)
  case (1 pt va n i)
  show ?case
    unfolding consoleread_at.simps [of pt va n i]
    by (rule moves_rules moves_sleep moves_call quiets 1 quietI | (simp; fail))+
qed

lemma quiet_consoleread [quiets]: "quiet (consoleread pt va n)"
  unfolding consoleread_def by (rule moves_rules moves_call quiets quietI | (simp; fail))+

lemma quiet_pipe_ends [quiets]: "quiet (upd_pipe pi (pipe_put c))" "quiet (upd_pipe pi pipe_drop)"
  by (rule quiet_upd_pipe, simp add: pipe_put_def pipe_drop_def)+

lemma quiet_pipeclose [quiets]: "quiet (pipeclose pi w)"
  unfolding pipeclose_def by (rule moves_rules moves_call quiets quiet_upd_pipe quietI | (simp; fail))+

lemma quiet_pipewrite_loop [quiets]: "quiet (pipewrite_loop pi addr n i p)"
proof (induction pi addr n i p rule: pipewrite_loop.induct)
  case (1 pi addr n i p)
  show ?case
    unfolding pipewrite_loop.simps [of pi addr n i p]
    by (rule moves_rules moves_sleep moves_call quiets 1 quietI | (simp; fail))+
qed

lemma quiet_piperead_loop [quiets]: "quiet (piperead_loop pi addr n i p)"
proof (induction pi addr n i p rule: piperead_loop.induct)
  case (1 pi addr n i p)
  show ?case
    unfolding piperead_loop.simps [of pi addr n i p] Let_def
    by (rule moves_rules moves_call quiets 1 quietI | (simp; fail))+
qed

lemma quiet_pipes [quiets]: "quiet (pipewrite pi addr n)" "quiet (piperead pi addr n)"
  unfolding pipewrite_def piperead_def piperead_wait_def
  by (rule moves_rules moves_sleep moves_call quiets quietI | (simp; fail))+

subsection \<open>Open files\<close>

lemma moves_unlock: "moves X A m B \<Longrightarrow> moves X A (thn (release l) m) B"
  by (rule moves_thn, rule moves_call, rule quiets, rule refl)

lemma moves_lock: "moves X A m B \<Longrightarrow> moves X A (thn (acquire l) m) B"
  by (rule moves_thn, rule moves_call, rule quiets, rule refl)

lemma shape_fips: "typed s \<Longrightarrow> fip e = fip (ftable s ! f) \<Longrightarrow> shape_of (s\<lparr>ftable := (ftable s)[f := e]\<rparr>) = shape_of s"
  by (simp add: shape_of_def map_update) (metis list_update_beyond list_update_id map_update not_le)

lemma count_file:
  assumes "sound A s" and "FileRef f \<in># A"
  shows "f < NFILE" and "int (count A (FileRef f)) \<le> fref (ftable s ! f)" and "1 \<le> fref (ftable s ! f)"
proof -
  show f: "f < NFILE" using sound_valid [OF assms(1), of "FileRef f"] assms(2) by simp
  have "int (count (refs (shape_of s) + A) (FileRef f)) = refnum s (FileRef f)" using assms(1) unfolding sound_def by blast
  with f show c: "int (count A (FileRef f)) \<le> fref (ftable s ! f)" by simp
  have "0 < count A (FileRef f)" using assms(2) by simp
  with c show "1 \<le> fref (ftable s ! f)" by linarith
qed

text \<open>
  The slot of a file loses a reference: it is cleared with the last one, and the inode it referred to
  is then the caller's to give back.
\<close>

definition drop_file :: "nat \<Rightarrow> ('z file_st_scheme, 'a) kern \<Rightarrow> (open_file \<Rightarrow> ('z file_st_scheme, 'a) kern) \<Rightarrow> ('z file_st_scheme, 'a) kern" where
  "drop_file f k1 k2 =
     thn (upd_file f (\<lambda>q. q\<lparr>fref := fref q - 1\<rparr>))
     (bnd (get_file f id) (\<lambda>ff.
     if 0 < fref ff then k1
     else thn (upd_file f (\<lambda>q. q\<lparr>ftype := FD_NONE, readable := False, writable := False, fpipe := 0,
           fip := None, foff := 0\<rparr>)) (k2 ff)))"

lemma moves_drop_file:
  fixes k1 :: "('z file_st_scheme, 'a) kern"
  assumes "FileRef f \<in># A" and "moves X (A - {#FileRef f#}) k1 B"
    and "\<And>e. file_typed (e\<lparr>fref := 1\<rparr>) \<Longrightarrow> moves X (node_opt (fip e) + (A - {#FileRef f#})) (k2 e) B"
    and "\<And>x. X x \<Longrightarrow> X (x\<lparr>fips := (fips x)[f := None]\<rparr>)"
  shows "moves X A (drop_file f k1 k2) B"
  unfolding moves_def
proof (rule keepsI)
  fix s :: "'z file_st_scheme" and C H
  let ?e = "ftable s ! f" and ?r = "case drop_file f k1 k2 s of
        Ret v t \<Rightarrow> \<exists>C. (C = B v \<and> X (shape_of t)) \<and> sound (C + H) t
      | Sleeps c t \<Rightarrow> \<exists>C. sound (C + H) t | Leaves t \<Rightarrow> \<exists>C. sound (C + H) t | Panic e \<Rightarrow> True"
  assume "C = A \<and> X (shape_of s)" and "sound (C + H) s"
  then have X: "X (shape_of s)" and s: "sound (A + H) s" by auto
  from s have ty: "typed s" by (simp add: sound_def)
  note f = count_file [OF s, of f]
  obtain n where n: "count A (FileRef f) = Suc n" using assms(1) by (metis count_eq_zero_iff not0_implies_Suc)
  have f1: "f < NFILE" "1 \<le> fref ?e" using f assms(1) by auto
  then have len: "f < length (ftable s)" using ty by (simp add: typed_def)
  have e: "file_typed ?e" using typed_file [OF ty f1(1)] .
  show ?r
  proof (cases "1 < fref ?e")
    case True
    let ?t = "s\<lparr>ftable := (ftable s)[f := ?e\<lparr>fref := fref ?e - 1\<rparr>]\<rparr>"
    have "sound ((A - {#FileRef f#}) + H) ?t"
      using e True n by (intro sound_upd_file [OF s f1(1)]) (auto simp: file_typed_def)
    moreover have "shape_of ?t = shape_of s" by (rule shape_fips [OF ty]) simp
    moreover have "drop_file f k1 k2 s = k1 ?t"
      using len True by (simp add: drop_file_def run_simps upd_file_def get_file_def)
    ultimately show ?thesis using assms(2) X unfolding moves_def keeps_def by simp
  next
    case False
    with f1 have one: "fref ?e = 1" by simp
    let ?g = "?e\<lparr>fref := 0, ftype := FD_NONE, readable := False, writable := False, fpipe := 0, fip := None, foff := 0\<rparr>"
    let ?t = "s\<lparr>ftable := (ftable s)[f := ?g]\<rparr>"
    have "sound ((node_opt (fip ?e) + (A - {#FileRef f#})) + H) ?t"
      using one n by (intro sound_upd_file [OF s f1(1)]) (auto simp: file_typed_def)
    moreover have "shape_of ?t = (shape_of s)\<lparr>fips := (fips (shape_of s))[f := None]\<rparr>"
      by (simp add: shape_upd_proc(2))
    moreover have "drop_file f k1 k2 s = k2 (?e\<lparr>fref := 0\<rparr>) ?t"
      using len one by (simp add: drop_file_def run_simps upd_file_def get_file_def)
    moreover have "file_typed (?e\<lparr>fref := 0\<rparr>\<lparr>fref := 1\<rparr>)" using e one by (simp add: file_typed_def)
    note assms(3) [OF this]
    ultimately show ?thesis using X assms(4) unfolding moves_def keeps_def by simp
  qed
qed

lemma moves_fref:
  assumes "FileRef f \<in># A" and "\<And>r. 1 \<le> r \<Longrightarrow> moves X A (k r) B"
  shows "moves X A (bnd (get_file f fref) k) B"
  unfolding moves_def get_file_def
proof (rule keeps_gets)
  fix s :: "'z file_st_scheme"
  assume "seen (\<lambda>C x. C = A \<and> X x) s"
  then obtain H where "sound (A + H) s" by (auto simp: seen_def)
  from count_file [OF this, of f] assms(1) have "1 \<le> fref (ftable s ! f)" by simp
  from assms(2) [OF this] show "keeps (\<lambda>C x. (C = A \<and> X x) \<and> x = shape_of s) (k (fref (ftable s ! f))) (\<lambda>v C x. C = B v \<and> X x)"
    unfolding moves_def by (rule keeps_pre) simp
qed

lemma fileclose_drop:
  "fileclose (Some f) =
     thn (acquire FtableLock)
     (bnd (get_file f fref) (\<lambda>r.
     if r < 1 then release FtableLock
     else drop_file f (release FtableLock) (\<lambda>ff.
         thn (release FtableLock)
         (if ftype ff = FD_PIPE \<and> fpipe ff \<noteq> 0 then pipeclose (fpipe ff) (writable ff)
          else whenk (ftype ff = FD_INODE \<and> fip ff \<noteq> None) (iput (fip ff))))))"
  unfolding drop_file_def fileclose_def option.case ..

lemma moves_fileclose:
  assumes "FileRef f \<in># A" and "\<And>v. B v = A - {#FileRef f#}"
    and "\<And>x. X x \<Longrightarrow> X (x\<lparr>fips := (fips x)[f := None]\<rparr>)"
  shows "moves X A (fileclose (Some f)) B"
proof -
  have k2: "moves X (node_opt (fip e) + (A - {#FileRef f#}))
      (thn (release FtableLock)
       (if ftype e = FD_PIPE \<and> fpipe e \<noteq> 0 then pipeclose (fpipe e) (writable e)
        else whenk (ftype e = FD_INODE \<and> fip e \<noteq> None) (iput (fip e)))) (\<lambda>_. A - {#FileRef f#})"
    if e: "file_typed (e\<lparr>fref := 1\<rparr>)" for e
  proof (cases "fip e")
    case None
    with e show ?thesis by (auto simp: file_typed_def whenk_def intro!: moves_unlock moves_ret moves_call quiets)
  next
    case (Some i)
    with e show ?thesis by (auto simp: file_typed_def whenk_def intro!: moves_unlock moves_iput)
  qed
  have "moves X A (fileclose (Some f)) (\<lambda>_. A - {#FileRef f#})"
    unfolding fileclose_drop
    by (rule moves_lock moves_fref moves_if moves_drop_file assms k2 moves_call quiets refl | (simp; fail))+
  then show ?thesis by (rule moves_post) (rule assms(2))
qed

lemma empty_file_fields [simp]: "fip (empty_file\<lparr>fref := n\<rparr>) = None" "ftype (empty_file\<lparr>fref := n\<rparr>) = FD_NONE"
  by (simp_all add: empty_file_def)

text \<open>A slot without references is handed out with one.\<close>

lemma keeps_filealloc:
  fixes X :: "shape \<Rightarrow> bool"
  shows "keeps (\<lambda>C x. C = A \<and> X x) filealloc
     (\<lambda>r C x. C = opt_ref FileRef r + A \<and> X x \<and> (\<forall>f. r = Some f \<longrightarrow> f < NFILE \<and> fips x ! f = None))"
proof (rule keepsI)
  fix s :: "'z file_st_scheme" and C H
  assume "C = A \<and> X (shape_of s)" and "sound (C + H) s"
  then have X: "X (shape_of s)" and s: "sound (A + H) s" by auto
  from s have ty: "typed s" by (simp add: sound_def)
  show "case filealloc s of
        Ret r t \<Rightarrow> \<exists>C. (C = opt_ref FileRef r + A \<and> X (shape_of t) \<and> (\<forall>f. r = Some f \<longrightarrow> f < NFILE \<and> fips (shape_of t) ! f = None)) \<and> sound (C + H) t
      | Sleeps c t \<Rightarrow> \<exists>C. sound (C + H) t | Leaves t \<Rightarrow> \<exists>C. sound (C + H) t | Panic e \<Rightarrow> True"
  proof (cases "FtableLock \<in> held s")
    case True
    then show ?thesis by (simp add: filealloc_def thn_apply acquire_def)
  next
    case False
    show ?thesis
    proof (cases "find (\<lambda>i. fref (ftable s ! i) = 0) [0..<NFILE]")
      case None
      with False X s show ?thesis by (simp add: filealloc_def run_simps)
    next
      case (Some f)
      then have f: "f < NFILE" "fref (ftable s ! f) = 0" using find_upt by auto
      have fip: "fip (ftable s ! f) = None" using typed_file [OF ty f(1)] f(2) by (simp add: file_typed_def)
      let ?t = "s\<lparr>ftable := (ftable s)[f := empty_file\<lparr>fref := 1\<rparr>]\<rparr>"
      have "sound (add_mset (FileRef f) A + H) ?t"
        using f fip by (intro sound_upd_file [OF s f(1)]) (simp_all add: file_typed_def)
      moreover have "shape_of ?t = shape_of s" by (rule shape_fips [OF ty]) (simp add: fip)
      moreover have "filealloc s = Ret (Some f) ?t"
        using False Some by (simp add: filealloc_def run_simps upd_file_def)
      ultimately show ?thesis using X f fip ty by simp
    qed
  qed
qed

lemma moves_inc_file: "f < NFILE \<Longrightarrow> 1 \<le> fref e \<Longrightarrow> file_typed e \<Longrightarrow> file_typed (e\<lparr>fref := fref e + 1\<rparr>)"
  by (simp add: file_typed_def)

text \<open>A duplicated pointer is a new reference.\<close>

lemma moves_filedup:
  assumes "f < NFILE" and "\<And>r. B r = opt_ref FileRef r + A"
  shows "moves X A (filedup (Some f)) B"
  unfolding moves_def
proof (rule keepsI)
  fix s :: "'z file_st_scheme" and C H
  assume "C = A \<and> X (shape_of s)" and "sound (C + H) s"
  then have X: "X (shape_of s)" and s: "sound (A + H) s" by auto
  from s have ty: "typed s" by (simp add: sound_def)
  let ?e = "ftable s ! f" and ?t = "s\<lparr>ftable := (ftable s)[f := (ftable s ! f)\<lparr>fref := fref (ftable s ! f) + 1\<rparr>]\<rparr>"
  have "shape_of ?t = shape_of s" by (rule shape_fips [OF ty]) simp
  moreover have "sound (add_mset (FileRef f) A + H) ?t" if "1 \<le> fref ?e"
    using that typed_file [OF ty assms(1)] by (intro sound_upd_file [OF s assms(1)]) (simp_all add: file_typed_def)
  ultimately show "case filedup (Some f) s of
        Ret v t \<Rightarrow> \<exists>C. (C = B v \<and> X (shape_of t)) \<and> sound (C + H) t
      | Sleeps c t \<Rightarrow> \<exists>C. sound (C + H) t | Leaves t \<Rightarrow> \<exists>C. sound (C + H) t | Panic e \<Rightarrow> True"
    using X s assms(2) by (cases "FtableLock \<in> held s") (auto simp: filedup_def run_simps upd_file_def get_file_def acquire_def)
qed

lemma moves_file_id:
  "f < NFILE \<Longrightarrow> (\<And>e. (\<forall>i. fip e = Some i \<longrightarrow> i < NINODE) \<Longrightarrow> moves X A (k e) B) \<Longrightarrow> moves X A (bnd (get_file f id) k) B"
  unfolding get_file_def id_apply by (rule moves_reads) (blast dest: in_range_fip)

lemma quiet_writei_opt: "\<forall>i. ipo = Some i \<longrightarrow> i < NINODE \<Longrightarrow> quiet (writei ipo off src)"
proof (cases ipo)
  case None
  then show ?thesis by (simp add: writei_def quietI moves_ret)
qed (simp add: quiets)

lemma quiet_upd_foff [quiets]: "quiet (upd_file f (\<lambda>g. g\<lparr>foff := foff g + k\<rparr>))"
  by (rule quiet_upd_file) simp

lemma quiet_inode_read_loop [quiets]: "quiet (inode_read_loop f pt addr n tot)"
proof (induction f pt addr n tot rule: inode_read_loop.induct)
  case (1 f pt addr n tot)
  show ?case
    unfolding inode_read_loop.simps [of f pt addr n tot] Let_def
    by (rule moves_rules moves_call quiets 1 quietI | (simp; fail))+
qed

lemma quiet_inode_write_loop [quiets]: "f < NFILE \<Longrightarrow> quiet (inode_write_loop f pt addr n tot)"
proof (induction f pt addr n tot rule: inode_write_loop.induct)
  case (1 f pt addr n tot)
  show ?case
    unfolding inode_write_loop.simps [of f pt addr n tot] Let_def
    by (rule moves_file_id moves_rules moves_call quiets quiet_writei_opt 1 quietI | (simp add: 1; fail))+
qed

lemma quiet_console_write_loop [quiets]: "quiet (console_write_loop pt addr n i)"
proof (induction pt addr n i rule: console_write_loop.induct)
  case (1 pt addr n i)
  show ?case
    unfolding console_write_loop.simps [of pt addr n i]
    by (rule moves_rules moves_call quiets 1 quietI | (simp; fail))+
qed

lemma quiet_fileread [quiets]: "quiet (fileread fo addr n)"
  unfolding fileread_def by (rule moves_rules moves_call quiets quietI | (simp; fail))+

lemma quiet_filewrite [quiets]: "f < NFILE \<Longrightarrow> quiet (filewrite (Some f) addr n)"
  unfolding filewrite_def option.case by (rule moves_rules moves_call quiets quietI | (simp; fail))+

lemma quiet_filestat [quiets]: "quiet (filestat pad fo addr)"
  unfolding filestat_def by (rule moves_rules moves_call quiets quietI | (simp; fail))+

text \<open>A call that needs more than \<open>X\<close> of the tables may use what was established before.\<close>

lemma moves_more: "moves (\<lambda>x. X x \<and> Y x) A m B \<Longrightarrow> keeps (\<lambda>C x. C = A \<and> X x \<and> Y x) m (\<lambda>v C x. C = B v \<and> X x)"
  unfolding moves_def by (erule keeps_post) simp

lemma moves_filealloc:
  assumes "moves X A (k None) B"
    and "\<And>f. f < NFILE \<Longrightarrow>
      keeps (\<lambda>C x. C = add_mset (FileRef f) A \<and> X x \<and> fips x ! f = None) (k (Some f)) (\<lambda>v C x. C = B v \<and> X x)"
  shows "moves X A (bnd filealloc k) B"
  unfolding moves_def
proof (rule keeps_bnd [OF keeps_filealloc])
  fix r
  show "keeps (\<lambda>C x. C = opt_ref FileRef r + A \<and> X x \<and> (\<forall>f. r = Some f \<longrightarrow> f < NFILE \<and> fips x ! f = None)) (k r) (\<lambda>v C x. C = B v \<and> X x)"
  proof (cases r)
    case None
    with assms(1) show ?thesis by (simp add: moves_def)
  next
    case (Some f)
    show ?thesis
    proof (cases "f < NFILE")
      case True
      show ?thesis unfolding Some by (rule keeps_pre [OF assms(2) [OF True]]) simp
    qed (simp add: Some keeps_def)
  qed
qed

text \<open>The kind of a file that refers to no inode may be set.\<close>

lemma moves_set_type:
  assumes "f < NFILE" and "\<And>x. X x \<Longrightarrow> fips x ! f = None"
    and "\<And>e. fref (g e) = fref e \<and> fip (g e) = fip e \<and> ftype (g e) \<noteq> FD_INODE"
    and "\<And>v. B v = A"
  shows "moves X A (upd_file f g) B"
  unfolding moves_def
proof (rule keepsI)
  fix s :: "'z file_st_scheme" and C H
  let ?t = "s\<lparr>ftable := (ftable s)[f := g (ftable s ! f)]\<rparr>"
  assume "C = A \<and> X (shape_of s)" and "sound (C + H) s"
  then have X: "X (shape_of s)" and s: "sound (A + H) s" by auto
  from s have ty: "typed s" by (simp add: sound_def)
  have "fip (ftable s ! f) = None" using assms(2) [OF X] ty assms(1) by simp
  then have "sound (A + H) ?t" using assms(3) by (intro sound_upd_file [OF s assms(1)]) (simp_all add: file_typed_def)
  moreover have "shape_of ?t = shape_of s" using assms(3) by (intro shape_fips [OF ty]) simp
  ultimately show "case upd_file f g s of
        Ret v t \<Rightarrow> \<exists>C. (C = B v \<and> X (shape_of t)) \<and> sound (C + H) t
      | Sleeps c t \<Rightarrow> \<exists>C. sound (C + H) t | Leaves t \<Rightarrow> \<exists>C. sound (C + H) t | Panic e \<Rightarrow> True"
    using X assms(4) by (auto simp: upd_file_def)
qed

lemma fips_None: "xs ! f = None \<Longrightarrow> xs[g := None] ! f = None"
  by (cases "f = g"; cases "g < length xs") (auto simp: list_update_beyond not_less)

definition pipe_refs :: "int \<times> nat option \<times> nat option \<Rightarrow> ref multiset" where
  "pipe_refs v = (case v of (r, Some a, Some b) \<Rightarrow> (if r < 0 then {#} else {#FileRef a, FileRef b#}) | _ \<Rightarrow> {#})"

text \<open>A pipe is two open files, or nothing at all.\<close>

lemma moves_pipealloc:
  assumes "\<And>x f. X x \<Longrightarrow> X (x\<lparr>fips := (fips x)[f := None]\<rparr>)"
  shows "moves X {#} pipealloc pipe_refs"
proof -
  let ?bad = "\<lambda>f0 f1. thn (whenk (f0 \<noteq> None) (fileclose f0)) (thn (whenk (f1 \<noteq> None) (fileclose f1)) (ret (-1, f0, f1)))"
  have bad: "moves Y (opt_ref FileRef f0 + opt_ref FileRef f1) (?bad f0 f1) pipe_refs"
    if Y: "\<And>x f. Y x \<Longrightarrow> Y (x\<lparr>fips := (fips x)[f := None]\<rparr>)" for Y f0 f1
  proof -
    have close: "moves Y (opt_ref FileRef g + F) (whenk (g \<noteq> None) (fileclose g)) (\<lambda>_. F)" for g F
      using Y by (cases g) (auto simp: whenk_def intro!: moves_ret moves_fileclose)
    have last_close: "moves Y (opt_ref FileRef g) (whenk (g \<noteq> None) (fileclose g)) (\<lambda>_. {#})" for g
      using close [of g "{#}"] by simp
    have "pipe_refs (-1, f0, f1) = {#}" by (simp add: pipe_refs_def split: option.split)
    then show ?thesis
      by (intro moves_thn [OF close] moves_thn [OF last_close] moves_ret_eq) simp
  qed
  let ?X1 = "\<lambda>a x. X x \<and> fips x ! a = None" and ?X2 = "\<lambda>a b x. (X x \<and> fips x ! a = None) \<and> fips x ! b = None"
  have X1: "?X1 a x \<Longrightarrow> ?X1 a (x\<lparr>fips := (fips x)[f := None]\<rparr>)" for a x f
    by (simp add: assms fips_None)
  have X2: "?X2 a b x \<Longrightarrow> ?X2 a b (x\<lparr>fips := (fips x)[f := None]\<rparr>)" for a b x f
    by (simp add: assms fips_None)
  have ok: "moves (?X2 a b) {#FileRef a, FileRef b#} (bnd kalloc (\<lambda>pi.
      if pi = 0 then ?bad (Some a) (Some b)
      else thn (upd_pipe pi (\<lambda>q. q\<lparr>readopen := True, writeopen := True, nread := 0, nwrite := 0\<rparr>))
           (thn (upd_file a (\<lambda>f. f\<lparr>ftype := FD_PIPE, readable := True, writable := False, fpipe := pi\<rparr>))
           (thn (upd_file b (\<lambda>f. f\<lparr>ftype := FD_PIPE, readable := False, writable := True, fpipe := pi\<rparr>))
           (ret (0, Some a, Some b)))))) pipe_refs" if ab: "a < NFILE" "b < NFILE" for a b
    by (rule moves_pre [OF bad [of "?X2 a b" "Some a" "Some b"]] moves_bnd moves_if moves_thn moves_set_type moves_ret_eq
        moves_call quiets quiet_upd_pipe refl | (simp add: ab; fail) | (simp add: pipe_refs_def; fail) | (erule X2))+
  have none: "(if (None :: nat option) = None then m else n) = m" "(if Some a = None then m else n) = n"
    for a :: nat and m n :: "('b file_st_scheme, nat option) kern" by simp_all
  show ?thesis
    unfolding pipealloc_def Let_def
    by (rule moves_filealloc moves_more
        moves_pre [OF ok] moves_pre [OF bad [of X None None, OF assms]]
        moves_pre [OF bad [of "?X1 a" "Some a" None for a]]
      | (simp only: none option.case prod.case bnd_assoc(3))
      | (erule X1) | assumption | (simp add: add_mset_commute; fail))+
qed

subsection \<open>Slots of the process table\<close>

abbreviation has :: "ref multiset \<Rightarrow> (shape \<Rightarrow> bool) \<Rightarrow> ref multiset \<Rightarrow> shape \<Rightarrow> bool" where
  "has A X \<equiv> (\<lambda>C x. C = A \<and> X x)"

definition free_slot :: "nat option list \<times> nat option \<times> bool" where
  "free_slot = (replicate NOFILE None, None, True)"

definition fresh_slot :: "nat option list \<times> nat option \<times> bool" where
  "fresh_slot = (replicate NOFILE None, None, False)"

text \<open>The process that runs is alive; \<open>spare i\<close>: slot \<open>i\<close> points to nothing and does not run.\<close>

definition live :: "shape \<Rightarrow> bool" where
  "live x \<longleftrightarrow> (\<forall>p. who x = Some p \<longrightarrow> p < NPROC \<and> \<not> snd (snd (slots x ! p)))"

definition spare :: "nat \<Rightarrow> shape \<Rightarrow> bool" where
  "spare i x \<longleftrightarrow> live x \<and> who x \<noteq> Some i \<and> (slots x ! i = free_slot \<or> slots x ! i = fresh_slot)"

definition ready :: "nat \<Rightarrow> shape \<Rightarrow> bool" where
  "ready i x \<longleftrightarrow> live x \<and> who x \<noteq> Some i \<and> slots x ! i = fresh_slot"

lemma live_fips: "live x \<Longrightarrow> live (x\<lparr>fips := g\<rparr>)" and spare_fips: "spare i x \<Longrightarrow> spare i (x\<lparr>fips := g\<rparr>)"
  by (simp_all add: live_def spare_def)

lemma live_slot: "live x \<Longrightarrow> who x \<noteq> Some i \<Longrightarrow> live (x\<lparr>slots := (slots x)[i := y]\<rparr>)"
  by (auto simp: live_def nth_list_update)

lemma live_alive: "live x \<Longrightarrow> \<not> snd (snd y) \<Longrightarrow> length (slots x) = NPROC \<Longrightarrow> live (x\<lparr>slots := (slots x)[i := y]\<rparr>)"
  unfolding live_def by (cases "who x = Some i") (auto simp: nth_list_update)

lemma slot_dead: "proc_typed q \<Longrightarrow> dead q \<Longrightarrow> slot_of q = free_slot"
  by (simp add: proc_typed_def slot_of_def free_slot_def)

lemma slot_free_iff: "slot_of q = free_slot \<longleftrightarrow> ofile q = replicate NOFILE None \<and> cwd q = None \<and> dead q"
  and slot_fresh_iff: "slot_of q = fresh_slot \<longleftrightarrow> ofile q = replicate NOFILE None \<and> cwd q = None \<and> \<not> dead q"
  by (auto simp: slot_of_def free_slot_def fresh_slot_def)

lemma no_files [simp]: "sum_list (replicate n {#}) = {#}"
  by (induction n) simp_all

lemma slot_refs_empty [simp]: "slot_refs free_slot = {#}" "slot_refs fresh_slot = {#}"
  by (simp_all add: free_slot_def fresh_slot_def)

definition slot_in_range :: "proc \<Rightarrow> bool" where
  "slot_in_range q \<longleftrightarrow> (\<forall>fd f. fd < NOFILE \<longrightarrow> ofile q ! fd = Some f \<longrightarrow> f < NFILE) \<and> (\<forall>i. cwd q = Some i \<longrightarrow> i < NINODE)"

lemma slot_pointers: "in_range s \<Longrightarrow> i < NPROC \<Longrightarrow> slot_in_range (procs s ! i)"
  unfolding slot_in_range_def by (blast dest: in_range_ofile in_range_cwd)

text \<open>A slot that is read, and one that is written.\<close>

lemma keeps_get_proc:
  assumes "i < NPROC"
    and "\<And>q. proc_typed q \<Longrightarrow> slot_in_range q \<Longrightarrow>
      keeps (has A (\<lambda>x. X x \<and> slots x ! i = slot_of q)) (k (g q)) Q"
  shows "keeps (has A X) (bnd (get_proc i g) k) Q"
  unfolding get_proc_def
proof (rule keeps_gets)
  fix s :: "'z file_st_scheme"
  assume "seen (has A X) s"
  then have r: "in_range s" by (auto simp: seen_def intro: sound_in_range)
  then have ty: "typed s" by (simp add: in_range_def)
  have "keeps (has A (\<lambda>x. X x \<and> slots x ! i = slot_of (procs s ! i))) (k (g (procs s ! i))) Q"
    using typed_proc [OF ty assms(1)] slot_pointers [OF r assms(1)] by (rule assms(2))
  then show "keeps (\<lambda>C x. (C = A \<and> X x) \<and> x = shape_of s) (k (g (procs s ! i))) Q"
    by (rule keeps_pre) (use ty assms(1) in auto)
qed

lemma moves_get_proc:
  assumes "i < NPROC"
    and "\<And>q. proc_typed q \<Longrightarrow> slot_in_range q \<Longrightarrow>
      keeps (has A (\<lambda>x. X x \<and> slots x ! i = slot_of q)) (k (g q)) (\<lambda>v. has (B v) X)"
  shows "moves X A (bnd (get_proc i g) k) B"
  unfolding moves_def using assms by (rule keeps_get_proc)

lemma keeps_upd_slot:
  assumes "i < NPROC"
    and "\<And>x q. X x \<Longrightarrow> length (slots x) = NPROC \<Longrightarrow> slots x ! i = slot_of q \<Longrightarrow> proc_typed q \<Longrightarrow>
      proc_typed (f q) \<and> B + slot_refs (slot_of (f q)) = A + slot_refs (slot_of q) \<and>
      Y (x\<lparr>slots := (slots x)[i := slot_of (f q)]\<rparr>)"
  shows "keeps (has A X) (upd_proc i f) (\<lambda>_. has B Y)"
  using assms by (intro keeps_upd_proc) blast+

lemma moves_upd_proc:
  assumes "i < NPROC"
    and "\<And>x q. X x \<Longrightarrow> length (slots x) = NPROC \<Longrightarrow> slots x ! i = slot_of q \<Longrightarrow> proc_typed q \<Longrightarrow>
      proc_typed (f q) \<and> B () + slot_refs (slot_of (f q)) = A + slot_refs (slot_of q) \<and>
      X (x\<lparr>slots := (slots x)[i := slot_of (f q)]\<rparr>)"
  shows "moves X A (upd_proc i f) B"
  unfolding moves_def using assms by (intro keeps_upd_proc) auto

lemma keeps_moves: "moves X A m C \<Longrightarrow> (\<And>v. keeps (has (C v) X) (k v) Q) \<Longrightarrow> keeps (has A X) (bnd m k) Q"
  unfolding moves_def by (rule keeps_bnd)

lemma keeps_moves_thn: "moves X A m C \<Longrightarrow> (\<And>v. keeps (has (C v) X) n Q) \<Longrightarrow> keeps (has A X) (thn m n) Q"
  unfolding moves_def by (rule keeps_thn)

lemma keeps_quiet: "quiet m \<Longrightarrow> (\<And>v. keeps (has A X) (k v) Q) \<Longrightarrow> keeps (has A X) (bnd m k) Q"
  by (rule keeps_moves [OF moves_call]) simp_all

lemma keeps_quiet_thn: "quiet m \<Longrightarrow> keeps (has A X) n Q \<Longrightarrow> keeps (has A X) (thn m n) Q"
  by (rule keeps_moves_thn [OF moves_call]) simp_all

lemma keeps_search:
  assumes "\<And>i. i \<in> set is \<Longrightarrow> keeps P (f i) Q" and "\<And>A x. Q None A x \<longleftrightarrow> P A x"
  shows "keeps P (search is f) Q"
  using assms(1)
proof (induction "is")
  case (Cons i "is")
  have "keeps (Q r) (case r of Some v \<Rightarrow> ret (Some v) | None \<Rightarrow> search is f) Q" for r
  proof (cases r)
    case None
    have "keeps P (search is f) Q" using Cons by simp
    then have "keeps (Q None) (search is f) Q" by (rule keeps_pre) (simp add: assms(2))
    with None show ?thesis by simp
  qed (simp add: keeps_ret)
  moreover have "keeps P (f i) Q" using Cons by simp
  ultimately show ?case unfolding search.simps by (intro keeps_bnd)
qed (simp add: keeps_ret assms(2))

subsection \<open>Life of processes\<close>

lemma quiet_proc_pagetable [quiets]: "p < NPROC \<Longrightarrow> quiet (proc_pagetable p)" "quiet (proc_freepagetable pt len)"
  unfolding proc_pagetable_def proc_freepagetable_def by (rule moves_rules moves_call quiets quietI | (simp; fail))+

lemma quiet_upd_memory [quiets]:
  "quiet (upd_proc p (\<lambda>q. q\<lparr>pagetable := a\<rparr>))" "quiet (upd_proc p (\<lambda>q. q\<lparr>sz := b\<rparr>))" "quiet (upd_proc p (\<lambda>q. q\<lparr>trapframe := c\<rparr>))"
  "quiet (upd_proc p (\<lambda>q. q\<lparr>pagetable := a, sz := b\<rparr>))" "quiet (upd_proc p (\<lambda>q. q\<lparr>context_of := d\<rparr>))"
  by (rule quiet_upd_proc, simp add: slot_of_def proc_typed_def dead_def)+

lemma spareD: "spare i x \<Longrightarrow> slots x ! i = slot_of q \<Longrightarrow> ofile q = replicate NOFILE None \<and> cwd q = None"
  by (auto simp: spare_def slot_free_iff slot_fresh_iff dest: sym)

lemma spare_slot: "spare i x \<Longrightarrow> i < NPROC \<Longrightarrow> length (slots x) = NPROC \<Longrightarrow> y = free_slot \<or> y = fresh_slot \<Longrightarrow> spare i (x\<lparr>slots := (slots x)[i := y]\<rparr>)"
  by (auto simp: spare_def intro: live_slot)

text \<open>Nothing is lost when a slot that points to nothing is freed.\<close>

lemma moves_spare:
  assumes "i < NPROC" and "\<And>q. proc_typed q \<Longrightarrow> ofile q = replicate NOFILE None \<Longrightarrow> cwd q = None \<Longrightarrow>
      proc_typed (f q) \<and> ofile (f q) = replicate NOFILE None \<and> cwd (f q) = None"
    and "\<And>v. B v = A"
  shows "moves (spare i) A (upd_proc i f) B"
proof (rule moves_upd_proc [OF assms(1)])
  fix x q
  assume x: "spare i x" "length (slots x) = NPROC" "slots x ! i = slot_of q" "proc_typed q"
  note q = spareD [OF x(1,3)]
  with assms(2) x(4) have f: "proc_typed (f q)" "ofile (f q) = replicate NOFILE None" "cwd (f q) = None" by auto
  then have s: "slot_of (f q) = free_slot \<or> slot_of (f q) = fresh_slot" by (simp add: slot_free_iff slot_fresh_iff)
  have "slot_of q = free_slot \<or> slot_of q = fresh_slot" using q by (simp add: slot_free_iff slot_fresh_iff)
  with s f(1) assms(3) spare_slot [OF x(1) assms(1) x(2) s]
  show "proc_typed (f q) \<and> B () + slot_refs (slot_of (f q)) = A + slot_refs (slot_of q) \<and>
      spare i (x\<lparr>slots := (slots x)[i := slot_of (f q)]\<rparr>)" by auto
qed

lemma moves_spare_cwd:
  assumes "i < NPROC" and "\<And>q. cwd q = None \<Longrightarrow> moves (spare i) A (k q) B"
  shows "moves (spare i) A (bnd (get_proc i id) k) B"
  unfolding get_proc_def
proof (rule moves_reads)
  fix s :: "'z file_st_scheme"
  assume "in_range s" "spare i (shape_of s)"
  then have "cwd (procs s ! i) = None"
    using spareD [of i "shape_of s" "procs s ! i"] assms(1) by (simp add: in_range_def)
  then show "moves (spare i) A (k (id (procs s ! i))) B" using assms(2) by simp
qed

lemma moves_freeproc: "i < NPROC \<Longrightarrow> (\<And>v. B v = A) \<Longrightarrow> moves (spare i) A (freeproc i) B"
  unfolding freeproc_def
  by ((erule (1) notE) | rule moves_spare_cwd moves_spare moves_rules moves_call quiets quietI
      | (simp add: proc_typed_def dead_def; fail))+

lemma ready_spare: "ready i x \<Longrightarrow> spare i x" and spare_live: "spare i x \<Longrightarrow> live x"
  by (simp_all add: ready_def spare_def)

lemma keeps_ready: "keeps (has A (spare i)) m Q \<Longrightarrow> keeps (has A (ready i)) m Q"
  by (erule keeps_pre) (simp add: ready_spare)

lemma keeps_ret_has: "(\<And>x. X x \<Longrightarrow> Q v A x) \<Longrightarrow> keeps (has A X) (ret v) Q"
  by (rule keeps_ret) simp

lemmas keeps_rules = keeps_quiet_thn keeps_quiet keeps_if keeps_panic keeps_ret_has

lemma keeps_spawn:
  assumes "i < NPROC" and "slot_of q = free_slot" and "\<And>q. proc_typed q \<Longrightarrow> proc_typed (f q) \<and> slot_of (f q) = fresh_slot"
  shows "keeps (has A (\<lambda>x. live x \<and> slots x ! i = slot_of q)) (upd_proc i f) (\<lambda>_. has A (ready i))"
proof (rule keeps_upd_slot [OF assms(1)])
  fix x r
  assume "live x \<and> slots x ! i = slot_of q" and l: "length (slots x) = NPROC" and r: "slots x ! i = slot_of r" "proc_typed r"
  then have x: "live x" "slots x ! i = free_slot" "slot_of r = free_slot" using assms(2) by simp_all
  then have w: "who x \<noteq> Some i" by (auto simp: live_def free_slot_def)
  from x(1) live_slot [OF x(1) w] w l assms(1) have "ready i (x\<lparr>slots := (slots x)[i := fresh_slot]\<rparr>)" by (simp add: ready_def)
  with assms(3) [OF r(2)] x(3) show "proc_typed (f r) \<and> A + slot_refs (slot_of (f r)) = A + slot_refs (slot_of r) \<and>
      ready i (x\<lparr>slots := (slots x)[i := slot_of (f r)]\<rparr>)" by simp
qed

definition granted :: "nat option \<Rightarrow> shape \<Rightarrow> bool" where
  "granted r x \<longleftrightarrow> live x \<and> (\<forall>i. r = Some i \<longrightarrow> i < NPROC \<and> ready i x)"

lemma granted_simps [simp]: "granted None x \<longleftrightarrow> live x" "granted (Some i) x \<longleftrightarrow> i < NPROC \<and> ready i x"
  by (auto simp: granted_def ready_def)

text \<open>A new process points to nothing, and the one that runs is not touched.\<close>

lemma keeps_allocproc: "keeps (has A live) allocproc (\<lambda>r. has A (granted r))"
proof -
  let ?Q = "\<lambda>r. has A (case r of None \<Rightarrow> live | Some v \<Rightarrow> granted v)"
  have fail: "keeps (has A (spare i)) (thn (freeproc i) (thn (release l) (ret (Some None)))) ?Q" if "i < NPROC" for i l
    by (rule keeps_moves_thn [OF moves_freeproc [OF that refl]]) (rule keeps_rules quiets | simp add: spare_live)+
  have step: "keeps (has A live) (bnd m (\<lambda>r. case r of Some v \<Rightarrow> ret v | None \<Rightarrow> ret None)) (\<lambda>r. has A (granted r))"
    if "keeps (has A live) m ?Q" for m
    using that by (rule keeps_bnd) (simp add: keeps_ret split: option.split)
  show ?thesis
    unfolding allocproc_def
    by (rule step, rule keeps_search)
      (rule keeps_ready [OF fail] keeps_thn [OF keeps_spawn] keeps_get_proc keeps_rules quiets slot_dead
      | (simp add: slot_fresh_iff proc_typed_def dead_def; fail))+
qed

lemma quiet_uvmmaprange [quiets]: "quiet (uvmmaprange pt va len perm)" "quiet (setup_user_stack pt oldsz)"
  unfolding uvmmaprange_def setup_user_stack_def Let_def by (rule moves_rules moves_call quiets quietI | (simp; fail))+

lemma quiet_uvmload [quiets]: "quiet (uvmload_from_inode pt dstva ip file_off len i)"
proof (induction pt dstva ip file_off len i rule: uvmload_from_inode.induct)
  case (1 pt dstva ip file_off len i)
  show ?case
    unfolding uvmload_from_inode.simps [of pt dstva ip file_off len i] Let_def
    by (rule moves_rules moves_call quiets 1 quietI | (simp add: Let_def; fail))+
qed

lemma quiet_load_segment [quiets]: "quiet (load_segment pt ip file_size ph hi)"
  unfolding load_segment_def Let_def by (rule moves_rules moves_call quiets quietI | (simp; fail))+

lemma quiet_load_segments [quiets]: "quiet (load_segments ns pt ip file_size eh hi)"
proof (induction ns arbitrary: hi)
  case (Cons n ns)
  show ?case unfolding load_segments.simps by (rule moves_rules moves_call quiets Cons quietI | (simp; fail))+
qed (simp add: quietI moves_ret)

lemma moves_pre_opt_ref:
  "(v = None \<Longrightarrow> moves X A m B) \<Longrightarrow> (\<And>i. v = Some i \<Longrightarrow> moves X (add_mset (k i) A) m B) \<Longrightarrow> moves X (opt_ref k v + A) m B"
  by (cases v) simp_all

lemma moves_pre_opt_ref0:
  "(v = None \<Longrightarrow> moves X {#} m B) \<Longrightarrow> (\<And>i. v = Some i \<Longrightarrow> moves X {#k i#} m B) \<Longrightarrow> moves X (opt_ref k v) m B"
  by (cases v) simp_all

lemma quiet_load_elf [quiets]: "quiet (load_elf pt path)"
  unfolding load_elf_def Let_def
  by (rule moves_pre_opt_ref moves_namei moves_iunlockput moves_iput moves_rules moves_call quiets quietI | (simp; fail))+

lemma quiet_growproc [quiets]: "quiet (growproc n)"
  unfolding growproc_def Let_def by (rule moves_rules moves_call quiets quietI | (simp; fail))+

lemma quiet_push_args [quiets]: "quiet (push_args pt stackbase sp uargv args)"
proof (induction args arbitrary: sp uargv)
  case (Cons a args)
  show ?case unfolding push_args.simps Let_def by (rule moves_rules moves_call quiets Cons quietI | (simp; fail))+
qed (simp add: quietI moves_ret)

lemma quiet_exec [quiets]: "quiet (exec name argv)"
  unfolding exec_def Let_def
  by (rule quietI, rule moves_myproc) (simp only: option.case | rule moves_rules moves_call quiets | (simp; fail))+

lemma keeps_zombie:
  "proc_typed q \<Longrightarrow> dead q \<Longrightarrow> keeps (has A (spare i)) m Q \<Longrightarrow> keeps (has A (\<lambda>x. live x \<and> slots x ! i = slot_of q)) m Q"
  by (erule keeps_pre) (auto simp: spare_def slot_dead live_def free_slot_def dest: sym)

lemma keeps_spare_post: "moves (spare i) A m B \<Longrightarrow> keeps (has A (spare i)) m (\<lambda>v. has (B v) live)"
  unfolding moves_def by (erule keeps_post) (simp add: spare_live)

lemma moves_live_slot: "moves live A m B \<Longrightarrow> keeps (has A (\<lambda>x. live x \<and> Y x)) m (\<lambda>v. has (B v) live)"
  unfolding moves_def by (erule keeps_pre) simp

lemma moves_wait_scan: "(\<And>i. i \<in> set is \<Longrightarrow> i < NPROC) \<Longrightarrow> moves live A (wait_scan is p addr k) (\<lambda>_. A)"
proof (induction "is" arbitrary: k)
  case (Cons i "is")
  note rest = Cons.IH [OF Cons.prems [OF list.set_intros(2)]]
  show ?case
    unfolding wait_scan.simps
    by (rule moves_bnd, rule moves_call, rule quiets, rule refl)
      (rule moves_get_proc keeps_if keeps_zombie keeps_spare_post moves_freeproc moves_live_slot rest moves_rules moves_call quiets
        | (simp add: Cons dead_def; fail) | assumption)+
qed (simp add: moves_ret)

lemma moves_wait: "(\<And>v. B v = A) \<Longrightarrow> moves live A (wait addr) B"
  unfolding wait_def wait_loop_def
  by (rule moves_wait_scan moves_sum moves_sleep moves_rules moves_call quiets | (simp; fail))+

text \<open>A loop over the first \<open>n\<close> indices with an invariant for each.\<close>

lemma keeps_for_each_from:
  "(\<And>k. k < n \<Longrightarrow> keeps (P k) (f k) (\<lambda>_. P (Suc k))) \<Longrightarrow> k \<le> n \<Longrightarrow> keeps (P k) (for_each [k..<n] f) (\<lambda>_. P n)"
proof (induction "n - k" arbitrary: k)
  case 0
  then show ?case by (simp add: keeps_ret)
next
  case (Suc m)
  then have k: "k < n" by simp
  have "keeps (P (Suc k)) (for_each [Suc k..<n] f) (\<lambda>_. P n)" using Suc k by simp
  with Suc.prems(1) [OF k] k show ?case by (simp add: upt_conv_Cons keeps_thn)
qed

lemma keeps_for_each_upt:
  "(\<And>k. k < n \<Longrightarrow> keeps (P k) (f k) (\<lambda>_. P (Suc k))) \<Longrightarrow> keeps (P 0) (for_each [0..<n] f) (\<lambda>_. P n)"
  by (rule keeps_for_each_from) simp_all

text \<open>A descriptor that is installed or taken out, and the current directory.\<close>

lemma typed_ofile: "proc_typed q \<Longrightarrow> \<not> dead q \<Longrightarrow> proc_typed (q\<lparr>ofile := (ofile q)[fd := y]\<rparr>)"
  by (simp add: proc_typed_def dead_def)

lemma slot_ofile: "slot_of (q\<lparr>ofile := fs\<rparr>) = (fs, snd (slot_of q))" "slot_of (q\<lparr>cwd := c\<rparr>) = (fst (slot_of q), c, snd (snd (slot_of q)))"
  by (simp_all add: slot_of_def dead_def)

lemma refs_ofile:
  "proc_typed q \<Longrightarrow> fd < NOFILE \<Longrightarrow>
     slot_refs (slot_of (q\<lparr>ofile := (ofile q)[fd := y]\<rparr>)) + opt_ref FileRef (ofile q ! fd) = slot_refs (slot_of q) + opt_ref FileRef y"
  using refs_file [of fd "ofile q" y "cwd q" "dead q" "dead q"] by (simp add: slot_ofile slot_of_def proc_typed_def)

lemma refs_cwd:
  "slot_refs (slot_of (q\<lparr>cwd := c\<rparr>)) + node_opt (cwd q) = slot_refs (slot_of q) + node_opt c"
  by (simp add: slot_of_def)

definition filling :: "nat \<Rightarrow> nat \<Rightarrow> shape \<Rightarrow> bool" where
  "filling i k x \<longleftrightarrow> live x \<and> who x \<noteq> Some i \<and> \<not> snd (snd (slots x ! i)) \<and> fst (snd (slots x ! i)) = None \<and>
     (\<forall>j. k \<le> j \<longrightarrow> j < NOFILE \<longrightarrow> fst (slots x ! i) ! j = None)"

lemma ready_filling: "ready i x \<Longrightarrow> filling i 0 x"
  by (simp add: ready_def filling_def fresh_slot_def)

lemma keeps_fill:
  assumes "i < NPROC" and "k < NOFILE"
  shows "keeps (has (opt_ref FileRef y + A) (filling i k)) (upd_proc i (\<lambda>q. q\<lparr>ofile := (ofile q)[k := y]\<rparr>)) (\<lambda>_. has A (filling i (Suc k)))"
proof (rule keeps_upd_slot [OF assms(1)])
  fix x q
  assume x: "filling i k x" "length (slots x) = NPROC" "slots x ! i = slot_of q" "proc_typed q"
  let ?q = "q\<lparr>ofile := (ofile q)[k := y]\<rparr>"
  have q: "\<not> dead q" "ofile q ! k = None" using x(1,3) assms(2) by (auto simp: filling_def slot_of_def)
  have "live (x\<lparr>slots := (slots x)[i := slot_of ?q]\<rparr>)" using x(1,2) by (intro live_slot) (auto simp: filling_def)
  then have "filling i (Suc k) (x\<lparr>slots := (slots x)[i := slot_of ?q]\<rparr>)"
    using x assms q by (auto simp: filling_def slot_of_def dead_def nth_list_update proc_typed_def)
  then show "proc_typed ?q \<and> A + slot_refs (slot_of ?q) = opt_ref FileRef y + A + slot_refs (slot_of q) \<and>
      filling i (Suc k) (x\<lparr>slots := (slots x)[i := slot_of ?q]\<rparr>)"
    using typed_ofile [OF x(4) q(1)] refs_ofile [OF x(4) assms(2), of y] q(2) by (simp add: ac_simps)
qed

lemma moves_keeps: "moves X A m B \<Longrightarrow> (\<And>v x. X x \<Longrightarrow> Y v x) \<Longrightarrow> keeps (has A X) m (\<lambda>v. has (B v) (Y v))"
  unfolding moves_def by (erule keeps_post) simp

lemma keeps_dup_file:
  assumes "i < NPROC" and "k < NOFILE" and "\<And>f. fo = Some f \<Longrightarrow> f < NFILE"
  shows "keeps (has A (filling i k)) (whenk (fo \<noteq> None) (bnd (filedup fo) (\<lambda>f. upd_proc i (\<lambda>q. q\<lparr>ofile := (ofile q)[k := f]\<rparr>))))
     (\<lambda>_. has A (filling i (Suc k)))"
proof (cases fo)
  case None
  then show ?thesis by (auto simp: whenk_def filling_def intro!: keeps_ret)
next
  case (Some f)
  have "keeps (has A (filling i k)) (bnd (filedup (Some f)) (\<lambda>f. upd_proc i (\<lambda>q. q\<lparr>ofile := (ofile q)[k := f]\<rparr>))) (\<lambda>_. has A (filling i (Suc k)))"
    by (rule keeps_moves [OF moves_filedup], rule assms(3) [OF Some], rule refl, rule keeps_fill [OF assms(1,2)])
  with Some show ?thesis by (simp add: whenk_def)
qed

definition grown :: "nat \<Rightarrow> shape \<Rightarrow> bool" where
  "grown i x \<longleftrightarrow> live x \<and> who x \<noteq> Some i \<and> \<not> snd (snd (slots x ! i))"

lemma keeps_dup_cwd:
  assumes "i < NPROC" and "\<And>j. c = Some j \<Longrightarrow> j < NINODE"
  shows "keeps (has A (filling i k)) (whenk (c \<noteq> None) (bnd (idup c) (\<lambda>c. upd_proc i (\<lambda>q. q\<lparr>cwd := c\<rparr>)))) (\<lambda>_. has A (grown i))"
proof (cases c)
  case None
  then show ?thesis by (auto simp: whenk_def filling_def grown_def intro!: keeps_ret)
next
  case (Some j)
  have "keeps (has (case d of None \<Rightarrow> A | Some j \<Rightarrow> add_mset (NodeRef j) A) (filling i k)) (upd_proc i (\<lambda>q. q\<lparr>cwd := d\<rparr>)) (\<lambda>_. has A (grown i))" for d
  proof (rule keeps_upd_slot [OF assms(1)])
    fix x q
    assume x: "filling i k x" "length (slots x) = NPROC" "slots x ! i = slot_of q" "proc_typed q"
    let ?q = "q\<lparr>cwd := d\<rparr>"
    have q: "\<not> dead q" "cwd q = None" using x(1,3) by (auto simp: filling_def slot_of_def)
    have "live (x\<lparr>slots := (slots x)[i := slot_of ?q]\<rparr>)" using x(1,2) by (intro live_slot) (auto simp: filling_def)
    then have "grown i (x\<lparr>slots := (slots x)[i := slot_of ?q]\<rparr>)"
      using x assms q by (auto simp: filling_def grown_def slot_of_def dead_def nth_list_update)
    then show "proc_typed ?q \<and> A + slot_refs (slot_of ?q) = (case d of None \<Rightarrow> A | Some j \<Rightarrow> add_mset (NodeRef j) A) + slot_refs (slot_of q) \<and>
        grown i (x\<lparr>slots := (slots x)[i := slot_of ?q]\<rparr>)"
      using x(4) q refs_cwd [where q = q and c = d] by (auto simp: proc_typed_def dead_def split: option.split)
  qed
  then have "keeps (has A (filling i k)) (bnd (idup (Some j)) (\<lambda>c. upd_proc i (\<lambda>q. q\<lparr>cwd := c\<rparr>))) (\<lambda>_. has A (grown i))"
    by (rule keeps_moves [OF moves_idup [OF assms(2) [OF Some] refl]])
  with Some show ?thesis by (simp add: whenk_def)
qed

lemma keeps_drop: "keeps (has A X) m Q \<Longrightarrow> keeps (has A (\<lambda>x. X x \<and> Y x)) m Q"
  by (erule keeps_pre) simp

lemma keeps_granted: "(i < NPROC \<Longrightarrow> keeps (has A (ready i)) m Q) \<Longrightarrow> keeps (has A (granted (Some i))) m Q"
  by (cases "i < NPROC") (simp_all add: keeps_def)

lemma granted_None: "granted None = live"
  by (rule ext) simp

lemma keeps_fork_files:
  assumes "i < NPROC" and "\<And>k f. k < NOFILE \<Longrightarrow> fs ! k = Some f \<Longrightarrow> f < NFILE"
  shows "keeps (has A (ready i)) (for_each [0..<NOFILE] (\<lambda>fd. whenk (fs ! fd \<noteq> None)
      (bnd (filedup (fs ! fd)) (\<lambda>f. upd_proc i (\<lambda>q. q\<lparr>ofile := (ofile q)[fd := f]\<rparr>))))) (\<lambda>_. has A (filling i NOFILE))"
proof (rule keeps_pre)
  show "keeps (has A (filling i 0)) (for_each [0..<NOFILE] (\<lambda>fd. whenk (fs ! fd \<noteq> None)
      (bnd (filedup (fs ! fd)) (\<lambda>f. upd_proc i (\<lambda>q. q\<lparr>ofile := (ofile q)[fd := f]\<rparr>))))) (\<lambda>_. has A (filling i NOFILE))"
    using assms by (intro keeps_for_each_upt keeps_dup_file) auto
qed (simp add: ready_filling)

lemma keeps_grown:
  assumes "i < NPROC" and "\<And>q. proc_typed q \<Longrightarrow> \<not> dead q \<Longrightarrow> proc_typed (f q) \<and> slot_of (f q) = slot_of q"
  shows "moves (grown i) A (upd_proc i f) (\<lambda>_. A)"
proof (rule moves_upd_proc [OF assms(1)])
  fix x q
  assume x: "grown i x" "length (slots x) = NPROC" "slots x ! i = slot_of q" "proc_typed q"
  then have "\<not> dead q" by (simp add: grown_def slot_of_def)
  with assms(2) x(4) have f: "proc_typed (f q)" "slot_of (f q) = slot_of q" by auto
  then have "(slots x)[i := slot_of (f q)] = slots x" using x(3) by (metis list_update_id)
  with x f show "proc_typed (f q) \<and> A + slot_refs (slot_of (f q)) = A + slot_refs (slot_of q) \<and>
      grown i (x\<lparr>slots := (slots x)[i := slot_of (f q)]\<rparr>)" by simp
qed

lemma grown_live: "grown i x \<Longrightarrow> live x"
  by (simp add: grown_def)

text \<open>The child holds a reference for each pointer it inherits; a fork that fails holds none.\<close>

lemma moves_fork: "(\<And>v. B v = A) \<Longrightarrow> moves live A fork B"
proof -
  have fail: "keeps (has A (ready i)) (thn (freeproc i) (thn (release l) (ret r))) (\<lambda>v. has A live)" if "i < NPROC" for i l and r :: int
    by (rule keeps_ready, rule keeps_moves_thn [OF moves_freeproc [OF that refl]]) (rule keeps_rules quiets | simp add: spare_live)+
  have parent: "moves (grown i) A (upd_proc i (\<lambda>q. q\<lparr>parent := Some p\<rparr>)) (\<lambda>_. A)"
    and runnable: "moves (grown i) A (upd_proc i (\<lambda>q. q\<lparr>pstate := RUNNABLE\<rparr>)) (\<lambda>_. A)" if "i < NPROC" "p < NPROC" for i p
    using that by (auto intro!: keeps_grown simp: proc_typed_def slot_of_def dead_def)
  have "moves live A fork (\<lambda>_. A)"
    unfolding fork_def
    apply (rule moves_myproc)
     apply (simp only: option.case, rule moves_ret)
    apply (simp only: option.case)
    apply (rule moves_get_proc, assumption)
    apply (simp only: id_apply)
    apply (rule keeps_drop, rule keeps_if, rule keeps_ret_has, simp)
    apply (rule keeps_bnd [OF keeps_allocproc])
    apply (rule keeps_option)
     apply (simp only: granted_None)
     apply (rule keeps_ret_has, simp)
    apply (simp only:)
    apply (rule keeps_granted)
    apply (rule fail keeps_thn [OF keeps_fork_files] keeps_thn [OF keeps_dup_cwd] keeps_moves_thn [OF parent]
        keeps_moves_thn [OF runnable] keeps_rules quiets | assumption | (simp add: slot_in_range_def grown_live; fail))+
    done
  then show "(\<And>v. B v = A) \<Longrightarrow> moves live A fork B" by (simp add: moves_def)
qed

lemma keeps_myproc:
  assumes "keeps (has A X) (k None) Q"
    and "\<And>p. p < NPROC \<Longrightarrow> keeps (has A (\<lambda>x. X x \<and> who x = Some p)) (k (Some p)) Q"
  shows "keeps (has A X) (bnd myproc k) Q"
  unfolding myproc_def
proof (rule keeps_gets)
  fix s :: "'z file_st_scheme"
  assume "seen (has A X) s"
  then have r: "in_range s" by (auto simp: seen_def intro: sound_in_range)
  show "keeps (\<lambda>C x. (C = A \<and> X x) \<and> x = shape_of s) (k (cur s)) Q"
  proof (cases "cur s")
    case None
    show ?thesis unfolding None by (rule keeps_pre [OF assms(1)]) simp
  next
    case (Some p)
    show ?thesis unfolding Some by (rule keeps_pre [OF assms(2) [OF in_range_cur [OF r Some]]]) (simp add: Some)
  qed
qed

lemma keeps_initproc:
  assumes "\<And>init. \<forall>p. init = Some p \<longrightarrow> p < NPROC \<Longrightarrow> keeps (has A X) (k init) Q"
  shows "keeps (has A X) (bnd (gets initproc) k) Q"
proof (rule keeps_gets)
  fix s :: "'z file_st_scheme"
  assume "seen (has A X) s"
  then have "\<forall>p. initproc s = Some p \<longrightarrow> p < NPROC" by (auto simp: seen_def sound_def typed_def)
  from assms [OF this] show "keeps (\<lambda>C x. (C = A \<and> X x) \<and> x = shape_of s) (k (initproc s)) Q"
    by (rule keeps_pre) simp
qed

text \<open>The inode of a directory pointer is given back before the pointer is cleared; nothing looks in between.\<close>

lemma thn_thn:
  "thn (thn m1 n1) c1 = thn m1 (thn n1 c1)" "thn (bnd m2 f2) c2 = bnd m2 (\<lambda>v. thn (f2 v) c2)"
  "thn (if b3 then m3 else n3) c3 = (if b3 then thn m3 c3 else thn n3 c3)" "thn (panic e4) c4 = panic e4"
  by (rule ext, simp add: run_simps split: outcome.split)+

lemma iput_then:
  "thn (iput (Some i)) (upd_proc p f) =
     thn (acquire ItableLock)
     (bnd (get_inode i id) (\<lambda>ip.
     if iref ip < 1 then thn (release ItableLock) (panic ''iput'')
     else
       thn (whenk (iref ip = 1 \<and> ivalid ip \<and> inlink ip = 0)
         (thn (release ItableLock)
         (thn (ilock (Some i))
         (thn (itrunc (Some i))
         (thn (upd_inode i (\<lambda>ip. ip\<lparr>itype := 0\<rparr>))
         (thn (iupdate (Some i))
         (thn (upd_inode i (\<lambda>ip. ip\<lparr>ivalid := False\<rparr>))
         (thn (iunlock (Some i))
         (acquire ItableLock)))))))))
       (thn (upd_proc p f)
       (thn (upd_inode i (\<lambda>ip. ip\<lparr>iref := iref ip - 1\<rparr>))
       (bnd (get_inode i iref) (\<lambda>r.
       thn (whenk (r = 0) (upd_inode i (\<lambda>ip. ip\<lparr>ivalid := False, itype := 0, isize := 0\<rparr>)))
       (release ItableLock)))))))"
proof -
  have tail: "thn (upd_inode i (\<lambda>ip. ip\<lparr>iref := iref ip - 1\<rparr>)) (bnd (get_inode i iref) (\<lambda>r.
       thn (whenk (r = 0) (upd_inode i (\<lambda>ip. ip\<lparr>ivalid := False, itype := 0, isize := 0\<rparr>))) (thn (release ItableLock) (upd_proc p f)))) =
     thn (upd_proc p f) (thn (upd_inode i (\<lambda>ip. ip\<lparr>iref := iref ip - 1\<rparr>)) (bnd (get_inode i iref) (\<lambda>r.
       thn (whenk (r = 0) (upd_inode i (\<lambda>ip. ip\<lparr>ivalid := False, itype := 0, isize := 0\<rparr>))) (release ItableLock))))"
    by (rule ext) (simp add: run_simps upd_inode_def get_inode_def whenk_def release_def)
  show ?thesis unfolding iput_def option.case thn_thn tail ..
qed

definition emptying :: "nat \<Rightarrow> nat \<Rightarrow> shape \<Rightarrow> bool" where
  "emptying p k x \<longleftrightarrow> live x \<and> who x = Some p \<and> (\<forall>j<k. fst (slots x ! p) ! j = None)"

lemma emptying_slot:
  "emptying p k x \<Longrightarrow> slots x ! p = slot_of q \<Longrightarrow> p < NPROC \<and> \<not> dead q \<and> (\<forall>j<k. ofile q ! j = None)"
  by (auto simp: emptying_def live_def slot_of_def)

lemma emptying_update:
  "emptying p k x \<Longrightarrow> slots x ! p = slot_of q \<Longrightarrow> length (slots x) = NPROC \<Longrightarrow> \<not> dead r \<Longrightarrow> (\<And>j. j < l \<Longrightarrow> ofile r ! j = None) \<Longrightarrow>
     emptying p l (x\<lparr>slots := (slots x)[p := slot_of r]\<rparr>)"
proof -
  assume x: "emptying p k x" "slots x ! p = slot_of q" "length (slots x) = NPROC" "\<not> dead r" "\<And>j. j < l \<Longrightarrow> ofile r ! j = None"
  have "p < NPROC" using emptying_slot [OF x(1,2)] by blast
  moreover have "live (x\<lparr>slots := (slots x)[p := slot_of r]\<rparr>)"
    using x(1,3,4) by (intro live_alive) (simp_all add: emptying_def slot_of_def)
  ultimately show ?thesis using x by (simp add: emptying_def slot_of_def)
qed

lemma keeps_exit_file:
  assumes "p < NPROC" and "k < NOFILE"
  shows "keeps (has A (emptying p k)) (bnd (get_proc p (\<lambda>q. ofile q ! k)) (\<lambda>f. whenk (f \<noteq> None)
     (thn (upd_proc p (\<lambda>q. q\<lparr>ofile := (ofile q)[k := None]\<rparr>)) (fileclose f)))) (\<lambda>_. has A (emptying p (Suc k)))"
proof (rule keeps_get_proc [OF assms(1)])
  fix q
  assume q: "proc_typed q"
  let ?X = "\<lambda>x. emptying p k x \<and> slots x ! p = slot_of q"
  show "keeps (has A ?X) (whenk (ofile q ! k \<noteq> None) (thn (upd_proc p (\<lambda>q. q\<lparr>ofile := (ofile q)[k := None]\<rparr>)) (fileclose (ofile q ! k))))
      (\<lambda>_. has A (emptying p (Suc k)))"
  proof (cases "ofile q ! k")
    case None
    then show ?thesis by (auto simp: whenk_def emptying_def slot_of_def less_Suc_eq intro!: keeps_ret)
  next
    case (Some f)
    have "keeps (has A ?X) (upd_proc p (\<lambda>q. q\<lparr>ofile := (ofile q)[k := None]\<rparr>)) (\<lambda>_. has (add_mset (FileRef f) A) (emptying p (Suc k)))"
    proof (rule keeps_upd_slot [OF assms(1)])
      fix x and r :: proc
      let ?r = "r\<lparr>ofile := (ofile r)[k := None]\<rparr>"
      assume x: "?X x" "length (slots x) = NPROC" "slots x ! p = slot_of r" "proc_typed r"
      then have r: "\<not> dead r" "ofile r = ofile q" "\<forall>j<k. ofile r ! j = None" using emptying_slot by (auto simp: slot_of_def)
      have "emptying p (Suc k) (x\<lparr>slots := (slots x)[p := slot_of ?r]\<rparr>)"
        using r x(4) assms(2) x by (intro emptying_update) (auto simp: dead_def nth_list_update less_Suc_eq proc_typed_def)
      then show "proc_typed ?r \<and> add_mset (FileRef f) A + slot_refs (slot_of ?r) = A + slot_refs (slot_of r) \<and>
          emptying p (Suc k) (x\<lparr>slots := (slots x)[p := slot_of ?r]\<rparr>)"
        using typed_ofile [OF x(4) r(1)] refs_ofile [OF x(4) assms(2), of None] Some r(2) by (simp add: ac_simps)
    qed
    moreover have "moves (emptying p (Suc k)) (add_mset (FileRef f) A) (fileclose (Some f)) (\<lambda>_. A)"
      by (rule moves_fileclose) (auto simp: emptying_def live_fips)
    ultimately show ?thesis using Some by (auto simp: whenk_def moves_def intro: keeps_thn)
  qed
qed

definition idle :: "nat \<Rightarrow> shape \<Rightarrow> bool" where
  "idle p x \<longleftrightarrow> live x \<and> who x = Some p \<and> slots x ! p = fresh_slot"

lemma all_None: "length fs = n \<Longrightarrow> \<forall>j<n. fs ! j = None \<Longrightarrow> fs = replicate n None"
  by (simp add: list_eq_iff_nth_eq)

lemma emptying_idle:
  assumes "emptying p NOFILE x" and "slots x ! p = slot_of q" and "proc_typed q" and "cwd q = None"
  shows "idle p x"
proof -
  note e = emptying_slot [OF assms(1,2)]
  then have "ofile q = replicate NOFILE None" using assms(3) by (intro all_None) (simp_all add: proc_typed_def)
  with e assms(4) have "slot_of q = fresh_slot" by (simp add: slot_fresh_iff)
  with assms(1,2) show ?thesis by (simp add: idle_def emptying_def)
qed

lemma keeps_exit_cwd:
  assumes "p < NPROC"
  shows "keeps (has A (emptying p NOFILE)) (bnd (get_proc p cwd) (\<lambda>c.
     whenk (c \<noteq> None) (thn (iput c) (upd_proc p (\<lambda>q. q\<lparr>cwd := None\<rparr>))))) (\<lambda>_. has A (idle p))"
proof (rule keeps_get_proc [OF assms])
  fix q
  assume q: "proc_typed q" "slot_in_range q"
  let ?X = "\<lambda>x. emptying p NOFILE x \<and> slots x ! p = slot_of q"
  show "keeps (has A ?X) (whenk (cwd q \<noteq> None) (thn (iput (cwd q)) (upd_proc p (\<lambda>q. q\<lparr>cwd := None\<rparr>)))) (\<lambda>_. has A (idle p))"
  proof (cases "cwd q")
    case None
    then show ?thesis using q emptying_idle by (auto simp: whenk_def intro!: keeps_ret)
  next
    case (Some i)
    with q(2) have i: "i < NINODE" by (simp add: slot_in_range_def)
    have clear: "keeps (has A ?X) (upd_proc p (\<lambda>q. q\<lparr>cwd := None\<rparr>)) (\<lambda>_. has (add_mset (NodeRef i) A) (idle p))"
    proof (rule keeps_upd_slot [OF assms])
      fix x and r :: proc
      let ?r = "r\<lparr>cwd := None\<rparr>"
      assume x: "?X x" "length (slots x) = NPROC" "slots x ! p = slot_of r" "proc_typed r"
      then have "emptying p NOFILE x" "slot_of r = slot_of q" by auto
      note e = emptying_slot [OF this(1) x(3)] and s = this
      from e s(2) Some have r: "\<not> dead ?r" "cwd r = Some i" by (simp_all add: slot_of_def dead_def)
      have t: "proc_typed ?r" using x(4) r(1) by (simp add: proc_typed_def)
      have "emptying p NOFILE (x\<lparr>slots := (slots x)[p := slot_of ?r]\<rparr>)"
        using r(1) e by (intro emptying_update [OF s(1) x(3,2)]) simp_all
      then have "idle p (x\<lparr>slots := (slots x)[p := slot_of ?r]\<rparr>)"
        by (rule emptying_idle [where q = ?r]) (use t x(2) assms in simp_all)
      then show "proc_typed ?r \<and> add_mset (NodeRef i) A + slot_refs (slot_of ?r) = A + slot_refs (slot_of r) \<and>
          idle p (x\<lparr>slots := (slots x)[p := slot_of ?r]\<rparr>)"
        using t refs_cwd [where q = r and c = None] r(2) by simp
    qed
    have last: "moves (idle p) (add_mset (NodeRef i) A) (thn (upd_inode i (\<lambda>ip. ip\<lparr>iref := iref ip - 1\<rparr>)) (bnd (get_inode i iref) (\<lambda>r.
       thn (whenk (r = 0) (upd_inode i (\<lambda>ip. ip\<lparr>ivalid := False, itype := 0, isize := 0\<rparr>)))
       (release ItableLock)))) (\<lambda>_. A)"
      by (rule moves_dec_inode moves_rules moves_call quiets quiet_upd_inode | (simp; fail))+
    have "keeps (has A ?X) (thn (iput (Some i)) (upd_proc p (\<lambda>q. q\<lparr>cwd := None\<rparr>))) (\<lambda>_. has A (idle p))"
      unfolding iput_then
      by (rule keeps_thn [OF clear] last [unfolded moves_def] keeps_rules quiets moves_rules moves_call quiet_upd_inode quietI
        | (simp add: i whenk_def; fail))+
    with Some show ?thesis by (simp add: whenk_def)
  qed
qed

lemma keeps_exit_cwd_then:
  assumes "p < NPROC" and "keeps (has A (idle p)) m Q"
  shows "keeps (has A (emptying p NOFILE)) (bnd (get_proc p cwd) (\<lambda>c.
     thn (whenk (c \<noteq> None) (thn (iput c) (upd_proc p (\<lambda>q. q\<lparr>cwd := None\<rparr>)))) m)) Q"
  using keeps_thn [OF keeps_exit_cwd [OF assms(1)] assms(2)] by (simp only: thn_thn(2))

lemma keeps_leaves: "keeps (has A (\<lambda>_. True)) (leaves (thn sched (scheduler_return p))) Q"
  using moves_scheduler_return [of A p] unfolding moves_def keeps_def leaves_def by (fastforce split: outcome.splits)

lemma keeps_zombify:
  "p < NPROC \<Longrightarrow> keeps (has A (idle p)) (upd_proc p (\<lambda>q. q\<lparr>xstate := st, pstate := ZOMBIE\<rparr>)) (\<lambda>_. has A (\<lambda>_. True))"
  by (rule keeps_upd_slot) (auto simp: idle_def slot_fresh_iff proc_typed_def slot_of_def fresh_slot_def dead_def)

lemma quiet_reparent: "\<forall>i. init = Some i \<longrightarrow> i < NPROC \<Longrightarrow> quiet (upd_proc i (\<lambda>q. q\<lparr>parent := init\<rparr>))"
  by (rule quiet_upd_proc) (simp add: proc_typed_def slot_of_def dead_def)

text \<open>A process that exits gives back what it points to, one by one, and then points to nothing.\<close>

lemma moves_proc_exit: "moves live A (proc_exit st) B"
proof -
  have start: "keeps (has A (emptying p 0)) m Q \<Longrightarrow> keeps (has A (\<lambda>x. live x \<and> who x = Some p)) m Q" for p m Q
    by (erule keeps_pre) (simp add: emptying_def)
  show ?thesis
    unfolding proc_exit_def moves_def
    apply (rule keeps_myproc)
     apply (simp only: option.case, rule keeps_panic)
    apply (simp only: option.case)
    apply (rule keeps_initproc)
    apply (rule keeps_if, rule keeps_panic)
    apply (rule start)
    apply (rule keeps_thn, rule keeps_for_each_upt, erule (1) keeps_exit_file)
    apply (rule keeps_exit_cwd_then, assumption)
    apply (rule keeps_thn [OF keeps_zombify] keeps_leaves keeps_rules quiets quiet_reparent moves_rules moves_call quietI
      | assumption)+
    done
qed

subsection \<open>Descriptors of the current process\<close>

lemma me_bnd: "bnd me k = bnd myproc (\<lambda>p. case p of None \<Rightarrow> panic ''kerneltrap'' | Some i \<Rightarrow> k i)"
  unfolding me_def by (simp only: bnd_assoc)

lemma keeps_me:
  "(\<And>p. p < NPROC \<Longrightarrow> keeps (has A (\<lambda>x. X x \<and> who x = Some p)) (k p) Q) \<Longrightarrow> keeps (has A X) (bnd me k) Q"
  unfolding me_bnd by (rule keeps_myproc) (simp_all add: keeps_panic)

lemma moves_me: "(\<And>p. p < NPROC \<Longrightarrow> moves X A (k p) B) \<Longrightarrow> moves X A (bnd me k) B"
  unfolding me_bnd by (rule moves_myproc) (simp_all add: moves_panic)

text \<open>
  \<open>pinned p Y L\<close>: process \<open>p\<close> runs, the descriptors in \<open>L\<close> are distinct and point to the files
  given with them, and \<open>Y\<close> holds of the inodes the files refer to.
\<close>

definition pinned :: "nat \<Rightarrow> (nat option list \<Rightarrow> bool) \<Rightarrow> (nat \<times> nat) list \<Rightarrow> shape \<Rightarrow> bool" where
  "pinned p Y L x \<longleftrightarrow> live x \<and> who x = Some p \<and> Y (fips x) \<and> distinct (map fst L) \<and>
     (\<forall>(j, g) \<in> set L. j < NOFILE \<and> fst (slots x ! p) ! j = Some g)"

lemma pinned_live: "pinned p Y L x \<Longrightarrow> live x"
  by (simp add: pinned_def)

lemma pinned_slot: "pinned p Y L x \<Longrightarrow> slots x ! p = slot_of q \<Longrightarrow> p < NPROC \<and> \<not> dead q \<and> (\<forall>(j, g) \<in> set L. ofile q ! j = Some g)"
  by (auto simp: pinned_def live_def slot_of_def)

lemma pinned_update:
  assumes "pinned p Y L x" and "slots x ! p = slot_of q" and "length (slots x) = NPROC" and "\<not> dead r"
    and "distinct (map fst M)" and "\<And>j g. (j, g) \<in> set M \<Longrightarrow> j < NOFILE \<and> ofile r ! j = Some g"
  shows "pinned p Y M (x\<lparr>slots := (slots x)[p := slot_of r]\<rparr>)"
proof -
  have "p < NPROC" using pinned_slot [OF assms(1,2)] by blast
  moreover have "live (x\<lparr>slots := (slots x)[p := slot_of r]\<rparr>)"
    using assms(1,3,4) by (intro live_alive) (simp_all add: pinned_def slot_of_def)
  ultimately show ?thesis using assms by (auto simp: pinned_def slot_of_def)
qed

text \<open>A free descriptor takes over a reference; a descriptor that is cleared gives its own back.\<close>

lemma keeps_install:
  assumes "p < NPROC" and "i < NOFILE" and "ofile q ! i = None"
    and "\<And>f. y = Some f \<Longrightarrow> M = (i, f) # L" and "y = None \<Longrightarrow> M = L"
  shows "keeps (has (opt_ref FileRef y + A) (\<lambda>x. pinned p Y L x \<and> slots x ! p = slot_of q))
     (upd_proc p (\<lambda>q. q\<lparr>ofile := (ofile q)[i := y]\<rparr>)) (\<lambda>_. has A (pinned p Y M))"
proof (rule keeps_upd_slot [OF assms(1)])
  fix x and r :: proc
  let ?r = "r\<lparr>ofile := (ofile r)[i := y]\<rparr>"
  assume x: "pinned p Y L x \<and> slots x ! p = slot_of q" "length (slots x) = NPROC" "slots x ! p = slot_of r" "proc_typed r"
  then have "ofile r ! i = None" using assms(3) by (simp add: slot_of_def)
  with pinned_slot [OF conjunct1 [OF x(1)] x(3)]
  have r: "\<not> dead r" "ofile r ! i = None" "\<forall>(j, g) \<in> set L. ofile r ! j = Some g" by auto
  have d: "distinct (map fst M)" "\<And>j g. (j, g) \<in> set M \<Longrightarrow> j < NOFILE \<and> ofile ?r ! j = Some g"
    using assms(2,4,5) x r by (cases y; force simp: pinned_def proc_typed_def nth_list_update)+
  have "pinned p Y M (x\<lparr>slots := (slots x)[p := slot_of ?r]\<rparr>)"
    by (rule pinned_update [OF conjunct1 [OF x(1)] x(3,2) _ d]) (use r(1) in \<open>simp_all add: dead_def\<close>)
  then show "proc_typed ?r \<and> A + slot_refs (slot_of ?r) = opt_ref FileRef y + A + slot_refs (slot_of r) \<and>
      pinned p Y M (x\<lparr>slots := (slots x)[p := slot_of ?r]\<rparr>)"
    using typed_ofile [OF x(4) r(1)] refs_ofile [OF x(4) assms(2), of y] r(2) by (simp add: ac_simps)
qed

lemma keeps_clear:
  assumes "p < NPROC" and "(i, f) \<in> set L"
  shows "keeps (has A (pinned p Y L)) (upd_proc p (\<lambda>q. q\<lparr>ofile := (ofile q)[i := None]\<rparr>))
     (\<lambda>_. has (add_mset (FileRef f) A) (pinned p Y (filter (\<lambda>(j, g). j \<noteq> i) L)))"
proof (rule keeps_upd_slot [OF assms(1)])
  fix x and r :: proc
  let ?r = "r\<lparr>ofile := (ofile r)[i := None]\<rparr>" and ?M = "filter (\<lambda>(j, g). j \<noteq> i) L"
  assume x: "pinned p Y L x" "length (slots x) = NPROC" "slots x ! p = slot_of r" "proc_typed r"
  then have r: "\<not> dead r" "i < NOFILE" "ofile r ! i = Some f" "\<forall>(j, g) \<in> set L. ofile r ! j = Some g"
    using pinned_slot [OF x(1,3)] assms(2) by (auto simp: pinned_def)
  have d: "distinct (map fst ?M)" "\<And>j g. (j, g) \<in> set ?M \<Longrightarrow> j < NOFILE \<and> ofile ?r ! j = Some g"
    using x(1) r by (auto simp: pinned_def distinct_map_filter)
  have "pinned p Y ?M (x\<lparr>slots := (slots x)[p := slot_of ?r]\<rparr>)"
    by (rule pinned_update [OF x(1,3,2) _ d]) (use r(1) in \<open>simp_all add: dead_def\<close>)
  then show "proc_typed ?r \<and> add_mset (FileRef f) A + slot_refs (slot_of ?r) = A + slot_refs (slot_of r) \<and>
      pinned p Y ?M (x\<lparr>slots := (slots x)[p := slot_of ?r]\<rparr>)"
    using typed_ofile [OF x(4) r(1)] refs_ofile [OF x(4) r(2), of None] r(3) by (simp add: ac_simps)
qed

lemma free_fd_slot: "free_fd q = Some i \<Longrightarrow> i < NOFILE \<and> ofile q ! i = None"
  unfolding free_fd_def by (rule find_upt)

lemma keeps_fdalloc:
  assumes "keeps (has (add_mset (FileRef f) A) (pinned p Y L)) (k (-1)) Q"
    and "\<And>i. i < NOFILE \<Longrightarrow> keeps (has A (pinned p Y ((i, f) # L))) (k (int i)) Q"
  shows "keeps (has (add_mset (FileRef f) A) (pinned p Y L)) (bnd (fdalloc f) k) Q"
  unfolding fdalloc_def bnd_assoc
proof (rule keeps_me)
  fix p'
  assume p': "p' < NPROC"
  let ?m = "bnd (get_proc p' free_fd) (\<lambda>v. case v of None \<Rightarrow> k (-1) | Some i \<Rightarrow>
      thn (upd_proc p' (\<lambda>q. q\<lparr>ofile := (ofile q)[i := Some f]\<rparr>)) (k (int i)))"
  have "keeps (has (add_mset (FileRef f) A) (pinned p Y L)) ?m Q" if "p' = p"
    unfolding that
  proof (rule keeps_get_proc)
    fix q
    show "keeps (has (add_mset (FileRef f) A) (\<lambda>x. pinned p Y L x \<and> slots x ! p = slot_of q))
        (case free_fd q of None \<Rightarrow> k (-1) | Some i \<Rightarrow> thn (upd_proc p (\<lambda>q. q\<lparr>ofile := (ofile q)[i := Some f]\<rparr>)) (k (int i))) Q"
    proof (cases "free_fd q")
      case None
      then show ?thesis using keeps_drop [OF assms(1)] by simp
    next
      case (Some i)
      from free_fd_slot [OF this] have i: "i < NOFILE" "ofile q ! i = None" by auto
      have "keeps (has (opt_ref FileRef (Some f) + A) (\<lambda>x. pinned p Y L x \<and> slots x ! p = slot_of q))
          (upd_proc p (\<lambda>q. q\<lparr>ofile := (ofile q)[i := Some f]\<rparr>)) (\<lambda>_. has A (pinned p Y ((i, f) # L)))"
        using p' that i by (intro keeps_install) auto
      from keeps_thn [OF this assms(2) [OF i(1)]] Some show ?thesis by simp
    qed
  qed (use p' that in simp)
  moreover have "keeps (\<lambda>C x. C = B \<and> pinned p Y L x \<and> who x = Some p') ?m Q" if "p' \<noteq> p" for B
    using that by (auto simp: keeps_def pinned_def)
  ultimately show "keeps (\<lambda>C x. C = add_mset (FileRef f) A \<and> pinned p Y L x \<and> who x = Some p') ?m Q"
    by (cases "p' = p") (auto intro: keeps_drop)
qed

subsection \<open>System calls\<close>

lemma quiet_clock [quiets]: "quiet ticks_get" "quiet (ticks_sleep n)"
  unfolding ticks_get_def ticks_sleep_def ticks_sleep_loop_def
  by (rule moves_rules moves_sleep moves_call quiets quiet_same quietI | (simp; fail))+

lemma quiet_fetch_args [quiets]: "quiet (fetch_args is pt uargv args)"
proof (induction "is" arbitrary: args)
  case (Cons i "is")
  show ?case unfolding fetch_args.simps Let_def by (rule moves_rules moves_call quiets Cons quietI | (simp; fail))+
qed (simp add: quietI moves_ret)

lemma moves_sys_proc:
  "moves live A sys_yield (\<lambda>_. A)" "moves live A sys_exit (\<lambda>_. A)" "moves live A sys_sbrk (\<lambda>_. A)"
  "moves live A sys_fork (\<lambda>_. A)" "moves live A sys_wait (\<lambda>_. A)" "moves live A sys_exec (\<lambda>_. A)"
  "moves live A sys_getpid (\<lambda>_. A)" "moves live A sys_sleep (\<lambda>_. A)" "moves live A sys_uptime (\<lambda>_. A)"
  "moves live A sys_kill (\<lambda>_. A)" "moves live A sys_hello_id (\<lambda>_. A)"
  unfolding sys_yield_def sys_exit_def sys_sbrk_def sys_fork_def sys_wait_def sys_exec_def sys_getpid_def
    sys_sleep_def sys_uptime_def sys_kill_def sys_hello_id_def Let_def
  by (rule moves_me moves_fork moves_wait moves_proc_exit moves_rules moves_call quiets | (simp; fail))+

lemma keeps_fd_file:
  assumes "p < NPROC" and "keeps (has A X) (k None) Q"
    and "\<And>f q. proc_typed q \<Longrightarrow> 0 \<le> fd \<Longrightarrow> nat fd < NOFILE \<Longrightarrow> f < NFILE \<Longrightarrow> ofile q ! nat fd = Some f \<Longrightarrow>
      keeps (has A (\<lambda>x. X x \<and> slots x ! p = slot_of q)) (k (Some f)) Q"
  shows "keeps (has A X) (bnd (fd_file p fd) k) Q"
proof (cases "fd < 0 \<or> int NOFILE \<le> fd")
  case True
  then have "bnd (fd_file p fd) k = k None" by (simp only: fd_file_def if_True bnd_assoc)
  with assms(2) show ?thesis by simp
next
  case False
  then have e: "bnd (fd_file p fd) k = bnd (get_proc p (\<lambda>q. ofile q ! nat fd)) k" and fd: "0 \<le> fd" "nat fd < NOFILE"
    by (simp_all only: fd_file_def if_False) linarith+
  show ?thesis unfolding e
  proof (rule keeps_get_proc [OF assms(1)])
    fix q
    assume q: "proc_typed q" "slot_in_range q"
    show "keeps (has A (\<lambda>x. X x \<and> slots x ! p = slot_of q)) (k (ofile q ! nat fd)) Q"
    proof (cases "ofile q ! nat fd")
      case None
      then show ?thesis using keeps_drop [OF assms(2)] by simp
    next
      case (Some f)
      with q(2) fd have "f < NFILE" by (auto simp: slot_in_range_def)
      with assms(3) q(1) fd Some show ?thesis by simp
    qed
  qed
qed

lemma moves_fd_file:
  "p < NPROC \<Longrightarrow> moves X A (k None) B \<Longrightarrow> (\<And>f. f < NFILE \<Longrightarrow> moves X A (k (Some f)) B) \<Longrightarrow> moves X A (bnd (fd_file p fd) k) B"
  unfolding moves_def by (rule keeps_fd_file) (auto intro: keeps_drop)

lemma moves_sys_file:
  "moves X A sys_write (\<lambda>_. A)" "moves X A sys_read (\<lambda>_. A)" "moves X A (sys_fstat pad) (\<lambda>_. A)"
  unfolding sys_write_def sys_read_def sys_fstat_def Let_def
  by (simp only: option.case | rule moves_me moves_fd_file moves_rules moves_call quiets | (simp; fail))+

lemma keeps_pin: "keeps (has A (pinned p (\<lambda>_. True) [])) m Q \<Longrightarrow> keeps (has A (\<lambda>x. live x \<and> who x = Some p)) m Q"
  by (erule keeps_pre) (simp add: pinned_def)

lemma moves_pinned_live: "moves live A m B \<Longrightarrow> keeps (has A (pinned p Y L)) m (\<lambda>v. has (B v) live)"
  unfolding moves_def by (erule keeps_pre) (simp add: pinned_live)

lemma keeps_pin_fd:
  assumes "j < NOFILE" and "ofile q ! j = Some f" and "keeps (has A (pinned p Y [(j, f)])) m Q"
  shows "keeps (has A (\<lambda>x. pinned p Y [] x \<and> slots x ! p = slot_of q)) m Q"
  by (rule keeps_pre [OF assms(3)]) (use assms(1,2) in \<open>auto simp: pinned_def slot_of_def\<close>)

lemma moves_close: "FileRef f \<in># A \<Longrightarrow> (\<And>v. B v = A - {#FileRef f#}) \<Longrightarrow> moves live A (fileclose (Some f)) B"
  by (rule moves_fileclose) (simp_all add: live_fips)

lemma keeps_ret_pinned: "keeps (has A (pinned p Y L)) (ret v) (\<lambda>_. has A live)"
  by (rule keeps_ret_has) (blast dest: pinned_live)

lemma moves_sys_close: "moves live A sys_close (\<lambda>_. A)"
  unfolding sys_close_def Let_def moves_def
  apply (rule keeps_me, rule keeps_pin)
  apply (rule keeps_quiet, rule quiets)
  apply (rule keeps_fd_file, assumption)
   apply (simp only: option.case, rule keeps_ret_pinned)
  apply (simp only: option.case)
  apply (rule keeps_pin_fd, assumption, assumption)
  apply (rule keeps_thn, rule keeps_clear, assumption, simp)
  apply (rule moves_pinned_live)
  apply (rule moves_close moves_rules | (simp; fail))+
  done

lemma moves_sys_dup: "moves live A sys_dup (\<lambda>_. A)"
  unfolding sys_dup_def moves_def
  apply (rule keeps_me, rule keeps_pin)
  apply (rule keeps_quiet, rule quiets)
  apply (rule keeps_fd_file, assumption)
   apply (simp only: option.case, rule keeps_ret_pinned)
  apply (simp only: option.case)
  apply (rule keeps_drop)
  apply (rule keeps_get_proc, assumption)
  apply (rule keeps_option)
   apply (rule keeps_drop, rule keeps_ret_pinned)
  apply (rule keeps_moves, rule moves_filedup, assumption, rule refl)
  subgoal for p a0 f q fdq i g
    apply (drule free_fd_slot)
    apply (rule keeps_thn, rule keeps_install [where M = "case g of None \<Rightarrow> [] | Some h \<Rightarrow> [(i, h)]"])
    apply (auto intro!: keeps_ret_has dest: pinned_live)
    done
  done

text \<open>Calls on an inode the caller holds a reference to.\<close>

lemma quiet_locked_inode [quiets]: "quiet (locked_inode i g)" "quiet (isdirempty i)"
  unfolding locked_inode_def isdirempty_def Let_def by (rule moves_rules moves_call quiets quietI | (simp; fail))+

lemma moves_held:
  assumes "NodeRef i \<in># A" and "\<And>v. B v = A" and "i < NINODE \<Longrightarrow> quiet m"
  shows "moves X A m B"
  using assms by (auto intro: moves_node moves_call)

lemma moves_change_inode:
  assumes "NodeRef i \<in># A" and "\<And>v. B v = A"
    and "\<And>n. iref (g n) = iref n" and "\<And>n. length (iaddrs n) = NDIRECT + 1 \<Longrightarrow> length (iaddrs (g n)) = NDIRECT + 1"
  shows "moves X A (change_inode i g) B"
  unfolding change_inode_def
  by (rule moves_held [OF assms(1,2)])
    (rule moves_rules moves_call quiets quiet_upd_inode assms(3,4) quietI | (simp; fail))+

lemma moves_dirlink: "NodeRef d \<in># A \<Longrightarrow> (\<And>v. B v = A) \<Longrightarrow> moves X A (dirlink d name ino) B"
  and moves_writei: "NodeRef d \<in># A \<Longrightarrow> (\<And>v. C v = A) \<Longrightarrow> moves X A (writei (Some d) off src) C"
  and moves_itrunc: "NodeRef d \<in># A \<Longrightarrow> (\<And>v. D v = A) \<Longrightarrow> moves X A (itrunc (Some d)) D"
  and moves_iupdate: "NodeRef d \<in># A \<Longrightarrow> (\<And>v. D v = A) \<Longrightarrow> moves X A (iupdate (Some d)) D"
  by - (rule moves_held, assumption, simp, rule quiets, assumption)+

lemma moves_parent: "(\<And>v. B v = (case v of (r, nm) \<Rightarrow> node_opt r + A)) \<Longrightarrow> moves X A (nameiparent path) B"
  by (rule moves_nameiparent) (simp split: prod.split)

lemmas moves_nodes = moves_pre_opt_ref0 moves_pre_opt_ref moves_namei moves_parent moves_dirlookup moves_ialloc moves_iput
  moves_change_inode moves_dirlink moves_writei moves_itrunc moves_iupdate

lemma moves_create: "(\<And>r. B r = node_opt r + A) \<Longrightarrow> moves X A (create path type) B"
proof (rule moves_take [where B = node_opt])
  show "moves X {#} (create path type) node_opt"
    unfolding create_def Let_def
    by (rule moves_nodes moves_rules moves_call quiets | (simp; fail))+
qed simp

lemma moves_sys_dirs: "moves X A sys_mkdir (\<lambda>_. A)" "moves X A sys_link (\<lambda>_. A)"
  unfolding sys_mkdir_def sys_link_def Let_def
  by (rule moves_me moves_create moves_nodes moves_rules moves_call quiets quiet_upd_inode | (simp; fail))+

lemma moves_sys_unlink: "moves X A sys_unlink (\<lambda>_. A)"
  unfolding sys_unlink_def Let_def
  by (rule moves_me moves_create moves_nodes moves_rules moves_call quiets quiet_upd_inode | (simp; fail))+

lemma keeps_chdir:
  assumes "p < NPROC" and "NodeRef i \<in># A"
  shows "keeps (has A (\<lambda>x. (live x \<and> who x = Some p) \<and> slots x ! p = slot_of q)) (upd_proc p (\<lambda>q. q\<lparr>cwd := Some i\<rparr>))
     (\<lambda>_. has (node_opt (cwd q) + (A - {#NodeRef i#})) live)"
proof (rule keeps_upd_slot [OF assms(1)])
  fix x and r :: proc
  let ?r = "r\<lparr>cwd := Some i\<rparr>"
  assume x: "(live x \<and> who x = Some p) \<and> slots x ! p = slot_of q" "length (slots x) = NPROC" "slots x ! p = slot_of r" "proc_typed r"
  then have r: "\<not> dead r" "cwd r = cwd q" by (auto simp: live_def slot_of_def)
  then have "proc_typed ?r" using x(4) by (simp add: proc_typed_def dead_def)
  moreover have "live (x\<lparr>slots := (slots x)[p := slot_of ?r]\<rparr>)"
    using x(1,2) r(1) by (intro live_alive) (simp_all add: slot_of_def dead_def)
  moreover have "slot_refs (slot_of ?r) + node_opt (cwd q) = add_mset (NodeRef i) (slot_refs (slot_of r))"
    using refs_cwd [where q = r and c = "Some i"] r(2) by simp
  moreover have "add_mset (NodeRef i) (A - {#NodeRef i#}) = A" using assms(2) by simp
  ultimately show "proc_typed ?r \<and> node_opt (cwd q) + (A - {#NodeRef i#}) + slot_refs (slot_of ?r) = A + slot_refs (slot_of r) \<and>
      live (x\<lparr>slots := (slots x)[p := slot_of ?r]\<rparr>)"
    by (metis (no_types, lifting) add.assoc add.commute union_mset_add_mset_left union_mset_add_mset_right)
qed

lemma moves_sys_chdir: "moves live A sys_chdir (\<lambda>_. A)"
proof -
  have out: "moves live (node_opt c + A) (thn (release l) (thn (whenk (c \<noteq> None) (iput c)) (ret r))) (\<lambda>_. A)" for c l A and r :: u64
    by (cases c) (auto simp: whenk_def intro!: moves_unlock moves_thn [OF moves_ret] moves_thn [OF moves_iput] moves_ret)
  have weak: "moves X A m B \<Longrightarrow> (\<And>x. X x \<Longrightarrow> live x) \<Longrightarrow> keeps (has A X) m (\<lambda>v. has (B v) live)" for X A m B
    unfolding moves_def by (erule keeps_post) simp
  show ?thesis
    unfolding sys_chdir_def moves_def
    apply (rule keeps_me)
    apply (rule keeps_quiet, rule quiets)+
    apply (rule keeps_option, rule keeps_ret_has, simp)
    apply (rule keeps_moves, rule moves_namei, rule refl)
    subgoal for p pt a0 po path ipo
      apply (cases ipo)
       apply (simp only: option.case opt_ref_simps add_0, rule keeps_ret_has, simp)
      apply (simp only: option.case opt_ref_simps)
      apply (rule keeps_quiet, rule quiets)
      apply (rule keeps_if)
       apply (rule weak)
        apply (rule moves_iput moves_rules | (simp; fail))+
      apply (rule keeps_quiet_thn, rule quiets)
      apply (rule keeps_get_proc, assumption)
      apply (rule keeps_thn, rule keeps_chdir, assumption, simp)
      apply (rule weak)
       apply (rule moves_pre, rule out, simp)
      apply assumption
      done
    done
qed

lemma keeps_live: "moves live A m B \<Longrightarrow> (\<And>x. X x \<Longrightarrow> live x) \<Longrightarrow> keeps (has A X) m (\<lambda>v. has (B v) live)"
  unfolding moves_def by (erule keeps_pre) simp

lemma keeps_unpin: "(\<And>x. pinned p Y L x \<Longrightarrow> pinned p Z M x) \<Longrightarrow> keeps (has A (pinned p Z M)) m Q \<Longrightarrow> keeps (has A (pinned p Y L)) m Q"
  by (erule keeps_pre) simp

lemma keeps_distinct: "(distinct (map fst L) \<Longrightarrow> keeps (has A (pinned p Y L)) m Q) \<Longrightarrow> keeps (has A (pinned p Y L)) m Q"
  by (cases "distinct (map fst L)") (auto simp: keeps_def pinned_def)

text \<open>Both ends are closed unless both descriptors are installed and reported.\<close>

lemma moves_sys_pipe: "moves live A sys_pipe (\<lambda>_. A)"
proof (rule moves_take [where B = "\<lambda>_. {#}"])
  have close: "moves live {#FileRef a, FileRef b#} (thn (fileclose (Some a)) (thn (fileclose (Some b)) (ret r))) (\<lambda>_. {#})" for a b and r :: u64
    by (rule moves_close moves_rules | (simp; fail))+
  show "moves live {#} sys_pipe (\<lambda>_. {#})"
    unfolding sys_pipe_def moves_def Let_def
    apply (rule keeps_me, rule keeps_pin)
    apply (rule keeps_quiet, rule quiets)
    apply (rule keeps_moves, rule moves_pipealloc)
     apply (simp add: pinned_def live_fips)
    subgoal for p arr v
      apply (cases v)
      subgoal for r rfo wfo
        apply (cases "case (rfo, wfo) of (Some a, Some b) \<Rightarrow> r < 0 | _ \<Rightarrow> True")
         apply (rule keeps_live)
          apply (auto simp: pipe_refs_def pinned_def intro!: moves_ret split: option.splits)[2]
        apply (clarsimp simp: pipe_refs_def split: option.splits)
        apply (rule keeps_fdalloc)
         apply (simp, rule moves_pinned_live [OF close])
        apply simp
        apply (rule keeps_fdalloc)
         apply simp
         apply (rule keeps_thn, rule keeps_clear, assumption, simp)
         apply (rule moves_pinned_live [OF close])
        apply simp
        apply (rule keeps_distinct)
        apply (rule keeps_quiet, rule quiets)+
        apply (rule keeps_if)
         apply (rule keeps_thn, rule keeps_clear, assumption, simp)
         apply (rule keeps_thn, rule keeps_clear, assumption, simp)
         apply (simp add: add_mset_commute, rule moves_pinned_live [OF close])
        apply (rule keeps_ret_pinned)
        done
      done
    done
qed simp

lemma keeps_filealloc_pin:
  assumes "keeps (has A (pinned p (\<lambda>_. True) L)) (k None) Q"
    and "\<And>f. f < NFILE \<Longrightarrow> keeps (has (add_mset (FileRef f) A) (pinned p (\<lambda>g. g ! f = None) L)) (k (Some f)) Q"
  shows "keeps (has A (pinned p (\<lambda>_. True) L)) (bnd filealloc k) Q"
proof (rule keeps_bnd [OF keeps_filealloc])
  fix r
  show "keeps (\<lambda>C x. C = opt_ref FileRef r + A \<and> pinned p (\<lambda>_. True) L x \<and> (\<forall>f. r = Some f \<longrightarrow> f < NFILE \<and> fips x ! f = None)) (k r) Q"
  proof (cases r)
    case None
    with assms(1) show ?thesis by simp
  next
    case (Some f)
    show ?thesis
    proof (cases "f < NFILE")
      case True
      show ?thesis unfolding Some by (rule keeps_pre [OF assms(2) [OF True]]) (simp add: pinned_def)
    qed (simp add: Some keeps_def)
  qed
qed

text \<open>A file a descriptor points to has a reference, and may be made to refer to an inode.\<close>

lemma pinned_fref:
  assumes "sound A s" and "pinned p Y L (shape_of s)" and "(i, f) \<in> set L"
  shows "f < NFILE" and "fref (ftable s ! f) \<noteq> 0"
proof -
  have ty: "typed s" using assms(1) by (simp add: sound_def)
  have r: "in_range s" by (rule sound_in_range [OF assms(1)])
  have c: "cur s = Some p" using assms(2) by (simp add: pinned_def)
  have p: "p < NPROC" by (rule in_range_cur [OF r c])
  from assms(2,3) ty p have i: "i < NOFILE" "ofile (procs s ! p) ! i = Some f" by (auto simp: pinned_def slot_of_def)
  show f: "f < NFILE" by (rule in_range_ofile [OF r p i])
  have "Some f \<in> set (ofile (procs s ! p))"
    using i nth_mem [of i "ofile (procs s ! p)"] typed_proc [OF ty p] by (simp add: proc_typed_def)
  then have "FileRef f \<in># sum_list (map (opt_ref FileRef) (ofile (procs s ! p)))" by (rule in_sum_list) simp
  then have "FileRef f \<in># slot_refs (slot_of (procs s ! p))" by (simp add: slot_of_def)
  moreover have "slot_of (procs s ! p) \<in> set (slots (shape_of s))" using p ty by (simp add: shape_of_def typed_def)
  ultimately have "FileRef f \<in># sum_list (map slot_refs (slots (shape_of s)))" by (intro in_sum_list)
  then have "FileRef f \<in># refs (shape_of s) + A" by (simp add: refs_def)
  then have "count (refs (shape_of s) + A) (FileRef f) \<noteq> 0" by simp
  moreover have "int (count (refs (shape_of s) + A) (FileRef f)) = refnum s (FileRef f)" using assms(1) unfolding sound_def by blast
  ultimately have "refnum s (FileRef f) \<noteq> 0" by (metis of_nat_eq_0_iff)
  with f show "fref (ftable s ! f) \<noteq> 0" by simp
qed

lemma keeps_set_inode:
  assumes "(i, f) \<in> set L" and "\<And>e. fref (g e) = fref e \<and> fip (g e) = Some ip \<and> ftype (g e) = FD_INODE"
  shows "keeps (has (add_mset (NodeRef ip) A) (pinned p (\<lambda>h. h ! f = None) L)) (upd_file f g) (\<lambda>_. has A (pinned p (\<lambda>_. True) L))"
proof (rule keepsI)
  fix s :: "'z file_st_scheme" and C H
  let ?t = "s\<lparr>ftable := (ftable s)[f := g (ftable s ! f)]\<rparr>"
  assume "C = add_mset (NodeRef ip) A \<and> pinned p (\<lambda>h. h ! f = None) L (shape_of s)" and "sound (C + H) s"
  then have x: "pinned p (\<lambda>h. h ! f = None) L (shape_of s)" and s: "sound (add_mset (NodeRef ip) A + H) s" by auto
  note f = pinned_fref [OF s x assms(1)]
  have "typed s" using s by (simp add: sound_def)
  then have fip: "fip (ftable s ! f) = None" using x f(1) by (simp add: pinned_def)
  have "sound (A + H) ?t"
    using f(2) assms(2) fip by (intro sound_upd_file [OF s f(1)]) (simp_all add: file_typed_def)
  moreover have "pinned p (\<lambda>_. True) L (shape_of ?t)" using x by (simp add: shape_upd_proc(2) pinned_def live_def)
  ultimately show "case upd_file f g s of
        Ret v t \<Rightarrow> \<exists>C. (C = A \<and> pinned p (\<lambda>_. True) L (shape_of t)) \<and> sound (C + H) t
      | Sleeps c t \<Rightarrow> \<exists>C. sound (C + H) t | Leaves t \<Rightarrow> \<exists>C. sound (C + H) t | Panic e \<Rightarrow> True"
    by (simp add: upd_file_def)
qed

lemma moves_sys_open: "moves live A sys_open (\<lambda>_. A)"
proof (rule moves_take [where B = "\<lambda>_. {#}"])
  have close: "moves live {#FileRef a#} (thn (fileclose (Some a)) (ret r)) (\<lambda>_. {#})" for a and r :: u64
    by (rule moves_close moves_rules | (simp; fail))+
  have undo: "keeps (has {#} (pinned p Y [(i, f)])) (thn (upd_proc p (\<lambda>q. q\<lparr>ofile := (ofile q)[i := None]\<rparr>))
      (thn (fileclose (Some f)) (ret r))) (\<lambda>_. has {#} live)" if "p < NPROC" for p Y i f and r :: u64
    by (rule keeps_thn, rule keeps_clear [OF that], simp, rule moves_pinned_live [OF close])
  show "moves live {#} sys_open (\<lambda>_. {#})"
    unfolding sys_open_def moves_def Let_def
    apply (rule keeps_me, rule keeps_pin)
    apply (rule keeps_quiet, rule quiets)+
    apply (rule keeps_option, rule keeps_ret_pinned)
    apply (rule keeps_filealloc_pin)
     apply (simp only: option.case, rule keeps_ret_pinned)
    apply (simp only: option.case)
    apply (rule keeps_fdalloc)
     apply (simp, rule moves_pinned_live [OF close])
    apply (simp only: nat_int)
    apply (rule keeps_if, simp)
    apply (rule keeps_if)
     apply (rule keeps_moves_thn, rule moves_set_type, assumption, simp add: pinned_def, simp, rule refl)
     apply (rule keeps_if, erule undo, rule keeps_ret_pinned)
    apply (rule keeps_moves, rule moves_if, rule moves_create, rule refl, rule moves_namei, rule refl)
    subgoal for p a1 pt a0 po path f i ipo
      apply (cases ipo)
       apply (simp only: option.case opt_ref_simps add_0_right, erule undo)
      apply (simp only: option.case opt_ref_simps add_0_right)
      apply (rule keeps_quiet, rule quiets)
      apply (rule keeps_if)
       apply (rule keeps_moves_thn, rule moves_iput, simp, rule refl)
       apply (simp, erule undo)
      apply (rule keeps_moves_thn, rule moves_whenk, rule moves_itrunc, simp, rule refl, rule refl)
      apply (rule keeps_thn, rule keeps_set_inode, simp, simp)
      apply (rule keeps_if, erule undo, rule keeps_ret_pinned)
      done
    done
qed simp

lemma moves_handler: "syscalls pad num = Some h \<Longrightarrow> moves live A h (\<lambda>_. A)"
  by (auto simp: syscalls_def moves_sys_proc moves_sys_file moves_sys_close moves_sys_dup moves_sys_dirs
      moves_sys_unlink moves_sys_open moves_sys_chdir moves_sys_pipe split: if_splits)

lemma moves_syscall: "moves live A (syscall pad) (\<lambda>_. A)"
  unfolding syscall_def by (rule moves_handler moves_me moves_rules moves_call quiets | (simp; fail) | assumption)+

subsection \<open>What every system call keeps\<close>

text \<open>The pointers to a file and to an inode in the tables, counted where they are.\<close>

definition file_refs :: "'z file_st_scheme \<Rightarrow> nat \<Rightarrow> nat" where
  "file_refs s f = sum_list (map (\<lambda>q. count_list (ofile q) (Some f)) (procs s))"

definition node_refs :: "'z file_st_scheme \<Rightarrow> nat \<Rightarrow> nat" where
  "node_refs s i = count_list (map cwd (procs s)) (Some i) + count_list (map fip (ftable s)) (Some i)"

text \<open>\<open>counts_exact K s\<close>: every count is the number of pointers, with the references \<open>K\<close> of calls that sleep.\<close>

definition counts_exact :: "ref multiset \<Rightarrow> 'z file_st_scheme \<Rightarrow> bool" where
  "counts_exact K s \<longleftrightarrow>
     (\<forall>f < NFILE. fref (ftable s ! f) = int (file_refs s f + count K (FileRef f))) \<and>
     (\<forall>i < NINODE. iref (itable s ! i) = int (node_refs s i + count K (NodeRef i)))"

text \<open>The tables have their sizes, every entry is of its type and every pointer points into its table.\<close>

definition well_formed :: "'z file_st_scheme \<Rightarrow> bool" where
  "well_formed s \<longleftrightarrow> typed s \<and>
     (\<forall>q \<in> set (procs s). (\<forall>f. Some f \<in> set (ofile q) \<longrightarrow> f < NFILE) \<and> (\<forall>i. cwd q = Some i \<longrightarrow> i < NINODE)) \<and>
     (\<forall>e \<in> set (ftable s). \<forall>i. fip e = Some i \<longrightarrow> i < NINODE)"

definition running :: "'z kproc_scheme \<Rightarrow> bool" where
  "running s \<longleftrightarrow> (\<forall>p. cur s = Some p \<longrightarrow> \<not> dead (procs s ! p))"

lemma count_sum_list: "count (sum_list ms) r = sum_list (map (\<lambda>m. count m r) ms)"
  by (induction ms) simp_all

lemma count_opt_list:
  "sum_list (map (\<lambda>p. count (opt_ref k p) (k i)) ps) = count_list ps (Some i)" if "inj k" for k
proof (induction ps)
  case (Cons p ps)
  with that show ?case by (cases p) (auto simp: inj_eq)
qed simp

lemma count_other: "(\<And>i. r \<noteq> k i) \<Longrightarrow> count (opt_ref k p) r = 0"
  by (cases p) auto

lemma count_list_sum: "sum_list (map (\<lambda>q. count (opt_ref k (g q)) (k i)) qs) = count_list (map g qs) (Some i)" if "inj k" for k
  using count_opt_list [OF that, where ps = "map g qs" and i = i] by (simp add: comp_def)

lemma inj_refs: "inj FileRef" "inj NodeRef"
  by (simp_all add: inj_def)

lemma count_refs:
  "count (refs (shape_of s)) (FileRef f) = file_refs s f" "count (refs (shape_of s)) (NodeRef i) = node_refs s i"
proof -
  have "count (slot_refs (slot_of q)) (FileRef f) = count_list (ofile q) (Some f)"
    "count (slot_refs (slot_of q)) (NodeRef i) = count (node_opt (cwd q)) (NodeRef i)" for q
    using count_opt_list [OF inj_refs(1), where ps = "ofile q" and i = f]
    by (simp_all add: slot_of_def count_sum_list comp_def count_other)
  then show "count (refs (shape_of s)) (FileRef f) = file_refs s f" "count (refs (shape_of s)) (NodeRef i) = node_refs s i"
    using count_list_sum [OF inj_refs(2), where g = cwd and qs = "procs s" and i = i]
      count_list_sum [OF inj_refs(2), where g = fip and qs = "ftable s" and i = i]
    by (simp_all add: refs_def shape_of_def file_refs_def node_refs_def count_sum_list comp_def count_other)
qed

lemma count_pos: "x \<in> set xs \<Longrightarrow> 0 < count_list xs x"
  by (induction xs) auto

lemma sound_iff: "sound K s \<longleftrightarrow> well_formed s \<and> counts_exact K s \<and> (\<forall>r \<in># K. valid_ref r)"
proof (intro iffI conjI)
  assume s: "sound K s"
  have n: "int (count (refs (shape_of s) + K) r) = refnum s r" for r using s by (simp only: sound_def)
  show "\<forall>r \<in># K. valid_ref r" using sound_valid [OF s] by simp
  show "counts_exact K s" using n [of "FileRef f" for f] n [of "NodeRef i" for i] by (simp add: counts_exact_def count_refs)
  have "valid_ref r" if "0 < count (refs (shape_of s)) r" for r using sound_valid [OF s, of r] that by simp
  then have v: "0 < file_refs s f \<Longrightarrow> f < NFILE" "0 < node_refs s i \<Longrightarrow> i < NINODE" for f i
    unfolding count_refs [symmetric] by (metis valid_ref_simps(1), metis valid_ref_simps(2))
  have "f < NFILE" if "q \<in> set (procs s)" "Some f \<in> set (ofile q)" for q f
    using that count_pos [of "Some f" "ofile q"] by (intro v(1)) (auto simp: file_refs_def sum_list_eq_0_iff neq0_conv [symmetric] simp del: neq0_conv)
  moreover have "i < NINODE" if "q \<in> set (procs s)" "cwd q = Some i" for q i
    using that count_pos [of "Some i" "map cwd (procs s)"] by (intro v(2)) (force simp: node_refs_def)
  moreover have "i < NINODE" if "e \<in> set (ftable s)" "fip e = Some i" for e i
    using that count_pos [of "Some i" "map fip (ftable s)"] by (intro v(2)) (force simp: node_refs_def)
  ultimately show "well_formed s" using s by (auto simp: well_formed_def sound_def)
next
  assume s: "well_formed s \<and> counts_exact K s \<and> (\<forall>r \<in># K. valid_ref r)"
  have "int (count (refs (shape_of s) + K) r) = refnum s r" for r
  proof (cases "valid_ref r")
    case True
    with s show ?thesis by (cases r) (auto simp: counts_exact_def count_refs)
  next
    case False
    then have "count K r = 0" using s by (meson count_inI)
    moreover have "count (refs (shape_of s)) r = 0"
    proof (cases r)
      case (FileRef f)
      then have "Some f \<notin> set (ofile q)" if "q \<in> set (procs s)" for q using s False that by (auto simp: well_formed_def)
      then show ?thesis using FileRef by (simp add: count_refs file_refs_def)
    next
      case (NodeRef i)
      then have "Some i \<notin> set (map cwd (procs s))" "Some i \<notin> set (map fip (ftable s))"
        using s False by (fastforce simp: well_formed_def)+
      then show ?thesis using NodeRef by (simp add: count_refs node_refs_def)
    qed
    ultimately show ?thesis using False by (cases r) simp_all
  qed
  with s show "sound K s" by (simp add: sound_def well_formed_def)
qed

lemma live_running: "typed s \<Longrightarrow> running s \<Longrightarrow> live (shape_of s)"
  by (auto simp: live_def running_def slot_of_def typed_def shape_of_def)

lemma movesD:
  assumes "moves X {#} m (\<lambda>_. {#})" and "sound K s" and "X (shape_of s)"
  shows "case m s of Ret v t \<Rightarrow> sound K t \<and> X (shape_of t) | Sleeps c t \<Rightarrow> \<exists>L. sound (L + K) t
     | Leaves t \<Rightarrow> \<exists>L. sound (L + K) t | Panic e \<Rightarrow> True"
proof -
  have s: "sound ({#} + K) s" using assms(2) by simp
  have "case m s of
        Ret v t \<Rightarrow> \<exists>C. (C = {#} \<and> X (shape_of t)) \<and> sound (C + K) t
      | Sleeps c t \<Rightarrow> \<exists>C. sound (C + K) t | Leaves t \<Rightarrow> \<exists>C. sound (C + K) t | Panic e \<Rightarrow> True"
    using assms(1) [unfolded moves_def keeps_def] s assms(3) by blast
  then show ?thesis by (auto split: outcome.splits)
qed

lemma moves_outcome:
  assumes "moves live {#} m (\<lambda>_. {#})" and "well_formed s" and "counts_exact K s" and "\<forall>r \<in># K. valid_ref r" and "running s"
  shows "case m s of Ret v t \<Rightarrow> sound K t | Sleeps c t \<Rightarrow> \<exists>L. sound (L + K) t | Leaves t \<Rightarrow> \<exists>L. sound (L + K) t | Panic e \<Rightarrow> True"
proof -
  have s: "sound K s" using assms(2-4) by (simp add: sound_iff)
  have l: "live (shape_of s)" using assms(2,5) by (intro live_running) (simp_all add: well_formed_def)
  from movesD [OF assms(1) s l] show ?thesis by (auto split: outcome.splits)
qed


text \<open>A process with one descriptor that asks for a second one.\<close>

definition demo_dup :: trap_st where
  "demo_dup = demo_trap
     \<lparr>ftable := (replicate NFILE empty_file)[0 := empty_file\<lparr>fref := 1, ftype := FD_CONSOLE, readable := True\<rparr>],
      procs := (procs demo_trap)[1 := (procs demo_trap ! 1)\<lparr>ofile := (replicate NOFILE None)[0 := Some 0]\<rparr>],
      mem := store64 (\<lambda>_. 0) (0x80004000 + tf_a7) 10\<rparr>"

lemma demo_dup_fields:
  "procs demo_dup = (replicate NPROC idle_proc)[1 := idle_proc\<lparr>pid := 1, pstate := RUNNING, pagetable := 0x80003000,
     trapframe := 0x80004000, ofile := (replicate NOFILE None)[0 := Some 0]\<rparr>]"
  "ftable demo_dup = (replicate NFILE empty_file)[0 := empty_file\<lparr>fref := 1, ftype := FD_CONSOLE, readable := True\<rparr>]"
  "mem demo_dup = store64 (\<lambda>_. 0) 0x800040A8 10" "cur demo_dup = Some (Suc 0)" "held demo_dup = {}"
  "itable demo_dup = replicate NINODE idle_inode" "bufs demo_dup = replicate NBUF zero_buf" "lru demo_dup = rev [0..<NBUF]"
  "disk demo_dup = (\<lambda>_. replicate BSIZE 0)" "cbuf demo_dup = replicate INPUT_BUF 0" "pipes demo_dup = (\<lambda>_. empty_pipe)"
  "initproc demo_dup = None"
  by (simp_all add: demo_dup_def demo_trap_def file_st.defs clock_st.defs trap_st.defs demos NPROC_def)

lemma demo_dup_refs: "file_refs demo_dup f = (if f = 0 then 1 else 0)" "node_refs demo_dup i = 0"
proof -
  have c: "count_list (replicate n x) y = (if x = y then n else 0)" for n and x y :: "nat option" by (induction n) auto
  have z: "sum_list (map (\<lambda>q. count_list (ofile q) (Some f)) (replicate n idle_proc)) = 0" for n
    by (induction n) (simp_all add: idle_proc_def c)
  show "file_refs demo_dup f = (if f = 0 then 1 else 0)"
    using z [of 14] by (auto simp: file_refs_def demo_dup_fields NPROC_def NOFILE_def idle_proc_def c numeral_eq_Suc)
  show "node_refs demo_dup i = 0"
    by (simp add: node_refs_def demo_dup_fields map_update c idle_proc_def empty_file_def NPROC_def NFILE_def numeral_eq_Suc)
qed

lemma demo_dup_start: "well_formed demo_dup" "counts_exact {#} demo_dup" "running demo_dup"
proof -
  show "counts_exact {#} demo_dup"
    by (auto simp: counts_exact_def demo_dup_refs demo_dup_fields nth_list_update empty_file_def idle_inode_def NFILE_def NINODE_def)
  show "running demo_dup" by (simp add: running_def demo_dup_fields dead_def NPROC_def)
  have "typed demo_dup"
    by (auto simp: typed_def demo_dup_fields list_all_iff set_update_subset_insert proc_typed_def file_typed_def idle_proc_def
        dead_def empty_file_def idle_inode_def zero_buf_def empty_pipe_def NDIRECT_def NBUF_def NPROC_def dest!: set_update_subset_insert [THEN subsetD])
  then show "well_formed demo_dup"
    by (auto simp: well_formed_def demo_dup_fields idle_proc_def empty_file_def NFILE_def
        NPROC_def dest!: set_update_subset_insert [THEN subsetD])
qed

lemma load64_zero: "load64 (\<lambda>_. 0) a = 0"
proof -
  have "of_le (replicate n 0) = (0 :: u64)" for n by (induction n) (simp_all add: of_le.simps)
  then show ?thesis by (simp add: load64_def load_bytes_def map_replicate_const)
qed

lemma dup_call:
  assumes "cur s = Some p" and "load64 (mem s) (trapframe (procs s ! p) + tf_a7) = 10"
    and "load64 (mem s) (trapframe (procs s ! p) + tf_a0) = 0" and "ofile (procs s ! p) ! 0 = Some f"
    and "free_fd (procs s ! p) = Some i" and "FtableLock \<notin> held s" and "1 \<le> fref (ftable s ! f)"
  shows "\<exists>t. syscall [] s = Ret () t \<and> ftable t = (ftable s)[f := (ftable s ! f)\<lparr>fref := fref (ftable s ! f) + 1\<rparr>] \<and>
     procs t = (procs s)[p := (procs s ! p)\<lparr>ofile := (ofile (procs s ! p))[i := Some f]\<rparr>] \<and> cur t = cur s"
proof -
  have "\<exists>v t. sys_dup s = Ret v t \<and> ftable t = (ftable s)[f := (ftable s ! f)\<lparr>fref := fref (ftable s ! f) + 1\<rparr>] \<and>
     procs t = (procs s)[p := (procs s ! p)\<lparr>ofile := (ofile (procs s ! p))[i := Some f]\<rparr>] \<and> cur t = cur s"
    using assms by (simp add: sys_dup_def me_def get_tf_def fd_file_def c_int_def NOFILE_def filedup_def upd_file_def get_file_def
        upd_proc_def run_simps)
  then show ?thesis
    using assms(1,2) by (auto simp: syscall_def me_def get_tf_def set_tf_def syscalls_def c_int_def bnd_apply)
qed

lemma demo_dup_call: "\<exists>t. syscall [] demo_dup = Ret () t \<and> fref (ftable t ! 0) = 2"
proof -
  have a0: "load64 (store64 (\<lambda>_. 0) 0x800040A8 10) 0x80004070 = 0"
    by (subst load64_store64_disj) (simp_all add: disj_def load64_zero)
  have p: "procs demo_dup ! 1 = idle_proc\<lparr>pid := 1, pstate := RUNNING, pagetable := 0x80003000,
     trapframe := 0x80004000, ofile := (replicate NOFILE None)[0 := Some 0]\<rparr>"
    by (simp add: demo_dup_fields NPROC_def)
  then have free: "free_fd (procs demo_dup ! 1) = Some 1" by (simp add: free_fd_def NOFILE_def upt_rec numeral_eq_Suc)
  have f: "ftable demo_dup ! 0 = empty_file\<lparr>fref := 1, ftype := FD_CONSOLE, readable := True\<rparr>"
    by (simp add: demo_dup_fields NFILE_def)
  have "\<exists>t. syscall [] demo_dup = Ret () t \<and> ftable t = (ftable demo_dup)[0 := (ftable demo_dup ! 0)\<lparr>fref := fref (ftable demo_dup ! 0) + 1\<rparr>] \<and>
     procs t = (procs demo_dup)[1 := (procs demo_dup ! 1)\<lparr>ofile := (ofile (procs demo_dup ! 1))[1 := Some 0]\<rparr>] \<and> cur t = cur demo_dup"
    by (rule dup_call) (use a0 p free in \<open>simp_all add: demo_dup_fields(3-5) f NOFILE_def\<close>)
  then obtain t where "syscall [] demo_dup = Ret () t" "ftable t = (ftable demo_dup)[0 := (ftable demo_dup ! 0)\<lparr>fref := fref (ftable demo_dup ! 0) + 1\<rparr>]"
    by blast
  then show ?thesis by (intro exI [of _ t]) (simp add: demo_dup_fields(2) NFILE_def empty_file_def)
qed


end
