(* ===== verification/BootTables.thy ===== *)
theory BootTables
  imports Boot RefTables
begin

section \<open>What the boot establishes\<close>

text \<open>
  The boot starts from zeroed memory. This theory shows that its initialisers leave the
  tables of the kernel well formed and the reference counts exact, which is what the theorems on the
  system calls assume of the state they start from, and that the only process is \<^verbatim>\<open>init\<close>, with the
  console as its first three files.
\<close>

subsection \<open>Initialisers that touch no pointer\<close>

text \<open>The lines the boot prints have no conversions.\<close>

lemma printf_chars_plain: "37 \<notin> set fmt \<Longrightarrow> printf_chars fmt args = Some (map uint (takeWhile (\<lambda>c. c \<noteq> 0) fmt))"
proof (induction fmt)
  case (Cons c fmt)
  then show ?case by (subst printf_chars.simps) auto
qed (simp add: printf_chars.simps)

lemma kprint_plain: "37 \<notin> set fmt \<Longrightarrow> kprint fmt args = print_all (map uint (takeWhile (\<lambda>c. c \<noteq> 0) fmt))"
  by (simp add: kprint_def printf_def printf_chars_plain)

lemma quiet_hang [quiets]: "quiet hang"
  by (auto simp: quiet_def moves_def keeps_def hang_def intro: exI [of _ "{#}"])

lemma quiet_printing [quiets]: "quiet (print_all out)" "quiet printfinit"
  unfolding print_all_def printfinit_def consoleinit_def
  by (rule moves_rules moves_call quiets quiet_same quietI | (simp; fail))+

lemma quiet_kprint: "37 \<notin> set fmt \<Longrightarrow> quiet (kprint fmt args)"
  unfolding kprint_plain by (rule quiets)

lemma quiet_logo [quiets]: "quiet print_boot_logo" "quiet (kprint (chars ''[NexOS] Mounting filesystem...'' @ [10]) [])"
  unfolding print_boot_logo_def by (rule moves_rules moves_call quiet_kprint quietI | (simp add: chars_def; fail))+

lemma quiet_devices [quiets]: "quiet (on_uart f)" "quiet (on_plic g)" "quiet (plic_inithart_here B)" "quiet trap_init"
  unfolding on_uart_def on_plic_def plic_inithart_here_def cpuid_def trap_init_def clearsip_ssip_def
  by (rule moves_rules moves_call quiets quiet_same quietI | (simp; fail))+

lemma quiet_virtio [quiets]: "quiet (virtio_disk_init hw pages)"
  unfolding virtio_disk_init_def write_reg64_def write_reg_def reset_rings_def Let_def
  by (rule moves_rules moves_call quiets quiet_same quietI | (simp; fail))+

lemma quiet_kinit_loop [quiets]: "quiet (kinit_loop p)"
proof (induction p rule: kinit_loop.induct)
  case (1 p)
  show ?case unfolding kinit_loop.simps [of p] by (rule moves_rules moves_call quiets 1 quietI | (simp; fail))+
qed

lemma quiet_memory_init [quiets]: "quiet kinit" "quiet (kvmmap pt va pa len perm)" "quiet kvminit" "quiet kvminithart"
  unfolding kinit_def kvmmap_def kvminit_def kvmmake_def kvminithart_def
  by (rule moves_rules moves_call quiets quiet_same quietI | (simp; fail))+

lemma quiet_binit [quiets]: "quiet binit"
  unfolding binit_def
  by (rule moves_rules moves_call quiets quiet_set_lru [where g = "\<lambda>_. []"] quiet_set_lru [where g = "(#) b" for b] quietI | (simp; fail))+

subsection \<open>Initialisers of the tables\<close>

text \<open>While nothing points anywhere, clearing a table changes nothing that counts.\<close>

definition blank :: "shape \<Rightarrow> bool" where
  "blank x \<longleftrightarrow> who x = None \<and> (\<forall>i < NPROC. slots x ! i = free_slot) \<and> (\<forall>f < NFILE. fips x ! f = None)"

lemma blank_refs:
  assumes "blank x" and "length (slots x) = NPROC" and "length (fips x) = NFILE"
  shows "refs x = {#}"
proof -
  have "slots x = replicate NPROC free_slot" "fips x = replicate NFILE None"
    using assms by (auto simp: blank_def intro!: nth_equalityI)
  then show ?thesis by (simp add: refs_def)
qed

lemma keeps_proc_init: "moves blank {#} proc_init (\<lambda>_. {#})"
proof -
  have clear: "moves blank {#} (upd_proc i f) (\<lambda>_. {#})"
    if "i < NPROC" "\<And>q. proc_typed (f q) \<and> slot_of (f q) = free_slot" for i f
  proof (rule moves_upd_proc [OF that(1)])
    fix x q
    assume x: "blank x" "length (slots x) = NPROC" "slots x ! i = slot_of q" "proc_typed q"
    then have "slot_of q = free_slot" using that(1) by (simp add: blank_def)
    moreover have "(slots x)[i := free_slot] = slots x" using x that(1) by (metis blank_def list_update_id)
    ultimately show "proc_typed (f q) \<and> {#} + slot_refs (slot_of (f q)) = {#} + slot_refs (slot_of q) \<and>
        blank (x\<lparr>slots := (slots x)[i := slot_of (f q)]\<rparr>)" using that(2) x(1) by simp
  qed
  show ?thesis
    unfolding proc_init_def Let_def
    by (rule clear moves_rules moves_call quiets quiet_upd_proc
        | (simp add: proc_typed_def slot_of_def free_slot_def dead_def; fail))+
qed

subsection \<open>The boot has no process\<close>

text \<open>
  Until the scheduler starts no process runs, so no call can sleep: one that would have to wait
  panics. \<open>boots m\<close>: the call \<open>m\<close> returns or panics, and leaves the process identifiers alone.
\<close>

type_synonym idents = "int \<times> int list \<times> nat option"

definition pids :: "'z kproc_scheme \<Rightarrow> idents" where
  "pids s = (next_pid s, map pid (procs s), initproc s)"

definition booting :: "'z file_st_scheme \<Rightarrow> bool" where
  "booting s \<longleftrightarrow> cur s = None \<and> \<not> panicked s"

definition during_boot :: "(idents \<Rightarrow> bool) \<Rightarrow> ('z file_st_scheme, 'a) kern \<Rightarrow> ('a \<Rightarrow> idents \<Rightarrow> bool) \<Rightarrow> bool" where
  "during_boot P m Q \<longleftrightarrow> (\<forall>s. booting s \<longrightarrow> P (pids s) \<longrightarrow>
     (case m s of Ret v t \<Rightarrow> booting t \<and> Q v (pids t) | Panic e \<Rightarrow> True | _ \<Rightarrow> False))"

definition boots :: "('z file_st_scheme, 'a) kern \<Rightarrow> bool" where
  "boots m \<longleftrightarrow> (\<forall>P. during_boot P m (\<lambda>_. P))"

named_theorems boot_calls "calls that return or panic when no process runs"

lemma during_bnd:
  assumes "during_boot P m R" and "\<And>v. during_boot (R v) (f v) Q"
  shows "during_boot P (bnd m f) Q"
  unfolding during_boot_def
proof (intro allI impI)
  fix s :: "'a file_st_scheme"
  assume "booting s" "P (pids s)"
  with assms(1) have m: "case m s of Ret v t \<Rightarrow> booting t \<and> R v (pids t) | Panic e \<Rightarrow> True | _ \<Rightarrow> False"
    unfolding during_boot_def by blast
  show "case bnd m f s of Ret v t \<Rightarrow> booting t \<and> Q v (pids t) | Panic e \<Rightarrow> True | _ \<Rightarrow> False"
    using m assms(2) unfolding during_boot_def by (cases "m s") (auto simp: bnd_apply)
qed

lemma during_thn: "during_boot P m R \<Longrightarrow> (\<And>v. during_boot (R v) n Q) \<Longrightarrow> during_boot P (thn m n) Q"
  unfolding thn_def by (rule during_bnd)

lemma during_ret: "(\<And>x. P x \<Longrightarrow> Q v x) \<Longrightarrow> during_boot P (ret v) Q" and during_panic: "during_boot P (panic e) Q"
  by (simp_all add: during_boot_def)

lemma during_weaken: "during_boot P m Q \<Longrightarrow> (\<And>x. P' x \<Longrightarrow> P x) \<Longrightarrow> (\<And>v x. Q v x \<Longrightarrow> Q' v x) \<Longrightarrow> during_boot P' m Q'"
  unfolding during_boot_def by (simp split: outcome.splits) blast

lemma during_if: "(b \<Longrightarrow> during_boot P m Q) \<Longrightarrow> (\<not> b \<Longrightarrow> during_boot P n Q) \<Longrightarrow> during_boot P (if b then m else n) Q"
  by simp

lemma during_boots: "boots m \<Longrightarrow> during_boot P m (\<lambda>_. P)"
  by (simp add: boots_def)

lemma bootsI: "(\<And>P. during_boot P m (\<lambda>_. P)) \<Longrightarrow> boots m"
  by (simp add: boots_def)

lemma boots_ret: "boots (ret v)" and boots_panic: "boots (panic e)" and boots_gets: "boots (gets f)"
  by (simp_all add: boots_def during_boot_def)

lemma boots_bnd: "boots m \<Longrightarrow> (\<And>v. boots (f v)) \<Longrightarrow> boots (bnd m f)"
  and boots_thn: "boots m \<Longrightarrow> boots n \<Longrightarrow> boots (thn m n)"
  by (rule bootsI, rule during_bnd, erule during_boots, rule during_boots, assumption)
    (rule bootsI, rule during_thn, erule during_boots, erule during_boots)

lemma boots_if: "(b \<Longrightarrow> boots m) \<Longrightarrow> (\<not> b \<Longrightarrow> boots n) \<Longrightarrow> boots (if b then m else n)"
  by simp

lemma boots_option: "(v = None \<Longrightarrow> boots m) \<Longrightarrow> (\<And>w. v = Some w \<Longrightarrow> boots (f w)) \<Longrightarrow> boots (case v of None \<Rightarrow> m | Some w \<Rightarrow> f w)"
  by (cases v) simp_all

lemma boots_sum: "(\<And>w. v = Inl w \<Longrightarrow> boots (f w)) \<Longrightarrow> (\<And>w. v = Inr w \<Longrightarrow> boots (g w)) \<Longrightarrow> boots (case v of Inl w \<Rightarrow> f w | Inr w \<Rightarrow> g w)"
  by (cases v) simp_all

lemma boots_prod: "(\<And>a b. v = (a, b) \<Longrightarrow> boots (f a b)) \<Longrightarrow> boots (case v of (a, b) \<Rightarrow> f a b)"
  by (cases v) simp_all

lemma boots_whenk: "boots m \<Longrightarrow> boots (whenk b m)"
  by (simp add: whenk_def boots_ret)

lemma boots_for_each: "(\<And>i. i \<in> set is \<Longrightarrow> boots (f i)) \<Longrightarrow> boots (for_each is f)"
  by (induction "is") (auto intro: boots_ret boots_thn)

lemma boots_search: "(\<And>i. i \<in> set is \<Longrightarrow> boots (f i)) \<Longrightarrow> boots (search is f)"
proof (induction "is")
  case (Cons i "is")
  then show ?case by (simp add: boots_bnd boots_ret split: option.split)
qed (simp add: boots_ret)

lemmas boot_rules = boots_ret boots_panic boots_gets boots_bnd boots_thn boots_if boots_option boots_sum boots_prod boots_whenk
  boots_for_each boots_search

lemma boots_modify: "(\<And>s. cur (f s) = cur s \<and> panicked (f s) = panicked s \<and> pids (f s) = pids s) \<Longrightarrow> boots (modify f)"
  by (simp add: boots_def during_boot_def booting_def)

lemma boots_upd_proc: "(\<And>q. pid (f q) = pid q) \<Longrightarrow> boots (upd_proc i f)"
  unfolding upd_proc_def
proof (rule boots_modify)
  fix s :: "'a file_st_scheme"
  assume f: "\<And>q. pid (f q) = pid q"
  have "map pid ((procs s)[i := f (procs s ! i)]) = map pid (procs s)"
    using f by (cases "i < length (procs s)") (simp_all add: map_update list_update_beyond, metis length_map list_update_id nth_map)
  then show "cur (s\<lparr>procs := (procs s)[i := f (procs s ! i)]\<rparr>) = cur s \<and>
      panicked (s\<lparr>procs := (procs s)[i := f (procs s ! i)]\<rparr>) = panicked s \<and>
      pids (s\<lparr>procs := (procs s)[i := f (procs s ! i)]\<rparr>) = pids s" by (simp add: pids_def)
qed

lemma boots_locks [boot_calls]: "boots (acquire l)" "boots (release l)"
  by (simp_all add: boots_def during_boot_def booting_def acquire_def release_def pids_def)

lemma boots_access [boot_calls]:
  "boots (get_proc i g1)" "boots myproc" "boots (get_buf b g2)" "boots (get_inode j g3)" "boots (get_file f g4)" "boots (get_tf p off)"
  unfolding get_proc_def myproc_def get_buf_def get_inode_def get_file_def get_tf_def by (rule boots_gets)+

lemma boots_fields [boot_calls]:
  "boots (upd_mem h)" "boots (set_tf p off v)" "boots (set_slock l k)" "boots (uart_putc c)" "boots (upd_buf b f)"
  "boots (upd_data b d)" "boots (upd_inode i g)" "boots (upd_file e k2)"
  unfolding upd_mem_def set_tf_def set_slock_def uart_putc_def upd_buf_def upd_data_def upd_inode_def upd_file_def
  by (rule boots_modify; simp add: pids_def)+

lemma boots_sleep [boot_calls]: "boots (sleep c l)"
  by (simp add: boots_def during_boot_def booting_def sleep_def sleep_enter_def myproc_def run_simps)

lemma boots_wakeup [boot_calls]: "boots (wakeup ch)"
  unfolding wakeup_def wakeup_on_def guarded_upd_proc by (rule boot_rules boot_calls boots_upd_proc | (simp; fail))+

lemma boots_alloc [boot_calls]: "boots kalloc" "boots (kfree pa)"
  unfolding kalloc_def kfree_def by (rule boot_rules boot_calls boots_modify | (simp add: pids_def; fail))+

lemma boots_walk_levels [boot_calls]: "boots (walk_levels n pt va alloc)"
proof (induction n arbitrary: pt)
  case (Suc n)
  show ?case unfolding walk_levels.simps Let_def by (rule boot_rules boot_calls Suc)+
qed (simp add: boots_ret)

lemma boots_lookup [boot_calls]: "boots (walk pt va alloc)" "boots (walkaddr pt va)"
  unfolding walkaddr_def walk_def by (rule boot_rules boot_calls)+

lemma boots_mappages_loop [boot_calls]: "boots (mappages_loop n pt a final pa perm)"
proof (induction n arbitrary: a pa)
  case (Suc n)
  show ?case unfolding mappages_loop.simps Let_def by (rule boot_rules boot_calls Suc)+
qed (simp add: boots_panic)

lemma boots_freewalk [boot_calls]: "boots (freewalk d pt)"
proof (induction d arbitrary: pt)
  case (Suc d)
  show ?case unfolding freewalk.simps Let_def by (rule boot_rules boot_calls Suc)+
qed (simp add: boots_panic)

lemma boots_map [boot_calls]: "boots (mappages pt va len pa perm)" "boots (uvmunmap pt va np f)" "boots (kvmmap pt va pa len perm)"
  unfolding mappages_def uvmunmap_def kvmmap_def by (rule boot_rules boot_calls)+

lemma boots_dealloc [boot_calls]: "boots (uvmdealloc pt old new)" "boots uvmcreate" "boots (uvmclear pt va)"
  unfolding uvmdealloc_def uvmcreate_def uvmclear_def Let_def by (rule boot_rules boot_calls)+

lemma boots_uvm [boot_calls]: "boots (uvmalloc pt old new perm)" "boots (uvmfree pt len)"
  unfolding uvmalloc_def uvmfree_def by (rule boot_rules boot_calls)+

lemma boots_sleeplock [boot_calls]:
  "boots (sl_holding_locked l)" "boots (holdingsleep l)" "boots (acquiresleep l)" "boots (releasesleep l)"
  unfolding holdingsleep_def sl_holding_locked_def acquiresleep_def acquiresleep_loop_def releasesleep_def
  by (rule boot_rules boot_calls)+

lemma boots_disk_rw [boot_calls]: "boots (disk_rw b w)"
  unfolding disk_rw_def by (rule boot_rules boot_calls boots_modify | (simp add: pids_def; fail))+

lemma boots_buffers [boot_calls]: "boots (bget dev bno)" "boots (bread_fill b)" "boots (bwrite b)" "boots (brelse b)"
  unfolding bget_def bread_fill_def bwrite_def brelse_def by (rule boot_rules boot_calls boots_modify | (simp add: pids_def; fail))+

lemma boots_bread [boot_calls]: "boots (bread dev bno)"
  unfolding bread_def by (rule boot_rules boot_calls)+

lemma boots_blocks [boot_calls]: "boots (readsb d)" "boots (bzero dev bno)" "boots (bfree dev bno)"
  unfolding readsb_def bzero_def bfree_def Let_def by (rule boot_rules boot_calls)+

lemma boots_balloc [boot_calls]: "boots (balloc dev)"
  unfolding balloc_def Let_def by (rule boot_rules boot_calls)+

lemma boots_inodes [boot_calls]:
  "boots (iget dev ino)" "boots (idup ipo)" "boots (ilock ipo)" "boots (iunlock ipo)" "boots (iupdate ipo)" "boots (inode_lock_if_needed i)"
  unfolding iget_def idup_def ilock_def iunlock_def iupdate_def inode_lock_if_needed_def Let_def by (rule boot_rules boot_calls)+

lemma boots_contents [boot_calls]: "boots (bmap i bn alloc)" "boots (itrunc ipo)"
  unfolding bmap_def itrunc_def Let_def by (rule boot_rules boot_calls)+

lemma boots_iput [boot_calls]: "boots (iput ipo)" "boots (iunlockput ipo)"
  unfolding iunlockput_def iput_def by (rule boot_rules boot_calls)+

lemma boots_readi_loop [boot_calls]: "boots (readi_loop i off n tot acc)"
proof (induction i off n tot acc rule: readi_loop.induct)
  case (1 i off n tot acc)
  show ?case unfolding readi_loop.simps [of i off n tot acc] Let_def by (rule refl boot_rules boot_calls 1 | (simp; fail))+
qed

lemma boots_readi [boot_calls]: "boots (readi ipo off n)"
  unfolding readi_def Let_def by (rule boot_rules boot_calls)+

lemma boots_directories [boot_calls]: "boots (dirlookup d name)" "boots proc_cwddup"
  unfolding dirlookup_def proc_cwddup_def Let_def by (rule boot_rules boot_calls)+

lemma boots_namex_loop [boot_calls]: "boots (namex_loop ip p w name)"
proof (induction ip p w name rule: namex_loop.induct)
  case (1 ip p w name)
  show ?case unfolding namex_loop.simps [of ip p w name] by (rule refl boot_rules boot_calls 1 | assumption | (simp; fail))+
qed

lemma boots_namei [boot_calls]: "boots (namei path)"
  unfolding namei_def namex_def by (rule boot_rules boot_calls)+

lemma boots_load [boot_calls]: "boots (uvmmaprange pt va len perm)" "boots (setup_user_stack pt oldsz)" "boots (proc_pagetable i)"
  unfolding uvmmaprange_def setup_user_stack_def proc_pagetable_def Let_def by (rule boot_rules boot_calls)+

lemma boots_uvmload [boot_calls]: "boots (uvmload_from_inode pt dstva ip file_off len i)"
proof (induction pt dstva ip file_off len i rule: uvmload_from_inode.induct)
  case (1 pt dstva ip file_off len i)
  show ?case
    unfolding uvmload_from_inode.simps [of pt dstva ip file_off len i] Let_def
    by (rule boot_rules boot_calls 1 | (simp add: Let_def; fail))+
qed

lemma boots_load_segment [boot_calls]: "boots (load_segment pt ip file_size ph hi)"
  unfolding load_segment_def Let_def by (rule boot_rules boot_calls)+

lemma boots_load_segments [boot_calls]: "boots (load_segments ns pt ip file_size eh hi)"
proof (induction ns arbitrary: hi)
  case (Cons n ns)
  show ?case unfolding load_segments.simps by (rule boot_rules boot_calls Cons)+
qed (simp add: boots_ret)

lemma boots_load_elf [boot_calls]: "boots (load_elf pt path)"
  unfolding load_elf_def Let_def by (rule boot_rules boot_calls)+

lemma boots_files [boot_calls]: "boots filealloc" "boots (filedup fo)"
  unfolding filealloc_def filedup_def by (rule boot_rules boot_calls)+

lemma boots_print_all [boot_calls]: "boots (print_all out)"
proof -
  have put: "boots consoleacquire" "boots (for_each out consputc)" "boots consolerelease"
    unfolding consoleacquire_def consolerelease_def consputc_def by (rule boot_rules boot_calls)+
  have "boots (thn consoleacquire (thn (for_each out consputc) consolerelease))" by (rule boot_rules put)+
  then show ?thesis
    unfolding print_all_def boots_def during_boot_def by (simp add: booting_def bnd_apply)
qed

lemma boots_kprint: "37 \<notin> set fmt \<Longrightarrow> boots (kprint fmt args)"
  unfolding kprint_plain by (rule boot_calls)

lemma boots_logo [boot_calls]: "boots print_boot_logo" "boots (kprint (chars ''[NexOS] Mounting filesystem...'' @ [10]) [])"
  unfolding print_boot_logo_def by (rule boot_rules boots_kprint | (simp add: chars_def; fail))+

lemma boots_devices [boot_calls]:
  "boots printfinit" "boots (on_uart f)" "boots (on_plic g)" "boots (plic_inithart_here B)" "boots trap_init"
  "boots (virtio_disk_init hw pages)"
  unfolding printfinit_def consoleinit_def on_uart_def on_plic_def plic_inithart_here_def cpuid_def trap_init_def clearsip_ssip_def
    virtio_disk_init_def write_reg64_def write_reg_def reset_rings_def Let_def
  by (rule boot_rules boot_calls boots_modify | (simp add: pids_def; fail))+

lemma boots_kinit_loop [boot_calls]: "boots (kinit_loop p)"
proof (induction p rule: kinit_loop.induct)
  case (1 p)
  show ?case unfolding kinit_loop.simps [of p] by (rule boot_rules boot_calls 1 | assumption)+
qed

lemma boots_memory_init [boot_calls]: "boots kinit" "boots kvminit" "boots kvminithart" "boots binit"
  unfolding kinit_def kvminit_def kvmmake_def kvminithart_def binit_def
  by (rule boot_rules boot_calls boots_modify | (simp add: pids_def; fail))+

subsection \<open>Tables and identifiers together\<close>

definition booted :: "(idents \<Rightarrow> shape \<Rightarrow> bool) \<Rightarrow> ('z file_st_scheme, 'a) kern \<Rightarrow> ('a \<Rightarrow> idents \<Rightarrow> shape \<Rightarrow> bool) \<Rightarrow> bool" where
  "booted P m Q \<longleftrightarrow> (\<forall>s. booting s \<longrightarrow> sound {#} s \<longrightarrow> P (pids s) (shape_of s) \<longrightarrow>
     (case m s of Ret v t \<Rightarrow> booting t \<and> sound {#} t \<and> Q v (pids t) (shape_of t) | Panic e \<Rightarrow> True | _ \<Rightarrow> False))"

lemma bootedI:
  "(\<And>s. booting s \<Longrightarrow> sound {#} s \<Longrightarrow> P (pids s) (shape_of s) \<Longrightarrow>
     (case m s of Ret v t \<Rightarrow> booting t \<and> sound {#} t \<and> Q v (pids t) (shape_of t) | Panic e \<Rightarrow> True | _ \<Rightarrow> False)) \<Longrightarrow> booted P m Q"
  by (simp add: booted_def)

lemma booted_bnd:
  fixes m :: "('z file_st_scheme, 'a) kern"
  assumes "booted P m R" and "\<And>v. booted (R v) (f v) Q"
  shows "booted P (bnd m f) Q"
proof (rule bootedI)
  fix s :: "'z file_st_scheme"
  assume "booting s" "sound {#} s" "P (pids s) (shape_of s)"
  with assms(1) have m: "case m s of Ret v t \<Rightarrow> booting t \<and> sound {#} t \<and> R v (pids t) (shape_of t) | Panic e \<Rightarrow> True | _ \<Rightarrow> False"
    unfolding booted_def by blast
  show "case bnd m f s of Ret v t \<Rightarrow> booting t \<and> sound {#} t \<and> Q v (pids t) (shape_of t) | Panic e \<Rightarrow> True | _ \<Rightarrow> False"
    using m assms(2) unfolding booted_def by (cases "m s") (auto simp: bnd_apply)
qed

lemma booted_thn: "booted P m R \<Longrightarrow> (\<And>v. booted (R v) n Q) \<Longrightarrow> booted P (thn m n) Q"
  unfolding thn_def by (rule booted_bnd)

lemma booted_ret: "(\<And>p x. P p x \<Longrightarrow> Q v p x) \<Longrightarrow> booted P (ret v) Q" and booted_panic: "booted P (panic e) Q"
  by (simp_all add: booted_def)

lemma booted_if: "(b \<Longrightarrow> booted P m Q) \<Longrightarrow> (\<not> b \<Longrightarrow> booted P n Q) \<Longrightarrow> booted P (if b then m else n) Q"
  by simp

lemma booted_both:
  fixes m :: "('z file_st_scheme, 'a) kern"
  assumes "during_boot P m Q" and "keeps (has {#} X) m (\<lambda>v. has {#} (Y v))"
  shows "booted (\<lambda>p x. P p \<and> X x) m (\<lambda>v p x. Q v p \<and> Y v x)"
proof (rule bootedI)
  fix s :: "'z file_st_scheme"
  assume s: "booting s" "sound {#} s" "P (pids s) \<and> X (shape_of s)"
  have "case m s of Ret v t \<Rightarrow> booting t \<and> Q v (pids t) | Panic e \<Rightarrow> True | _ \<Rightarrow> False"
    using assms(1) s unfolding during_boot_def by blast
  moreover have "case m s of Ret v t \<Rightarrow> \<exists>B. (B = {#} \<and> Y v (shape_of t)) \<and> sound (B + {#}) t
      | Sleeps c t \<Rightarrow> \<exists>B. sound (B + {#}) t | Leaves t \<Rightarrow> \<exists>B. sound (B + {#}) t | Panic e \<Rightarrow> True"
    using assms(2) [unfolded keeps_def, THEN spec [of _ s], THEN spec [of _ "{#}"], THEN spec [of _ "{#}"]] s(2,3) by simp
  ultimately show "case m s of Ret v t \<Rightarrow> booting t \<and> sound {#} t \<and> Q v (pids t) \<and> Y v (shape_of t) | Panic e \<Rightarrow> True | _ \<Rightarrow> False"
    by (cases "m s") auto
qed

lemma booted_quiet: "quiet m \<Longrightarrow> boots m \<Longrightarrow> booted P m (\<lambda>_. P)"
proof (rule bootedI)
  fix s :: "'a file_st_scheme"
  assume m: "quiet m" "boots m" and s: "booting s" "sound {#} s" "P (pids s) (shape_of s)"
  have "booted (\<lambda>p x. p = pids s \<and> x = shape_of s) m (\<lambda>v p x. p = pids s \<and> x = shape_of s)"
    using m by (intro booted_both during_boots) (simp_all add: quiet_def moves_def)
  from this [unfolded booted_def, THEN spec [of _ s]] s
  show "case m s of Ret v t \<Rightarrow> booting t \<and> sound {#} t \<and> P (pids t) (shape_of t) | Panic e \<Rightarrow> True | _ \<Rightarrow> False"
    by (cases "m s") auto
qed

lemma booted_post: "booted P m Q \<Longrightarrow> (\<And>v p x. Q v p x \<Longrightarrow> Q' v p x) \<Longrightarrow> booted P m Q'"
  unfolding booted_def by (simp split: outcome.splits) blast

lemma booted_pre: "booted P m Q \<Longrightarrow> (\<And>p x. P' p x \<Longrightarrow> P p x) \<Longrightarrow> booted P' m Q"
  unfolding booted_def by blast

lemma booted_for_each: "(\<And>i. i \<in> set is \<Longrightarrow> booted P (f i) (\<lambda>_. P)) \<Longrightarrow> booted P (for_each is f) (\<lambda>_. P)"
  by (induction "is") (auto intro: booted_ret booted_thn)

lemma booted_whenk: "booted P m (\<lambda>_. P) \<Longrightarrow> booted P (whenk b m) (\<lambda>_. P)"
  by (simp add: whenk_def booted_ret)

text \<open>The state of the tables from \<open>proc_init\<close> to \<open>userinit\<close>: no process, no open file.\<close>

definition empty_tables :: "idents \<Rightarrow> shape \<Rightarrow> bool" where
  "empty_tables p x \<longleftrightarrow> p = (1, replicate NPROC 0, None) \<and> blank x"

lemma empty_tables_alt: "empty_tables = (\<lambda>p x. p = (1, replicate NPROC 0, None) \<and> blank x)"
  by (intro ext) (simp add: empty_tables_def)

lemma booted_proc_init: "booted empty_tables proc_init (\<lambda>_. empty_tables)"
proof -
  have clear: "during_boot (\<lambda>p. p = (1, replicate NPROC 0, None)) (upd_proc i f) (\<lambda>_ p. p = (1, replicate NPROC 0, None))"
    if "\<And>q. pid (f q) = 0" for i and f :: "proc \<Rightarrow> proc"
    using that by (auto simp: during_boot_def booting_def pids_def upd_proc_def map_update list_update_same_conv)
      (metis list_update_beyond list_update_id length_replicate not_le nth_replicate)
  have loop: "during_boot P (for_each is f) (\<lambda>_. P)" if "\<And>i. during_boot P (f i) (\<lambda>_. P)" for P f and "is" :: "nat list"
    using that by (induction "is") (auto intro: during_ret during_thn)
  have "during_boot (\<lambda>p. p = (1, replicate NPROC 0, None)) proc_init (\<lambda>_ p. p = (1, replicate NPROC 0, None))"
    unfolding proc_init_def Let_def
    by (rule during_thn, rule loop, rule clear, simp)
      (rule loop, rule during_boots, (rule boot_rules boot_calls boots_upd_proc | (simp; fail))+)
  from booted_both [OF this, of blank "\<lambda>_. blank"] keeps_proc_init show ?thesis
    by (simp add: empty_tables_alt moves_def)
qed

text \<open>Without pointers every count is zero, so that \<open>fsinit\<close> and \<open>fileinit\<close> find what they write.\<close>

lemma blank_counts:
  assumes "blank (shape_of s)" and "sound {#} s"
  shows "i < NINODE \<Longrightarrow> iref (itable s ! i) = 0" "f < NFILE \<Longrightarrow> fref (ftable s ! f) = 0" "f < NFILE \<Longrightarrow> fip (ftable s ! f) = None"
proof -
  from assms(2) have ty: "typed s" by (simp add: sound_def)
  have "refs (shape_of s) = {#}" using assms(1) ty by (intro blank_refs) simp_all
  then have n: "refnum s r = 0" for r using assms(2) by (simp add: sound_def)
  show "i < NINODE \<Longrightarrow> iref (itable s ! i) = 0" "f < NFILE \<Longrightarrow> fref (ftable s ! f) = 0"
    using n [of "NodeRef i"] n [of "FileRef f"] by simp_all
  show "f < NFILE \<Longrightarrow> fip (ftable s ! f) = None" using assms(1) ty by (auto simp: blank_def)
qed

lemma booted_clear_inode:
  assumes "i < NINODE"
  shows "booted empty_tables (upd_inode i (\<lambda>ip. ip\<lparr>iref := 0, ivalid := False\<rparr>)) (\<lambda>_. empty_tables)"
proof (rule bootedI)
  fix s :: "'a file_st_scheme"
  assume s: "booting s" "sound {#} s" "empty_tables (pids s) (shape_of s)"
  let ?t = "s\<lparr>itable := (itable s)[i := (itable s ! i)\<lparr>iref := 0, ivalid := False\<rparr>]\<rparr>"
  have "iref (itable s ! i) = 0" using s by (intro blank_counts assms) (simp_all add: empty_tables_def)
  moreover have "length (iaddrs (itable s ! i)) = NDIRECT + 1" using s(2) assms by (intro typed_inode) (simp_all add: sound_def)
  ultimately have "sound {#} ?t" by (intro sound_upd_inode [OF s(2) assms]) simp_all
  with s show "case upd_inode i (\<lambda>ip. ip\<lparr>iref := 0, ivalid := False\<rparr>) s of
      Ret v t \<Rightarrow> booting t \<and> sound {#} t \<and> empty_tables (pids t) (shape_of t) | Panic e \<Rightarrow> True | _ \<Rightarrow> False"
    by (simp add: upd_inode_def booting_def pids_def shape_of_def)
qed

lemma booted_clear_file:
  assumes "f < NFILE"
  shows "booted empty_tables (upd_file f (\<lambda>_. empty_file)) (\<lambda>_. empty_tables)"
proof (rule bootedI)
  fix s :: "'a file_st_scheme"
  assume s: "booting s" "sound {#} s" "empty_tables (pids s) (shape_of s)"
  let ?t = "s\<lparr>ftable := (ftable s)[f := empty_file]\<rparr>"
  have f: "fref (ftable s ! f) = 0" "fip (ftable s ! f) = None" using s by (auto intro!: blank_counts assms simp: empty_tables_def)
  have e: "fref empty_file = 0" "fip empty_file = None" "file_typed empty_file" by (simp_all add: empty_file_def file_typed_def)
  have "sound {#} ?t" using f e by (intro sound_upd_file [OF s(2) assms]) simp_all
  moreover have "shape_of ?t = shape_of s" using s(2) f(2) e(2) by (intro shape_fips) (simp_all add: sound_def)
  ultimately show "case upd_file f (\<lambda>_. empty_file) s of
      Ret v t \<Rightarrow> booting t \<and> sound {#} t \<and> empty_tables (pids t) (shape_of t) | Panic e \<Rightarrow> True | _ \<Rightarrow> False"
    using s by (simp add: upd_file_def booting_def pids_def)
qed

lemma booted_fsinit: "booted empty_tables (fsinit dev) (\<lambda>_. empty_tables)"
  unfolding fsinit_def
  by (rule booted_clear_inode booted_for_each booted_whenk booted_if booted_panic booted_ret booted_thn booted_bnd booted_quiet quiets boot_calls
      quiet_same boots_gets boots_modify | (simp add: pids_def; fail))+

lemma booted_fileinit: "booted empty_tables fileinit (\<lambda>_. empty_tables)"
  unfolding fileinit_def by (rule booted_for_each, rule booted_clear_file) simp

subsection \<open>The first process\<close>

abbreviation fst_pids :: "idents" where
  "fst_pids \<equiv> (1, replicate NPROC 0, None)"

abbreviation init_pids :: "nat \<Rightarrow> idents" where
  "init_pids i \<equiv> (2, (replicate NPROC 0)[i := 1], None)"

definition newborn :: "nat \<Rightarrow> idents \<Rightarrow> shape \<Rightarrow> bool" where
  "newborn i p x \<longleftrightarrow> p = init_pids i \<and> ready i x"

lemma during_search:
  "(\<And>i. i \<in> set is \<Longrightarrow> during_boot P (f i) (\<lambda>r. case r of None \<Rightarrow> P | Some v \<Rightarrow> Q v)) \<Longrightarrow>
     during_boot P (search is f) (\<lambda>r. case r of None \<Rightarrow> P | Some v \<Rightarrow> Q v)"
proof (induction "is")
  case (Cons i "is")
  have rest: "during_boot (case r of None \<Rightarrow> P | Some v \<Rightarrow> Q v) (case r of None \<Rightarrow> search is f | Some v \<Rightarrow> ret (Some v))
      (\<lambda>r. case r of None \<Rightarrow> P | Some v \<Rightarrow> Q v)" for r
    using Cons by (cases r) (simp_all add: during_ret)
  show ?case unfolding search.simps by (rule during_bnd [OF Cons.prems rest]) simp
qed (simp add: during_ret)

lemma during_allocpid: "during_boot (\<lambda>p. p = fst_pids) allocpid (\<lambda>n p. n = 1 \<and> p = (2, replicate NPROC 0, None))"
  by (simp add: during_boot_def allocpid_def run_simps acquire_def release_def booting_def pids_def)

lemma during_upd_pid:
  "(\<And>q. pid (f q) = n) \<Longrightarrow> during_boot (\<lambda>p. p = (k, ns, c)) (upd_proc i f) (\<lambda>_ p. p = (k, ns[i := n], c))"
  by (auto simp: during_boot_def booting_def pids_def upd_proc_def map_update)

lemma during_any: "boots m \<Longrightarrow> during_boot P m (\<lambda>_ _. True)"
  by (rule during_weaken [OF during_boots]) simp_all

lemma during_upd_any: "during_boot P (upd_proc i f) (\<lambda>_ _. True)"
  by (simp add: during_boot_def booting_def upd_proc_def)

lemma during_freeproc: "during_boot P (freeproc i) (\<lambda>_ _. True)"
  unfolding freeproc_def proc_freepagetable_def whenk_def
  by (rule during_upd_any during_if during_ret during_bnd during_thn during_any boot_rules boot_calls | (simp; fail))+

lemma during_allocproc: "during_boot (\<lambda>p. p = fst_pids) allocproc (\<lambda>r p. \<forall>i. r = Some i \<longrightarrow> p = init_pids i)"
proof -
  let ?Q = "\<lambda>r p. \<forall>i. r = Some i \<longrightarrow> p = init_pids i"
  let ?R = "\<lambda>r. case r of None \<Rightarrow> \<lambda>p. p = fst_pids | Some v \<Rightarrow> ?Q v"
  have fail: "during_boot P (thn (freeproc i) (thn (release l) (ret (Some None)))) ?R" for i l P
    by (rule during_thn [OF during_freeproc], rule during_thn [OF during_boots], rule boot_calls, rule during_ret) simp
  have rest: "during_boot (\<lambda>p. p = init_pids i) m ?R \<Longrightarrow>
      during_boot (\<lambda>p. n = 1 \<and> p = (2, replicate NPROC 0, None)) (thn (upd_proc i (f n)) m) ?R"
    if "\<And>q. pid (f n q) = n" for i n f and m :: "('b file_st_scheme, nat option option) kern"
  proof (rule during_thn)
    show "during_boot (\<lambda>p. n = 1 \<and> p = (2, replicate NPROC 0, None)) (upd_proc i (f n)) (\<lambda>_ p. p = init_pids i)"
      using during_upd_pid [of "f n" n 2 "replicate NPROC 0" None i] that by (cases "n = 1") (simp_all add: during_boot_def)
  qed
  have give: "during_boot (?R r) (case r of Some v \<Rightarrow> ret v | None \<Rightarrow> ret None) ?Q" for r :: "nat option option"
    by (cases r) (simp_all add: during_ret)
  show ?thesis
    unfolding allocproc_def
    by (rule during_bnd [where R = ?R], rule during_search)
      (rule fail during_panic during_if during_bnd [OF during_allocpid] rest during_thn [OF during_boots] during_bnd [OF during_boots]
        boot_calls boots_upd_proc during_ret give | (simp; fail))+
qed

lemma booted_allocproc: "booted empty_tables allocproc (\<lambda>r p x. \<forall>i. r = Some i \<longrightarrow> i < NPROC \<and> newborn i p x)"
  using booted_both [OF during_allocproc keeps_allocproc [of "{#}"]]
  by (rule booted_post [OF booted_pre]) (auto simp: empty_tables_def blank_def live_def newborn_def)

lemma booted_runnable:
  assumes "i < NPROC"
  shows "booted (newborn i) (upd_proc i (\<lambda>q. q\<lparr>pstate := RUNNABLE\<rparr>)) (\<lambda>_. newborn i)"
proof -
  have "keeps (has {#} (ready i)) (upd_proc i (\<lambda>q. q\<lparr>pstate := RUNNABLE\<rparr>)) (\<lambda>_. has {#} (ready i))"
  proof (rule keeps_upd_slot [OF assms])
    fix x q
    assume x: "ready i x" "length (slots x) = NPROC" "slots x ! i = slot_of q" "proc_typed q"
    let ?q = "q\<lparr>pstate := RUNNABLE\<rparr>"
    have q: "slot_of ?q = slot_of q" using x(1,3) by (simp add: ready_def fresh_slot_def slot_of_def dead_def)
    have "(slots x)[i := slot_of q] = slots x" using x(3) by (metis list_update_id)
    moreover have "proc_typed ?q" using x(4) by (simp add: proc_typed_def dead_def)
    ultimately show "proc_typed ?q \<and> {#} + slot_refs (slot_of ?q) = {#} + slot_refs (slot_of q) \<and>
        ready i (x\<lparr>slots := (slots x)[i := slot_of ?q]\<rparr>)" using x(1) by (simp add: q)
  qed
  from booted_both [OF during_boots this, of "\<lambda>p. p = init_pids i"] show ?thesis
    by (simp add: boots_upd_proc newborn_def [abs_def])
qed

lemma booted_get_pid:
  assumes "i < NPROC" and "booted (newborn i) (k 1) Q"
  shows "booted (newborn i) (bnd (get_proc i pid) k) Q"
proof (rule bootedI)
  fix s :: "'a file_st_scheme"
  assume s: "booting s" "sound {#} s" "newborn i (pids s) (shape_of s)"
  then have "length (procs s) = NPROC" "map pid (procs s) = (replicate NPROC 0)[i := 1]"
    by (auto simp: sound_def typed_def newborn_def pids_def)
  with assms(1) have "pid (procs s ! i) = 1" by (metis length_replicate nth_list_update_eq nth_map)
  then show "case bnd (get_proc i pid) k s of
      Ret v t \<Rightarrow> booting t \<and> sound {#} t \<and> Q v (pids t) (shape_of t) | Panic e \<Rightarrow> True | _ \<Rightarrow> False"
    using assms(2) s unfolding booted_def by (simp add: bnd_apply get_proc_def)
qed

lemma booted_dispose:
  assumes "i < NPROC"
  shows "booted (newborn i) (thn (acquire l) (thn (upd_proc i (\<lambda>q. q\<lparr>sz := n\<rparr>)) (thn (freeproc i) (thn (release l) (ret (-1 :: int))))))
    (\<lambda>r p x. r < 0)"
proof -
  let ?m = "thn (acquire l) (thn (upd_proc i (\<lambda>q. q\<lparr>sz := n\<rparr>)) (thn (freeproc i) (thn (release l) (ret (-1 :: int)))))"
  have "during_boot (\<lambda>p. p = init_pids i) ?m (\<lambda>r p. r < 0)"
    by (rule during_thn [OF during_boots] during_thn [OF during_upd_any] during_thn [OF during_freeproc] boot_calls during_ret | (simp; fail))+
  moreover have "keeps (has {#} (spare i)) ?m (\<lambda>v. has {#} (\<lambda>_. True))"
    by (rule keeps_moves_thn [OF moves_freeproc [OF assms refl]] keeps_rules quiets | (simp; fail))+
  ultimately have "booted (\<lambda>p x. p = init_pids i \<and> spare i x) ?m (\<lambda>r p x. r < 0 \<and> True)" by (rule booted_both)
  then show ?thesis by (rule booted_post [OF booted_pre]) (auto simp: newborn_def ready_spare)
qed

lemma booted_option:
  "(v = None \<Longrightarrow> booted P m Q) \<Longrightarrow> (\<And>w. v = Some w \<Longrightarrow> booted P (f w) Q) \<Longrightarrow> booted P (case v of None \<Rightarrow> m | Some w \<Rightarrow> f w) Q"
  by (cases v) simp_all

lemma booted_prod: "(\<And>a b. v = (a, b) \<Longrightarrow> booted P (f a b) Q) \<Longrightarrow> booted P (case v of (a, b) \<Rightarrow> f a b) Q"
  by (cases v) simp_all

lemma booted_create_init:
  "booted empty_tables (proc_create_user path) (\<lambda>n p x. n < 0 \<or> n = 1 \<and> (\<exists>i < NPROC. newborn i p x))"
  (is "booted _ _ ?Q")
proof -
  have rest: "booted (\<lambda>p x. i < NPROC \<and> newborn i p x) m ?Q" if "i < NPROC \<Longrightarrow> booted (newborn i) m ?Q"
    for i and m :: "('b file_st_scheme, int) kern"
    using that by (cases "i < NPROC") (auto simp: booted_def)
  have bad: "booted (newborn i) (thn (acquire l) (thn (upd_proc i (\<lambda>q. q\<lparr>sz := n\<rparr>)) (thn (freeproc i) (thn (release l) (ret (-1 :: int)))))) ?Q"
    if "i < NPROC" for i n l
    using booted_dispose [OF that] by (rule booted_post) simp
  have alloc: "booted (\<lambda>p x. \<forall>i. r = Some i \<longrightarrow> i < NPROC \<and> newborn i p x) (case r of None \<Rightarrow> ret (-1) | Some i \<Rightarrow> m i) ?Q"
    if "\<And>i. i < NPROC \<Longrightarrow> booted (newborn i) (m i) ?Q" for r and m :: "nat \<Rightarrow> ('b file_st_scheme, int) kern"
    by (cases r) (use rest [OF that] in \<open>simp_all add: booted_ret\<close>)
  show ?thesis
    unfolding proc_create_user_def Let_def
    by (rule booted_bnd [OF booted_allocproc], rule alloc)
      (rule bad booted_if booted_option booted_prod booted_thn [OF booted_runnable] booted_get_pid booted_ret
        booted_thn [OF booted_quiet] booted_bnd [OF booted_quiet] quiets boot_calls boots_upd_proc | assumption | (simp; fail) | blast)+
qed

text \<open>Its directory and its first files.\<close>

definition furnished :: "nat \<Rightarrow> nat \<Rightarrow> shape \<Rightarrow> bool" where
  "furnished i k x \<longleftrightarrow> live x \<and> who x \<noteq> Some i \<and> \<not> snd (snd (slots x ! i)) \<and>
     (\<forall>j. k \<le> j \<longrightarrow> j < NOFILE \<longrightarrow> fst (slots x ! i) ! j = None)"

lemma keeps_first_cwd:
  assumes "i < NPROC"
  shows "keeps (has {#NodeRef r#} (ready i)) (upd_proc i (\<lambda>q. q\<lparr>cwd := Some r\<rparr>)) (\<lambda>_. has {#} (furnished i 0))"
proof (rule keeps_upd_slot [OF assms])
  fix x q
  assume x: "ready i x" "length (slots x) = NPROC" "slots x ! i = slot_of q" "proc_typed q"
  let ?q = "q\<lparr>cwd := Some r\<rparr>"
  have q: "ofile q = replicate NOFILE None" "cwd q = None" "\<not> dead q" using x(1,3) by (auto simp: ready_def fresh_slot_def slot_of_def)
  have "live (x\<lparr>slots := (slots x)[i := slot_of ?q]\<rparr>)" using x(1) by (intro live_slot) (auto simp: ready_def)
  then have "furnished i 0 (x\<lparr>slots := (slots x)[i := slot_of ?q]\<rparr>)"
    using x assms q by (auto simp: furnished_def ready_def slot_of_def dead_def)
  moreover have "proc_typed ?q" using x(4) q(3) by (simp add: proc_typed_def dead_def)
  ultimately show "proc_typed ?q \<and> {#} + slot_refs (slot_of ?q) = {#NodeRef r#} + slot_refs (slot_of q) \<and>
      furnished i 0 (x\<lparr>slots := (slots x)[i := slot_of ?q]\<rparr>)"
    using refs_cwd [where q = q and c = "Some r"] q(2) by (simp add: ac_simps)
qed

lemma keeps_place_file:
  assumes "i < NPROC" and "k < NOFILE"
  shows "keeps (has (opt_ref FileRef y + A) (furnished i k)) (upd_proc i (\<lambda>q. q\<lparr>ofile := (ofile q)[k := y]\<rparr>)) (\<lambda>_. has A (furnished i (Suc k)))"
proof (rule keeps_upd_slot [OF assms(1)])
  fix x q
  assume x: "furnished i k x" "length (slots x) = NPROC" "slots x ! i = slot_of q" "proc_typed q"
  let ?q = "q\<lparr>ofile := (ofile q)[k := y]\<rparr>"
  have q: "\<not> dead q" "ofile q ! k = None" using x(1,3) assms(2) by (auto simp: furnished_def slot_of_def)
  have "live (x\<lparr>slots := (slots x)[i := slot_of ?q]\<rparr>)" using x(1,2) by (intro live_slot) (auto simp: furnished_def)
  then have "furnished i (Suc k) (x\<lparr>slots := (slots x)[i := slot_of ?q]\<rparr>)"
    using x assms q by (auto simp: furnished_def slot_of_def dead_def nth_list_update proc_typed_def)
  then show "proc_typed ?q \<and> A + slot_refs (slot_of ?q) = opt_ref FileRef y + A + slot_refs (slot_of q) \<and>
      furnished i (Suc k) (x\<lparr>slots := (slots x)[i := slot_of ?q]\<rparr>)"
    using typed_ofile [OF x(4) q(1)] refs_ofile [OF x(4) assms(2), of y] q(2) by (simp add: ac_simps)
qed

lemma keeps_furnish:
  assumes "i < NPROC"
  shows "keeps (has {#} (ready i))
    (bnd (namei [47]) (\<lambda>root. case root of None \<Rightarrow> panic e1 | Some r \<Rightarrow>
       thn (upd_proc i (\<lambda>q. q\<lparr>cwd := Some r\<rparr>))
       (bnd filealloc (\<lambda>fo. case fo of None \<Rightarrow> panic e2 | Some f \<Rightarrow>
       thn (upd_file f (\<lambda>g. g\<lparr>ftype := FD_CONSOLE, readable := True, writable := True\<rparr>))
       (thn (upd_proc i (\<lambda>q. q\<lparr>ofile := (ofile q)[0 := Some f]\<rparr>))
       (bnd (filedup (Some f)) (\<lambda>f1.
       thn (upd_proc i (\<lambda>q. q\<lparr>ofile := (ofile q)[1 := f1]\<rparr>))
       (bnd (filedup (Some f)) (\<lambda>f2.
       upd_proc i (\<lambda>q. q\<lparr>ofile := (ofile q)[2 := f2]\<rparr>))))))))))
    (\<lambda>_. has {#} live)"
proof -
  have open_files: "keeps (has {#FileRef f#} (\<lambda>x. furnished i 0 x \<and> fips x ! f = None))
     (thn (upd_file f (\<lambda>g. g\<lparr>ftype := FD_CONSOLE, readable := True, writable := True\<rparr>))
       (thn (upd_proc i (\<lambda>q. q\<lparr>ofile := (ofile q)[0 := Some f]\<rparr>))
       (bnd (filedup (Some f)) (\<lambda>f1.
       thn (upd_proc i (\<lambda>q. q\<lparr>ofile := (ofile q)[1 := f1]\<rparr>))
       (bnd (filedup (Some f)) (\<lambda>f2.
       upd_proc i (\<lambda>q. q\<lparr>ofile := (ofile q)[2 := f2]\<rparr>))))))) (\<lambda>_. has {#} live)" if "f < NFILE" for f
  proof -
    have n: "NOFILE = 16" by (simp add: NOFILE_def)
    have dup: "moves (furnished i k) {#} (filedup (Some f)) (\<lambda>r. opt_ref FileRef r + {#})" for k
      by (rule moves_filedup [OF that refl])
    have kind: "moves (\<lambda>x. furnished i 0 x \<and> fips x ! f = None) {#FileRef f#}
       (upd_file f (\<lambda>g. g\<lparr>ftype := FD_CONSOLE, readable := True, writable := True\<rparr>)) (\<lambda>_. opt_ref FileRef (Some f) + {#})"
      using that by (intro moves_set_type) simp_all
    have place: "keeps (has (opt_ref FileRef y + {#}) (furnished i k)) (upd_proc i (\<lambda>q. q\<lparr>ofile := (ofile q)[k := y]\<rparr>)) (\<lambda>_. has {#} (furnished i (Suc k)))"
      if "k < 16" for k y using keeps_place_file [OF assms, of k y "{#}"] that n by simp
    have second: "keeps (has (opt_ref FileRef y + {#}) (furnished i (Suc 0))) (upd_proc i (\<lambda>q. q\<lparr>ofile := (ofile q)[1 := y]\<rparr>)) (\<lambda>_. has {#} (furnished i 2))" for y
      using place [of 1 y] by (simp add: numeral_2_eq_2)
    have third: "keeps (has (opt_ref FileRef y + {#}) (furnished i 2)) (upd_proc i (\<lambda>q. q\<lparr>ofile := (ofile q)[2 := y]\<rparr>)) (\<lambda>_. has {#} live)" for y
      by (rule keeps_post [OF place]) (simp_all add: furnished_def)
    show ?thesis
      by (rule keeps_moves_thn [OF kind], rule keeps_drop)
        (rule keeps_thn [OF place] keeps_moves [OF dup] keeps_thn [OF second] third | (simp; fail))+
  qed
  have filed: "keeps (\<lambda>C x. C = opt_ref FileRef fo + {#} \<and> furnished i 0 x \<and> (\<forall>f. fo = Some f \<longrightarrow> f < NFILE \<and> fips x ! f = None))
     (case fo of None \<Rightarrow> panic e2 | Some f \<Rightarrow> m f) (\<lambda>_. has {#} live)"
    if "\<And>f. f < NFILE \<Longrightarrow> keeps (has {#FileRef f#} (\<lambda>x. furnished i 0 x \<and> fips x ! f = None)) (m f) (\<lambda>_. has {#} live)"
    for fo and m :: "nat \<Rightarrow> ('b file_st_scheme, unit) kern"
    using that by (cases fo) (auto simp: keeps_panic keeps_def)
  have root: "keeps (has (node_opt ro + {#}) (ready i)) (case ro of None \<Rightarrow> panic e1 | Some r \<Rightarrow> m r) (\<lambda>_. has {#} live)"
    if "\<And>r. keeps (has {#NodeRef r#} (ready i)) (m r) (\<lambda>_. has {#} live)" for ro and m :: "nat \<Rightarrow> ('b file_st_scheme, unit) kern"
    using that by (cases ro) (simp_all add: keeps_panic)
  show ?thesis
    by (rule keeps_moves [OF moves_namei [OF refl]] root keeps_thn [OF keeps_first_cwd] keeps_bnd [OF keeps_filealloc] filed open_files
        assms | assumption)+
qed

abbreviation booted_pids :: "nat \<Rightarrow> idents" where
  "booted_pids i \<equiv> (2, (replicate NPROC 0)[i := 1], Some i)"

lemma find_one: "map g xs = ys \<Longrightarrow> i < length ys \<Longrightarrow> ys ! i = a \<Longrightarrow> (\<And>j. j < i \<Longrightarrow> ys ! j \<noteq> a) \<Longrightarrow>
    find (\<lambda>j. g (xs ! j) = a) [0..<length ys] = Some i"
  by (auto simp: find_Some_iff)

text \<open>\<open>userinit\<close> finds the process it created by its identifier.\<close>

lemma booted_set_init:
  assumes "\<And>i. i < NPROC \<Longrightarrow> booted (\<lambda>p x. p = booted_pids i \<and> ready i x) (k (Some i)) Q"
  shows "booted (\<lambda>p x. \<exists>i < NPROC. newborn i p x)
     (thn (modify (\<lambda>s. s\<lparr>initproc := (case find (\<lambda>i. pid (procs s ! i) = 1) [0..<NPROC] of
              Some i \<Rightarrow> Some i | None \<Rightarrow> initproc s)\<rparr>))
       (bnd (gets initproc) k)) Q"
proof (rule bootedI)
  fix s :: "'a file_st_scheme"
  assume s: "booting s" "sound {#} s" "\<exists>i < NPROC. newborn i (pids s) (shape_of s)"
  then obtain i where i: "i < NPROC" "newborn i (pids s) (shape_of s)" by blast
  then have "map pid (procs s) = (replicate NPROC 0)[i := 1]" by (simp add: newborn_def pids_def)
  from find_one [OF this, of i 1] i(1) have f: "find (\<lambda>i. pid (procs s ! i) = 1) [0..<NPROC] = Some i" by simp
  let ?t = "s\<lparr>initproc := Some i\<rparr>"
  have "refnum ?t r = refnum s r" for r by (rule refnum_same) simp_all
  then have "sound {#} ?t" using s(2) i(1) by (simp add: sound_def typed_def shape_of_def refs_def)
  moreover have "pids ?t = booted_pids i" "ready i (shape_of ?t)" "booting ?t"
    using i s(1) by (simp_all add: newborn_def pids_def shape_of_def booting_def)
  ultimately show "case thn (modify (\<lambda>s. s\<lparr>initproc := (case find (\<lambda>i. pid (procs s ! i) = 1) [0..<NPROC] of
              Some i \<Rightarrow> Some i | None \<Rightarrow> initproc s)\<rparr>)) (bnd (gets initproc) k) s of
      Ret v t \<Rightarrow> booting t \<and> sound {#} t \<and> Q v (pids t) (shape_of t) | Panic e \<Rightarrow> True | _ \<Rightarrow> False"
    using assms [OF i(1)] unfolding booted_def by (simp add: run_simps f)
qed

lemma booted_userinit: "booted empty_tables userinit (\<lambda>_ p x. \<exists>i < NPROC. p = booted_pids i)"
proof -
  have step: "booted (\<lambda>p x. n < 0 \<or> n = 1 \<and> (\<exists>i < NPROC. newborn i p x)) (if n < 0 then panic e else m n) Q"
    if "booted (\<lambda>p x. \<exists>i < NPROC. newborn i p x) (m 1) Q" for n :: int and m :: "int \<Rightarrow> ('b file_st_scheme, unit) kern" and e Q
    using that by (cases "n < 0"; cases "n = 1") (simp_all add: booted_def)
  have furnish: "booted (\<lambda>p x. p = booted_pids i \<and> ready i x) m (\<lambda>_ p x. \<exists>i < NPROC. p = booted_pids i)"
    if "i < NPROC" "boots m" "keeps (has {#} (ready i)) m (\<lambda>_. has {#} live)" for i and m :: "('b file_st_scheme, unit) kern"
    by (rule booted_post [OF booted_both [OF during_boots [OF that(2)] that(3)]]) (use that(1) in blast)
  show ?thesis
    unfolding userinit_def
    by (rule booted_bnd [OF booted_create_init], rule step, rule booted_set_init, simp only: option.case, rule furnish, assumption)
      ((rule boot_rules boot_calls boots_upd_proc | (simp; fail))+, erule keeps_furnish)
qed

subsection \<open>No lock is held when the scheduler starts\<close>

definition unlocked :: "'z con_st_scheme \<Rightarrow> bool" where
  "unlocked s \<longleftrightarrow> c_locking s \<and> locks_of s = {}"

definition lockfree :: "('z con_st_scheme, 'a) kern \<Rightarrow> bool" where
  "lockfree m \<longleftrightarrow> (\<forall>s v t. unlocked s \<longrightarrow> m s = Ret v t \<longrightarrow> unlocked t)"

lemma lockfree_balanced: "balanced m \<Longrightarrow> lockfree m"
  unfolding balanced_def lockfree_def unlocked_def using ownD [of "{}" m "\<lambda>_. {}" _ _ _ "{}"] by fastforce

lemma lockfree_bnd: "lockfree m \<Longrightarrow> (\<And>v. lockfree (f v)) \<Longrightarrow> lockfree (bnd m f)"
  unfolding lockfree_def bnd_Ret_iff by blast

lemma lockfree_thn: "lockfree m \<Longrightarrow> lockfree n \<Longrightarrow> lockfree (thn m n)"
  unfolding thn_def by (rule lockfree_bnd)

lemma lockfree_ret: "lockfree (ret v)" and lockfree_panic: "lockfree (panic e)" and lockfree_gets: "lockfree (gets f)"
  by (simp_all add: lockfree_def)

lemma lockfree_if: "(b \<Longrightarrow> lockfree m) \<Longrightarrow> (\<not> b \<Longrightarrow> lockfree n) \<Longrightarrow> lockfree (if b then m else n)"
  by simp

lemma lockfree_option: "lockfree m \<Longrightarrow> (\<And>v. lockfree (f v)) \<Longrightarrow> lockfree (case x of None \<Rightarrow> m | Some v \<Rightarrow> f v)"
  by (cases x) simp_all

lemma lockfree_whenk: "lockfree m \<Longrightarrow> lockfree (whenk b m)"
  by (simp add: whenk_def lockfree_ret)

lemma lockfree_for_each: "(\<And>i. lockfree (f i)) \<Longrightarrow> lockfree (for_each is f)"
  by (induction "is") (simp_all add: lockfree_ret lockfree_thn)

lemma lockfree_modify: "(\<And>s. held (f s) = held s \<and> slocks (f s) = slocks s \<and> c_locking (f s) = c_locking s) \<Longrightarrow> lockfree (modify f)"
  by (simp add: lockfree_def unlocked_def locks_of_def)

lemma lockfree_init_slock: "lockfree (set_slock l initsleeplock)"
  by (auto simp: lockfree_def unlocked_def locks_of_def set_slock_def initsleeplock_def)

lemmas lockfree_rules = lockfree_init_slock lockfree_ret lockfree_panic lockfree_gets lockfree_if lockfree_option lockfree_whenk
  lockfree_for_each lockfree_bnd lockfree_thn

lemma lockfree_print_all: "lockfree (print_all out)"
proof -
  have "balanced (thn consoleacquire (thn (for_each out consputc) consolerelease))"
    unfolding balanced_def by (rule own_consoles own_rules own_call bal | simp add: insert_Diff_if)+
  then have "lockfree (thn consoleacquire (thn (for_each out consputc) consolerelease))" by (rule lockfree_balanced)
  moreover have "lockfree hang" by (simp add: lockfree_def hang_def)
  ultimately show ?thesis unfolding print_all_def by (intro lockfree_bnd lockfree_if lockfree_gets)
qed

lemma lockfree_kprint: "37 \<notin> set fmt \<Longrightarrow> lockfree (kprint fmt args)"
  by (simp add: kprint_plain lockfree_print_all)

lemma lockfree_kinit_loop: "lockfree (kinit_loop p)"
proof (induction p rule: kinit_loop.induct)
  case (1 p)
  show ?case unfolding kinit_loop.simps [of p] by (rule lockfree_rules lockfree_balanced bal 1 | assumption)+
qed

lemma lockfree_files: "lockfree (fsinit dev)" "lockfree fileinit" "lockfree userinit"
  unfolding fsinit_def fileinit_def userinit_def
  by (rule lockfree_rules lockfree_modify lockfree_balanced bal | (simp; fail))+

lemma lockfree_memory: "lockfree kinit" "lockfree kvminit" "lockfree kvminithart" "lockfree proc_init" "lockfree binit"
  unfolding kinit_def kvminit_def kvmmake_def kvmmap_def kvminithart_def proc_init_def binit_def Let_def
  by (rule lockfree_rules lockfree_kinit_loop lockfree_modify lockfree_balanced bal | (simp; fail))+

lemma lockfree_devices:
  "lockfree print_boot_logo" "lockfree (kprint (chars ''[NexOS] Mounting filesystem...'' @ [10]) [])"
  "lockfree (on_plic g)" "lockfree (plic_inithart_here B)" "lockfree trap_init" "lockfree (virtio_disk_init hw pages)"
  unfolding print_boot_logo_def on_plic_def plic_inithart_here_def cpuid_def trap_init_def clearsip_ssip_def
    virtio_disk_init_def write_reg64_def write_reg_def reset_rings_def Let_def
  by (rule lockfree_kprint lockfree_rules lockfree_modify | (simp add: chars_def; fail))+

definition opens :: "('z con_st_scheme, 'a) kern \<Rightarrow> bool" where
  "opens m \<longleftrightarrow> (\<forall>s v t. locks_of s = {} \<longrightarrow> m s = Ret v t \<longrightarrow> unlocked t)"

lemma opens_thn: "opens m \<Longrightarrow> lockfree n \<Longrightarrow> opens (thn m n)"
  unfolding opens_def lockfree_def thn_Ret_iff by blast

lemma opens_boot: "opens (boot_hart B)"
proof -
  have skip: "opens (thn (on_uart f) n)" if "opens n" for f and n :: "(('a, 'b, 'c) main_st_scheme, unit) kern"
    unfolding opens_def
  proof (intro allI impI)
    fix s v t
    assume s: "locks_of s = {}" "thn (on_uart f) n s = Ret v t"
    let ?u = "s\<lparr>uart_dev := f (uart_dev s)\<rparr>"
    have "locks_of ?u = {}" "n ?u = Ret v t" using s by (simp_all add: locks_of_def on_uart_def)
    with that show "unlocked t" unfolding opens_def by blast
  qed
  have "opens printfinit" by (simp add: opens_def printfinit_def consoleinit_def unlocked_def locks_of_def)
  then show ?thesis
    unfolding boot_hart_def
    by (intro skip opens_thn) (rule lockfree_rules lockfree_files lockfree_memory lockfree_devices lockfree_modify | simp)+
qed

subsection \<open>The boot as a whole\<close>

text \<open>
  The memory the boot starts from: the loader has zeroed what has no initial value, and \<open>next_pid\<close>
  is the one table variable that has. What the disk and the memory of the pipes hold is of no account.
\<close>

definition powered_on :: "'z file_st_scheme \<Rightarrow> bool" where
  "powered_on s \<longleftrightarrow> cur s = None \<and> held s = {} \<and> slocks s = (\<lambda>_. \<lparr>sl_locked = 0, owner_pid = 0, owner_cpu = 0\<rparr>) \<and>
     \<not> panicked s \<and> next_pid s = 1 \<and> initproc s = None \<and>
     (\<forall>q \<in> set (procs s). pid q = 0 \<and> pstate q = UNUSED \<and> parent q = None \<and> cwd q = None \<and> ofile q = replicate NOFILE None) \<and>
     length (procs s) = NPROC \<and> ftable s = replicate NFILE empty_file \<and> itable s = replicate NINODE idle_inode \<and>
     bufs s = replicate NBUF zero_buf \<and> lru s = [] \<and> cbuf s = replicate INPUT_BUF 0 \<and>
     (\<forall>a. length (pdata (pipes s a)) = PIPESIZE) \<and> (\<forall>b. length (disk s b) = BSIZE)"

lemma powered_on_start:
  assumes "powered_on s"
  shows "booting s" "sound {#} s" "empty_tables (pids s) (shape_of s)" "locks_of s = {}"
proof -
  have slot: "pid (procs s ! i) = 0 \<and> proc_typed (procs s ! i) \<and> slot_of (procs s ! i) = free_slot" if "i < NPROC" for i
    using assms that by (auto simp: powered_on_def proc_typed_def slot_of_def free_slot_def dead_def)
  have len: "length (procs s) = NPROC" using assms by (simp add: powered_on_def)
  have slots: "map slot_of (procs s) = replicate NPROC free_slot" "map pid (procs s) = replicate NPROC 0"
    using slot len by (auto intro!: nth_equalityI)
  show "booting s" "locks_of s = {}" using assms by (simp_all add: powered_on_def booting_def locks_of_def)
  have x: "shape_of s = \<lparr>slots = replicate NPROC free_slot, fips = replicate NFILE None, who = None\<rparr>"
    using assms slots(1) by (simp add: powered_on_def shape_of_def empty_file_def)
  have "typed s"
    using assms slot len by (auto simp: typed_def powered_on_def list_all_length file_typed_def empty_file_def idle_inode_def zero_buf_def NDIRECT_def)
  moreover have "refnum s r = 0" for r
    using assms by (cases r) (simp_all add: powered_on_def empty_file_def idle_inode_def)
  ultimately show "sound {#} s" by (simp add: sound_def x refs_def)
  show "empty_tables (pids s) (shape_of s)"
    using assms slots(2) by (simp add: empty_tables_def pids_def powered_on_def x blank_def)
qed

lemma booted_boot_hart: "booted empty_tables (boot_hart B) (\<lambda>_ p x. \<exists>i < NPROC. p = booted_pids i)"
  unfolding boot_hart_def
  by (rule booted_thn [OF booted_proc_init] booted_thn [OF booted_fsinit] booted_thn [OF booted_fileinit]
      booted_thn [OF booted_userinit] booted_thn [OF booted_quiet] booted_quiet quiets boot_calls quiet_same boots_modify
      | (simp add: pids_def; fail))+

lemma boot_hart_started: "boot_hart B s = Ret v t \<Longrightarrow> started t"
  unfolding boot_hart_def thn_Ret_iff by (elim exE conjE) (simp, clarify?, simp)

lemma main_init_boot: "hart s = 0 \<Longrightarrow> main_init B s = boot_hart B s"
  by (simp add: main_init_def cpuid_def bnd_apply)

lemma boot_result:
  assumes "powered_on s" and "hart s = 0"
  shows "case main_init B s of Ret v t \<Rightarrow> booting t \<and> sound {#} t \<and> (\<exists>i < NPROC. pids t = booted_pids i) \<and> started t
    | Panic e \<Rightarrow> True | Sleeps c t \<Rightarrow> False | Leaves t \<Rightarrow> False"
proof (cases "boot_hart B s")
  case (Ret v t)
  with powered_on_start(1-3) [OF assms(1)] booted_boot_hart [of B] boot_hart_started [OF Ret] show ?thesis
    by (fastforce simp: main_init_boot assms(2) booted_def split: outcome.splits)
qed (use powered_on_start [OF assms(1)] booted_boot_hart [of B] in \<open>auto simp: main_init_boot assms(2) booted_def split: outcome.splits\<close>)


definition demo_board :: "(unit, unit) board" where
  "demo_board = \<lparr>uart_regs = \<lparr>mrd = \<lambda>a d. (0, d), mwr = \<lambda>a v d. d\<rparr>, plic_regs = \<lparr>mrd = \<lambda>a d. (0, d), mwr = \<lambda>a v d. d\<rparr>,
     disk_reads = (\<lambda>_. 0), disk_pages = 0\<rparr>"

definition demo_power_on :: "(unit, unit) main_st" where
  "demo_power_on = boot_st.extend (trap_st.extend demo_trap (boot_st.fields False)) (main_st.fields () () False)
     \<lparr>cur := None, procs := replicate NPROC idle_proc, slocks := (\<lambda>_. \<lparr>sl_locked = 0, owner_pid = 0, owner_cpu = 0\<rparr>),
      next_pid := 1, initproc := None, lru := [], hart := 0\<rparr>"


end
