(* ===== verification/KernelRuns.thy ===== *)
theory KernelRuns
  imports BootTables
begin

section \<open>The kernel as a state machine\<close>

text \<open>
  What the kernel does after the boot, seen from outside: its scheduler gives the processor to a
  process, the process computes until a trap, the trap comes back to it or gives up the processor. The
  theories before this one treat each of these calls alone; \<open>kernel_step\<close> puts them in the sequences
  a hart goes through, and what every call keeps is true of every state reached. Between two steps
  no call is in progress except those that are asleep.
\<close>

subsection \<open>Traps keep the tables\<close>

lemma quiet_kill_line [quiets]: "quiet (kill_line e w)"
proof (induction e w rule: kill_line.induct)
  case (1 e w)
  show ?case
    unfolding kill_line.simps [of e w] by (rule moves_rules moves_call quiets 1 quiet_same quietI | (simp; fail))+
qed

lemma quiet_con_put [quiets]: "quiet (modify (con_put b))"
  by (rule quiet_modify) (auto simp: con_put_def typed_def shape_of_def intro: refnum_same)

lemma quiet_uart_isr [quiets]: "quiet (uart_isr bytes)"
  unfolding uart_isr_def consoleintr_def Let_def
  by (rule moves_rules moves_call quiets quiet_same quietI | (simp; fail))+

lemma quiet_disk_isr [quiets]: "quiet (virtio_disk_isr hw)"
  unfolding virtio_disk_isr_def complete_used_locked_def complete_one_def write_reg_def
  by (rule moves_rules moves_call quiets quiet_same quietI | (simp; fail))+

lemma quiet_interrupts [quiets]: "quiet on_timer_tick" "quiet timer_yield" "quiet clearsip_ssip" "quiet (external_interrupt hw irq bytes)"
  unfolding on_timer_tick_def timer_yield_def clearsip_ssip_def external_interrupt_def
  by (rule moves_rules moves_call quiets quiet_same quietI | (simp; fail))+

lemma quiet_usertrapret [quiets]: "quiet usertrapret"
  unfolding usertrapret_def by (rule moves_rules moves_call quiets quiet_same quietI | (simp; fail))+

lemma quiet_kerneltrap: "quiet (kerneltrap scause epc hw irq bytes)"
  unfolding kerneltrap_def Let_def by (rule moves_rules moves_call quiets quiet_same quietI | (simp; fail))+

lemma moves_killed_check: "moves live {#} (killed_check p) (\<lambda>_. {#})"
  unfolding killed_check_def by (rule moves_proc_exit moves_rules moves_call quiets | (simp; fail))+

lemma moves_usertrap_tail: "moves live {#} (usertrap_tail p) (\<lambda>_. {#})"
  unfolding usertrap_tail_def by (rule moves_killed_check moves_rules moves_call quiets | (simp; fail))+

lemma moves_usertrap: "moves live {#} (usertrap pad scause epc hw irq bytes) (\<lambda>_. {#})"
  unfolding usertrap_def usertrap_cause_def Let_def
  by (rule moves_usertrap_tail moves_killed_check moves_proc_exit moves_syscall moves_rules moves_call quiets quiet_same
      | (simp; fail))+

lemma moves_starts: "moves live {#} user_start (\<lambda>_. {#})" "moves live {#} (thn yield_resume (usertrap_tail p)) (\<lambda>_. {#})"
  unfolding user_start_def release_mine_def yield_resume_def
  by (rule moves_usertrap_tail moves_rules moves_call quiets | (simp; fail))+

subsection \<open>The steps of a hart\<close>

text \<open>
  \<open>place\<close>: what the kernel stack of a process stands in when the process is not running. A new one
  starts in \<^verbatim>\<open>user_entry\<close>; one that the timer interrupted stands in the \<open>yield\<close> of \<open>usertrap\<close>; any other is in the
  middle of a system call or of its exit. How a call goes on after a sleep is not part of this machine:
  a process \<open>In_call\<close> keeps its place.
\<close>

datatype mode = Scheduling | In_user

datatype place = At_entry | In_yield | In_call

type_synonym 'z config = "mode \<times> (nat \<Rightarrow> place) \<times> 'z trap_st_scheme"

fun resume :: "place \<Rightarrow> nat \<Rightarrow> ('z trap_st_scheme, user_entry) kern option" where
  "resume At_entry p = Some user_start"
| "resume In_yield p = Some (thn yield_resume (usertrap_tail p))"
| "resume In_call p = None"

text \<open>The next process of a slot that has become free starts at the entry.\<close>

definition settle :: "'z kproc_scheme \<Rightarrow> (nat \<Rightarrow> place) \<Rightarrow> nat \<Rightarrow> place" where
  "settle s pl i = (if pstate (procs s ! i) = UNUSED then At_entry else pl i)"

fun outcome_config :: "place \<Rightarrow> nat \<Rightarrow> (nat \<Rightarrow> place) \<Rightarrow> (user_entry, 'z trap_st_scheme) outcome \<Rightarrow> 'z config option" where
  "outcome_config y p pl (Ret ue t) = Some (In_user, settle t pl, t)"
| "outcome_config y p pl (Sleeps c t) = Some (Scheduling, settle t (pl(p := In_call)), t)"
| "outcome_config y p pl (Leaves t) = Some (Scheduling, settle t (pl(p := y)), t)"
| "outcome_config y p pl (Panic e) = None"

text \<open>
  One step: the scheduler picks a runnable process and this goes on where it stood; an interrupt comes while
  the scheduler looks for one; a process in user mode computes (it and the entry code of traps write
  memory, here any); a process in user mode traps.
\<close>

inductive kernel_step :: "'z config \<Rightarrow> 'z config \<Rightarrow> bool" where
  pick: "p < NPROC \<Longrightarrow> scheduler_visit p s = Ret True u \<Longrightarrow> resume (pl p) p = Some m \<Longrightarrow>
     outcome_config In_call p pl (m u) = Some c \<Longrightarrow> kernel_step (Scheduling, pl, s) c"
| idle: "kerneltrap scause epc hw irq bytes s = Ret () t \<Longrightarrow> kernel_step (Scheduling, pl, s) (Scheduling, pl, t)"
| compute: "kernel_step (In_user, pl, s) (In_user, pl, s\<lparr>mem := m\<rparr>)"
| trap: "cur s = Some p \<Longrightarrow>
     outcome_config (if bit scause 63 then In_yield else In_call) p pl (usertrap pad scause epc hw irq bytes s) = Some c \<Longrightarrow>
     kernel_step (In_user, pl, s) c"

definition kernel_start :: "'z config \<Rightarrow> bool" where
  "kernel_start c \<longleftrightarrow> (\<exists>s. c = (Scheduling, \<lambda>_. At_entry, s) \<and> well_formed s \<and> counts_exact {#} s)"

text \<open>The invariant: with the references of the calls that sleep, all counts are exact.\<close>

definition tables_kept :: "'z config \<Rightarrow> bool" where
  "tables_kept c \<longleftrightarrow> (case c of (md, pl, s) \<Rightarrow> (\<exists>K. sound K s) \<and> (md = In_user \<longrightarrow> live (shape_of s)))"

lemma moves_config:
  assumes "moves live {#} m (\<lambda>_. {#})" and "sound K s" and "live (shape_of s)" and "outcome_config y p pl (m s) = Some c"
  shows "tables_kept c"
  using movesD [OF assms(1-3)] assms(4) by (cases "m s") (auto simp: tables_kept_def)

lemma quiet_sound: "quiet m \<Longrightarrow> sound K s \<Longrightarrow> m s = Ret v t \<Longrightarrow> sound K t \<and> shape_of t = shape_of s"
  using movesD [of "\<lambda>x. x = shape_of s" m K s] by (simp add: quiet_def)

lemma visit_live:
  assumes "scheduler_visit p s = Ret True u" and "sound K s" and "p < NPROC"
  shows "sound K u \<and> live (shape_of u)"
proof -
  let ?q = "procs s ! p"
  have u: "u = s\<lparr>held := insert (ProcLock p) (held s), procs := (procs s)[p := ?q\<lparr>pstate := RUNNING\<rparr>], cur := Some p\<rparr>"
    and run: "pstate ?q = RUNNABLE"
    using assms(1) by (auto simp: scheduler_visit_def acquire_def upd_proc_def get_proc_def thn_apply bnd_apply split: if_splits)
  have ty: "typed s" and p: "p < length (procs s)" using assms(2,3) by (simp_all add: sound_def typed_def)
  have q: "slot_of (?q\<lparr>pstate := RUNNING\<rparr>) = slot_of ?q" using run by (simp add: slot_of_def dead_def)
  have sh: "shape_of u = (shape_of s)\<lparr>who := Some p\<rparr>"
    using q p by (simp add: u shape_of_def map_update list_update_same_conv)
  have "proc_typed ?q" using ty p by (simp add: typed_def list_all_length)
  then have "proc_typed (?q\<lparr>pstate := RUNNING\<rparr>)" using run by (simp add: proc_typed_def dead_def)
  then have "typed u" using ty assms(3)
    by (auto simp: u typed_def list_all_iff dest!: set_update_subset_insert [THEN subsetD])
  moreover have "refnum u r = refnum s r" for r by (rule refnum_same) (simp_all add: u)
  ultimately have "sound K u" using assms(2) by (simp add: sound_def sh refs_def)
  moreover have "live (shape_of u)"
    using run p assms(3) by (simp add: live_def sh) (simp add: shape_of_def slot_of_def dead_def)
  ultimately show ?thesis by simp
qed

lemma start_kept: "kernel_start c \<Longrightarrow> tables_kept c"
  by (auto simp: kernel_start_def tables_kept_def sound_iff intro: exI [of _ "{#}"])

lemma moves_resume: "resume y p = Some m \<Longrightarrow> moves live {#} m (\<lambda>_. {#})"
  by (cases y) (auto intro: moves_starts)

lemma step_kept: "kernel_step c d \<Longrightarrow> tables_kept c \<Longrightarrow> tables_kept d"
proof (induction rule: kernel_step.induct)
  case (pick p s u pl m c)
  then obtain K where "sound K s" by (auto simp: tables_kept_def)
  with visit_live pick have u: "sound K u" "live (shape_of u)" by blast+
  from moves_config [OF moves_resume [OF pick(3)] u pick(4)] show ?case .
next
  case (idle scause epc hw irq bytes s t pl)
  then show ?case using quiet_sound [OF quiet_kerneltrap] by (auto simp: tables_kept_def) blast
next
  case (compute pl s m)
  then obtain K where K: "sound K s" "live (shape_of s)" by (auto simp: tables_kept_def)
  have "quiet (upd_mem (\<lambda>_. m))" by (rule quiets)
  from quiet_sound [OF this K(1)] K(2) show ?case by (auto simp: tables_kept_def upd_mem_def)
next
  case (trap s p scause pl pad epc hw irq bytes c)
  then obtain K where "sound K s" "live (shape_of s)" by (auto simp: tables_kept_def)
  from moves_config [OF moves_usertrap this trap(2)] show ?case .
qed

interpretation kernel: safe_system kernel_start kernel_step tables_kept
  by unfold_locales (rule start_kept, assumption, rule step_kept)

text \<open>
  \<open>counted s\<close>: no slot of the open-file table or the inode table has fewer references than pointers to it;
  one whose count is zero, which is one that may be handed out, has none.
\<close>

definition counted :: "'z file_st_scheme \<Rightarrow> bool" where
  "counted s \<longleftrightarrow> (\<forall>f < NFILE. int (file_refs s f) \<le> fref (ftable s ! f)) \<and> (\<forall>i < NINODE. int (node_refs s i) \<le> iref (itable s ! i))"

lemma tables_kept_iff: "tables_kept (md, pl, s) \<Longrightarrow> well_formed s \<and> counted s \<and> (md = In_user \<longrightarrow> running s)"
  by (auto simp: tables_kept_def sound_iff counts_exact_def counted_def running_def live_def shape_of_def slot_of_def
      well_formed_def typed_def)

lemma start_config: "well_formed s \<Longrightarrow> counts_exact {#} s \<Longrightarrow> kernel_start (Scheduling, \<lambda>_. At_entry, s)"
  by (simp add: kernel_start_def)

text \<open>The boot gives such a start, so the machine it starts keeps the tables too.\<close>

lemma boot_then_run:
  assumes "powered_on s" and "hart s = 0" and "main_init B s = Ret v t"
    and "kernel_step\<^sup>*\<^sup>* (Scheduling, \<lambda>_. At_entry, t) (md, pl, u)"
  shows "well_formed u \<and> counted u"
proof -
  have "sound {#} t" using boot_result [OF assms(1,2), of B] assms(3) by simp
  then have "kernel_start (Scheduling, \<lambda>_. At_entry, t)" by (intro start_config) (simp_all add: sound_iff)
  from kernel.reachable_inv [OF this assms(4)] show ?thesis by (blast dest: tables_kept_iff)
qed


text \<open>The process of \<open>demo_dup\<close> waits for the processor, gets it, and duplicates its descriptor.\<close>

definition demo_ready :: trap_st where
  "demo_ready = demo_dup\<lparr>procs := (procs demo_dup)[1 := (procs demo_dup ! 1)\<lparr>pstate := RUNNABLE\<rparr>], cur := None\<rparr>"

lemma demo_ready_start: "well_formed demo_ready" "counts_exact {#} demo_ready"
proof -
  have d: "sound {#} demo_dup" using demo_dup_start by (simp add: sound_iff)
  let ?m = "thn (upd_proc 1 (\<lambda>q. q\<lparr>pstate := RUNNABLE\<rparr>)) (modify (\<lambda>s. s\<lparr>cur := None\<rparr>))"
  have "moves (\<lambda>_. True) {#} ?m (\<lambda>_. {#})"
    by (rule moves_rules moves_upd_slot moves_set_cur | simp add: proc_typed_def dead_def)+
  from movesD [OF this d] have "sound {#} demo_ready" by (simp add: run_simps upd_proc_def demo_ready_def)
  then show "well_formed demo_ready" "counts_exact {#} demo_ready" by (simp_all add: sound_iff)
qed

lemma usertrapret_frame:
  "usertrapret s = Ret ue t \<Longrightarrow> procs t = procs s \<and> ftable t = ftable s \<and> held t = held s \<and> cur t = cur s \<and>
     sstatus t AND SSTATUS_SPP = 0"
  by (auto simp: usertrapret_def get_tf_def set_tf_def sstatus_user split: if_splits option.splits)

lemma demo_picked: "\<exists>t pl. kernel_step (Scheduling, \<lambda>_. At_entry, demo_ready) (In_user, pl, t) \<and> procs t = procs demo_dup \<and>
    ftable t = ftable demo_dup \<and> held t = {} \<and> cur t = Some 1 \<and> sstatus t AND SSTATUS_SPP = 0"
proof -
  let ?u = "demo_dup\<lparr>held := {ProcLock 1}\<rparr>"
  have p: "procs demo_dup ! 1 = idle_proc\<lparr>pid := 1, pstate := RUNNING, pagetable := 0x80003000,
      trapframe := 0x80004000, ofile := (replicate NOFILE None)[0 := Some 0]\<rparr>"
    by (simp add: demo_dup_fields NPROC_def)
  then have q: "(procs demo_dup ! 1)\<lparr>pstate := RUNNABLE, pstate := RUNNING\<rparr> = procs demo_dup ! 1" by simp
  have len: "1 < length (procs demo_dup)" by (simp add: demo_dup_fields NPROC_def)
  have "scheduler_visit 1 demo_ready = Ret True
      (demo_dup\<lparr>cur := Some 1, held := {ProcLock 1},
        procs := (procs demo_dup)[1 := (procs demo_dup ! 1)\<lparr>pstate := RUNNABLE, pstate := RUNNING\<rparr>]\<rparr>)"
    using len by (subst scheduler_visit_eq) (simp_all add: demo_ready_def demo_dup_fields(5))
  moreover have "demo_dup\<lparr>cur := Some 1, held := {ProcLock 1},
        procs := (procs demo_dup)[1 := (procs demo_dup ! 1)\<lparr>pstate := RUNNABLE, pstate := RUNNING\<rparr>]\<rparr> = ?u"
    unfolding q by (simp add: demo_dup_fields(4))
  ultimately have visit: "scheduler_visit 1 demo_ready = Ret True ?u" by simp
  obtain ue t where t: "usertrapret demo_dup = Ret ue t"
    using demo_return [of demo_dup 1] p by (auto simp: demo_dup_fields(4))
  have "release_mine ?u = Ret () demo_dup"
    by (simp add: release_mine_def run_simps demo_dup_fields(4,5))
  with t have "user_start ?u = Ret ue t" by (simp add: user_start_def thn_apply)
  with pick [of 1 demo_ready ?u "\<lambda>_. At_entry" user_start "(In_user, settle t (\<lambda>_. At_entry), t)"] visit
  have "kernel_step (Scheduling, \<lambda>_. At_entry, demo_ready) (In_user, settle t (\<lambda>_. At_entry), t)" by (simp add: NPROC_def)
  with usertrapret_frame [OF t] show ?thesis by (auto simp: demo_dup_fields(4,5))
qed

lemma demo_traps:
  assumes "procs s = procs demo_dup" and "ftable s = ftable demo_dup" and "held s = {}" and "cur s = Some 1"
    and "sstatus s AND SSTATUS_SPP = 0" and "mem s = store64 (\<lambda>_. 0) 0x800040A8 10"
  shows "\<exists>ue t. usertrap [] SCAUSE_ECALL_U 0x1000 (\<lambda>_. 0) 0 [] s = Ret ue t \<and> fref (ftable t ! 0) = 2"
proof -
  let ?q = "procs demo_dup ! 1"
  let ?s = "s\<lparr>stvec := kernelvec s, mem := store64 (store64 (mem s) 0x80004018 0x1000) 0x80004018 0x1004\<rparr>"
  have p: "?q = idle_proc\<lparr>pid := 1, pstate := RUNNING, pagetable := 0x80003000,
      trapframe := 0x80004000, ofile := (replicate NOFILE None)[0 := Some 0]\<rparr>"
    by (simp add: demo_dup_fields NPROC_def)
  then have q: "killed ?q = 0" "trapframe ?q = 0x80004000" "pagetable ?q = 0x80003000" "ofile ?q ! 0 = Some 0" "free_fd ?q = Some 1"
    by (simp_all add: idle_proc_def free_fd_def NOFILE_def upt_rec numeral_eq_Suc)
  have f: "ftable demo_dup ! 0 = empty_file\<lparr>fref := 1, ftype := FD_CONSOLE, readable := True\<rparr>"
    by (simp add: demo_dup_fields NFILE_def)
  have a: "load64 (mem ?s) 0x800040A8 = 10" "load64 (mem ?s) 0x80004070 = 0"
    by (simp_all add: assms(6) load64_store64_disj disj_def load64_zero)
  have "usertrap [] SCAUSE_ECALL_U 0x1000 (\<lambda>_. 0) 0 [] s = thn (syscall []) (usertrap_tail 1) ?s"
    using q assms by (simp add: usertrap_def usertrap_cause_def set_tf_def get_tf_def demo_killed run_simps)
  moreover have "\<exists>t. syscall [] ?s = Ret () t \<and> ftable t = (ftable ?s)[0 := (ftable ?s ! 0)\<lparr>fref := fref (ftable ?s ! 0) + 1\<rparr>] \<and>
     procs t = (procs ?s)[1 := (procs ?s ! 1)\<lparr>ofile := (ofile (procs ?s ! 1))[1 := Some 0]\<rparr>] \<and> cur t = cur ?s"
    by (rule dup_call) (use a q f in \<open>simp_all add: assms\<close>)
  then obtain t where t: "syscall [] ?s = Ret () t"
    "ftable t = (ftable demo_dup)[0 := (ftable demo_dup ! 0)\<lparr>fref := fref (ftable demo_dup ! 0) + 1\<rparr>]"
    "procs t = (procs demo_dup)[1 := ?q\<lparr>ofile := (ofile ?q)[1 := Some 0]\<rparr>]" "cur t = Some 1"
    by (auto simp: assms)
  then have t1: "procs t ! 1 = ?q\<lparr>ofile := (ofile ?q)[1 := Some 0]\<rparr>" by (simp add: demo_dup_fields(1) NPROC_def)
  with q obtain ue v where v: "usertrapret t = Ret ue v" using demo_return [OF t(4)] by auto
  with t1 q have "usertrap_tail 1 t = Ret ue v" by (simp add: usertrap_tail_def demo_killed thn_apply)
  moreover have "fref (ftable v ! 0) = 2"
    using usertrapret_frame [OF v] t(2) by (simp add: demo_dup_fields(2) NFILE_def empty_file_def)
  ultimately show ?thesis using t(1) by (simp add: thn_apply)
qed


end
