(* ===== verification/Directory.thy ===== *)
theory Directory
  imports Path FileData
begin

section \<open>Directories as finite maps\<close>

text \<open>
  A directory is a file of 16-byte entries. Seen from above it is a finite map from names to inode
  numbers: \<open>dirlookup\<close> is its lookup and \<open>dirlink\<close> its update. The caller holds the lock of the
  directory and no other process is in the buffer cache.
\<close>

definition entry_of :: "'z fs_st_scheme \<Rightarrow> nat \<Rightarrow> nat \<Rightarrow> dirent" where
  "entry_of s d k = dirent_of (slice (DIRENT_SIZE * k) DIRENT_SIZE (file_bytes s d))"

definition entries :: "'z fs_st_scheme \<Rightarrow> nat \<Rightarrow> dirent list" where
  "entries s d = map (entry_of s d) [0..<unat (isize (itable s ! d)) div DIRENT_SIZE]"

text \<open>The slot of the first live entry with a name; the map from names to inode numbers.\<close>

definition dir_slot :: "dirent list \<Rightarrow> u8 list \<Rightarrow> nat option" where
  "dir_slot es name = find (\<lambda>k. de_inum (es ! k) \<noteq> 0 \<and> cstr (de_name (es ! k)) = name) [0..<length es]"

definition dir_map :: "dirent list \<Rightarrow> u8 list \<Rightarrow> u16 option" where
  "dir_map es name = map_option (\<lambda>k. de_inum (es ! k)) (dir_slot es name)"

definition file_name :: "u8 list \<Rightarrow> bool" where
  "file_name name \<longleftrightarrow> length name \<le> DIRSIZ \<and> 0 \<notin> set name"

subsection \<open>Names\<close>

lemma kstrncmp_from_eq:
  "0 \<notin> set a \<Longrightarrow> 0 \<notin> set b \<Longrightarrow> kstrncmp_from i k a b = 0 \<longleftrightarrow> take k (drop i a) = take k (drop i b)"
proof (induction k arbitrary: i)
  case (Suc k)
  have z: "cstr_nth x i = 0 \<longleftrightarrow> length x \<le> i" if "0 \<notin> set x" for x
    using that by (cases "i < length x") (auto simp: cstr_nth_def dest: nth_mem)
  have u: "take (Suc k) (drop i x) = (if i < length x then x ! i # take k (drop (i + 1) x) else [])" for x :: "u8 list"
    by (simp add: Cons_nth_drop_Suc [symmetric])
  have "uint x - uint y = 0 \<longleftrightarrow> x = y" for x y :: u8 by (simp add: word_uint_eq_iff)
  then have "kstrncmp_from i (Suc k) a b = 0 \<longleftrightarrow> cstr_nth a i = cstr_nth b i \<and> (cstr_nth a i = 0 \<or> kstrncmp_from (i + 1) k a b = 0)"
    by (simp add: Let_def)
  then show ?case
    using Suc.IH [OF Suc.prems, of "i + 1"] z [OF Suc.prems(1)] z [OF Suc.prems(2)]
    by (cases "i < length a"; cases "i < length b") (simp_all add: u cstr_nth_def)
qed simp

lemma cstr_no_zero [simp]: "0 \<notin> set (cstr bs)"
  by (auto simp: cstr_def dest: set_takeWhileD)

lemma length_entry_name: "length (cstr (de_name (dirent_of bs))) \<le> DIRSIZ"
proof -
  have "length (cstr (de_name (dirent_of bs))) \<le> length (de_name (dirent_of bs))"
    unfolding cstr_def by (rule length_takeWhile_le)
  also have "\<dots> \<le> DIRSIZ" by (simp add: dirent_of_def length_slice)
  finally show ?thesis .
qed

lemma namecmp_eq: "file_name name \<Longrightarrow> namecmp name (cstr (de_name (dirent_of bs))) = 0 \<longleftrightarrow> name = cstr (de_name (dirent_of bs))"
  using length_entry_name [of bs] by (simp add: namecmp_def kstrncmp_def kstrncmp_from_eq file_name_def)

lemma cstr_pad:
  assumes "file_name name"
  shows "cstr (name @ replicate n 0) = name"
proof -
  have "\<forall>c \<in> set name. c \<noteq> 0" using assms by (auto simp: file_name_def)
  then have "cstr (name @ replicate n 0) = name @ takeWhile (\<lambda>b. b \<noteq> 0) (replicate n 0)"
    unfolding cstr_def by (intro takeWhile_append2) auto
  also have "takeWhile (\<lambda>b :: u8. b \<noteq> 0) (replicate n 0) = []" by (cases n) simp_all
  finally show ?thesis by simp
qed

subsection \<open>The search loops\<close>

lemma ready_io:
  assumes "file_ready dev s d" and "io dev {} s t" and "disk t = disk s"
  shows "file_ready dev t d" "file_bytes t d = file_bytes s d" "itable t = itable s"
proof -
  have at: "quiet_cache dev s" "file_wf s d" "idev (itable s ! d) = dev" and dense: "dense s d" and lock: "owns s (InodeLock d)"
    using assms(1) by (simp_all add: file_ready_def at_inode_def)
  show it: "itable t = itable s" using io_fs [OF assms(2)] by simp
  have fa: "faddr t d = faddr s d" by (rule ext) (rule io_faddr [OF assms(2,3)])
  then show "file_bytes t d = file_bytes s d"
    by (simp add: file_bytes_def fbyte_def [abs_def] fblock_def it assms(3))
  have "at_inode dev t d" using grown_at [OF io_grown [OF at(2) assms(2,3)] quiet_io [OF at(1) assms(2)] at(3)] .
  moreover have "dense t d" using dense by (simp add: dense_def fa it)
  moreover have "owns t (InodeLock d)" using lock assms(2) by (auto simp: owns_def io_def cache_step_def split: option.splits)
  moreover have "sb t = sb s" using io_fs [OF assms(2)] by simp
  ultimately show "file_ready dev t d" using assms(1) by (simp add: file_ready_def it)
qed

lemma ready_lock: "file_ready dev s d \<Longrightarrow> inode_lock_if_needed d s = Ret False s"
  by (rule my_lock [of dev]) (simp_all add: file_ready_def at_inode_def)

lemma ready_size: "file_ready dev s d \<Longrightarrow> unat (isize (itable s ! d)) \<le> 71680"
  by (simp add: file_ready_def dense_def NDIRECT_vals)

lemma read_entry:
  assumes "file_ready dev s d" and "k < unat (isize (itable s ! d)) div DIRENT_SIZE"
  obtains t bs where "readi (Some d) (ucast (of_nat (DIRENT_SIZE * k) :: u32)) (of_nat DIRENT_SIZE) s = Ret (int DIRENT_SIZE, bs) t"
    "dirent_of bs = entry_of s d k" "io dev {} s t" "disk t = disk s"
proof -
  have k: "DIRENT_SIZE * k + DIRENT_SIZE \<le> unat (isize (itable s ! d))"
    using assms(2) by (simp add: DIRENT_SIZE_def)
  then have "DIRENT_SIZE * k < 4294967296" using ready_size [OF assms(1)] by linarith
  then have o: "unat (ucast (of_nat (DIRENT_SIZE * k) :: u32) :: u64) = DIRENT_SIZE * k"
    unfolding unat_ucast_32_64 by (rule unat32_of_nat)
  have n: "unat (of_nat DIRENT_SIZE :: u32) = DIRENT_SIZE" by (simp add: DIRENT_SIZE_def)
  have at: "at_inode dev s d" "dense s d" "owns s (InodeLock d)" "itype (itable s ! d) \<noteq> 0"
    using assms(1) by (simp_all add: file_ready_def)
  have "length (slice (DIRENT_SIZE * k) DIRENT_SIZE (file_bytes s d)) = DIRENT_SIZE" using k by (simp add: length_slice)
  then show thesis
    using readi_spec [OF at, of "ucast (of_nat (DIRENT_SIZE * k) :: u32)" "of_nat DIRENT_SIZE"] that
    unfolding o n entry_of_def by metis
qed

text \<open>Both loops of the code look at the entries in turn until one of them decides.\<close>

lemma search_entries:
  fixes s :: "'z fs_st_scheme" and f :: "u32 \<Rightarrow> dirent \<Rightarrow> 'b option"
  assumes "file_ready dev s d" and "\<forall>k \<in> set ks. k < unat (isize (itable s ! d)) div DIRENT_SIZE"
  shows "\<exists>t. search (map (\<lambda>k. of_nat (DIRENT_SIZE * k)) ks) (\<lambda>off.
         bnd (readi (Some d) (ucast off) (of_nat DIRENT_SIZE)) (\<lambda>(n, bs).
         if n \<noteq> int DIRENT_SIZE then ret (Some None) else ret (map_option Some (f off (dirent_of bs))))) s =
       Ret (map_option (\<lambda>k. f (of_nat (DIRENT_SIZE * k)) (entry_of s d k))
         (find (\<lambda>k. f (of_nat (DIRENT_SIZE * k)) (entry_of s d k) \<noteq> None) ks)) t \<and> io dev {} s t \<and> disk t = disk s"
  using assms
proof (induction ks arbitrary: s)
  case Nil
  then show ?case using io_refl [OF quietD(1)] by (auto simp: file_ready_def at_inode_def)
next
  case (Cons k ks)
  obtain u bs where u: "readi (Some d) (ucast (of_nat (DIRENT_SIZE * k) :: u32)) (of_nat DIRENT_SIZE) s = Ret (int DIRENT_SIZE, bs) u"
    "dirent_of bs = entry_of s d k" "io dev {} s u" "disk u = disk s"
    by (rule read_entry [OF Cons.prems(1), of k]) (use Cons.prems(2) in simp_all)
  note R = ready_io [OF Cons.prems(1) u(3,4)]
  have e: "entry_of u d = entry_of s d" by (rule ext) (simp add: entry_of_def R(2))
  show ?case
  proof (cases "f (of_nat (DIRENT_SIZE * k)) (entry_of s d k)")
    case None
    with Cons.IH [OF R(1)] Cons.prems(2) R(3) u e show ?thesis
      by (auto simp: bnd_apply intro: io_trans)
  next
    case (Some v)
    with u show ?thesis by (auto simp: bnd_apply)
  qed
qed

lemma length_entries [simp]: "length (entries s d) = unat (isize (itable s ! d)) div DIRENT_SIZE"
  by (simp add: entries_def)

lemma entries_io: "file_ready dev s d \<Longrightarrow> io dev {} s t \<Longrightarrow> disk t = disk s \<Longrightarrow> entries t d = entries s d"
  using ready_io [of dev s d t] by (simp add: entries_def entry_of_def)

text \<open>A search over all the entries of a directory.\<close>

lemma search_dir:
  fixes s :: "'z fs_st_scheme" and f :: "u32 \<Rightarrow> dirent \<Rightarrow> 'b option"
  assumes "file_ready dev s d"
    and "\<And>k. k < length (entries s d) \<Longrightarrow> f (of_nat (DIRENT_SIZE * k)) (entries s d ! k) \<noteq> None \<longleftrightarrow> P k"
  obtains t where "search (dirent_offs (isize (itable s ! d))) (\<lambda>off.
         bnd (readi (Some d) (ucast off) (of_nat DIRENT_SIZE)) (\<lambda>(n, bs).
         if n \<noteq> int DIRENT_SIZE then ret (Some None) else ret (map_option Some (f off (dirent_of bs))))) s =
       Ret (map_option (\<lambda>k. f (of_nat (DIRENT_SIZE * k)) (entries s d ! k)) (find P [0..<length (entries s d)])) t"
    "io dev {} s t" "disk t = disk s"
proof -
  let ?n = "unat (isize (itable s ! d)) div DIRENT_SIZE"
  have e: "k < ?n \<Longrightarrow> entries s d ! k = entry_of s d k" for k by (simp add: entries_def)
  have "find (\<lambda>k. f (of_nat (DIRENT_SIZE * k)) (entry_of s d k) \<noteq> None) [0..<?n] = find P [0..<?n]"
    using assms(2) e by (intro find_cong) auto
  moreover have "map_option (\<lambda>k. f (of_nat (DIRENT_SIZE * k)) (entry_of s d k)) (find P [0..<?n]) =
      map_option (\<lambda>k. f (of_nat (DIRENT_SIZE * k)) (entries s d ! k)) (find P [0..<?n])"
    using e by (auto simp: find_Some_iff cong: option.map_cong dest!: find_SomeD intro!: option.map_cong)
  ultimately show thesis
    using search_entries [OF assms(1), of "[0..<?n]" f] that by (auto simp: dirent_offs_def)
qed

lemma dirlookup_spec:
  assumes ready: "file_ready dev s d" and "itype (itable s ! d) = T_DIR" and name: "file_name name"
  shows "\<exists>t. io dev {} s t \<and> disk t = disk s \<and> dirlookup d name s =
     (case dir_slot (entries s d) name of
        None \<Rightarrow> Ret None t
      | Some k \<Rightarrow> bnd (iget dev (ucast (de_inum (entries s d ! k)))) (\<lambda>i. ret (Some (i, of_nat (DIRENT_SIZE * k)))) t)"
proof -
  define f where "f = (\<lambda>off :: u32. \<lambda>de :: dirent. if de_inum de = 0 then None
      else if namecmp name (cstr (de_name de)) = 0 then Some (de_inum de, off) else None)"
  have "f (of_nat (DIRENT_SIZE * k)) (entries s d ! k) \<noteq> None \<longleftrightarrow>
      de_inum (entries s d ! k) \<noteq> 0 \<and> cstr (de_name (entries s d ! k)) = name" if "k < length (entries s d)" for k
    using that namecmp_eq [OF name] by (auto simp: f_def entries_def entry_of_def)
  from search_dir [where f = f and P = "\<lambda>k. de_inum (entries s d ! k) \<noteq> 0 \<and> cstr (de_name (entries s d ! k)) = name", OF ready this]
  obtain t where t: "search (dirent_offs (isize (itable s ! d))) (\<lambda>off.
         bnd (readi (Some d) (ucast off) (of_nat DIRENT_SIZE)) (\<lambda>(n, bs).
         if n \<noteq> int DIRENT_SIZE then ret (Some None) else ret (map_option Some (f off (dirent_of bs))))) s =
       Ret (map_option (\<lambda>k. f (of_nat (DIRENT_SIZE * k)) (entries s d ! k)) (dir_slot (entries s d) name)) t"
    "io dev {} s t" "disk t = disk s" unfolding dir_slot_def by blast
  have body: "(let de = dirent_of bs in if de_inum de = 0 then ret None
           else if namecmp name (cstr (de_name de)) = 0 then ret (Some (Some (de_inum de, off))) else ret None) =
      ret (map_option Some (f off (dirent_of bs)))" for off :: u32 and bs
    by (simp add: f_def)
  have dev: "idev (itable s ! d) = dev" using ready by (simp add: file_ready_def at_inode_def)
  have it: "itable t = itable s" using io_fs [OF t(2)] by simp
  have hit: "f (of_nat (DIRENT_SIZE * k)) (entries s d ! k) = Some (de_inum (entries s d ! k), of_nat (DIRENT_SIZE * k))"
    if "dir_slot (entries s d) name = Some k" for k
  proof -
    have "k < length (entries s d)" "de_inum (entries s d ! k) \<noteq> 0" "cstr (de_name (entries s d ! k)) = name"
      using that unfolding dir_slot_def by (auto simp del: length_entries dest!: find_SomeD)
    moreover from this(1) have "namecmp name (cstr (de_name (entries s d ! k))) = 0 \<longleftrightarrow> name = cstr (de_name (entries s d ! k))"
      by (simp add: entries_def entry_of_def namecmp_eq [OF name])
    ultimately show ?thesis by (simp add: f_def)
  qed
  have "dirlookup d name s = (case dir_slot (entries s d) name of None \<Rightarrow> Ret None t
      | Some k \<Rightarrow> bnd (iget dev (ucast (de_inum (entries s d ! k)))) (\<lambda>i. ret (Some (i, of_nat (DIRENT_SIZE * k)))) t)"
    unfolding dirlookup_def body
    using ready_lock [OF ready] assms(2) t(1) dev hit
    by (cases "dir_slot (entries s d) name") (simp_all add: bnd_apply run_simps get_inode_def Let_def)
  with t(2,3) show ?thesis by blast
qed

subsection \<open>Looking a name up\<close>

text \<open>
  C32. \<open>dirlookup\<close> is the lookup of the directory's finite map: for an open, locked directory and a
  name that fits an entry, it fails when no live entry has the name, and otherwise takes an
  in-memory inode for the number of the first such entry and returns the byte offset of that entry.
  The searching itself changes nothing on the disk.
\<close>

theorem dirlookup_finds:
  assumes "file_ready dev s d" and "itype (itable s ! d) = T_DIR" and "file_name name"
  shows "\<exists>t. io dev {} s t \<and> disk t = disk s \<and> dirlookup d name s =
     (case dir_slot (entries s d) name of
        None \<Rightarrow> Ret None t
      | Some k \<Rightarrow> bnd (iget dev (ucast (de_inum (entries s d ! k)))) (\<lambda>i. ret (Some (i, of_nat (DIRENT_SIZE * k)))) t)"
  by (rule dirlookup_spec [OF assms])

subsection \<open>Adding an entry\<close>

text \<open>The slot a new entry goes to: the first free one, or the end.\<close>

definition free_slot :: "dirent list \<Rightarrow> nat" where
  "free_slot es = (case find (\<lambda>k. de_inum (es ! k) = 0) [0..<length es] of None \<Rightarrow> length es | Some k \<Rightarrow> k)"

definition new_entry :: "u8 list \<Rightarrow> u32 \<Rightarrow> dirent" where
  "new_entry name ino = \<lparr>de_inum = ucast ino, de_name = name @ replicate (DIRSIZ - length name) 0\<rparr>"

lemma find_nth: "find P xs = map_option ((!) xs) (find (\<lambda>k. P (xs ! k)) [0..<length xs])"
proof (induction xs rule: rev_induct)
  case (snoc x xs)
  have same: "find (\<lambda>k. P ((xs @ [x]) ! k)) [0..<length xs] = find (\<lambda>k. P (xs ! k)) [0..<length xs]"
    by (rule find_cong) (auto simp: nth_append)
  show ?case
  proof (cases "find (\<lambda>k. P (xs ! k)) [0..<length xs]")
    case None
    with snoc same show ?thesis by (simp add: find_append)
  next
    case (Some k)
    then have "k < length xs" by (auto dest: find_SomeD)
    with snoc same Some show ?thesis by (simp add: find_append nth_append)
  qed
qed simp

lemma dir_map_find: "dir_map es name = map_option de_inum (find (\<lambda>e. de_inum e \<noteq> 0 \<and> cstr (de_name e) = name) es)"
  by (simp add: dir_map_def dir_slot_def find_nth [of _ es] option.map_comp comp_def)

lemma free_slot_cases:
  obtains "free_slot es = length es" | "free_slot es < length es" "de_inum (es ! free_slot es) = 0"
  unfolding free_slot_def by (cases "find (\<lambda>k. de_inum (es ! k) = 0) [0..<length es]") (auto dest!: find_SomeD)

lemma dir_map_add:
  assumes "de_inum e \<noteq> 0" and "dir_map es (cstr (de_name e)) = None"
  shows "dir_map (put_at (free_slot es) [e] es) = (dir_map es)(cstr (de_name e) \<mapsto> de_inum e)"
proof (rule ext)
  fix x
  let ?k = "free_slot es"
  show "dir_map (put_at ?k [e] es) x = ((dir_map es)(cstr (de_name e) \<mapsto> de_inum e)) x"
  proof (cases rule: free_slot_cases [of es])
    case 1
    with assms show ?thesis by (auto simp: put_at_def dir_map_find find_append split: option.split)
  next
    case 2
    then have "es = take ?k es @ es ! ?k # drop (Suc ?k) es" by (simp add: id_take_nth_drop)
    then have "find P es = find P (take ?k es @ es ! ?k # drop (Suc ?k) es)" for P by simp
    with 2 assms show ?thesis
      by (auto simp: put_at_def dir_map_find find_append split: option.split option.split_asm)
  qed
qed

lemma put_entry:
  assumes "DIRENT_SIZE dvd length bs" and "length xs = DIRENT_SIZE" and k: "k \<le> length bs div DIRENT_SIZE"
  defines "ents \<equiv> \<lambda>bs. map (\<lambda>k. dirent_of (slice (DIRENT_SIZE * k) DIRENT_SIZE bs)) [0..<length bs div DIRENT_SIZE]"
  shows "ents (put_at (DIRENT_SIZE * k) xs bs) = put_at k [dirent_of xs] (ents bs)"
proof -
  obtain n where n: "length bs = DIRENT_SIZE * n" using assms(1) by auto
  have p: "0 < DIRENT_SIZE" by (simp add: DIRENT_SIZE_def)
  consider "k = n" | "k < n" using k n p by (auto simp: le_less)
  then show ?thesis
  proof cases
    case 1
    then have "put_at (DIRENT_SIZE * k) xs bs = bs @ xs" using n by (simp add: put_at_def)
    then show ?thesis using 1 n p assms(2)
      by (auto simp: ents_def put_at_def slice_def simp flip: mult_Suc_right intro!: nth_equalityI)
  next
    case 2
    then have fit: "DIRENT_SIZE * k + length xs \<le> length bs"
      using n assms(2) by (metis Suc_leI mult_Suc_right add.commute mult_le_mono2)
    have "dirent_of (slice (DIRENT_SIZE * j) DIRENT_SIZE (put_at (DIRENT_SIZE * k) xs bs)) =
        (if j = k then dirent_of xs else dirent_of (slice (DIRENT_SIZE * j) DIRENT_SIZE bs))" for j
    proof (cases j k rule: linorder_cases)
      case less
      then have "DIRENT_SIZE * j + DIRENT_SIZE \<le> DIRENT_SIZE * k" by (metis Suc_leI mult_Suc_right add.commute mult_le_mono2)
      with less fit show ?thesis by (simp add: slice_put_at_other)
    next
      case equal
      then show ?thesis using slice_put_at [OF fit] assms(2) by simp
    next
      case greater
      then have "DIRENT_SIZE * k + DIRENT_SIZE \<le> DIRENT_SIZE * j" by (metis Suc_leI mult_Suc_right add.commute mult_le_mono2)
      with greater fit assms(2) show ?thesis by (simp add: slice_put_at_other)
    qed
    then show ?thesis using 2 n p fit
      by (intro nth_equalityI) (auto simp: ents_def length_put_at nth_put_at)
  qed
qed

lemma entries_bytes: "entries s d = map (\<lambda>k. dirent_of (slice (DIRENT_SIZE * k) DIRENT_SIZE (file_bytes s d)))
    [0..<length (file_bytes s d) div DIRENT_SIZE]"
  by (simp add: entries_def entry_of_def [abs_def] file_bytes_def)

lemma new_entry_bytes:
  assumes "file_name name"
  shows "length (dirent_bytes (new_entry name ino)) = DIRENT_SIZE"
    "dirent_of (dirent_bytes (new_entry name ino)) = new_entry name ino"
    "cstr (de_name (new_entry name ino)) = name"
proof -
  have l: "length (de_name (new_entry name ino)) = DIRSIZ" using assms by (simp add: new_entry_def file_name_def)
  then show "length (dirent_bytes (new_entry name ino)) = DIRENT_SIZE"
    by (simp add: dirent_bytes_def DIRSIZ_def DIRENT_SIZE_def)
  show "dirent_of (dirent_bytes (new_entry name ino)) = new_entry name ino" using dirent_of_bytes [OF l] .
  show "cstr (de_name (new_entry name ino)) = name" using cstr_pad [OF assms] by (simp add: new_entry_def)
qed

lemma dirlink_spec:
  fixes s :: "'z fs_st_scheme" and ino :: u32
  assumes ready: "file_ready dev s d" and ty: "itype (itable s ! d) = T_DIR" and name: "file_name name"
    and whole: "DIRENT_SIZE dvd unat (isize (itable s ! d))"
    and room: "unat (isize (itable s ! d)) + DIRENT_SIZE \<le> MAXFILE * BSIZE"
    and new: "dir_slot (entries s d) name = None"
  defines "e \<equiv> new_entry name ino"
  shows "\<exists>r t. dirlink d name ino s = Ret r t \<and> file_ready dev t d \<and>
     (r = 0 \<and> entries t d = put_at (free_slot (entries s d)) [e] (entries s d) \<and>
        itype (itable t ! d) = T_DIR \<and> DIRENT_SIZE dvd unat (isize (itable t ! d)) \<and> saved t d \<or>
      r = -1 \<and> disk_full t)"
proof -
  let ?len = "unat (isize (itable s ! d))" and ?k = "free_slot (entries s d)"
  obtain t where t: "dirlookup d name s = Ret None t" "io dev {} s t" "disk t = disk s"
    using dirlookup_spec [OF ready ty name] new by auto
  note T = ready_io [OF ready t(2,3)]
  define f where "f = (\<lambda>off :: u32. \<lambda>de :: dirent. if de_inum de = 0 then Some off else None)"
  have body: "(if de_inum (dirent_of bs) = 0 then ret (Some (Some off)) else ret None) =
      ret (map_option Some (f off (dirent_of bs)))" for off :: u32 and bs
    by (simp add: f_def)
  have "f (of_nat (DIRENT_SIZE * k)) (entries t d ! k) \<noteq> None \<longleftrightarrow> de_inum (entries t d ! k) = 0" for k
    by (simp add: f_def)
  from search_dir [where f = f and P = "\<lambda>k. de_inum (entries t d ! k) = 0", OF T(1) this]
  obtain u where u: "search (dirent_offs (isize (itable t ! d))) (\<lambda>off.
         bnd (readi (Some d) (ucast off) (of_nat DIRENT_SIZE)) (\<lambda>(n, bs).
         if n \<noteq> int DIRENT_SIZE then ret (Some None) else ret (map_option Some (f off (dirent_of bs))))) t =
       Ret (map_option (\<lambda>k. f (of_nat (DIRENT_SIZE * k)) (entries t d ! k))
         (find (\<lambda>k. de_inum (entries t d ! k) = 0) [0..<length (entries t d)])) u"
    "io dev {} t u" "disk u = disk t" by blast
  note U = ready_io [OF T(1) u(2,3)]
  have es: "entries t d = entries s d" by (rule entries_io [OF ready t(2,3)])
  have it: "itable u = itable s" "file_bytes u d = file_bytes s d" using T(2,3) U(2,3) by simp_all
  let ?r = "map_option (\<lambda>k. f (of_nat (DIRENT_SIZE * k)) (entries s d ! k)) (find (\<lambda>k. de_inum (entries s d ! k) = 0) [0..<length (entries s d)])"
  have r: "?r = None \<and> ?k = ?len div DIRENT_SIZE \<or> ?r = Some (Some (of_nat (DIRENT_SIZE * ?k)))"
    by (auto simp: free_slot_def f_def split: option.split dest!: find_SomeD)
  have k: "?k \<le> ?len div DIRENT_SIZE" by (cases rule: free_slot_cases [of "entries s d"]) simp_all
  then have kl: "DIRENT_SIZE * ?k \<le> ?len" using whole by (metis dvd_mult_div_cancel mult_le_mono2)
  let ?off = "ucast (of_nat (DIRENT_SIZE * ?k) :: u32) :: u64"
  have off: "unat ?off = DIRENT_SIZE * ?k"
    unfolding unat_ucast_32_64 by (rule unat32_of_nat) (use kl ready_size [OF ready] in linarith)
  have el: "length (dirent_bytes e) = DIRENT_SIZE" using new_entry_bytes [OF name] by (simp add: e_def)
  have ne: "dirent_bytes e \<noteq> []" using el by (auto simp: DIRENT_SIZE_def)
  obtain n w where w: "writei (Some d) ?off (dirent_bytes e) u = Ret (int n) w" "n \<le> DIRENT_SIZE"
    "n < DIRENT_SIZE \<longrightarrow> disk_full w" "file_ready dev w d"
    "file_bytes w d = put_at (DIRENT_SIZE * ?k) (take n (dirent_bytes e)) (file_bytes s d)"
    "saved w d" "itype (itable w ! d) = T_DIR"
    using writei_spec [OF U(1) _ _ ne, of ?off] kl room off el it ty by auto
  have name': "take DIRSIZ name = name" using name by (simp add: file_name_def)
  have run: "dirlink d name ino s = Ret (if int n \<noteq> int DIRENT_SIZE then -1 else 0) w"
    unfolding dirlink_def body
    using ready_lock [OF ready] ty t(1) u(1) w(1) T(3) es r name'
    by (auto simp: run_simps get_inode_def Let_def e_def new_entry_def)
  show ?thesis
  proof (cases "n = DIRENT_SIZE")
    case True
    have "entries w d = put_at ?k [e] (entries s d)"
      using put_entry [of "file_bytes s d" "dirent_bytes e" ?k] whole k el w(5) True new_entry_bytes [OF name]
      by (simp add: entries_bytes e_def file_bytes_def)
    moreover have "length (file_bytes w d) = max ?len (DIRENT_SIZE * ?k + DIRENT_SIZE)"
      using w(5) True el kl by (simp add: put_at_def file_bytes_def)
    then have "DIRENT_SIZE dvd unat (isize (itable w ! d))" using whole by (simp add: file_bytes_def max_def)
    ultimately show ?thesis using run True w by auto
  next
    case False
    with run w show ?thesis by auto
  qed
qed

text \<open>
  C33. \<open>dirlink\<close> updates the directory's finite map: adding a name that is not there, with an inode
  number whose 16 low bits are not zero, returns 0 and the map afterwards is the old one with the
  name mapped to that number; every other name keeps its entry. When it returns -1 instead, the
  disk is full. Either way the directory is a well-formed, open and locked file again.
\<close>

theorem dirlink_adds:
  assumes "file_ready dev s d" and "itype (itable s ! d) = T_DIR" and "file_name name"
    and "DIRENT_SIZE dvd unat (isize (itable s ! d))"
    and "unat (isize (itable s ! d)) + DIRENT_SIZE \<le> MAXFILE * BSIZE"
    and "dir_map (entries s d) name = None" and "(ucast ino :: u16) \<noteq> 0"
  shows "\<exists>r t. dirlink d name ino s = Ret r t \<and> file_ready dev t d \<and>
     (r = 0 \<and> dir_map (entries t d) = (dir_map (entries s d))(name \<mapsto> ucast ino) \<or> r = -1 \<and> disk_full t)"
proof -
  have new: "dir_slot (entries s d) name = None" using assms(6) by (simp add: dir_map_def)
  have e: "cstr (de_name (new_entry name ino)) = name" "de_inum (new_entry name ino) = ucast ino"
    using new_entry_bytes [OF assms(3)] by (simp_all add: new_entry_def)
  have "dir_map (put_at (free_slot (entries s d)) [new_entry name ino] (entries s d)) = (dir_map (entries s d))(name \<mapsto> ucast ino)"
    using dir_map_add [of "new_entry name ino" "entries s d"] assms(6,7) by (simp add: e)
  then show ?thesis using dirlink_spec [OF assms(1-5) new, of ino] by metis
qed

text \<open>
  A name that was just linked is found: \<open>dirlink\<close> of a new name followed by \<open>dirlookup\<close> of the
  same name yields the in-memory inode of the number that was linked, unless the disk was full.
\<close>

theorem dirlink_dirlookup:
  assumes "file_ready dev s d" and "itype (itable s ! d) = T_DIR" and "file_name name"
    and "DIRENT_SIZE dvd unat (isize (itable s ! d))"
    and "unat (isize (itable s ! d)) + DIRENT_SIZE \<le> MAXFILE * BSIZE"
    and "dir_map (entries s d) name = None" and "(ucast ino :: u16) \<noteq> 0"
  shows "\<exists>r t. dirlink d name ino s = Ret r t \<and> (r = -1 \<and> disk_full t \<or>
     r = 0 \<and> (\<exists>off u. dirlookup d name t = bnd (iget dev (ucast (ucast ino :: u16))) (\<lambda>i. ret (Some (i, off))) u))"
proof -
  have new: "dir_slot (entries s d) name = None" using assms(6) by (simp add: dir_map_def)
  have e: "cstr (de_name (new_entry name ino)) = name" "de_inum (new_entry name ino) = ucast ino"
    using new_entry_bytes [OF assms(3)] by (simp_all add: new_entry_def)
  have m: "dir_map (put_at (free_slot (entries s d)) [new_entry name ino] (entries s d)) name = Some (ucast ino)"
    using dir_map_add [of "new_entry name ino" "entries s d"] assms(6,7) by (simp add: e)
  obtain r t where t: "dirlink d name ino s = Ret r t" "file_ready dev t d"
    "r = 0 \<and> entries t d = put_at (free_slot (entries s d)) [new_entry name ino] (entries s d) \<and> itype (itable t ! d) = T_DIR \<or>
      r = -1 \<and> disk_full t"
    using dirlink_spec [OF assms(1-5) new, of ino] by blast
  show ?thesis
  proof (cases "r = -1 \<and> disk_full t")
    case False
    with t(3) m obtain k where "dir_slot (entries t d) name = Some k" "de_inum (entries t d ! k) = ucast ino"
      by (auto simp: dir_map_def)
    then show ?thesis using t(1,3) False dirlookup_spec [OF t(2) _ assms(3)] by fastforce
  qed (use t(1) in blast)
qed

subsection \<open>An example\<close>

text \<open>Inode 1 again, this time an empty directory.\<close>

definition demo_dir :: fs_st where
  "demo_dir = demo_file\<lparr>itable := (itable demo_file)[0 := demo_inode\<lparr>itype := T_DIR\<rparr>]\<rparr>"

lemma demo_dir_ready: "file_ready 1 demo_dir 0" "itype (itable demo_dir ! 0) = T_DIR" "isize (itable demo_dir ! 0) = 0"
  "entries demo_dir 0 = []"
proof -
  have it: "itable demo_dir ! 0 = demo_inode\<lparr>itype := T_DIR\<rparr>" "length (itable demo_dir) = length (itable demo_file)"
    "sb demo_dir = sb demo_file" "disk demo_dir = disk demo_file"
    by (simp_all add: demo_dir_def demo_file_fields NINODE_def)
  show "itype (itable demo_dir ! 0) = T_DIR" "isize (itable demo_dir ! 0) = 0" "entries demo_dir 0 = []"
    by (simp_all add: it demo_inode_def entries_def)
  have R: "quiet_cache 1 demo_file" "file_wf demo_file 0" "dense demo_file 0" "owns demo_file (InodeLock 0)"
    "inum demo_inode < sb_ninodes (sb demo_file)"
    using demo_file_ready by (simp_all add: file_ready_def at_inode_def demo_file_fields)
  have f: "faddr demo_dir 0 = faddr demo_file 0" "indirect demo_dir 0 = indirect demo_file 0"
    by (simp_all add: faddr_def [abs_def] indirect_def Let_def it demo_file_fields cong: if_cong)
  have "file_wf demo_dir 0"
    using R(2) by (simp add: file_wf_def f it demo_file_fields layout_ok_def bitmap_ok_def used_set_def meta_def demo_file_map)
  moreover have "quiet_cache 1 demo_dir" "owns demo_dir (InodeLock 0)"
    using R(1,4) by (simp_all add: demo_dir_def owns_def split: option.splits)
  ultimately show "file_ready 1 demo_dir 0"
    using R(3,5) by (simp add: file_ready_def at_inode_def dense_def f it) (simp add: demo_inode_def demo_file_fields T_DIR_def)
qed

lemma dirlookup_finds_witness:
  "\<exists>t. disk t = disk demo_dir \<and> dirlookup 0 [97] demo_dir = Ret None t"
  using dirlookup_finds [OF demo_dir_ready(1,2), of "[97]"] demo_dir_ready(4)
  by (auto simp: dir_slot_def file_name_def DIRSIZ_def)

lemma dirlink_adds_witness:
  "\<exists>r t. dirlink 0 [97] 5 demo_dir = Ret r t \<and> file_ready 1 t 0 \<and>
     (r = 0 \<and> dir_map (entries t 0) = [[97] \<mapsto> 5] \<or> r = -1 \<and> disk_full t)"
proof -
  have "dir_map [] = Map.empty" by (auto simp: dir_map_def dir_slot_def)
  then show ?thesis
    using dirlink_adds [OF demo_dir_ready(1,2), of "[97]" 5] demo_dir_ready(3,4)
    by (simp add: file_name_def DIRSIZ_def DIRENT_SIZE_def NDIRECT_vals)
qed

lemma dirlink_dirlookup_witness:
  "\<exists>r t. dirlink 0 [97] 5 demo_dir = Ret r t \<and> (r = -1 \<and> disk_full t \<or>
     r = 0 \<and> (\<exists>off u. dirlookup 0 [97] t = bnd (iget 1 5) (\<lambda>i. ret (Some (i, off))) u))"
proof -
  have "dir_map [] = Map.empty" by (auto simp: dir_map_def dir_slot_def)
  then show ?thesis
    using dirlink_dirlookup [OF demo_dir_ready(1,2), of "[97]" 5] demo_dir_ready(3,4)
    by (simp add: file_name_def DIRSIZ_def DIRENT_SIZE_def NDIRECT_vals)
qed

end
