(* ===== verification/Ulib.thy ===== *)
theory Ulib
  imports Digits Memory
begin

section \<open>The user library: \<^verbatim>\<open>user/ulib.c\<close> and \<^verbatim>\<open>user/printf.c\<close>\<close>

text \<open>
  A C string is the list of the bytes from its pointer on; it ends at the first zero byte or with
  the list (\<open>first_char\<close> reads the byte a pointer points to). The block operations work on memory as the
  kernel's do. Reads from standard input take from a list of the bytes that will arrive. Variable
  arguments are a list; a format that asks for an argument that was not passed, or one of the wrong
  kind, has undefined behaviour in C and no value here (\<open>None\<close>).
\<close>

definition first_char :: "u8 list \<Rightarrow> u8" where
  "first_char s = (case s of [] \<Rightarrow> 0 | c # _ \<Rightarrow> c)"

lemma first_char_simps [simp]: "first_char [] = 0" "first_char (c # s) = c"
  by (simp_all add: first_char_def)

lemma first_char_nonempty: "first_char s \<noteq> 0 \<Longrightarrow> s \<noteq> []"
  by auto

lemma tl_shorter: "first_char s \<noteq> 0 \<Longrightarrow> length s - Suc 0 < length s"
  by (cases s) auto

subsection \<open>Strings\<close>

text \<open>\<open>strcpy\<close>: the bytes of the destination after the copy.\<close>

fun strcpy :: "u8 list \<Rightarrow> u8 list \<Rightarrow> u8 list" where
  "strcpy [] src = []"
| "strcpy (d # dst) src = first_char src # (if first_char src = 0 then dst else strcpy dst (tl src))"

function strcmp :: "u8 list \<Rightarrow> u8 list \<Rightarrow> int" where
  "strcmp a b = (if first_char a \<noteq> 0 \<and> first_char a = first_char b then strcmp (tl a) (tl b)
     else uint (first_char a) - uint (first_char b))"
  by pat_completeness auto
termination by (relation "measure (\<lambda>(a, b). length a)") (auto intro!: tl_shorter)

function strncmp :: "u8 list \<Rightarrow> u8 list \<Rightarrow> u32 \<Rightarrow> int" where
  "strncmp a b n =
     (if 0 < n \<and> first_char a \<noteq> 0 \<and> first_char a = first_char b then strncmp (tl a) (tl b) (n - 1)
      else if n = 0 then 0
      else uint (first_char a) - uint (first_char b))"
  by pat_completeness auto
termination by (relation "measure (\<lambda>(a, b, n). length a)") (auto intro!: tl_shorter)

function strlen_from :: "u32 \<Rightarrow> u8 list \<Rightarrow> u32" where
  "strlen_from n s = (if first_char s \<noteq> 0 then strlen_from (n + 1) (tl s) else n)"
  by pat_completeness auto
termination by (relation "measure (\<lambda>(n, s). length s)") (auto intro!: tl_shorter)

declare strcmp.simps [simp del] strncmp.simps [simp del] strlen_from.simps [simp del]

definition strlen :: "u8 list \<Rightarrow> u32" where
  "strlen s = strlen_from 0 s"

text \<open>\<open>strchr\<close>: the string from the character found on.\<close>

function strchr :: "u8 list \<Rightarrow> u8 \<Rightarrow> u8 list option" where
  "strchr s c = (if first_char s = c then Some s else if first_char s = 0 then None else strchr (tl s) c)"
  by pat_completeness auto
termination by (relation "measure (\<lambda>(s, c). length s)") (auto intro!: tl_shorter)

declare strchr.simps [simp del]

text \<open>
  \<open>gets\<close> from index \<open>i\<close> on: the bytes stored before the terminator, and the input left. A read
  that yields nothing is the end of the input.
\<close>

function gets_from :: "int \<Rightarrow> int \<Rightarrow> u8 list \<Rightarrow> u8 list \<times> u8 list" where
  "gets_from i lim inp =
     (if i + 1 < lim then
        (case inp of
           [] \<Rightarrow> ([], [])
         | c # rest \<Rightarrow>
             if c = 10 \<or> c = 13 then ([c], rest)
             else (case gets_from (i + 1) lim rest of (buf, rest') \<Rightarrow> (c # buf, rest')))
      else ([], inp))"
  by pat_completeness auto
termination by (relation "measure (\<lambda>(i, lim, inp). length inp)") auto

declare gets_from.simps [simp del]

definition ugets :: "int \<Rightarrow> u8 list \<Rightarrow> u8 list \<times> u8 list" where
  "ugets lim inp = (if lim \<le> 0 then ([], inp) else (case gets_from 0 lim inp of (buf, rest) \<Rightarrow> (buf @ [0], rest)))"

function atoi_from :: "u32 \<Rightarrow> u8 list \<Rightarrow> u32" where
  "atoi_from n s =
     (if 48 \<le> first_char s \<and> first_char s \<le> 57 then atoi_from (n * 10 + ucast (first_char s) - 48) (tl s) else n)"
  by pat_completeness auto
termination
proof (relation "measure (\<lambda>(n, s). length s)")
  fix n :: u32 and s :: "u8 list"
  assume "48 \<le> first_char s \<and> first_char s \<le> 57"
  then have "first_char s \<noteq> 0" by auto
  then show "((n * 10 + ucast (first_char s) - 48, tl s), n, s) \<in> measure (\<lambda>(n, s). length s)"
    by (simp add: tl_shorter)
qed simp

declare atoi_from.simps [simp del]

definition atoi :: "u8 list \<Rightarrow> int" where
  "atoi s = sint (atoi_from 0 s)"

subsection \<open>Memory blocks\<close>

definition umemset :: "memory \<Rightarrow> u64 \<Rightarrow> int \<Rightarrow> u32 \<Rightarrow> memory" where
  "umemset m dst c n = fold (\<lambda>i m. m(dst + of_nat i := word_of_int c)) [0..<unat n] m"

definition umemmove :: "memory \<Rightarrow> u64 \<Rightarrow> u64 \<Rightarrow> int \<Rightarrow> memory" where
  "umemmove m dst src n =
     (if dst < src then fold (\<lambda>i m. m(dst + of_nat i := m (src + of_nat i))) [0..<nat n] m
      else fold (\<lambda>i m. m(dst + of_nat i - 1 := m (src + of_nat i - 1))) (rev [1..<Suc (nat n)]) m)"

fun memcmp_from :: "nat \<Rightarrow> memory \<Rightarrow> u64 \<Rightarrow> u64 \<Rightarrow> int" where
  "memcmp_from 0 m a b = 0"
| "memcmp_from (Suc n) m a b = (if m a \<noteq> m b then uint (m a) - uint (m b) else memcmp_from n m (a + 1) (b + 1))"

definition memcmp :: "memory \<Rightarrow> u64 \<Rightarrow> u64 \<Rightarrow> u32 \<Rightarrow> int" where
  "memcmp m a b n = memcmp_from (unat n) m a b"

definition umemcpy :: "memory \<Rightarrow> u64 \<Rightarrow> u64 \<Rightarrow> u32 \<Rightarrow> memory" where
  "umemcpy m dst src n = umemmove m dst src (sint n)"

subsection \<open>Formatted output\<close>

datatype uarg = UNum u64 | UStr "u8 list option"

definition uprintint :: "u64 \<Rightarrow> u64 \<Rightarrow> bool \<Rightarrow> u8 list" where
  "uprintint xx base signed_val =
     (let neg = signed_val \<and> sint xx < 0;
          x = (if neg then - xx else xx);
          buf = uint_digits x base upper_digits @ (if neg then [45] else [])
      in rev buf)"

definition uprintptr :: "u64 \<Rightarrow> u8 list" where
  "uprintptr x = [48, 120] @ ptr_digits 16 x upper_digits"

text \<open>
  One conversion, given the character after the percent sign and the two after it: how many
  characters more it takes, what it prints, and the arguments left.
\<close>

definition uconversion :: "u8 \<Rightarrow> u8 \<Rightarrow> u8 \<Rightarrow> uarg list \<Rightarrow> (nat \<times> u8 list \<times> uarg list) option" where
  "uconversion c0 c1 c2 args =
     (let num = (\<lambda>skip f. case args of UNum x # rest \<Rightarrow> Some (skip, f x, rest) | _ \<Rightarrow> None) in
      if c0 = 100 then num 0 (\<lambda>x. uprintint (scast (ucast x :: u32)) 10 True)
      else if c0 = 108 \<and> c1 = 100 then num 1 (\<lambda>x. uprintint x 10 True)
      else if c0 = 108 \<and> c1 = 108 \<and> c2 = 100 then num 2 (\<lambda>x. uprintint x 10 True)
      else if c0 = 117 then num 0 (\<lambda>x. uprintint (ucast (ucast x :: u32)) 10 False)
      else if c0 = 108 \<and> c1 = 117 then num 1 (\<lambda>x. uprintint x 10 False)
      else if c0 = 108 \<and> c1 = 108 \<and> c2 = 117 then num 2 (\<lambda>x. uprintint x 10 False)
      else if c0 = 120 then num 0 (\<lambda>x. uprintint (ucast (ucast x :: u32)) 16 False)
      else if c0 = 108 \<and> c1 = 120 then num 1 (\<lambda>x. uprintint x 16 False)
      else if c0 = 108 \<and> c1 = 108 \<and> c2 = 120 then num 2 (\<lambda>x. uprintint x 16 False)
      else if c0 = 112 then num 0 uprintptr
      else if c0 = 99 then num 0 (\<lambda>x. [ucast x])
      else if c0 = 115 then
        (case args of
           UStr s # rest \<Rightarrow>
             Some (0, takeWhile (\<lambda>c. c \<noteq> 0) (case s of None \<Rightarrow> [40, 110, 117, 108, 108, 41] | Some t \<Rightarrow> t), rest)
         | _ \<Rightarrow> None)
      else if c0 = 37 then Some (0, [37], args)
      else Some (0, [37, c0], args))"

function vprintf :: "bool \<Rightarrow> u8 list \<Rightarrow> uarg list \<Rightarrow> u8 list option" where
  "vprintf percent fmt args =
     (let c0 = first_char fmt; f = tl fmt in
      if c0 = 0 then Some []
      else if \<not> percent then
        (if c0 = 37 then vprintf True f args else map_option ((#) c0) (vprintf False f args))
      else
        let c1 = first_char f; c2 = first_char (tl f) in
        (case uconversion c0 c1 c2 args of
           None \<Rightarrow> None
         | Some (skip, out, rest) \<Rightarrow> map_option ((@) out) (vprintf False (drop skip f) rest)))"
  by pat_completeness auto
termination
proof (relation "measure (\<lambda>(p, f, a). length f)")
  fix p fmt and args :: "uarg list" and c0 f c1 c2 t skip u out rest
  assume "c0 = first_char fmt" "f = tl fmt" "c0 \<noteq> 0"
  then have "length f < length fmt" by (simp add: tl_shorter)
  then show "((False, drop skip f, rest), p, fmt, args) \<in> measure (\<lambda>(p, f, a). length f)" by simp
qed (auto intro!: tl_shorter)

declare vprintf.simps [simp del]

definition fprintf :: "u8 list \<Rightarrow> uarg list \<Rightarrow> u8 list option" where
  "fprintf fmt args = vprintf False fmt args"

definition uprintf :: "u8 list \<Rightarrow> uarg list \<Rightarrow> u8 list option" where
  "uprintf fmt args = vprintf False fmt args"

subsection \<open>Comparing strings\<close>

definition c_string :: "u8 list \<Rightarrow> u8 list" where
  "c_string s = takeWhile (\<lambda>c. c \<noteq> 0) s"

lemma uint_pos: "c \<noteq> 0 \<Longrightarrow> 0 < uint (c :: u8)"
  by (simp add: order_less_le uint_0_iff [symmetric])

lemma c_string_rec: "c_string s = (if first_char s = 0 then [] else first_char s # c_string (tl s))"
  by (cases s) (simp_all add: c_string_def)

text \<open>
  \<open>strcmp\<close> is the lexicographic order of the two strings by unsigned bytes: it is negative, zero or
  positive as the first string is before, equal to or after the second; \<open>strlen\<close> is the number of
  bytes before the terminator, as far as 32 bits count them.
\<close>

theorem strcmp_lexicographic:
  "(strcmp a b < 0 \<longleftrightarrow> (c_string a, c_string b) \<in> lexord {(x, y). x < y}) \<and>
   (strcmp a b = 0 \<longleftrightarrow> c_string a = c_string b) \<and> strlen a = of_nat (length (c_string a))"
proof -
  have "(strcmp a b < 0 \<longleftrightarrow> (c_string a, c_string b) \<in> lexord {(x, y). x < y}) \<and>
      (strcmp a b = 0 \<longleftrightarrow> c_string a = c_string b)"
  proof (induction a b rule: strcmp.induct)
    case (1 a b)
    show ?case
    proof (cases "first_char a \<noteq> 0 \<and> first_char a = first_char b")
      case True
      then show ?thesis
        using 1 [OF True] by (simp add: strcmp.simps [of a b] c_string_rec [of a] c_string_rec [of b])
    next
      case False
      have "uint (first_char a) = uint (first_char b) \<longleftrightarrow> first_char a = first_char b" by (simp add: word_uint_eq_iff)
      with False show ?thesis
        by (subst (1 2) strcmp.simps)
          (auto simp: c_string_rec [of a] c_string_rec [of b] word_less_def uint_0_iff uint_pos)
    qed
  qed
  moreover have "strlen_from n a = n + of_nat (length (c_string a))" for n
  proof (induction n a rule: strlen_from.induct)
    case (1 n s)
    then show ?case by (subst strlen_from.simps) (simp add: c_string_rec [of s])
  qed
  ultimately show ?thesis by (simp add: strlen_def)
qed

subsection \<open>Numbers\<close>

lemma umax_upper: "d < 10 \<Longrightarrow> 48 \<le> upper_digits ! d \<and> upper_digits ! d \<le> 57 \<and> ucast (upper_digits ! d) - 48 = (of_nat d :: u32)"
proof -
  assume "d < 10"
  then have "d \<in> {0, 1, 2, 3, 4, 5, 6, 7, 8, 9}" by (simp only: insert_iff empty_iff) presburger
  then show ?thesis by auto
qed

lemma atoi_digits:
  assumes "\<forall>d \<in> set ds. d < 10" and "\<not> (48 \<le> first_char rest \<and> first_char rest \<le> 57)"
  shows "atoi_from (of_nat n) (map (\<lambda>d. upper_digits ! d) ds @ rest) = of_nat (foldl (\<lambda>n d. n * 10 + d) n ds)"
  using assms
proof (induction ds arbitrary: n)
  case Nil
  then show ?case by (subst atoi_from.simps) auto
next
  case (Cons d ds)
  note U = umax_upper [of d]
  have "of_nat n * 10 + ucast (upper_digits ! d) - 48 = (of_nat (n * 10 + d) :: u32)"
    using U Cons.prems by (simp add: algebra_simps)
  then show ?case
    using U Cons.prems Cons.IH [of "n * 10 + d"] by (simp add: atoi_from.simps [of "of_nat n"] del: of_nat_add of_nat_mult)
qed

text \<open>The value of a printed number, read with its sign.\<close>

definition printed_value :: "nat \<Rightarrow> u8 list \<Rightarrow> int" where
  "printed_value base s =
     (if first_char s = 45 then - int (numeral_value base digit_value (tl s)) else int (numeral_value base digit_value s))"

text \<open>
  For bases 10 and 16 and every 64-bit argument, \<open>printint\<close> prints a numeral of the argument's value,
  signed or unsigned as asked for, and the numeral with its sign fits the 20 bytes of \<open>buf\<close>.
\<close>

lemma uprintint_value:
  assumes "base \<in> {10, 16}"
  shows "printed_value (unat base) (uprintint xx base sv) = (if sv then sint xx else uint xx) \<and>
     length (uprintint xx base sv) \<le> 20"
proof -
  have b: "1 < base" "unat base \<le> 16" "1 < unat base" "10 \<le> unat base" using assms by auto
  have len: "length (uint_digits x base upper_digits) \<le> Suc k" if "unat x < 10 ^ Suc k" for x k
    unfolding uint_digits_nat [OF b(1)] length_map
    by (rule length_nat_digits [OF b(3)]) (use that power_mono [OF b(4), of "Suc k"] in simp)
  have val: "numeral_value (unat base) digit_value (rev (uint_digits x base upper_digits)) = unat x" for x
    by (rule uint_digits_value) (use b in simp_all)
  show ?thesis
  proof (cases "sv \<and> sint xx < 0")
    case True
    have "sint xx \<ge> - 9223372036854775808" using sint_ge [of xx] by simp
    then have "int (unat (- xx)) \<le> 9223372036854775808" using uint64_minus [of xx] True by linarith
    then have "unat (- xx) < 10 ^ Suc 18" by (simp only: of_nat_le_numeral_iff) simp
    with True show ?thesis
      using len [of "- xx" 18] val [of "- xx"] uint64_minus [of xx]
      by (simp add: uprintint_def Let_def printed_value_def)
  next
    case False
    have "unat xx < 10 ^ Suc 19" using unat64_less [of xx] by simp
    moreover have "first_char (rev (uint_digits xx base upper_digits)) \<noteq> 45"
    proof -
      let ?ns = "nat_digits (unat base) (unat xx)"
      have ne: "?ns \<noteq> []" by (subst nat_digits.simps) simp
      then have "last ?ns \<in> set ?ns" by simp
      then have "last ?ns < 16" using nat_digits_less [OF b(3), of "unat xx"] b(2) by fastforce
      then have "last ?ns \<in> {0, 1, 2, 3, 4, 5, 6, 7, 8, 9, 10, 11, 12, 13, 14, 15}"
        by (simp only: insert_iff empty_iff) presburger
      then have "upper_digits ! last ?ns \<noteq> 45" by auto
      moreover have "first_char (rev (uint_digits xx base upper_digits)) = upper_digits ! last ?ns"
        using ne by (simp add: uint_digits_nat [OF b(1)] first_char_def list.case_eq_if hd_rev last_map)
      ultimately show ?thesis by simp
    qed
    ultimately show ?thesis
      using False len [of xx 19] val [of xx] uint_bounded [of xx]
      by (auto simp: uprintint_def Let_def printed_value_def sint64_if)
  qed
qed

text \<open>
  C36. \<open>atoi\<close> reads back what \<open>printint\<close> prints: for every non-negative \<open>int\<close>, whatever follows the
  digits as long as it does not begin with a digit.
\<close>

theorem atoi_reads_printint:
  assumes "0 \<le> k" and "k < 2147483648" and "\<not> (48 \<le> first_char rest \<and> first_char rest \<le> 57)"
  shows "atoi (uprintint (word_of_int k) 10 True @ rest) = k"
proof -
  let ?x = "word_of_int k :: u64"
  have u: "uint ?x = k" using assms by (simp add: uint_word_of_int mod_pos_pos_trivial)
  have ux: "unat ?x = nat k" using u by (metis nat_uint_eq unat_eq_nat_uint)
  have pos: "\<not> sint ?x < 0" using assms u by (simp add: sint64_if)
  let ?ns = "rev (nat_digits 10 (nat k))"
  have s: "uprintint ?x 10 True = map (\<lambda>d. upper_digits ! d) ?ns"
    using pos uint_digits_nat [of 10 ?x upper_digits] ux by (simp add: uprintint_def Let_def rev_map)
  have d10: "\<forall>d \<in> set ?ns. d < 10" using nat_digits_less [of 10] by simp
  have "atoi_from (of_nat 0) (map (\<lambda>d. upper_digits ! d) ?ns @ rest) = of_nat (foldl (\<lambda>n d. n * 10 + d) 0 ?ns)"
    by (rule atoi_digits [OF d10 assms(3)])
  also have "foldl (\<lambda>n d. n * 10 + d) 0 ?ns = nat k"
    using nat_digits_value [of 10 "\<lambda>d. d" "\<lambda>d. d" "nat k"] by (simp add: numeral_value_def)
  finally have "atoi (uprintint ?x 10 True @ rest) = sint (of_nat (nat k) :: u32)" by (simp add: atoi_def s)
  moreover have "sint (of_nat (nat k) :: u32) = k"
    using assms int_word_sint [of k, where 'a = 32] by (simp add: mod_pos_pos_trivial)
  ultimately show ?thesis by simp
qed

lemma atoi_reads_printint_witness:
  "atoi (uprintint (word_of_int 2026) 10 True @ [32, 55]) = 2026"
  by (rule atoi_reads_printint) simp_all

subsection \<open>Copying\<close>

text \<open>
  The user library's \<open>memmove\<close> and the kernel's agree: they choose the direction of the copy by
  different tests, and leave the same memory for all blocks within the address space, overlapping or
  not.
\<close>

theorem memmove_agree:
  assumes "unat src + unat n < 2 ^ 64" and "unat dst + unat n \<le> 2 ^ 64"
  shows "umemmove m dst src (int (unat n)) = memmove m dst src n"
proof (rule ext)
  fix x
  show "umemmove m dst src (int (unat n)) x = memmove m dst src n x"
    unfolding memmove_apply [OF assms]
  proof (cases "dst < src")
    case True
    then have "\<not> (src < dst \<and> dst < src + ucast n)" by auto
    with True show "umemmove m dst src (int (unat n)) x = (if unat (x - dst) < unat n then m (src + (x - dst)) else m x)"
      using copy_up [OF assms(1), of dst m x] by (simp add: umemmove_def)
  next
    case False
    then show "umemmove m dst src (int (unat n)) x = (if unat (x - dst) < unat n then m (src + (x - dst)) else m x)"
      using copy_down [OF assms(2), of src m x] by (simp add: umemmove_def del: upt_Suc)
  qed
qed

lemma memmove_agree_witness:
  "umemmove (\<lambda>a. ucast a) 102 100 5 = memmove (\<lambda>a. ucast a) 102 100 5"
  using memmove_agree [of 100 5 102 "\<lambda>a. ucast a"] by simp

end
