(* ===== verification/UserSys.thy ===== *)
theory UserSys
  imports Ulib Syscall
begin

section \<open>User programs and their system calls: \<^verbatim>\<open>user/syscall.c\<close>, \<^verbatim>\<open>user/ulib.c\<close>, \<^verbatim>\<open>user/printf.c\<close>\<close>

text \<open>
  A user program is a function of the state \<open>w\<close> of everything outside its own memory. It continues
  with a value, is gone (it exited, was killed, or became another program), or does something C
  leaves undefined; a program that runs forever has no result (\<open>None\<close>). A system call is one
  \<open>ecall\<close>; what it does to the outside is the parameter \<open>K\<close>, which takes the number and the three
  arguments and yields the value of register a0 and the bytes the kernel stored through a pointer
  argument. An argument is a number, a pointer to bytes the kernel reads, a pointer to a block it may
  write, or an argument vector. After \<open>fork\<close> the program goes on in two processes; a run of the model
  is the run of one of them, told apart by what the call returns.
\<close>

datatype ('a, 'w) uresult = Cont 'a 'w | Gone 'w | Undefined

type_synonym ('a, 'w) uprog = "'w \<Rightarrow> ('a, 'w) uresult option"

datatype carg = Num u64 | In "u8 list" | Out nat | Argv "u8 list list"

type_synonym 'w ucall = "u64 \<Rightarrow> carg \<Rightarrow> carg \<Rightarrow> carg \<Rightarrow> (u64 \<times> u8 list, 'w) uprog"

definition uret :: "'a \<Rightarrow> ('a, 'w) uprog" where
  "uret v = (\<lambda>w. Some (Cont v w))"

definition ubind :: "('a, 'w) uprog \<Rightarrow> ('a \<Rightarrow> ('b, 'w) uprog) \<Rightarrow> ('b, 'w) uprog" where
  "ubind m f = (\<lambda>w. Option.bind (m w) (\<lambda>r. case r of
     Cont v w \<Rightarrow> f v w | Gone w \<Rightarrow> Some (Gone w) | Undefined \<Rightarrow> Some Undefined))"

definition uthen :: "('a, 'w) uprog \<Rightarrow> ('b, 'w) uprog \<Rightarrow> ('b, 'w) uprog" where
  "uthen m n = ubind m (\<lambda>_. n)"

definition uhang :: "('a, 'w) uprog" where
  "uhang = (\<lambda>w. None)"

definition uundefined :: "('a, 'w) uprog" where
  "uundefined = (\<lambda>w. Some Undefined)"

lemma urun_simps:
  "uret v w = Some (Cont v w)"
  "ubind m f w = (case m w of Some (Cont v w) \<Rightarrow> f v w | Some (Gone w) \<Rightarrow> Some (Gone w) | Some Undefined \<Rightarrow> Some Undefined | None \<Rightarrow> None)"
  "uthen m n w = (case m w of Some (Cont _ w) \<Rightarrow> n w | Some (Gone w) \<Rightarrow> Some (Gone w) | Some Undefined \<Rightarrow> Some Undefined | None \<Rightarrow> None)"
  by (auto simp: uret_def ubind_def uthen_def split: option.split uresult.split)

text \<open>Loops that may not end are defined as least fixed points, which needs these facts.\<close>

lemma ubind_mono [partial_function_mono]:
  assumes m: "\<And>w. mono_option (\<lambda>f. m f w)" and k: "\<And>v w. mono_option (\<lambda>f. k v f w)"
  shows "mono_option (\<lambda>f. ubind (m f) (\<lambda>v. k v f) w)"
  unfolding ubind_def
proof (rule bind_mono [OF m])
  fix r
  show "mono_option (\<lambda>f. case r of Cont v w \<Rightarrow> k v f w | Gone w \<Rightarrow> Some (Gone w) | Undefined \<Rightarrow> Some Undefined)"
    by (cases r) (simp_all add: k option.const_mono)
qed

lemma uthen_mono [partial_function_mono]:
  assumes m: "\<And>w. mono_option (\<lambda>f. m f w)" and k: "\<And>w. mono_option (\<lambda>f. k f w)"
  shows "mono_option (\<lambda>f. uthen (m f) (k f) w)"
  unfolding uthen_def by (intro ubind_mono m k)

lemma if_app_mono [partial_function_mono]:
  "mono_option (\<lambda>f. m f w) \<Longrightarrow> mono_option (\<lambda>f. n f w) \<Longrightarrow> mono_option (\<lambda>f. (if b then m f else n f) w)"
  by (cases b) simp_all

lemma let_app_mono [partial_function_mono]:
  "(\<And>x. mono_option (\<lambda>f. m x f w)) \<Longrightarrow> mono_option (\<lambda>f. (let x = t in m x f) w)"
  by (simp add: Let_def)

text \<open>Loops over a list, with and without a value carried along.\<close>

primrec ufor :: "'b list \<Rightarrow> ('b \<Rightarrow> (unit, 'w) uprog) \<Rightarrow> (unit, 'w) uprog" where
  "ufor [] f = uret ()"
| "ufor (x # xs) f = uthen (f x) (ufor xs f)"

primrec ufold :: "'b list \<Rightarrow> ('b \<Rightarrow> 'a \<Rightarrow> ('a, 'w) uprog) \<Rightarrow> 'a \<Rightarrow> ('a, 'w) uprog" where
  "ufold [] f a = uret a"
| "ufold (x # xs) f a = ubind (f x a) (ufold xs f)"

subsection \<open>The system call stubs\<close>

text \<open>The conversions of C between \<open>int\<close> and \<open>long\<close>.\<close>

definition long_of :: "int \<Rightarrow> carg" where
  "long_of i = Num (word_of_int i)"

definition int_of :: "u64 \<Rightarrow> int" where
  "int_of r = sint (ucast r :: u32)"

definition usyscall :: "'w ucall \<Rightarrow> u64 \<Rightarrow> carg \<Rightarrow> carg \<Rightarrow> carg \<Rightarrow> (u64 \<times> u8 list, 'w) uprog" where
  "usyscall K num a0 a1 a2 = K num a0 a1 a2"

definition int_call :: "'w ucall \<Rightarrow> u64 \<Rightarrow> carg \<Rightarrow> carg \<Rightarrow> carg \<Rightarrow> (int, 'w) uprog" where
  "int_call K num a0 a1 a2 = ubind (usyscall K num a0 a1 a2) (\<lambda>(r, _). uret (int_of r))"

definition uwrite :: "'w ucall \<Rightarrow> int \<Rightarrow> u8 list \<Rightarrow> int \<Rightarrow> (int, 'w) uprog" where
  "uwrite K fd buf n = int_call K 1 (long_of fd) (In buf) (long_of n)"

text \<open>\<open>read\<close>, with the bytes it stored at the start of the buffer.\<close>

definition uread :: "'w ucall \<Rightarrow> int \<Rightarrow> nat \<Rightarrow> (int \<times> u8 list, 'w) uprog" where
  "uread K fd n = ubind (usyscall K 8 (long_of fd) (Out n) (long_of (int n))) (\<lambda>(r, bs). uret (int_of r, bs))"

definition uyield :: "'w ucall \<Rightarrow> (unit, 'w) uprog" where
  "uyield K = ubind (usyscall K 2 (long_of 0) (long_of 0) (long_of 0)) (\<lambda>_. uret ())"

definition uexit :: "'w ucall \<Rightarrow> int \<Rightarrow> ('a, 'w) uprog" where
  "uexit K status = ubind (usyscall K 3 (long_of status) (long_of 0) (long_of 0)) (\<lambda>_. uhang)"

definition usbrk :: "'w ucall \<Rightarrow> int \<Rightarrow> (u64, 'w) uprog" where
  "usbrk K n = ubind (usyscall K 4 (long_of n) (long_of 0) (long_of 0)) (\<lambda>(r, _). uret r)"

definition ufork :: "'w ucall \<Rightarrow> (int, 'w) uprog" where
  "ufork K = int_call K 5 (long_of 0) (long_of 0) (long_of 0)"

text \<open>\<open>wait\<close> into a variable that was set to zero, and \<open>wait\<close> with a null pointer.\<close>

definition uwait :: "'w ucall \<Rightarrow> (int \<times> int, 'w) uprog" where
  "uwait K = ubind (usyscall K 6 (Out 4) (long_of 0) (long_of 0)) (\<lambda>(r, bs).
     uret (int_of r, sint (of_le (bs @ replicate (4 - length bs) 0) :: u32)))"

definition uwait_null :: "'w ucall \<Rightarrow> (int, 'w) uprog" where
  "uwait_null K = int_call K 6 (Num 0) (long_of 0) (long_of 0)"

definition uexec :: "'w ucall \<Rightarrow> u8 list \<Rightarrow> u8 list list \<Rightarrow> (int, 'w) uprog" where
  "uexec K name args = int_call K 7 (In name) (Argv args) (long_of 0)"

definition uclose :: "'w ucall \<Rightarrow> int \<Rightarrow> (int, 'w) uprog" where
  "uclose K fd = int_call K 9 (long_of fd) (long_of 0) (long_of 0)"

text \<open>\<open>struct stat\<close>, and \<open>fstat\<close> with the structure it filled.\<close>

record ustat_rec =
  st_dev :: int
  st_ino :: u32
  st_type :: int
  st_nlink :: int
  st_size :: u64

definition stat_of :: "u8 list \<Rightarrow> ustat_rec" where
  "stat_of bs = \<lparr>st_dev = sint (word32_at 0 bs), st_ino = word32_at 4 bs, st_type = sint (word16_at 8 bs),
     st_nlink = sint (word16_at 10 bs), st_size = of_le (slice 16 8 bs)\<rparr>"

definition ufstat :: "'w ucall \<Rightarrow> int \<Rightarrow> (int \<times> ustat_rec, 'w) uprog" where
  "ufstat K fd = ubind (usyscall K 17 (long_of fd) (Out 24) (long_of 0)) (\<lambda>(r, bs). uret (int_of r, stat_of bs))"

definition uchdir :: "'w ucall \<Rightarrow> u8 list \<Rightarrow> (int, 'w) uprog" where
  "uchdir K path = int_call K 18 (In path) (long_of 0) (long_of 0)"

definition udup :: "'w ucall \<Rightarrow> int \<Rightarrow> (int, 'w) uprog" where
  "udup K fd = int_call K 10 (long_of fd) (long_of 0) (long_of 0)"

definition uopen :: "'w ucall \<Rightarrow> u8 list \<Rightarrow> int \<Rightarrow> (int, 'w) uprog" where
  "uopen K name omode = int_call K 11 (In name) (long_of omode) (long_of 0)"

definition ugetpid :: "'w ucall \<Rightarrow> (int, 'w) uprog" where
  "ugetpid K = int_call K 12 (long_of 0) (long_of 0) (long_of 0)"

definition usleep :: "'w ucall \<Rightarrow> int \<Rightarrow> (int, 'w) uprog" where
  "usleep K n = int_call K 13 (long_of n) (long_of 0) (long_of 0)"

definition uuptime :: "'w ucall \<Rightarrow> (int, 'w) uprog" where
  "uuptime K = int_call K 14 (long_of 0) (long_of 0) (long_of 0)"

definition ukill :: "'w ucall \<Rightarrow> int \<Rightarrow> (int, 'w) uprog" where
  "ukill K p = int_call K 15 (long_of p) (long_of 0) (long_of 0)"

definition uhello_id :: "'w ucall \<Rightarrow> int \<Rightarrow> (int, 'w) uprog" where
  "uhello_id K tag = int_call K 25 (long_of tag) (long_of 0) (long_of 0)"

text \<open>\<open>pipe\<close>, with the two descriptors it stored.\<close>

definition upipe :: "'w ucall \<Rightarrow> (int \<times> int \<times> int, 'w) uprog" where
  "upipe K = ubind (usyscall K 16 (Out 8) (long_of 0) (long_of 0)) (\<lambda>(r, bs).
     uret (int_of r, sint (word32_at 0 bs), sint (word32_at 4 bs)))"

definition umkdir :: "'w ucall \<Rightarrow> u8 list \<Rightarrow> (int, 'w) uprog" where
  "umkdir K path = int_call K 19 (In path) (long_of 0) (long_of 0)"

definition uunlink :: "'w ucall \<Rightarrow> u8 list \<Rightarrow> (int, 'w) uprog" where
  "uunlink K path = int_call K 20 (In path) (long_of 0) (long_of 0)"

definition ulink :: "'w ucall \<Rightarrow> u8 list \<Rightarrow> u8 list \<Rightarrow> (int, 'w) uprog" where
  "ulink K old new = int_call K 21 (In old) (In new) (long_of 0)"

text \<open>Every number the stubs use is one the kernel's table has a handler for.\<close>

lemma stub_numbers_handled:
  "1 \<le> n \<and> n \<le> 21 \<or> n = 25 \<Longrightarrow> syscalls pad n \<noteq> None"
  unfolding syscalls_def by (simp, presburger)

subsection \<open>Output and input\<close>

definition uputc :: "'w ucall \<Rightarrow> int \<Rightarrow> u8 \<Rightarrow> (unit, 'w) uprog" where
  "uputc K fd c = uthen (uwrite K fd [c] 1) (uret ())"

definition uputs :: "'w ucall \<Rightarrow> int \<Rightarrow> u8 list \<Rightarrow> (unit, 'w) uprog" where
  "uputs K fd bs = ufor bs (uputc K fd)"

text \<open>\<open>fprintf\<close> and \<open>printf\<close>: each character of the output is one call of \<open>write\<close>.\<close>

definition ufprintf :: "'w ucall \<Rightarrow> int \<Rightarrow> string \<Rightarrow> uarg list \<Rightarrow> (unit, 'w) uprog" where
  "ufprintf K fd fmt args = (case fprintf (chars fmt) args of Some bs \<Rightarrow> uputs K fd bs | None \<Rightarrow> uundefined)"

definition say :: "'w ucall \<Rightarrow> string \<Rightarrow> uarg list \<Rightarrow> (unit, 'w) uprog" where
  "say K fmt args = (case uprintf (chars fmt) args of Some bs \<Rightarrow> uputs K 1 bs | None \<Rightarrow> uundefined)"

definition UInt :: "int \<Rightarrow> uarg" where
  "UInt i = UNum (word_of_int i)"

text \<open>Reading one character into a variable that was set to zero.\<close>

definition ureadc :: "'w ucall \<Rightarrow> int \<Rightarrow> (int \<times> u8, 'w) uprog" where
  "ureadc K fd = ubind (uread K fd 1) (\<lambda>(n, bs). uret (n, first_char bs))"

fun uget_from :: "'w ucall \<Rightarrow> nat \<Rightarrow> (u8 list, 'w) uprog" where
  "uget_from K 0 = uret []"
| "uget_from K (Suc room) =
     ubind (ureadc K 0) (\<lambda>(n, c).
     if n < 1 then uret []
     else if c = 10 \<or> c = 13 then uret [c]
     else ubind (uget_from K room) (\<lambda>buf. uret (c # buf)))"

text \<open>\<open>gets\<close>: the bytes stored in the buffer.\<close>

definition uget_line :: "'w ucall \<Rightarrow> int \<Rightarrow> (u8 list, 'w) uprog" where
  "uget_line K lim = (if lim \<le> 0 then uret [] else ubind (uget_from K (nat (lim - 1))) (\<lambda>buf. uret (buf @ [0])))"

definition ustat :: "'w ucall \<Rightarrow> u8 list \<Rightarrow> (int \<times> ustat_rec option, 'w) uprog" where
  "ustat K path =
     ubind (uopen K path 0) (\<lambda>fd.
     if fd < 0 then uret (-1, None)
     else
       ubind (ufstat K fd) (\<lambda>(r, st).
       uthen (uclose K fd)
       (uret (r, Some st))))"

end
