(* ===== verification/UserTools.thy ===== *)
theory UserTools
  imports Ulib
begin

section \<open>User programs: \<^verbatim>\<open>user/grep.c\<close>, \<^verbatim>\<open>user/wc.c\<close>, \<^verbatim>\<open>user/sh.c\<close>, \<^verbatim>\<open>user/ls.c\<close>, \<^verbatim>\<open>user/find.c\<close>, \<^verbatim>\<open>user/xargs.c\<close>\<close>

text \<open>
  The computations of the user programs between their system calls: matching and filtering lines,
  counting, splitting a command line, formatting names. A pointer into a string is the list of the
  bytes from there on. A read from a file yields as many bytes as asked for and as there are left.
\<close>

subsection \<open>grep: the matcher\<close>

function matchhere :: "u8 list \<Rightarrow> u8 list \<Rightarrow> bool" and matchstar :: "u8 \<Rightarrow> u8 list \<Rightarrow> u8 list \<Rightarrow> bool" where
  "matchhere re tx =
     (if first_char re = 0 then True
      else if first_char (tl re) = 42 then matchstar (first_char re) (tl (tl re)) tx
      else if first_char re = 36 \<and> first_char (tl re) = 0 then first_char tx = 0
      else if first_char tx \<noteq> 0 \<and> (first_char re = 46 \<or> first_char re = first_char tx)
      then matchhere (tl re) (tl tx)
      else False)"
| "matchstar c re tx =
     (matchhere re tx \<or>
      (if first_char tx \<noteq> 0 \<and> (first_char tx = c \<or> c = 46) then matchstar c re (tl tx) else False))"
  by pat_completeness auto
termination
proof (relation "inv_image (less_than <*lex*> less_than <*lex*> less_than)
    (\<lambda>x. case x of Inl (re, t) \<Rightarrow> (length re, length t, 0) | Inr (c, re, t) \<Rightarrow> (length re, length t, 1 :: nat))")
qed (auto intro!: tl_shorter dest: first_char_nonempty simp: neq_Nil_conv)

declare matchhere.simps [simp del] matchstar.simps [simp del]

function match_from :: "u8 list \<Rightarrow> u8 list \<Rightarrow> bool" where
  "match_from re tx = (matchhere re tx \<or> (if first_char tx \<noteq> 0 then match_from re (tl tx) else False))"
  by pat_completeness auto
termination by (relation "measure (\<lambda>(re, t). length t)") (auto intro!: tl_shorter)

declare match_from.simps [simp del]

definition match :: "u8 list \<Rightarrow> u8 list \<Rightarrow> bool" where
  "match re tx = (if first_char re = 94 then matchhere (tl re) tx else match_from re tx)"

text \<open>
  The language of a pattern: a sequence of characters and starred characters, where a dot stands
  for any character, with or without the end of the tx after it.
\<close>

datatype item = One u8 | Star u8

definition fits :: "u8 \<Rightarrow> u8 \<Rightarrow> bool" where
  "fits c x \<longleftrightarrow> c = 46 \<or> c = x"

function items :: "u8 list \<Rightarrow> item list \<times> bool" where
  "items re =
     (if first_char re = 0 then ([], False)
      else if first_char (tl re) = 42 then (case items (tl (tl re)) of (is, e) \<Rightarrow> (Star (first_char re) # is, e))
      else if first_char re = 36 \<and> first_char (tl re) = 0 then ([], True)
      else (case items (tl re) of (is, e) \<Rightarrow> (One (first_char re) # is, e)))"
  by pat_completeness auto
termination by (relation "measure length") (auto intro!: tl_shorter dest: first_char_nonempty simp: neq_Nil_conv)

declare items.simps [simp del]

fun item_lang :: "item \<Rightarrow> u8 list set" where
  "item_lang (One c) = {[x] |x. fits c x}"
| "item_lang (Star c) = {xs. \<forall>x \<in> set xs. fits c x}"

fun lang :: "item list \<Rightarrow> u8 list set" where
  "lang [] = {[]}"
| "lang (i # is) = {u @ v |u v. u \<in> item_lang i \<and> v \<in> lang is}"

text \<open>A prefix of the tx, or all of it, is in the language.\<close>

definition accepts :: "item list \<times> bool \<Rightarrow> u8 list \<Rightarrow> bool" where
  "accepts p s \<longleftrightarrow> (\<exists>u v. s = u @ v \<and> u \<in> lang (fst p) \<and> (snd p \<longrightarrow> v = []))"

lemma accepts_Nil: "accepts ([], e) s \<longleftrightarrow> (e \<longrightarrow> s = [])"
  by (auto simp: accepts_def)

lemma lang_One: "u \<in> lang (One c # is) \<longleftrightarrow> (\<exists>x t. u = x # t \<and> fits c x \<and> t \<in> lang is)"
  by (auto intro: exI [of _ "[_]"])

lemma accepts_One: "accepts (One c # is, e) s \<longleftrightarrow> (\<exists>x t. s = x # t \<and> fits c x \<and> accepts (is, e) t)"
  unfolding accepts_def fst_conv snd_conv lang_One by (metis append_Cons)

lemma lang_Star: "u \<in> lang (Star c # is) \<longleftrightarrow> u \<in> lang is \<or> (\<exists>x t. u = x # t \<and> fits c x \<and> t \<in> lang (Star c # is))"
proof
  assume "u \<in> lang (Star c # is)"
  then obtain a b where u: "u = a @ b" "\<forall>x \<in> set a. fits c x" "b \<in> lang is"
    unfolding lang.simps item_lang.simps by blast
  show "u \<in> lang is \<or> (\<exists>x t. u = x # t \<and> fits c x \<and> t \<in> lang (Star c # is))"
  proof (cases a)
    case Nil
    with u show ?thesis by simp
  next
    case (Cons x a')
    with u have "u = x # (a' @ b)" "fits c x" "\<forall>x \<in> set a'. fits c x" by simp_all
    with u(3) show ?thesis unfolding lang.simps item_lang.simps by blast
  qed
next
  have step: "a @ b \<in> lang (Star c # is)" if "\<forall>x \<in> set a. fits c x" "b \<in> lang is" for a b
    using that unfolding lang.simps item_lang.simps by blast
  assume "u \<in> lang is \<or> (\<exists>x t. u = x # t \<and> fits c x \<and> t \<in> lang (Star c # is))"
  then show "u \<in> lang (Star c # is)"
  proof
    assume "u \<in> lang is"
    then show ?thesis using step [of "[]" u] by simp
  next
    assume "\<exists>x t. u = x # t \<and> fits c x \<and> t \<in> lang (Star c # is)"
    then obtain x a b where "u = x # a @ b" "fits c x" "\<forall>x \<in> set a. fits c x" "b \<in> lang is"
      unfolding lang.simps item_lang.simps by blast
    then show ?thesis using step [of "x # a" b] by simp
  qed
qed

lemma accepts_Star:
  "accepts (Star c # is, e) s \<longleftrightarrow> accepts (is, e) s \<or> (\<exists>x t. s = x # t \<and> fits c x \<and> accepts (Star c # is, e) t)"
  (is "?l \<longleftrightarrow> ?r")
proof
  assume ?l
  then obtain u v where u: "s = u @ v" "u \<in> lang (Star c # is)" "e \<longrightarrow> v = []" by (auto simp: accepts_def simp del: lang.simps)
  from u(2) consider "u \<in> lang is" | x t where "u = x # t" "fits c x" "t \<in> lang (Star c # is)"
    unfolding lang_Star [of u] by blast
  then show ?r
  proof cases
    case 1
    with u show ?thesis unfolding accepts_def fst_conv snd_conv by blast
  next
    case 2
    with u(1) have "s = x # (t @ v)" by simp
    with 2 u(3) show ?thesis unfolding accepts_def fst_conv snd_conv by blast
  qed
next
  assume ?r
  then show ?l
  proof
    assume "accepts (is, e) s"
    then obtain u v where "s = u @ v" "u \<in> lang is" "e \<longrightarrow> v = []" by (auto simp: accepts_def simp del: lang.simps)
    moreover from this have "u \<in> lang (Star c # is)" by (simp only: lang_Star [of u]) simp
    ultimately show ?l unfolding accepts_def fst_conv snd_conv by blast
  next
    assume "\<exists>x t. s = x # t \<and> fits c x \<and> accepts (Star c # is, e) t"
    then obtain x u v where u: "s = (x # u) @ v" "fits c x" "u \<in> lang (Star c # is)" "e \<longrightarrow> v = []"
      by (auto simp: accepts_def simp del: lang.simps)
    moreover from u(2,3) have "x # u \<in> lang (Star c # is)" by (subst lang_Star) blast
    ultimately show ?l unfolding accepts_def fst_conv snd_conv by blast
  qed
qed

lemma c_string_cases: "c_string s = (if first_char s = 0 then [] else first_char s # c_string (tl s))"
  by (rule c_string_rec)

lemma matcher_accepts:
  "matchhere re tx \<longleftrightarrow> accepts (items re) (c_string tx)"
  "matchstar c re tx \<longleftrightarrow> accepts (Star c # fst (items re), snd (items re)) (c_string tx)"
proof (induction re tx and c re tx rule: matchhere_matchstar.induct)
  case (1 re tx)
  consider "first_char re = 0" | "first_char re \<noteq> 0" "first_char (tl re) = 42"
    | "first_char re = 36" "first_char (tl re) = 0"
    | "first_char re \<noteq> 0" "first_char (tl re) \<noteq> 42" "\<not> (first_char re = 36 \<and> first_char (tl re) = 0)"
    by auto
  then show ?case
  proof cases
    case 1
    then show ?thesis by (simp add: matchhere.simps [of re] items.simps [of re] accepts_Nil)
  next
    case 2
    then show ?thesis
      using "1.IH"(1) by (simp add: matchhere.simps [of re] items.simps [of re] split: prod.splits)
  next
    case 3
    then show ?thesis
      by (simp add: matchhere.simps [of re] items.simps [of re] accepts_Nil c_string_cases [of tx])
  next
    case 4
    obtain "is" e where i: "items (tl re) = (is, e)" by (cases "items (tl re)")
    have "matchhere re tx \<longleftrightarrow> first_char tx \<noteq> 0 \<and> fits (first_char re) (first_char tx) \<and> matchhere (tl re) (tl tx)"
      using 4 by (subst matchhere.simps) (auto simp: fits_def)
    moreover have "items re = (One (first_char re) # is, e)" using 4 i by (simp add: items.simps [of re])
    ultimately show ?thesis
      using "1.IH"(2) 4 i by (auto simp: accepts_One c_string_cases [of tx] fits_def)
  qed
next
  case (2 c re tx)
  obtain "is" e where i: "items re = (is, e)" by (cases "items re")
  let ?next = "first_char tx \<noteq> 0 \<and> fits c (first_char tx)"
  have l: "matchstar c re tx \<longleftrightarrow> matchhere re tx \<or> ?next \<and> matchstar c re (tl tx)"
    by (subst matchstar.simps) (auto simp: fits_def)
  have r: "accepts (Star c # is, e) (c_string tx) \<longleftrightarrow>
      accepts (is, e) (c_string tx) \<or> ?next \<and> accepts (Star c # is, e) (c_string (tl tx))"
    by (subst accepts_Star, subst (2) c_string_cases) simp
  have "?next \<Longrightarrow> matchstar c re (tl tx) \<longleftrightarrow> accepts (Star c # is, e) (c_string (tl tx))"
    using "2.IH"(2) i by (auto simp: fits_def)
  then show ?case unfolding l i fst_conv snd_conv r using "2.IH"(1) i by auto
qed

lemma match_from_accepts: "match_from re tx \<longleftrightarrow> (\<exists>w v. c_string tx = w @ v \<and> accepts (items re) v)"
proof (induction re tx rule: match_from.induct)
  case (1 re tx)
  show ?case
  proof (cases "first_char tx = 0")
    case True
    then show ?thesis
      by (simp add: match_from.simps [of re tx] matcher_accepts c_string_cases [of tx])
  next
    case False
    have "(\<exists>w v. x # t = w @ v \<and> P v) \<longleftrightarrow> P (x # t) \<or> (\<exists>w v. t = w @ v \<and> P v)" for x t and P :: "u8 list \<Rightarrow> bool"
      by (auto simp: Cons_eq_append_conv)
    with False 1 show ?thesis
      by (simp add: match_from.simps [of re tx] matcher_accepts c_string_cases [of tx])
  qed
qed

text \<open>
  C37. \<open>grep\<close>'s matcher decides its pattern language: it reports a match exactly when some part of the line
  is in the language of the pattern, where a leading caret ties that part to the beginning of the
  line and a final dollar sign to its end.
\<close>

theorem match_correct:
  "match re tx \<longleftrightarrow> (\<exists>w u v. c_string tx = w @ u @ v \<and>
     u \<in> lang (fst (items (if first_char re = 94 then tl re else re))) \<and> (first_char re = 94 \<longrightarrow> w = []) \<and>
     (snd (items (if first_char re = 94 then tl re else re)) \<longrightarrow> v = []))"
  by (auto simp: match_def matcher_accepts match_from_accepts accepts_def)

lemma match_correct_witness:
  "match [94, 97, 42, 98] [97, 97, 98, 99] \<and> \<not> match [94, 97, 42, 98, 36] [97, 97, 98, 99]"
proof -
  have i: "items [97, 42, 98] = ([Star 97, One 98], False)" "items [97, 42, 98, 36] = ([Star 97, One 98], True)"
    by (simp_all add: items.simps)
  have c: "c_string [97, 97, 98, 99] = [97, 97, 98, 99]" by (simp add: c_string_def)
  have "[97, 97] @ [98] \<in> lang [Star 97, One 98]"
    unfolding lang.simps item_lang.simps by (fastforce simp: fits_def)
  moreover have "[97, 97, 98, 99] = ([97, 97] @ [98]) @ [99 :: u8]" by simp
  moreover have "match [94, 97, 42, 98] [97, 97, 98, 99] \<longleftrightarrow> (\<exists>u v. [97, 97, 98, 99] = u @ v \<and> u \<in> lang [Star 97, One 98])"
    using match_correct [of "[94, 97, 42, 98]" "[97, 97, 98, 99]"] by (simp add: c i del: lang.simps)
  ultimately have yes: "match [94, 97, 42, 98] [97, 97, 98, 99]" by blast
  have "last u = 98" if "u \<in> lang [Star 97, One 98]" for u :: "u8 list"
    using that by (auto simp: fits_def)
  from this [of "[97, 97, 98, 99]"] have "[97, 97, 98, 99] \<notin> lang [Star 97, One 98]" by auto
  moreover have "match [94, 97, 42, 98, 36] [97, 97, 98, 99] \<longleftrightarrow> [97, 97, 98, 99] \<in> lang [Star 97, One 98]"
    using match_correct [of "[94, 97, 42, 98, 36]" "[97, 97, 98, 99]"] by (simp add: c i del: lang.simps)
  ultimately show ?thesis using yes by blast
qed

subsection \<open>grep: filtering lines\<close>

text \<open>
  The lines in a full buffer: what is written for them, and the bytes after the last newline. The
  search for a newline also stops at a zero byte.
\<close>

definition newline_at :: "u8 list \<Rightarrow> nat option" where
  "newline_at p = map_option (\<lambda>q. length p - length q) (strchr p 10)"

lemma strchr_suffix: "strchr s c = Some q \<Longrightarrow> c \<noteq> 0 \<Longrightarrow> 0 < length q \<and> length q \<le> length s"
proof (induction s c rule: strchr.induct)
  case (1 s c)
  show ?case
  proof (cases "first_char s = c")
    case True
    with 1 have "q = s" by (simp add: strchr.simps [of s])
    moreover have "s \<noteq> []" using True 1(3) by auto
    ultimately show ?thesis by simp
  next
    case False
    with 1 have "first_char s \<noteq> 0" "strchr (tl s) c = Some q" by (auto simp: strchr.simps [of s] split: if_splits)
    with 1 False show ?thesis by fastforce
  qed
qed

lemma newline_at_less: "newline_at p = Some k \<Longrightarrow> k < length p"
proof -
  assume "newline_at p = Some k"
  then obtain q where q: "strchr p 10 = Some q" "k = length p - length q" by (auto simp: newline_at_def)
  have "0 < length q \<and> length q \<le> length p" by (rule strchr_suffix [OF q(1)]) simp
  with q(2) show ?thesis by linarith
qed

function grep_lines :: "u8 list \<Rightarrow> u8 list \<Rightarrow> u8 list \<times> u8 list" where
  "grep_lines pattern p =
     (case newline_at p of
        None \<Rightarrow> ([], p)
      | Some k \<Rightarrow>
          (case grep_lines pattern (drop (k + 1) p) of (out, rest) \<Rightarrow>
             ((if match pattern (take k p) then take (k + 1) p else []) @ out, rest)))"
  by pat_completeness auto
termination by (relation "measure (\<lambda>(r, p). length p)") (auto dest: newline_at_less)

declare grep_lines.simps [simp del]

text \<open>
  \<open>grepfd\<close>: the bytes \<open>buf\<close> at the start of the 1024-byte buffer, and the input left to read.
\<close>

definition GREP_BUF :: nat where "GREP_BUF = 1024"

function grepfd_loop :: "u8 list \<Rightarrow> u8 list \<Rightarrow> u8 list \<Rightarrow> u8 list" where
  "grepfd_loop pattern buf inp =
     (let n = min (GREP_BUF - length buf - 1) (length inp) in
      if n = 0 then
        (if buf \<noteq> [] \<and> match pattern buf then buf @ (if last buf \<noteq> 10 then [10] else []) else [])
      else
        (case grep_lines pattern (buf @ take n inp) of (out, rest) \<Rightarrow> out @ grepfd_loop pattern rest (drop n inp)))"
  by pat_completeness auto
termination by (relation "measure (\<lambda>(r, b, i). length i)") auto

declare grepfd_loop.simps [simp del]

definition grepfd :: "u8 list \<Rightarrow> u8 list \<Rightarrow> u8 list" where
  "grepfd pattern inp = grepfd_loop pattern [] inp"

subsection \<open>wc\<close>

definition wc_isspace :: "u8 \<Rightarrow> bool" where
  "wc_isspace c \<longleftrightarrow> c = 32 \<or> c = 13 \<or> c = 9 \<or> c = 10 \<or> c = 11"

record wc_st =
  wc_lines :: u64
  wc_words :: u64
  wc_bytes :: u64
  inword :: bool

definition wc_step :: "u8 \<Rightarrow> wc_st \<Rightarrow> wc_st" where
  "wc_step c s =
     (let s = s\<lparr>wc_bytes := wc_bytes s + 1\<rparr>;
          s = (if c = 10 then s\<lparr>wc_lines := wc_lines s + 1\<rparr> else s)
      in if wc_isspace c then s\<lparr>inword := False\<rparr>
         else if \<not> inword s then s\<lparr>wc_words := wc_words s + 1, inword := True\<rparr>
         else s)"

text \<open>The reads fill a buffer of 512 bytes; \<open>None\<close> is a read that fails.\<close>

fun do_wc_reads :: "u8 list option list \<Rightarrow> wc_st \<Rightarrow> wc_st option" where
  "do_wc_reads [] s = Some s"
| "do_wc_reads (None # rs) s = None"
| "do_wc_reads (Some bs # rs) s = (if bs = [] then Some s else do_wc_reads rs (fold wc_step bs s))"

definition do_wc :: "u8 list option list \<Rightarrow> u8 list \<Rightarrow> u8 list option" where
  "do_wc reads name =
     (case do_wc_reads reads \<lparr>wc_lines = 0, wc_words = 0, wc_bytes = 0, inword = False\<rparr> of
        None \<Rightarrow> None
      | Some s \<Rightarrow>
          if first_char name \<noteq> 0 then
            uprintf [37, 108, 117, 32, 37, 108, 117, 32, 37, 108, 117, 32, 37, 115, 10]
              [UNum (wc_lines s), UNum (wc_words s), UNum (wc_bytes s), UStr (Some name)]
          else
            uprintf [37, 108, 117, 32, 37, 108, 117, 32, 37, 108, 117, 10]
              [UNum (wc_lines s), UNum (wc_words s), UNum (wc_bytes s)])"

subsection \<open>The shell's command line\<close>

definition MAXLINE :: nat where "MAXLINE = 128"
definition MAXARGS :: int where "MAXARGS = 16"

definition sh_isspace :: "u8 \<Rightarrow> bool" where
  "sh_isspace c \<longleftrightarrow> c = 32 \<or> c = 9"

definition skipspace :: "u8 list \<Rightarrow> u8 list" where
  "skipspace s = dropWhile sh_isspace s"

text \<open>\<open>rstrip\<close> on the string \<open>s\<close>: each trailing blank becomes the terminator.\<close>

function rstrip :: "u8 list \<Rightarrow> u8 list" where
  "rstrip s = (if s \<noteq> [] \<and> sh_isspace (last s) then rstrip (butlast s) else s)"
  by pat_completeness auto
termination by (relation "measure length") auto

declare rstrip.simps [simp del]

text \<open>
  \<open>readline\<close>: the bytes stored before the terminator and the input left; \<open>None\<close> is the error return
  when the input ends before the line does. The buffer takes \<open>cap - 1\<close> bytes.
\<close>

fun readline_from :: "nat \<Rightarrow> u8 list \<Rightarrow> (u8 list \<times> u8 list) option" where
  "readline_from 0 inp = Some ([], inp)"
| "readline_from (Suc room) inp =
     (case inp of
        [] \<Rightarrow> None
      | c # rest \<Rightarrow>
          let c = (if c = 13 then 10 else c) in
          if c = 10 then Some ([], rest)
          else map_option (\<lambda>(buf, r). (c # buf, r)) (readline_from room rest))"

definition readline :: "nat \<Rightarrow> u8 list \<Rightarrow> (u8 list \<times> u8 list) option" where
  "readline cap inp = readline_from (cap - 1) inp"

text \<open>\<open>makepath\<close>: the path without its terminator, or the error return when it does not fit.\<close>

fun copy_path :: "int \<Rightarrow> int \<Rightarrow> u8 list \<Rightarrow> u8 list option" where
  "copy_path i cap [] = Some []"
| "copy_path i cap (c # cmd) = (if cap \<le> i + 1 then None else map_option ((#) c) (copy_path (i + 1) cap cmd))"

definition makepath :: "u8 list \<Rightarrow> int \<Rightarrow> u8 list option" where
  "makepath cmd cap =
     (if first_char cmd \<noteq> 47
      then (if cap < 2 then None else map_option ((#) 47) (copy_path 1 cap (c_string cmd)))
      else copy_path 0 cap (c_string cmd))"

text \<open>
  \<open>parseargs\<close> from a position \<open>s\<close> of the line that is no blank: the arguments found from there on, each
  ended by the terminator written over the blank after it.
\<close>

function parse_words :: "int \<Rightarrow> int \<Rightarrow> u8 list \<Rightarrow> u8 list list option" where
  "parse_words argc maxargs s =
     (if s = [] then Some []
      else if maxargs \<le> argc + 1 then None
      else
        let arg = takeWhile (\<lambda>c. \<not> sh_isspace c) s; after_arg = dropWhile (\<lambda>c. \<not> sh_isspace c) s in
        if after_arg = [] then Some [arg]
        else map_option ((#) arg) (parse_words (argc + 1) maxargs (skipspace (tl after_arg))))"
  by pat_completeness auto
termination
proof (relation "measure (\<lambda>(a, m, s). length s)")
  fix argc maxargs :: int and s arg after_arg :: "u8 list"
  assume "s \<noteq> []" "after_arg = dropWhile (\<lambda>c. \<not> sh_isspace c) s" "after_arg \<noteq> []"
  moreover have "length (skipspace (tl after_arg)) \<le> length (tl after_arg)"
    unfolding skipspace_def by (rule length_dropWhile_le)
  moreover have "length (dropWhile (\<lambda>c. \<not> sh_isspace c) s) \<le> length s" by (rule length_dropWhile_le)
  ultimately show "((argc + 1, maxargs, skipspace (tl after_arg)), argc, maxargs, s) \<in> measure (\<lambda>(a, m, s). length s)"
    by (cases after_arg) (auto simp del: length_greater_0_conv dest!: arg_cong [where f = length])
qed simp

declare parse_words.simps [simp del]

definition parseargs :: "u8 list \<Rightarrow> int \<Rightarrow> u8 list list option" where
  "parseargs line maxargs = parse_words 0 maxargs (rstrip (skipspace (c_string line)))"

subsection \<open>Names: \<^verbatim>\<open>ls\<close> and \<^verbatim>\<open>find\<close>\<close>

fun basename1_from :: "u8 list \<Rightarrow> u8 list \<Rightarrow> u8 list" where
  "basename1_from base [] = base"
| "basename1_from base (c # p) = basename1_from (if c = 47 then p else base) p"

definition basename1 :: "u8 list \<Rightarrow> u8 list" where
  "basename1 path = basename1_from path path"

definition fmtname :: "u8 list \<Rightarrow> u8 list" where
  "fmtname path =
     (let base = rev (takeWhile (\<lambda>c. c \<noteq> 47) (rev (c_string path)))
      in take 14 (takeWhile (\<lambda>c. c \<noteq> 47) base))"

function digits_u64 :: "u64 \<Rightarrow> int" where
  "digits_u64 x = (if 10 \<le> x then digits_u64 (x div 10) + 1 else 1)"
  by pat_completeness auto
termination
proof (relation "measure unat")
  fix x :: u64
  assume "10 \<le> x"
  then have "10 \<le> unat x" by (simp add: word_le_nat_alt)
  then show "(x div 10, x) \<in> measure unat" by (simp add: unat_div)
qed simp

declare digits_u64.simps [simp del]

definition print_entry :: "u8 list \<Rightarrow> u32 \<Rightarrow> u64 \<Rightarrow> u8 list" where
  "print_entry name ino bytes =
     (let spaces = (\<lambda>n :: int. replicate (nat n) 32);
          name_len = sint (strlen name);
          ino_digits = digits_u64 (ucast ino);
          size_digits = digits_u64 bytes
      in c_string name @ (if name_len < 14 then spaces (14 - name_len) else []) @ spaces 2 @
         (if ino_digits < 6 then spaces (6 - ino_digits) else []) @ uprintint (ucast ino) 10 False @ spaces 2 @
         (if size_digits < 8 then spaces (8 - size_digits) else []) @ uprintint bytes 10 False @ [10])"

subsection \<open>xargs: the lines it runs the command for\<close>

text \<open>
  The loop that reads standard input: the line so far and the input; the result is the arguments
  the command is run with, one after the other.
\<close>

fun xargs_lines :: "u8 list \<Rightarrow> u8 list \<Rightarrow> u8 list list" where
  "xargs_lines line [] = (if line \<noteq> [] then [line] else [])"
| "xargs_lines line (c # inp) =
     (if c = 10 then (if line \<noteq> [] then line # xargs_lines [] inp else xargs_lines [] inp)
      else xargs_lines (if int (length line) + 1 < 512 then line @ [c] else line) inp)"

subsection \<open>Words\<close>

text \<open>The pieces of a string between blanks, empty ones included, and the words, the others.\<close>

primrec splits :: "('c \<Rightarrow> bool) \<Rightarrow> 'c list \<Rightarrow> 'c list list" where
  "splits P [] = [[]]"
| "splits P (c # s) = (if P c then [] # splits P s else (c # hd (splits P s)) # tl (splits P s))"

definition blank_words :: "('c \<Rightarrow> bool) \<Rightarrow> 'c list \<Rightarrow> 'c list list" where
  "blank_words P s = filter (\<lambda>w. w \<noteq> []) (splits P s)"

lemma splits_ne [simp]: "splits P s \<noteq> []"
  by (cases s) simp_all

lemma words_blank: "P c \<Longrightarrow> blank_words P (c # s) = blank_words P s"
  by (simp add: blank_words_def)

lemma words_Nil [simp]: "blank_words P [] = []"
  by (simp add: blank_words_def)

lemma words_dropWhile: "blank_words P (dropWhile P s) = blank_words P s"
  by (induction s) (simp_all add: words_blank)

lemma splits_word:
  "w \<noteq> [] \<Longrightarrow> \<forall>c \<in> set w. \<not> P c \<Longrightarrow> t = [] \<or> P (hd t) \<Longrightarrow> splits P (w @ t) = w # tl (splits P t)"
proof (induction w)
  case (Cons c w)
  show ?case
  proof (cases "w = []")
    case True
    then show ?thesis using Cons.prems by (cases t) auto
  next
    case False
    then show ?thesis using Cons by simp
  qed
qed simp

lemma words_word:
  assumes "w \<noteq> []" and "\<forall>c \<in> set w. \<not> P c" and "t = [] \<or> P (hd t)"
  shows "blank_words P (w @ t) = w # blank_words P t"
proof -
  have "blank_words P t = filter (\<lambda>w. w \<noteq> []) (tl (splits P t))"
    using assms(3) by (cases t) (simp_all add: blank_words_def)
  then show ?thesis using splits_word [OF assms] assms(1) by (simp add: blank_words_def)
qed

lemma words_end: "P c \<Longrightarrow> blank_words P (s @ [c]) = blank_words P s"
proof -
  assume c: "P c"
  have "splits P (s @ [c]) = splits P s @ [[]]" using c
  proof (induction s)
    case (Cons a s)
    obtain x xs where "splits P s = x # xs" by (cases "splits P s") auto
    with Cons show ?case by simp
  qed simp
  then show ?thesis by (simp add: blank_words_def)
qed

lemma words_rstrip: "blank_words sh_isspace (rstrip s) = blank_words sh_isspace s"
proof (induction s rule: rstrip.induct)
  case (1 s)
  show ?case
  proof (cases "s \<noteq> [] \<and> sh_isspace (last s)")
    case True
    then have "blank_words sh_isspace s = blank_words sh_isspace (butlast s)"
      using words_end [of sh_isspace "last s" "butlast s"] by simp
    then show ?thesis using 1 True by (simp add: rstrip.simps [of s])
  next
    case False
    then show ?thesis by (subst rstrip.simps) auto
  qed
qed

lemma rstrip_hd: "s = [] \<or> \<not> sh_isspace (hd s) \<Longrightarrow> rstrip s = [] \<or> \<not> sh_isspace (hd (rstrip s))"
proof (induction s rule: rstrip.induct)
  case (1 s)
  show ?case
  proof (cases "s \<noteq> [] \<and> sh_isspace (last s)")
    case True
    have "butlast s = [] \<or> hd (butlast s) = hd s" by (cases s) auto
    then show ?thesis using 1 True by (auto simp: rstrip.simps [of s])
  next
    case False
    then show ?thesis using 1 by (subst (1 2) rstrip.simps) auto
  qed
qed

lemma parse_words_spec:
  "s = [] \<or> \<not> sh_isspace (hd s) \<Longrightarrow> parse_words argc maxargs s =
     (let ws = blank_words sh_isspace s in if ws \<noteq> [] \<and> maxargs \<le> argc + int (length ws) then None else Some ws)"
proof (induction argc maxargs s rule: parse_words.induct)
  case (1 argc maxargs s)
  let ?w = "takeWhile (\<lambda>c. \<not> sh_isspace c) s" and ?t = "dropWhile (\<lambda>c. \<not> sh_isspace c) s"
  show ?case
  proof (cases "s = []")
    case True
    then show ?thesis by (simp add: parse_words.simps)
  next
    case False
    then have w: "?w \<noteq> []" using 1(2) by (cases s) auto
    have t: "?t = [] \<or> sh_isspace (hd ?t)" using hd_dropWhile [of "\<lambda>c. \<not> sh_isspace c" s] by blast
    have "\<forall>c \<in> set ?w. \<not> sh_isspace c" by (auto dest: set_takeWhileD)
    from words_word [where P = sh_isspace and w = ?w and t = ?t, OF w this t]
    have W: "blank_words sh_isspace s = ?w # blank_words sh_isspace ?t" by (simp only: takeWhile_dropWhile_id)
    have unfold: "parse_words argc maxargs s = (if maxargs \<le> argc + 1 then None else if ?t = [] then Some [?w]
        else map_option ((#) ?w) (parse_words (argc + 1) maxargs (skipspace (tl ?t))))"
      using False by (subst parse_words.simps) (simp only: Let_def if_False)
    consider "maxargs \<le> argc + 1" | "\<not> maxargs \<le> argc + 1" "?t = []" | "\<not> maxargs \<le> argc + 1" "?t \<noteq> []" by blast
    then show ?thesis
    proof cases
      case 1
      then show ?thesis unfolding unfold W by simp
    next
      case 2
      then show ?thesis unfolding unfold W by (simp only: if_False if_True words_Nil) simp
    next
      case 3
      have "blank_words sh_isspace ?t = blank_words sh_isspace (skipspace (tl ?t))"
        using t 3(2) by (cases ?t) (auto simp: skipspace_def words_dropWhile words_blank)
      moreover have "skipspace (tl ?t) = [] \<or> \<not> sh_isspace (hd (skipspace (tl ?t)))"
        using hd_dropWhile [of sh_isspace "tl ?t"] by (auto simp: skipspace_def)
      ultimately have "parse_words (argc + 1) maxargs (skipspace (tl ?t)) =
          (let ws = blank_words sh_isspace ?t in if ws \<noteq> [] \<and> maxargs \<le> argc + 1 + int (length ws) then None else Some ws)"
        using "1.IH" [OF False _ refl refl] 3 by simp
      then show ?thesis using 3 unfolding unfold W by (simp add: Let_def)
    qed
  qed
qed

text \<open>
  C40. The shell's \<open>parseargs\<close> splits a command line into its words: the arguments are the maximal
  pieces of the line without blanks, in order, however many blanks there are around them; it
  refuses a line whose words and the final null pointer do not fit the argument array.
\<close>

theorem parseargs_words:
  "parseargs line maxargs =
     (if blank_words sh_isspace (c_string line) \<noteq> [] \<and> maxargs \<le> int (length (blank_words sh_isspace (c_string line)))
      then None else Some (blank_words sh_isspace (c_string line)))"
proof -
  let ?s = "skipspace (c_string line)"
  have "?s = [] \<or> \<not> sh_isspace (hd ?s)" using hd_dropWhile [of sh_isspace "c_string line"] by (auto simp: skipspace_def)
  then have "rstrip ?s = [] \<or> \<not> sh_isspace (hd (rstrip ?s))" by (rule rstrip_hd)
  moreover have "blank_words sh_isspace (rstrip ?s) = blank_words sh_isspace (c_string line)"
    by (simp add: words_rstrip skipspace_def words_dropWhile)
  ultimately show ?thesis by (simp add: parseargs_def parse_words_spec Let_def)
qed

text \<open>The counts of \<open>wc\<close>, whatever the sizes of the reads: newlines, words, bytes.\<close>

lemma words_Cons:
  "\<not> P c \<Longrightarrow> length (blank_words P (c # s)) = (if s = [] \<or> P (hd s) then 1 else 0) + length (blank_words P s)"
proof -
  assume c: "\<not> P c"
  obtain w ws where w: "splits P s = w # ws" by (cases "splits P s") auto
  have "w = [] \<longleftrightarrow> s = [] \<or> P (hd s)" using w by (cases s) (auto split: if_splits)
  then show ?thesis using c w by (simp add: blank_words_def)
qed

lemma wc_fold:
  "wc_lines (fold wc_step bs s) = wc_lines s + of_nat (count_list bs 10) \<and>
   wc_bytes (fold wc_step bs s) = wc_bytes s + of_nat (length bs) \<and>
   wc_words (fold wc_step bs s) + (if inword s \<and> bs \<noteq> [] \<and> \<not> wc_isspace (hd bs) then 1 else 0) =
     wc_words s + of_nat (length (blank_words wc_isspace bs))"
proof (induction bs arbitrary: s)
  case (Cons c bs)
  have f: "wc_lines (wc_step c s) = wc_lines s + (if c = 10 then 1 else 0)" "wc_bytes (wc_step c s) = wc_bytes s + 1"
    "inword (wc_step c s) = (\<not> wc_isspace c)"
    "wc_words (wc_step c s) = wc_words s + (if \<not> wc_isspace c \<and> \<not> inword s then 1 else 0)"
    by (auto simp: wc_step_def Let_def)
  note IH = Cons.IH [of "wc_step c s", unfolded f]
  show ?case
  proof (cases "wc_isspace c")
    case True
    then show ?thesis using IH by (simp add: words_blank algebra_simps)
  next
    case False
    then show ?thesis using IH by (cases "bs = [] \<or> wc_isspace (hd bs)") (auto simp: words_Cons algebra_simps)
  qed
qed simp

lemma wc_counts:
  assumes "[] \<notin> set chunks"
  shows "\<exists>s. do_wc_reads (map Some chunks) \<lparr>wc_lines = 0, wc_words = 0, wc_bytes = 0, inword = False\<rparr> = Some s \<and>
     wc_lines s = of_nat (count_list (concat chunks) 10) \<and> wc_bytes s = of_nat (length (concat chunks)) \<and>
     wc_words s = of_nat (length (blank_words wc_isspace (concat chunks)))"
proof -
  have "do_wc_reads (map Some chunks) s = Some (fold wc_step (concat chunks) s)" for s
    using assms by (induction chunks arbitrary: s) auto
  then show ?thesis using wc_fold [of "concat chunks" "\<lparr>wc_lines = 0, wc_words = 0, wc_bytes = 0, inword = False\<rparr>"] by simp
qed

end
