(* ===== verification/UserProgs.thy ===== *)
theory UserProgs
  imports UserSys UserTools
begin

section \<open>User programs: the main functions\<close>

text \<open>
  The programs of \<^verbatim>\<open>user/\<close> from their first system call to \<open>exit\<close>. \<open>argv\<close> is the whole argument
  vector, so \<open>argc\<close> is its length. Loops over input are least fixed points: a run has no result
  exactly when it never ends. The programs rely on a \<open>read\<close> that returns a positive number storing
  that many bytes.
\<close>

subsection \<open>cat\<close>

partial_function (option) catfd :: "'w ucall \<Rightarrow> int \<Rightarrow> 'w \<Rightarrow> (int, 'w) uresult option" where
  "catfd K fd w =
     ubind (uread K fd 512) (\<lambda>(n, buf).
     if n < 0 then uret (-1)
     else if n = 0 then uret 0
     else
       ubind (uwrite K 1 buf n) (\<lambda>r.
       if r \<noteq> n then uret (-1) else catfd K fd)) w"

fun cat_files :: "'w ucall \<Rightarrow> u8 list list \<Rightarrow> (unit, 'w) uprog" where
  "cat_files K [] = uexit K 0"
| "cat_files K (name # rest) =
     ubind (uopen K name 0) (\<lambda>fd.
     if fd < 0 then
       uthen (ufprintf K 2 ''cat: cannot open %s\<newline>'' [UStr (Some name)])
       (uexit K 1)
     else
       ubind (catfd K fd) (\<lambda>r.
       if r < 0 then
         uthen (ufprintf K 2 ''cat: read/write error\<newline>'' [])
         (uthen (uclose K fd)
         (uexit K 1))
       else
         uthen (uclose K fd)
         (cat_files K rest)))"

definition cat_main :: "'w ucall \<Rightarrow> u8 list list \<Rightarrow> (unit, 'w) uprog" where
  "cat_main K argv =
     (if length argv \<le> 1 then
        ubind (catfd K 0) (\<lambda>r.
        if r < 0 then
          uthen (ufprintf K 2 ''cat: read/write error\<newline>'' [])
          (uexit K 1)
        else uexit K 0)
      else cat_files K (tl argv))"

subsection \<open>grep\<close>

text \<open>The loop over the lines in the buffer, and the bytes after the last of them.\<close>

function grep_scan :: "'w ucall \<Rightarrow> u8 list \<Rightarrow> u8 list \<Rightarrow> (u8 list, 'w) uprog" where
  "grep_scan K pattern p =
     (case newline_at p of
        None \<Rightarrow> uret p
      | Some k \<Rightarrow>
          uthen (if match pattern (take k p) then uthen (uwrite K 1 (take (k + 1) p) (int (k + 1))) (uret ()) else uret ())
          (grep_scan K pattern (drop (k + 1) p)))"
  by pat_completeness auto
termination by (relation "measure (\<lambda>(K, r, p). length p)") (auto dest: newline_at_less)

declare grep_scan.simps [simp del]

partial_function (option) grep_read :: "'w ucall \<Rightarrow> u8 list \<Rightarrow> int \<Rightarrow> u8 list \<Rightarrow> 'w \<Rightarrow> (int, 'w) uresult option" where
  "grep_read K pattern fd buf w =
     ubind (uread K fd (GREP_BUF - length buf - 1)) (\<lambda>(n, bs).
     if n < 0 then uret (-1)
     else if n = 0 then
       (if buf \<noteq> [] \<and> match pattern buf then
          uthen (uwrite K 1 buf (int (length buf)))
          (if last buf \<noteq> 10 then uthen (uwrite K 1 [10] 1) (uret 0) else uret 0)
        else uret 0)
     else
       ubind (grep_scan K pattern (buf @ bs)) (\<lambda>rest.
       grep_read K pattern fd rest)) w"

definition grep_fd :: "'w ucall \<Rightarrow> u8 list \<Rightarrow> int \<Rightarrow> (int, 'w) uprog" where
  "grep_fd K pattern fd = grep_read K pattern fd []"

fun grep_files :: "'w ucall \<Rightarrow> u8 list \<Rightarrow> u8 list list \<Rightarrow> (unit, 'w) uprog" where
  "grep_files K pattern [] = uexit K 0"
| "grep_files K pattern (name # rest) =
     ubind (uopen K name 0) (\<lambda>fd.
     if fd < 0 then
       uthen (ufprintf K 2 ''grep: cannot open %s\<newline>'' [UStr (Some name)])
       (uexit K 1)
     else
       ubind (grep_fd K pattern fd) (\<lambda>r.
       if r < 0 then
         uthen (ufprintf K 2 ''grep: read error\<newline>'' [])
         (uthen (uclose K fd)
         (uexit K 1))
       else
         uthen (uclose K fd)
         (grep_files K pattern rest)))"

definition grep_main :: "'w ucall \<Rightarrow> u8 list list \<Rightarrow> (unit, 'w) uprog" where
  "grep_main K argv =
     (if length argv \<le> 1 then
        uthen (ufprintf K 2 ''usage: grep pattern [file ...]\<newline>'' [])
        (uexit K 1)
      else
        let pattern = argv ! 1 in
        if length argv \<le> 2 then
          ubind (grep_fd K pattern 0) (\<lambda>r.
          if r < 0 then
            uthen (ufprintf K 2 ''grep: read error\<newline>'' [])
            (uexit K 1)
          else uexit K 0)
        else grep_files K pattern (drop 2 argv))"

subsection \<open>wc\<close>

partial_function (option) wc_read :: "'w ucall \<Rightarrow> int \<Rightarrow> wc_st \<Rightarrow> 'w \<Rightarrow> (wc_st option, 'w) uresult option" where
  "wc_read K fd s w =
     ubind (uread K fd 512) (\<lambda>(n, buf).
     if n < 0 then uret None
     else if n = 0 then uret (Some s)
     else wc_read K fd (fold wc_step buf s)) w"

definition wc_fd :: "'w ucall \<Rightarrow> int \<Rightarrow> u8 list \<Rightarrow> (int, 'w) uprog" where
  "wc_fd K fd name =
     ubind (wc_read K fd \<lparr>wc_lines = 0, wc_words = 0, wc_bytes = 0, inword = False\<rparr>) (\<lambda>so.
     case so of
       None \<Rightarrow> uret (-1)
     | Some s \<Rightarrow>
         uthen
           (if first_char name \<noteq> 0 then
              say K ''%lu %lu %lu %s\<newline>'' [UNum (wc_lines s), UNum (wc_words s), UNum (wc_bytes s), UStr (Some name)]
            else
              say K ''%lu %lu %lu\<newline>'' [UNum (wc_lines s), UNum (wc_words s), UNum (wc_bytes s)])
           (uret 0))"

fun wc_files :: "'w ucall \<Rightarrow> u8 list list \<Rightarrow> (unit, 'w) uprog" where
  "wc_files K [] = uexit K 0"
| "wc_files K (name # rest) =
     ubind (uopen K name 0) (\<lambda>fd.
     if fd < 0 then
       uthen (ufprintf K 2 ''wc: cannot open %s\<newline>'' [UStr (Some name)])
       (uexit K 1)
     else
       ubind (wc_fd K fd name) (\<lambda>r.
       if r < 0 then
         uthen (ufprintf K 2 ''wc: read error\<newline>'' [])
         (uthen (uclose K fd)
         (uexit K 1))
       else
         uthen (uclose K fd)
         (wc_files K rest)))"

definition wc_main :: "'w ucall \<Rightarrow> u8 list list \<Rightarrow> (unit, 'w) uprog" where
  "wc_main K argv =
     (if length argv \<le> 1 then
        ubind (wc_fd K 0 []) (\<lambda>r.
        if r < 0 then
          uthen (ufprintf K 2 ''wc: read error\<newline>'' [])
          (uexit K 1)
        else uexit K 0)
      else wc_files K (tl argv))"

subsection \<open>ls\<close>

text \<open>The path of an entry in the 128-byte buffer.\<close>

definition ls_full :: "u8 list \<Rightarrow> u8 list \<Rightarrow> u8 list" where
  "ls_full path name =
     (let plen = sint (strlen path);
          has_trailing_sep = 0 < plen \<and> path ! nat (plen - 1) = 47
      in take 127 (c_string path @ (if has_trailing_sep then [] else [47]) @ c_string name))"

definition ls_entry :: "'w ucall \<Rightarrow> u8 list \<Rightarrow> dirent \<Rightarrow> (unit, 'w) uprog" where
  "ls_entry K path de =
     (if de_inum de = 0 then uret ()
      else
        let full = ls_full path (take DIRSIZ (de_name de)) in
        ubind (uopen K full 0) (\<lambda>efd.
        if efd < 0 then uret ()
        else
          ubind (ufstat K efd) (\<lambda>(r, est).
          if r < 0 then uthen (uclose K efd) (uret ())
          else
            uthen (uclose K efd)
            (uputs K 1 (print_entry (fmtname full) (st_ino est) (st_size est))))))"

partial_function (option) ls_entries :: "'w ucall \<Rightarrow> u8 list \<Rightarrow> int \<Rightarrow> 'w \<Rightarrow> (unit, 'w) uresult option" where
  "ls_entries K path fd w =
     ubind (uread K fd DIRENT_SIZE) (\<lambda>(n, bs).
     if n \<noteq> int DIRENT_SIZE then uret ()
     else uthen (ls_entry K path (dirent_of bs)) (ls_entries K path fd)) w"

definition list_one :: "'w ucall \<Rightarrow> u8 list \<Rightarrow> (int, 'w) uprog" where
  "list_one K path =
     ubind (uopen K path 0) (\<lambda>fd.
     if fd < 0 then
       uthen (ufprintf K 2 ''ls: cannot open %s\<newline>'' [UStr (Some path)])
       (uret (-1))
     else
       ubind (ufstat K fd) (\<lambda>(r, st).
       if r < 0 then
         uthen (ufprintf K 2 ''ls: cannot stat %s\<newline>'' [UStr (Some path)])
         (uthen (uclose K fd)
         (uret (-1)))
       else if st_type st \<noteq> 1 then
         uthen (say K ''%s\<newline>'' [UStr (Some path)])
         (uthen (uclose K fd)
         (uret 0))
       else
         uthen (ls_entries K path fd)
         (uthen (uclose K fd)
         (uret 0))))"

definition ls_main :: "'w ucall \<Rightarrow> u8 list list \<Rightarrow> (unit, 'w) uprog" where
  "ls_main K argv =
     (if length argv \<le> 1 then
        ubind (list_one K (chars ''./'')) (\<lambda>r. if r < 0 then uexit K 1 else uexit K 0)
      else
        ubind (ufold (tl argv) (\<lambda>path ok. ubind (list_one K path) (\<lambda>r. uret (if r = 0 then True else ok))) False) (\<lambda>ok.
        uexit K (if ok then 0 else 1)))"

subsection \<open>find\<close>

definition find_prefix :: "u8 list \<Rightarrow> u8 list" where
  "find_prefix path =
     (let plen = sint (strlen path)
      in c_string path @ (if 0 < plen \<and> path ! nat (plen - 1) \<noteq> 47 then [47] else []))"

definition find_name :: "dirent \<Rightarrow> u8 list" where
  "find_name de = c_string (take DIRSIZ (de_name de))"

definition find_skip :: "dirent \<Rightarrow> bool" where
  "find_skip de \<longleftrightarrow> de_inum de = 0 \<or> strcmp (find_name de) (chars ''.'') = 0 \<or> strcmp (find_name de) (chars ''..'') = 0"

text \<open>What \<open>findrec\<close> does before its loop; the descriptor of a directory it is to search.\<close>

definition find_visit :: "'w ucall \<Rightarrow> u8 list \<Rightarrow> u8 list \<Rightarrow> (int option, 'w) uprog" where
  "find_visit K target path =
     ubind (uopen K path 0) (\<lambda>fd.
     if fd < 0 then uret None
     else
       ubind (ufstat K fd) (\<lambda>(r, st).
       if r < 0 then uthen (uclose K fd) (uret None)
       else if st_type st = 2 then
         uthen (if strcmp (basename1 (c_string path)) target = 0 then say K ''%s\<newline>'' [UStr (Some path)] else uret ())
         (uthen (uclose K fd)
         (uret None))
       else if st_type st \<noteq> 1 then uthen (uclose K fd) (uret None)
       else if 256 < sint (strlen path) + 1 + int DIRSIZ + 1 then uthen (uclose K fd) (uret None)
       else uret (Some fd)))"

text \<open>
  The search is at a path, or in the loop over the entries of an open directory whose path with its
  slash is \<open>at_prefix\<close>.
\<close>

datatype find_at = is_visit: Visit (at_path: "u8 list") | Entries (at_fd: int) (at_prefix: "u8 list")

partial_function (option) findrec :: "'w ucall \<Rightarrow> u8 list \<Rightarrow> find_at \<Rightarrow> 'w \<Rightarrow> (unit, 'w) uresult option" where
  "findrec K target here w =
     (if is_visit here then
        ubind (find_visit K target (at_path here)) (\<lambda>fdo.
        if fdo = None then uret () else findrec K target (Entries (the fdo) (find_prefix (at_path here))))
      else
        ubind (uread K (at_fd here) DIRENT_SIZE) (\<lambda>(n, bs).
        if n \<noteq> int DIRENT_SIZE then uthen (uclose K (at_fd here)) (uret ())
        else if find_skip (dirent_of bs) then findrec K target here
        else
          uthen (findrec K target (Visit (at_prefix here @ find_name (dirent_of bs))))
          (findrec K target here))) w"

definition find_main :: "'w ucall \<Rightarrow> u8 list list \<Rightarrow> (unit, 'w) uprog" where
  "find_main K argv =
     (if length argv \<noteq> 3 then
        uthen (ufprintf K 2 ''usage: find <path> <name>\<newline>'' [])
        (uexit K 1)
      else
        uthen (findrec K (argv ! 2) (Visit (argv ! 1)))
        (uexit K 0))"

subsection \<open>xargs\<close>

definition MAXARG :: int where "MAXARG = 32"

definition run_once :: "'w ucall \<Rightarrow> u8 list list \<Rightarrow> u8 list \<Rightarrow> (int, 'w) uprog" where
  "run_once K cmd_argv line =
     ubind (ufork K) (\<lambda>p.
     if p < 0 then uret (-1)
     else if p = 0 then
       uthen (uexec K (hd cmd_argv) (cmd_argv @ [line]))
       (uthen (ufprintf K 2 ''xargs: exec failed\<newline>'' [])
       (uexit K 1))
     else
       ubind (uwait K) (\<lambda>(r, status).
       if r < 0 then uret (-1) else uret 0))"

definition xargs_run :: "'w ucall \<Rightarrow> u8 list list \<Rightarrow> u8 list \<Rightarrow> (unit, 'w) uprog" where
  "xargs_run K cmd_argv line =
     (if line \<noteq> [] then
        ubind (run_once K cmd_argv line) (\<lambda>r.
        if r < 0 then
          uthen (ufprintf K 2 ''xargs: run failed\<newline>'' [])
          (uexit K 1)
        else uret ())
      else uret ())"

partial_function (option) xargs_read :: "'w ucall \<Rightarrow> u8 list list \<Rightarrow> u8 list \<Rightarrow> 'w \<Rightarrow> (u8 list, 'w) uresult option" where
  "xargs_read K cmd_argv line w =
     ubind (ureadc K 0) (\<lambda>(n, c).
     if n \<noteq> 1 then uret line
     else if c = 10 then
       uthen (xargs_run K cmd_argv line)
       (xargs_read K cmd_argv [])
     else xargs_read K cmd_argv (if length line + 1 < 512 then line @ [c] else line)) w"

definition xargs_main :: "'w ucall \<Rightarrow> u8 list list \<Rightarrow> (unit, 'w) uprog" where
  "xargs_main K argv =
     (if length argv < 2 then
        uthen (ufprintf K 2 ''usage: xargs command [args ...]\<newline>'' [])
        (uexit K 1)
      else
        let fixed_argc = int (length argv) - 1 in
        if MAXARG < fixed_argc + 2 then
          uthen (ufprintf K 2 ''xargs: too many args\<newline>'' [])
          (uexit K 1)
        else
          ubind (xargs_read K (tl argv) []) (\<lambda>line.
          uthen (xargs_run K (tl argv) line)
          (uexit K 0)))"

subsection \<open>The shell\<close>

fun sh_readline_from :: "'w ucall \<Rightarrow> nat \<Rightarrow> (u8 list option, 'w) uprog" where
  "sh_readline_from K 0 = uret (Some [])"
| "sh_readline_from K (Suc room) =
     ubind (ureadc K 0) (\<lambda>(n, c).
     if n \<le> 0 then uret None
     else
       let c = (if c = 13 then 10 else c) in
       if c = 10 then uret (Some [])
       else ubind (sh_readline_from K room) (\<lambda>r. uret (map_option ((#) c) r)))"

definition sh_readline :: "'w ucall \<Rightarrow> nat \<Rightarrow> (u8 list option, 'w) uprog" where
  "sh_readline K cap = sh_readline_from K (cap - 1)"

definition sh_cd :: "'w ucall \<Rightarrow> u8 list list \<Rightarrow> (unit, 'w) uprog" where
  "sh_cd K argv =
     (if 2 < length argv then say K ''[sh] usage: cd [dir]\<newline>'' []
      else
        ubind (uchdir K (if length argv = 2 then argv ! 1 else chars ''/'')) (\<lambda>r.
        if r < 0 then say K ''[sh] cd failed\<newline>'' [] else uret ()))"

definition sh_run :: "'w ucall \<Rightarrow> u8 list list \<Rightarrow> (unit, 'w) uprog" where
  "sh_run K argv =
     (case makepath (hd argv) (int MAXLINE) of
        None \<Rightarrow> say K ''[sh] command too long\<newline>'' []
      | Some path \<Rightarrow>
          ubind (ufork K) (\<lambda>p.
          if p < 0 then say K ''[sh] fork failed\<newline>'' []
          else if p = 0 then
            uthen (uexec K path (path # tl argv))
            (uthen (say K ''[sh] exec failed\<newline>'' [])
            (uexit K 127))
          else
            ubind (uwait K) (\<lambda>(r, status).
            if r < 0 then say K ''[sh] wait failed\<newline>'' [] else uret ())))"

definition sh_command :: "'w ucall \<Rightarrow> u8 list list \<Rightarrow> (unit, 'w) uprog" where
  "sh_command K argv =
     (let cmd = hd argv in
      if strcmp cmd (chars ''help'') = 0 then
        uthen (say K ''Run program by name with args, e.g. sleep 20, echo hi\<newline>'' [])
        (say K ''Builtins: cd [dir], exit\<newline>'' [])
      else if strcmp cmd (chars ''cd'') = 0 then sh_cd K argv
      else if strcmp cmd (chars ''exit'') = 0 then uexit K 0
      else sh_run K argv)"

definition sh_line :: "'w ucall \<Rightarrow> u8 list \<Rightarrow> (unit, 'w) uprog" where
  "sh_line K line =
     (case parseargs line MAXARGS of
        None \<Rightarrow> say K ''[sh] too many args\<newline>'' []
      | Some argv \<Rightarrow> if argv = [] then uret () else sh_command K argv)"

partial_function (option) sh_main :: "'w ucall \<Rightarrow> 'w \<Rightarrow> (unit, 'w) uresult option" where
  "sh_main K w =
     uthen (say K ''$ '' [])
     (ubind (sh_readline K MAXLINE) (\<lambda>lo.
      if lo = None then
        uthen (say K ''\<newline>[sh] input closed\<newline>'' [])
        (uexit K 0)
      else
        uthen (sh_line K (the lo))
        (sh_main K))) w"

subsection \<open>init\<close>

definition init_child :: "'w ucall \<Rightarrow> (unit, 'w) uprog" where
  "init_child K =
     uthen (uexec K (chars ''/sh'') [chars ''sh''])
     (uthen (say K ''[init] exec /sh failed\<newline>'' [])
     (uexit K 127))"

definition init_round :: "'w ucall \<Rightarrow> (unit, 'w) uprog" where
  "init_round K =
     ubind (ufork K) (\<lambda>p.
     if p < 0 then uthen (say K ''[init] fork /sh failed\<newline>'' []) (uyield K)
     else if p = 0 then init_child K
     else
       ubind (uwait K) (\<lambda>(r, status).
       if r < 0 then uthen (say K ''[init] wait failed\<newline>'' []) (uexit K 1) else uret ()))"

partial_function (option) init_main :: "'w ucall \<Rightarrow> 'w \<Rightarrow> (unit, 'w) uresult option" where
  "init_main K w = uthen (init_round K) (init_main K) w"

subsection \<open>The small programs\<close>

definition echo_main :: "'w ucall \<Rightarrow> u8 list list \<Rightarrow> (unit, 'w) uprog" where
  "echo_main K argv =
     uthen (ufor [1..<length argv] (\<lambda>i.
       uthen (if 1 < i then say K '' '' [] else uret ())
       (say K ''%s'' [UStr (Some (argv ! i))])))
     (uthen (say K ''\<newline>'' [])
     (uexit K 0))"

text \<open>\<open>parse_pid\<close> of \<open>kill\<close> and \<open>parse_uint\<close> of \<open>sleep\<close>: \<open>None\<close> when the string is not a number.\<close>

definition parse_number :: "u8 list option \<Rightarrow> int option" where
  "parse_number so =
     (case so of
        None \<Rightarrow> None
      | Some s \<Rightarrow>
          if first_char s = 0 then None
          else if \<exists>c \<in> set (c_string s). c < 48 \<or> 57 < c then None
          else Some (atoi s))"

definition kill_main :: "'w ucall \<Rightarrow> u8 list list \<Rightarrow> (unit, 'w) uprog" where
  "kill_main K argv =
     (if length argv < 2 then
        uthen (ufprintf K 2 ''usage: kill pid...\<newline>'' [])
        (uexit K 1)
      else
        ubind (ufold (tl argv) (\<lambda>a ok_all.
          case parse_number (Some a) of
            None \<Rightarrow> uthen (ufprintf K 2 ''kill: bad pid\<newline>'' []) (uret False)
          | Some p \<Rightarrow>
              ubind (ukill K p) (\<lambda>r.
              if r < 0 then uthen (ufprintf K 2 ''kill: failed\<newline>'' []) (uret False) else uret ok_all)) True) (\<lambda>ok_all.
        uexit K (if ok_all then 0 else 1)))"

definition sleep_ticks :: "'w ucall \<Rightarrow> int \<Rightarrow> (unit, 'w) uprog" where
  "sleep_ticks K t =
     uthen (say K ''[sleep] sleeping\<newline>'' [])
     (ubind (usleep K t) (\<lambda>r.
     if r < 0 then
       uthen (say K ''[sleep] syscall failed\<newline>'' [])
       (uexit K 1)
     else
       uthen (say K ''[sleep] done\<newline>'' [])
       (uexit K 0)))"

definition sleep_main :: "'w ucall \<Rightarrow> u8 list list \<Rightarrow> (unit, 'w) uprog" where
  "sleep_main K argv =
     (if 2 < length argv then
        uthen (say K ''usage: sleep [ticks]\<newline>'' [])
        (uexit K 1)
      else if length argv = 2 then
        (case parse_number (Some (argv ! 1)) of
           None \<Rightarrow>
             uthen (say K ''[sleep] invalid ticks\<newline>'' [])
             (uexit K 1)
         | Some t \<Rightarrow> sleep_ticks K t)
      else sleep_ticks K 100)"

definition ln_main :: "'w ucall \<Rightarrow> u8 list list \<Rightarrow> (unit, 'w) uprog" where
  "ln_main K argv =
     (if length argv \<noteq> 3 then
        uthen (ufprintf K 2 ''usage: ln old new\<newline>'' [])
        (uexit K 1)
      else
        ubind (ulink K (argv ! 1) (argv ! 2)) (\<lambda>r.
        if r < 0 then
          uthen (ufprintf K 2 ''ln: failed to link %s -> %s\<newline>'' [UStr (Some (argv ! 1)), UStr (Some (argv ! 2))])
          (uexit K 1)
        else uexit K 0))"

definition mkdir_main :: "'w ucall \<Rightarrow> u8 list list \<Rightarrow> (unit, 'w) uprog" where
  "mkdir_main K argv =
     (if length argv < 2 then
        uthen (ufprintf K 2 ''usage: mkdir files...\<newline>'' [])
        (uexit K 1)
      else
        ubind (ufold (tl argv) (\<lambda>a failed.
          ubind (umkdir K a) (\<lambda>r.
          if r < 0 then uthen (ufprintf K 2 ''mkdir: failed to create %s\<newline>'' [UStr (Some a)]) (uret True)
          else uret failed)) False) (\<lambda>failed.
        uexit K (if failed then 1 else 0)))"

definition rm_main :: "'w ucall \<Rightarrow> u8 list list \<Rightarrow> (unit, 'w) uprog" where
  "rm_main K argv =
     (if length argv < 2 then
        uthen (ufprintf K 2 ''usage: rm files...\<newline>'' [])
        (uexit K 1)
      else
        ubind (ufold (tl argv) (\<lambda>a failed.
          ubind (uunlink K a) (\<lambda>r.
          if r < 0 then uthen (ufprintf K 2 ''rm: failed to remove %s\<newline>'' [UStr (Some a)]) (uret True)
          else uret failed)) False) (\<lambda>failed.
        uexit K (if failed then 1 else 0)))"

definition touch_main :: "'w ucall \<Rightarrow> u8 list list \<Rightarrow> (unit, 'w) uprog" where
  "touch_main K argv =
     (if length argv < 2 then
        uthen (ufprintf K 2 ''usage: touch files...\<newline>'' [])
        (uexit K 1)
      else
        ubind (ufold (tl argv) (\<lambda>a failed.
          ubind (uopen K a 0x201) (\<lambda>fd.
          if fd < 0 then uthen (ufprintf K 2 ''touch: failed to open %s\<newline>'' [UStr (Some a)]) (uret True)
          else
            ubind (uclose K fd) (\<lambda>r.
            if r < 0 then uthen (ufprintf K 2 ''touch: failed to close %s\<newline>'' [UStr (Some a)]) (uret True)
            else uret failed))) False) (\<lambda>failed.
        uexit K (if failed then 1 else 0)))"

definition pid_main :: "'w ucall \<Rightarrow> (unit, 'w) uprog" where
  "pid_main K =
     ubind (ugetpid K) (\<lambda>p.
     if p < 0 then
       uthen (say K ''[pid] getpid failed\<newline>'' [])
       (uexit K 1)
     else
       uthen (say K ''[pid] %d\<newline>'' [UInt p])
       (uexit K 0))"

definition sid_main :: "'w ucall \<Rightarrow> (unit, 'w) uprog" where
  "sid_main K = uthen (say K ''My student ID is PB24111675\<newline>'' []) (uexit K 0)"

definition uptime_main :: "'w ucall \<Rightarrow> (unit, 'w) uprog" where
  "uptime_main K =
     ubind (uuptime K) (\<lambda>t.
     if t < 0 then
       uthen (say K ''[uptime] syscall failed\<newline>'' [])
       (uexit K 1)
     else
       uthen (say K ''[uptime] ticks=%d\<newline>'' [UInt t])
       (uexit K 0))"

definition quiet_main :: "'w ucall \<Rightarrow> (unit, 'w) uprog" where
  "quiet_main K = uexit K 0"

end
