(* ===== verification/UserStreams.thy ===== *)
theory UserStreams
  imports UserProgs
begin

section \<open>What the filters compute\<close>

text \<open>
  The filters \<open>cat\<close>, \<open>wc\<close> and \<open>grep\<close> against the contract of the system calls on byte streams: a
  read yields at least one byte and at most as many as asked for while there is input, and
  nothing at its end; a write to standard output takes all its bytes. How the input is cut into
  reads is the kernel's choice, and the results do not depend on it.
\<close>

definition stream_call :: "'w ucall \<Rightarrow> int \<Rightarrow> ('w \<Rightarrow> u8 list) \<Rightarrow> ('w \<Rightarrow> u8 list) \<Rightarrow> bool" where
  "stream_call K fd inp out \<longleftrightarrow>
     (\<forall>n w. 0 < n \<and> n \<le> 4096 \<longrightarrow>
        (\<exists>k w'. K 8 (long_of fd) (Out n) (long_of (int n)) w = Some (Cont (word_of_int (int k), take k (inp w)) w') \<and>
           k \<le> n \<and> k \<le> length (inp w) \<and> (k = 0 \<longleftrightarrow> inp w = []) \<and> inp w' = drop k (inp w) \<and> out w' = out w)) \<and>
     (\<forall>bs w. length bs \<le> 4096 \<longrightarrow>
        (\<exists>w'. K 1 (long_of 1) (In bs) (long_of (int (length bs))) w = Some (Cont (word_of_int (int (length bs)), []) w') \<and>
           inp w' = inp w \<and> out w' = out w @ bs))"

lemma int_of_small: "0 \<le> i \<Longrightarrow> i < 2147483648 \<Longrightarrow> int_of (word_of_int i) = i"
proof -
  assume i: "0 \<le> i" "i < 2147483648"
  have "(ucast (word_of_int i :: u64) :: u32) = word_of_int i"
    by (rule bit_word_eqI) (simp add: bit_simps)
  moreover have "signed_take_bit 31 i = i" using i by (simp add: signed_take_bit_int_eq_self)
  ultimately show ?thesis by (simp add: int_of_def sint_sbintrunc')
qed

lemma stream_read:
  assumes "stream_call K fd inp out" and "0 < n" and "n \<le> 4096"
  obtains k w' where "uread K fd n w = Some (Cont (int k, take k (inp w)) w')"
    "k \<le> n" "k \<le> length (inp w)" "k = 0 \<longleftrightarrow> inp w = []" "inp w' = drop k (inp w)" "out w' = out w"
proof -
  obtain k w' where k: "K 8 (long_of fd) (Out n) (long_of (int n)) w = Some (Cont (word_of_int (int k), take k (inp w)) w')"
    "k \<le> n" "k \<le> length (inp w)" "k = 0 \<longleftrightarrow> inp w = []" "inp w' = drop k (inp w)" "out w' = out w"
    using assms unfolding stream_call_def by blast
  then have "int_of (word_of_int (int k)) = int k" using assms(3) by (intro int_of_small) simp_all
  then have "uread K fd n w = Some (Cont (int k, take k (inp w)) w')"
    using k(1) by (simp add: uread_def usyscall_def urun_simps)
  with k show thesis using that by blast
qed

lemma stream_write:
  assumes "stream_call K fd inp out" and "length bs \<le> 4096"
  obtains w' where "uwrite K 1 bs (int (length bs)) w = Some (Cont (int (length bs)) w')" "inp w' = inp w" "out w' = out w @ bs"
proof -
  obtain w' where w': "K 1 (long_of 1) (In bs) (long_of (int (length bs))) w = Some (Cont (word_of_int (int (length bs)), []) w')"
    "inp w' = inp w" "out w' = out w @ bs"
    using assms unfolding stream_call_def by blast
  have "int_of (word_of_int (int (length bs))) = int (length bs)" using assms(2) by (intro int_of_small) simp_all
  then have "uwrite K 1 bs (int (length bs)) w = Some (Cont (int (length bs)) w')"
    using w'(1) by (simp add: uwrite_def int_call_def usyscall_def urun_simps)
  with w' show thesis using that by blast
qed

lemma stream_puts:
  assumes "stream_call K fd inp out"
  obtains w' where "uputs K 1 bs w = Some (Cont () w')" "inp w' = inp w" "out w' = out w @ bs"
proof -
  have "\<exists>w'. uputs K 1 bs w = Some (Cont () w') \<and> inp w' = inp w \<and> out w' = out w @ bs"
  proof (induction bs arbitrary: w)
    case Nil
    then show ?case by (simp add: uputs_def urun_simps)
  next
    case (Cons c bs)
    obtain u where u: "uwrite K 1 [c] 1 w = Some (Cont 1 u)" "inp u = inp w" "out u = out w @ [c]"
      using stream_write [OF assms, of "[c]" w] by auto
    with Cons.IH [of u] show ?case by (auto simp: uputs_def uputc_def urun_simps)
  qed
  then show thesis using that by blast
qed

subsection \<open>cat\<close>

lemma catfd_spec:
  assumes "stream_call K fd inp out"
  shows "\<exists>w'. catfd K fd w = Some (Cont 0 w') \<and> inp w' = [] \<and> out w' = out w @ inp w"
proof (induction "length (inp w)" arbitrary: w rule: less_induct)
  case less
  obtain k u where k: "uread K fd 512 w = Some (Cont (int k, take k (inp w)) u)"
    "k \<le> 512" "k \<le> length (inp w)" "k = 0 \<longleftrightarrow> inp w = []" "inp u = drop k (inp w)" "out u = out w"
    by (rule stream_read [OF assms, of 512 w]) simp_all
  show ?case
  proof (cases "k = 0")
    case True
    then show ?thesis using k by (simp add: catfd.simps [of K fd w] urun_simps)
  next
    case False
    have l: "length (take k (inp w)) = k" using k(3) by simp
    obtain v where v: "uwrite K 1 (take k (inp w)) (int k) u = Some (Cont (int k) v)" "inp v = inp u"
      "out v = out w @ take k (inp w)"
      using stream_write [OF assms, of "take k (inp w)" u] k(2,6) unfolding l by auto
    have "length (inp v) < length (inp w)" using False k(3,4,5) v(2) by simp
    from less [OF this] obtain w' where "catfd K fd v = Some (Cont 0 w')" "inp w' = []" "out w' = out v @ inp v" by blast
    moreover have "out v @ inp v = out w @ inp w" using v(2,3) k(5) by simp
    ultimately show ?thesis using False k(1) v(1) by (simp add: catfd.simps [of K fd w] urun_simps)
  qed
qed

subsection \<open>wc\<close>

lemma wc_read_spec:
  assumes "stream_call K fd inp out"
  shows "\<exists>w'. wc_read K fd s w = Some (Cont (Some (fold wc_step (inp w) s)) w') \<and> inp w' = [] \<and> out w' = out w"
proof (induction "length (inp w)" arbitrary: w s rule: less_induct)
  case less
  obtain k u where k: "uread K fd 512 w = Some (Cont (int k, take k (inp w)) u)"
    "k \<le> 512" "k \<le> length (inp w)" "k = 0 \<longleftrightarrow> inp w = []" "inp u = drop k (inp w)" "out u = out w"
    by (rule stream_read [OF assms, of 512 w]) simp_all
  show ?case
  proof (cases "k = 0")
    case True
    then show ?thesis using k by (simp add: wc_read.simps [of K fd s w] urun_simps)
  next
    case False
    let ?s = "fold wc_step (take k (inp w)) s"
    have "length (inp u) < length (inp w)" using False k(3,4,5) by simp
    from less [OF this, of ?s] obtain w' where "wc_read K fd ?s u = Some (Cont (Some (fold wc_step (inp u) ?s)) w')"
      "inp w' = []" "out w' = out u" by blast
    moreover have "fold wc_step (inp u) ?s = fold wc_step (inp w) s"
      unfolding k(5) by (metis append_take_drop_id fold_append comp_apply)
    ultimately show ?thesis using False k by (simp add: wc_read.simps [of K fd s w] urun_simps)
  qed
qed

lemma wc_line:
  "uprintf (chars ''%lu %lu %lu\<newline>'') [UNum a, UNum b, UNum c] =
     Some (uprintint a 10 False @ [32] @ uprintint b 10 False @ [32] @ uprintint c 10 False @ [10])"
  "uprintf (chars ''%lu %lu %lu %s\<newline>'') [UNum a, UNum b, UNum c, UStr (Some name)] =
     Some (uprintint a 10 False @ [32] @ uprintint b 10 False @ [32] @ uprintint c 10 False @ [32] @ c_string name @ [10])"
  by (simp_all add: uprintf_def chars_def vprintf.simps uconversion_def c_string_def)

text \<open>
  C39. \<open>wc\<close> reads its whole input, however it is cut into reads, and prints the number of newlines,
  of words, and of bytes of it, each in decimal modulo 2 to the 64, and the file's name if there is one.
\<close>

theorem wc_prints_counts:
  assumes "stream_call K fd inp out"
  shows "\<exists>w'. wc_fd K fd name w = Some (Cont 0 w') \<and> inp w' = [] \<and>
     out w' = out w @ uprintint (of_nat (count_list (inp w) 10)) 10 False @ [32] @
       uprintint (of_nat (length (blank_words wc_isspace (inp w)))) 10 False @ [32] @
       uprintint (of_nat (length (inp w))) 10 False @ (if first_char name = 0 then [] else 32 # c_string name) @ [10]"
proof -
  let ?z = "\<lparr>wc_lines = 0, wc_words = 0, wc_bytes = 0, inword = False\<rparr>"
  let ?s = "fold wc_step (inp w) ?z"
  obtain u where u: "wc_read K fd ?z w = Some (Cont (Some ?s) u)" "inp u = []" "out u = out w"
    using wc_read_spec [OF assms] by blast
  have s: "wc_lines ?s = of_nat (count_list (inp w) 10)" "wc_words ?s = of_nat (length (blank_words wc_isspace (inp w)))"
    "wc_bytes ?s = of_nat (length (inp w))"
    using wc_fold [of "inp w" ?z] by simp_all
  let ?t = "uprintint (of_nat (count_list (inp w) 10)) 10 False @ [32] @
       uprintint (of_nat (length (blank_words wc_isspace (inp w)))) 10 False @ [32] @
       uprintint (of_nat (length (inp w))) 10 False @ (if first_char name = 0 then [] else 32 # c_string name) @ [10]"
  obtain v where v: "uputs K 1 ?t u = Some (Cont () v)" "inp v = inp u" "out v = out u @ ?t"
    by (rule stream_puts [OF assms, of ?t u])
  show ?thesis
    by (cases "first_char name = 0") (use u v s in \<open>simp_all add: wc_fd_def urun_simps say_def wc_line\<close>)
qed

subsection \<open>grep\<close>

text \<open>The lines of a text; the last one, after the last newline, is empty when the text ends with a newline.\<close>

definition is_newline :: "u8 \<Rightarrow> bool" where
  "is_newline c \<longleftrightarrow> c = 10"

abbreviation lines_of :: "u8 list \<Rightarrow> u8 list list" where
  "lines_of \<equiv> splits is_newline"

definition grep_out :: "u8 list \<Rightarrow> u8 list list \<Rightarrow> u8 list" where
  "grep_out pattern ls = concat (map (\<lambda>l. l @ [10]) (filter (match pattern) ls))"

lemma lines_line: "10 \<notin> set l \<Longrightarrow> lines_of (l @ 10 # t) = l # lines_of t"
  by (induction l) (auto simp: is_newline_def)

lemma lines_none: "10 \<notin> set l \<Longrightarrow> lines_of l = [l]"
  by (induction l) (auto simp: is_newline_def)

lemma lines_append: "lines_of (s @ t) = butlast (lines_of s) @ (last (lines_of s) @ hd (lines_of t)) # tl (lines_of t)"
proof (induction s)
  case (Cons c s)
  obtain x xs where x: "lines_of s = x # xs" by (cases "lines_of s") auto
  with Cons show ?case by (cases xs) auto
qed simp

lemma newline_at_lines:
  assumes "0 \<notin> set p"
  shows "newline_at p = (if 10 \<in> set p then Some (length (hd (lines_of p))) else None)"
    and "10 \<in> set p \<Longrightarrow> p = hd (lines_of p) @ 10 # drop (length (hd (lines_of p)) + 1) p"
    and "10 \<in> set p \<Longrightarrow> lines_of p = hd (lines_of p) # lines_of (drop (length (hd (lines_of p)) + 1) p)"
proof -
  have "newline_at p = (if 10 \<in> set p then Some (length (hd (lines_of p))) else None) \<and>
    (10 \<in> set p \<longrightarrow> p = hd (lines_of p) @ 10 # drop (length (hd (lines_of p)) + 1) p)"
    using assms
  proof (induction p)
    case Nil
    then show ?case by (simp add: newline_at_def strchr.simps)
  next
    case (Cons c p)
    show ?case
    proof (cases "c = 10")
      case True
      then show ?thesis by (simp add: newline_at_def strchr.simps is_newline_def)
    next
      case False
      have "newline_at (c # p) = map_option Suc (newline_at p)"
      proof (cases "strchr p 10")
        case None
        then show ?thesis using False Cons.prems by (simp add: newline_at_def strchr.simps [of "c # p"])
      next
        case (Some q)
        have "length q \<le> length p" using strchr_suffix [OF Some] by simp
        then show ?thesis using False Cons.prems Some by (simp add: newline_at_def strchr.simps [of "c # p"] Suc_diff_le)
      qed
      then show ?thesis using Cons False by (auto simp: is_newline_def)
    qed
  qed
  then show 1: "newline_at p = (if 10 \<in> set p then Some (length (hd (lines_of p))) else None)"
    and 2: "10 \<in> set p \<Longrightarrow> p = hd (lines_of p) @ 10 # drop (length (hd (lines_of p)) + 1) p" by simp_all
  have "10 \<notin> set (hd (lines_of s))" for s by (induction s) (auto simp: is_newline_def)
  then show "10 \<in> set p \<Longrightarrow> lines_of p = hd (lines_of p) # lines_of (drop (length (hd (lines_of p)) + 1) p)"
    using 2 lines_line by metis
qed

lemma lines_no_newline: "l \<in> set (lines_of s) \<Longrightarrow> 10 \<notin> set l"
proof (induction s arbitrary: l)
  case (Cons c s)
  then show ?case by (cases "lines_of s") (auto simp: is_newline_def [of c] split: if_splits)
qed simp

lemma lines_subset: "l \<in> set (lines_of s) \<Longrightarrow> set l \<subseteq> set s"
proof (induction s arbitrary: l)
  case (Cons c s)
  then show ?case by (cases "lines_of s") (fastforce split: if_splits)+
qed simp

lemma lines_joined: "lines_of (s @ t) = butlast (lines_of s) @ lines_of (last (lines_of s) @ t)"
proof -
  have "10 \<notin> set (last (lines_of s))" by (rule lines_no_newline [of _ s]) simp
  then have "lines_of (last (lines_of s) @ t) = (last (lines_of s) @ hd (lines_of t)) # tl (lines_of t)"
    using lines_append [of "last (lines_of s)" t] lines_none by simp
  then show ?thesis by (simp add: lines_append)
qed

lemma grep_scan_spec:
  assumes "stream_call K fd inp out"
  shows "0 \<notin> set p \<Longrightarrow> length p \<le> 4096 \<Longrightarrow> \<exists>w'. grep_scan K pattern p w = Some (Cont (last (lines_of p)) w') \<and>
     inp w' = inp w \<and> out w' = out w @ grep_out pattern (butlast (lines_of p))"
proof (induction "length p" arbitrary: p w rule: less_induct)
  case less
  note N = newline_at_lines [OF less(2)]
  show ?case
  proof (cases "10 \<in> set p")
    case False
    then show ?thesis
      using N(1) lines_none [OF False] by (simp add: grep_scan.simps [of K pattern p] urun_simps grep_out_def)
  next
    case True
    define l where "l = hd (lines_of p)"
    define t where "t = drop (length l + 1) p"
    have p: "p = l @ 10 # t" "lines_of p = l # lines_of t" "newline_at p = Some (length l)"
      using N True by (simp_all add: l_def t_def)
    have tk: "take (length l) p = l" "take (length l + 1) p = l @ [10]" "drop (length l + 1) p = t"
      by (simp_all add: p(1))
    obtain u where u: "inp u = inp w" "out u = out w @ (if match pattern l then l @ [10] else [])"
      "(if match pattern l then uthen (uwrite K 1 (l @ [10]) (int (length l + 1))) (uret ()) else uret ()) w = Some (Cont () u)"
    proof (cases "match pattern l")
      case True
      obtain u where "uwrite K 1 (l @ [10]) (int (length l + 1)) w = Some (Cont (int (length l + 1)) u)"
        "inp u = inp w" "out u = out w @ l @ [10]"
        using stream_write [OF assms, of "l @ [10]" w] less(3) p(1) by auto
      with True show thesis by (intro that [of u]) (simp_all add: urun_simps)
    qed (use that [of w] in \<open>simp add: urun_simps\<close>)
    have "0 \<notin> set t" "length t \<le> 4096" "length t < length p" using less(2,3) p(1) by (auto dest: arg_cong [where f = length])
    then obtain v where "grep_scan K pattern t u = Some (Cont (last (lines_of t)) v)" "inp v = inp u"
      "out v = out u @ grep_out pattern (butlast (lines_of t))"
      using less(1) [of t u] by blast
    moreover have "grep_scan K pattern p w = grep_scan K pattern t u"
      unfolding grep_scan.simps [of K pattern p] p(3) option.case tk urun_simps(3) [of "if _ then _ else _"] u(3) by simp
    ultimately show ?thesis using u(1,2) by (simp add: p(2) grep_out_def)
  qed
qed

text \<open>The lines \<open>grep\<close> looks at: all of them, where nothing after the last newline is no line.\<close>

definition text_lines :: "u8 list \<Rightarrow> u8 list list" where
  "text_lines s = butlast (lines_of s) @ (if last (lines_of s) = [] then [] else [last (lines_of s)])"

lemma grep_read_spec:
  assumes "stream_call K fd inp out"
  shows "\<forall>l \<in> set (lines_of (buf @ inp w)). length l < 1023 \<Longrightarrow> 10 \<notin> set buf \<Longrightarrow> 0 \<notin> set (buf @ inp w) \<Longrightarrow>
     \<exists>w'. grep_read K pattern fd buf w = Some (Cont 0 w') \<and> inp w' = [] \<and>
       out w' = out w @ grep_out pattern (text_lines (buf @ inp w))"
proof (induction "length (inp w)" arbitrary: w buf rule: less_induct)
  case less
  have "length (buf @ hd (lines_of (inp w))) < 1023"
    using less(2) lines_append [of buf "inp w"] lines_none [OF less(3)] by simp
  then have lb: "length buf < 1023" by simp
  obtain k u where k: "uread K fd (GREP_BUF - length buf - 1) w = Some (Cont (int k, take k (inp w)) u)"
    "k \<le> GREP_BUF - length buf - 1" "k \<le> length (inp w)" "k = 0 \<longleftrightarrow> inp w = []" "inp u = drop k (inp w)" "out u = out w"
    by (rule stream_read [OF assms, of "GREP_BUF - length buf - 1" w]) (use lb in \<open>simp_all add: GREP_BUF_def\<close>)
  show ?case
  proof (cases "k = 0")
    case True
    then have iw: "inp w = []" "inp u = []" using k by simp_all
    have tl: "text_lines buf = (if buf = [] then [] else [buf])" by (simp add: text_lines_def lines_none [OF less(3)])
    show ?thesis
    proof (cases "buf \<noteq> [] \<and> match pattern buf")
      case False
      then show ?thesis using True k iw tl by (auto simp: grep_read.simps [of K pattern fd buf w] urun_simps grep_out_def)
    next
      case m: True
      obtain v where v: "uwrite K 1 buf (int (length buf)) u = Some (Cont (int (length buf)) v)" "inp v = inp u" "out v = out u @ buf"
        using stream_write [OF assms, of buf u] lb by auto
      obtain x where "uwrite K 1 [10] 1 v = Some (Cont 1 x)" "inp x = inp v" "out x = out v @ [10]"
        using stream_write [OF assms, of "[10]" v] by auto
      moreover have "last buf \<noteq> 10" using m less(3) by (metis last_in_set)
      ultimately show ?thesis using True k iw tl m v by (simp add: grep_read.simps [of K pattern fd buf w] urun_simps grep_out_def)
    qed
  next
    case False
    let ?p = "buf @ take k (inp w)"
    let ?r = "last (lines_of ?p)"
    have "set (take k (inp w)) \<subseteq> set (inp w)" by (rule set_take_subset)
    then have "0 \<notin> set ?p" "length ?p \<le> 4096" using less(4) k(2) lb by (auto simp: GREP_BUF_def)
    from grep_scan_spec [OF assms this] obtain v where v: "grep_scan K pattern ?p u = Some (Cont ?r v)" "inp v = inp u"
      "out v = out w @ grep_out pattern (butlast (lines_of ?p))" using k(6) by metis
    have whole: "buf @ inp w = ?p @ inp v" using k(5) v(2) by simp
    have J: "lines_of (buf @ inp w) = butlast (lines_of ?p) @ lines_of (?r @ inp v)" unfolding whole by (rule lines_joined)
    have r: "10 \<notin> set ?r" "0 \<notin> set ?r"
      using lines_no_newline [of ?r ?p] lines_subset [of ?r ?p] \<open>0 \<notin> set ?p\<close> by auto
    have "length (inp v) < length (inp w)" using False k(3,5) v(2) k(4) by simp
    moreover have "\<forall>l \<in> set (lines_of (?r @ inp v)). length l < 1023" using less(2) unfolding J by auto
    moreover have "0 \<notin> set (?r @ inp v)" using r(2) less(4) k(5) v(2) by (auto dest: in_set_dropD)
    ultimately obtain w' where "grep_read K pattern fd ?r v = Some (Cont 0 w')" "inp w' = []"
      "out w' = out v @ grep_out pattern (text_lines (?r @ inp v))"
      using less(1) [OF _ _ r(1)] by blast
    moreover have "text_lines (buf @ inp w) = butlast (lines_of ?p) @ text_lines (?r @ inp v)"
      unfolding text_lines_def J by (simp add: butlast_append)
    ultimately show ?thesis using False k(1) v(1,3) by (simp add: grep_read.simps [of K pattern fd buf w] urun_simps grep_out_def)
  qed
qed


subsection \<open>An example\<close>

text \<open>An outside world that delivers at most two bytes per read.\<close>

definition demo_call :: "(u8 list \<times> u8 list) ucall" where
  "demo_call num a0 a1 a2 = (\<lambda>(i, out).
     if num = 1 then
       (case a1 of In bs \<Rightarrow> Some (Cont (word_of_int (int (length bs)), []) (i, out @ bs)) | _ \<Rightarrow> None)
     else if num = 8 then
       (case a1 of
          Out n \<Rightarrow>
            let k = min 2 (min n (length i)) in Some (Cont (word_of_int (int k), take k i) (drop k i, out))
        | _ \<Rightarrow> None)
     else None)"

lemma demo_stream: "stream_call demo_call 0 fst snd"
proof -
  have "\<exists>k w'. demo_call 8 (long_of 0) (Out n) (long_of (int n)) w = Some (Cont (word_of_int (int k), take k (fst w)) w') \<and>
      k \<le> n \<and> k \<le> length (fst w) \<and> (k = 0 \<longleftrightarrow> fst w = []) \<and> fst w' = drop k (fst w) \<and> snd w' = snd w"
    if "0 < n" for n w
    by (rule exI [of _ "min 2 (min n (length (fst w)))"], rule exI [of _ "(drop (min 2 (min n (length (fst w)))) (fst w), snd w)"])
      (use that in \<open>auto simp: demo_call_def Let_def min_def split: prod.split if_splits\<close>)
  moreover have "\<exists>w'. demo_call 1 (long_of 1) (In bs) (long_of (int (length bs))) w =
      Some (Cont (word_of_int (int (length bs)), []) w') \<and> fst w' = fst w \<and> snd w' = snd w @ bs" for bs w
    by (cases w) (simp add: demo_call_def)
  ultimately show ?thesis by (simp add: stream_call_def)
qed

lemma wc_prints_counts_witness:
  "\<exists>w'. wc_fd demo_call 0 [] ([97, 32, 98, 98, 10], []) = Some (Cont 0 w') \<and> fst w' = [] \<and>
     snd w' = chars ''1 2 5\<newline>''"
proof -
  have b: "length (blank_words wc_isspace [97, 32, 98, 98, 10]) = 2" "count_list [97, 32, 98, 98, 10 :: u8] 10 = 1"
    by (simp_all add: blank_words_def wc_isspace_def)
  have d: "uprintint 1 10 False = [49]" "uprintint 2 10 False = [50]" "uprintint 5 10 False = [53]"
    by (simp_all add: uprintint_def uint_digits.simps)
  show ?thesis
    using wc_prints_counts [OF demo_stream, of "[]" "([97, 32, 98, 98, 10], [])"] b by (simp add: d chars_def)
qed


end
