(* ===== verification/UserTests.thy ===== *)
theory UserTests
  imports UserProgs
begin

section \<open>The test programs of \<^verbatim>\<open>user/\<close>\<close>

text \<open>
  The programs that exercise the kernel: processes, scheduling, pipes, files, memory growth. Each is
  the sequence of system calls its source makes, with the exit code of every failure.
\<close>

definition say_exit :: "'w ucall \<Rightarrow> string \<Rightarrow> int \<Rightarrow> ('a, 'w) uprog" where
  "say_exit K msg code = uthen (say K msg []) (uexit K code)"

definition complain :: "'w ucall \<Rightarrow> string \<Rightarrow> int \<Rightarrow> ('a, 'w) uprog" where
  "complain K msg code = uthen (ufprintf K 2 msg []) (uexit K code)"

subsection \<open>Memory and processes\<close>

definition hello_main :: "'w ucall \<Rightarrow> (unit, 'w) uprog" where
  "hello_main K =
     uthen (say K ''%s'' [UStr (Some (chars ''[user] hello from U-mode!\<newline>''))])
     (ubind (usbrk K 4096) (\<lambda>p.
     if p = -1 then
       uthen (say K ''%s'' [UStr (Some (chars ''[user] sbrk failed\<newline>''))])
       (uexit K 1)
     else
       uthen (say K ''%s'' [UStr (Some (chars ''[user] sbrk ok\<newline>''))])
       (uexit K 0)))"

definition zombie_main :: "'w ucall \<Rightarrow> (unit, 'w) uprog" where
  "zombie_main K =
     uthen (say K ''[zombie] start\<newline>'' [])
     (ubind (ufork K) (\<lambda>p.
     if p < 0 then say_exit K ''[zombie] fork failed\<newline>'' 1
     else if p = 0 then say_exit K ''[zombie] child exit now\<newline>'' 0
     else
       uthen (ufor [0..<64] (\<lambda>_. uyield K))
       (say_exit K ''[zombie] parent exits without wait\<newline>'' 0)))"

partial_function (option) yield_forever :: "'w ucall \<Rightarrow> 'w \<Rightarrow> (unit, 'w) uresult option" where
  "yield_forever K w = uthen (uyield K) (yield_forever K) w"

definition killer_main :: "'w ucall \<Rightarrow> (unit, 'w) uprog" where
  "killer_main K =
     uthen (say K ''[killer] start\<newline>'' [])
     (ubind (ufork K) (\<lambda>p.
     if p < 0 then say_exit K ''[killer] fork failed\<newline>'' 1
     else if p = 0 then yield_forever K
     else
       ubind (usleep K 30) (\<lambda>r.
       if r < 0 then say_exit K ''[killer] parent sleep failed\<newline>'' 2
       else
         ubind (ukill K p) (\<lambda>r.
         if r < 0 then say_exit K ''[killer] kill failed\<newline>'' 3
         else
           ubind (uwait K) (\<lambda>(r, status).
           if r < 0 then say_exit K ''[killer] wait failed\<newline>'' 4
           else
             uthen (say K ''[killer] child status=%d\<newline>'' [UInt status])
             (say_exit K ''[killer] done\<newline>'' 0))))))"

text \<open>\<open>forktest\<close>: how many children were forked before the first failure.\<close>

fun forktest_forks :: "'w ucall \<Rightarrow> nat \<Rightarrow> int \<Rightarrow> (int, 'w) uprog" where
  "forktest_forks K 0 n = uret n"
| "forktest_forks K (Suc k) n =
     ubind (ufork K) (\<lambda>p.
     if p < 0 then uret n
     else if p = 0 then uexit K 0
     else forktest_forks K k (n + 1))"

definition forktest_main :: "'w ucall \<Rightarrow> (unit, 'w) uprog" where
  "forktest_main K =
     uthen (say K ''[forktest] start\<newline>'' [])
     (ubind (forktest_forks K 32 0) (\<lambda>n.
     if n = 0 then say_exit K ''[forktest] fork failed immediately\<newline>'' 1
     else
       uthen (ufor [0..<nat n] (\<lambda>_.
         ubind (uwait K) (\<lambda>(r, status). if r < 0 then say_exit K ''[forktest] wait failed\<newline>'' 2 else uret ())))
       (ubind (uwait K) (\<lambda>(r, status).
       if 0 \<le> r then say_exit K ''[forktest] unexpected extra child\<newline>'' 3
       else
         uthen (say K ''[forktest] reaped children=%d\<newline>'' [UInt n])
         (say_exit K ''[forktest] ok\<newline>'' 0)))))"

definition hello_id_main :: "'w ucall \<Rightarrow> (unit, 'w) uprog" where
  "hello_id_main K =
     ubind (uhello_id K 1675) (\<lambda>r.
     uthen (say K ''hello_id(%d) returned %d\<newline>'' [UInt 1675, UInt r])
     (uexit K 0))"

text \<open>
  \<open>logtest\<close>: the child makes one call with a number no handler has, with whatever is in the argument
  registers at that point.
\<close>

definition logtest_main :: "'w ucall \<Rightarrow> carg \<Rightarrow> carg \<Rightarrow> carg \<Rightarrow> (unit, 'w) uprog" where
  "logtest_main K a0 a1 a2 =
     uthen (uwrite K 1 (chars ''--- Log Trigger Test Starting ---\<newline>'') 34)
     (ubind (ufork K) (\<lambda>p.
     if p < 0 then uthen (uwrite K 1 (chars ''fork failed\<newline>'') 12) (uexit K 1)
     else if p = 0 then
       uthen (usbrk K (4096 * 2))
       (uthen (usyscall K 999 a0 a1 a2)
       (uexit K 0))
     else
       uthen (uwait_null K)
       (uthen (uwrite K 1 (chars ''--- Log Trigger Test Finished ---\<newline>'') 34)
       (uexit K 0))))"

subsection \<open>Pipes\<close>

definition pingpong_child :: "'w ucall \<Rightarrow> int \<Rightarrow> int \<Rightarrow> int \<Rightarrow> int \<Rightarrow> (unit, 'w) uprog" where
  "pingpong_child K p2c0 p2c1 c2p0 c2p1 =
     uthen (uclose K p2c1)
     (uthen (uclose K c2p0)
     (ubind (ureadc K p2c0) (\<lambda>(n, ch).
     if n \<noteq> 1 then say_exit K ''[pingpong] child read failed\<newline>'' 3
     else
       uthen (say K ''[pingpong] child got ping\<newline>'' [])
       (ubind (uwrite K c2p1 (chars ''x'') 1) (\<lambda>n.
       if n \<noteq> 1 then say_exit K ''[pingpong] child write failed\<newline>'' 4
       else
         uthen (uclose K p2c0)
         (uthen (uclose K c2p1)
         (uexit K 0)))))))"

definition pingpong_parent :: "'w ucall \<Rightarrow> int \<Rightarrow> int \<Rightarrow> int \<Rightarrow> int \<Rightarrow> (unit, 'w) uprog" where
  "pingpong_parent K p2c0 p2c1 c2p0 c2p1 =
     uthen (uclose K p2c0)
     (uthen (uclose K c2p1)
     (ubind (uwrite K p2c1 (chars ''y'') 1) (\<lambda>n.
     if n \<noteq> 1 then say_exit K ''[pingpong] parent write failed\<newline>'' 5
     else
       ubind (ureadc K c2p0) (\<lambda>(n, ch).
       if n \<noteq> 1 then say_exit K ''[pingpong] parent read failed\<newline>'' 6
       else
         uthen (say K ''[pingpong] parent got pong\<newline>'' [])
         (uthen (uclose K p2c1)
         (uthen (uclose K c2p0)
         (uthen (uwait K)
         (uexit K 0))))))))"

definition pingpong_main :: "'w ucall \<Rightarrow> (unit, 'w) uprog" where
  "pingpong_main K =
     ubind (upipe K) (\<lambda>(r, p2c0, p2c1).
     if r < 0 then say_exit K ''[pingpong] pipe failed\<newline>'' 1
     else
       ubind (upipe K) (\<lambda>(r, c2p0, c2p1).
       if r < 0 then say_exit K ''[pingpong] pipe failed\<newline>'' 1
       else
         ubind (ufork K) (\<lambda>p.
         if p < 0 then say_exit K ''[pingpong] fork failed\<newline>'' 2
         else if p = 0 then pingpong_child K p2c0 p2c1 c2p0 c2p1
         else pingpong_parent K p2c0 p2c1 c2p0 c2p1)))"

subsection \<open>Scheduling\<close>

definition stsched_worker :: "'w ucall \<Rightarrow> (unit, 'w) uprog" where
  "stsched_worker K =
     uthen (ufor [0..<3000] (\<lambda>i.
       uthen (uyield K)
       (uthen
         (if i mod 256 = 0 then
            ubind (udup K 1) (\<lambda>fd. if 0 \<le> fd then uthen (uclose K fd) (uret ()) else uret ())
          else uret ())
         (if i mod 512 = 0 then
            ubind (usbrk K 4096) (\<lambda>p.
            if p = -1 then uexit K 2
            else
              ubind (usbrk K (-4096)) (\<lambda>q. if q = -1 then uexit K 3 else uret ()))
          else uret ()))))
     (uexit K 0)"

text \<open>Waiting for all the workers; whether one of them failed.\<close>

definition reap_workers :: "'w ucall \<Rightarrow> nat \<Rightarrow> string \<Rightarrow> int \<Rightarrow> (bool, 'w) uprog" where
  "reap_workers K n msg code =
     ufold [0..<n] (\<lambda>_ failed.
       ubind (uwait K) (\<lambda>(r, status).
       if r < 0 then say_exit K msg code else uret (failed \<or> status \<noteq> 0))) False"

definition stsched_main :: "'w ucall \<Rightarrow> (unit, 'w) uprog" where
  "stsched_main K =
     uthen (say K ''[stresssched] start\<newline>'' [])
     (uthen (ufor [0..<4] (\<lambda>_.
       ubind (ufork K) (\<lambda>p.
       if p < 0 then say_exit K ''[stresssched] fork failed\<newline>'' 1
       else if p = 0 then stsched_worker K
       else uret ())))
     (ubind (reap_workers K 4 ''[stresssched] wait failed\<newline>'' 4) (\<lambda>failed.
     if failed then say_exit K ''[stresssched] worker failed\<newline>'' 5
     else say_exit K ''[stresssched] done\<newline>'' 0)))"

definition stressio_round :: "'w ucall \<Rightarrow> nat \<Rightarrow> (unit, 'w) uprog" where
  "stressio_round K r =
     uthen (ufor [0..<6] (\<lambda>_.
       ubind (ufork K) (\<lambda>p.
       if p < 0 then say_exit K ''[stressio] fork failed\<newline>'' 1
       else if p = 0 then
         uthen (uexec K (chars ''/quiet'') [chars ''quiet''])
         (say_exit K ''[stressio] exec failed\<newline>'' 2)
       else uret ())))
     (uthen (ufor [0..<6] (\<lambda>_.
       ubind (uwait K) (\<lambda>(r, status). if r < 0 then say_exit K ''[stressio] wait failed\<newline>'' 3 else uret ())))
     (uthen (if r mod 4 = 3 then say K ''[stressio] progress\<newline>'' [] else uret ())
     (uyield K)))"

definition stressio_main :: "'w ucall \<Rightarrow> (unit, 'w) uprog" where
  "stressio_main K =
     uthen (say K ''[stressio] start\<newline>'' [])
     (uthen (ufor [0..<24] (stressio_round K))
     (say_exit K ''[stressio] done\<newline>'' 0))"

subsection \<open>Files\<close>

text \<open>Reading a file to its end; whether no read failed.\<close>

partial_function (option) drain :: "'w ucall \<Rightarrow> int \<Rightarrow> 'w \<Rightarrow> (bool, 'w) uresult option" where
  "drain K fd w =
     ubind (uread K fd 256) (\<lambda>(n, bs).
     if n < 0 then uret False else if n = 0 then uret True else drain K fd) w"

definition stressdisk_files :: "string list" where
  "stressdisk_files = [''/init'', ''/hello'', ''/quiet'', ''/stressio'', ''/stsched'']"

definition stressdisk_worker :: "'w ucall \<Rightarrow> nat \<Rightarrow> (unit, 'w) uprog" where
  "stressdisk_worker K i =
     uthen (ufor [0..<48] (\<lambda>r.
       ubind (uopen K (chars (stressdisk_files ! ((i + r) mod length stressdisk_files))) 0) (\<lambda>fd.
       if fd < 0 then uexit K 2
       else
         ubind (drain K fd) (\<lambda>ok.
         if \<not> ok then uthen (uclose K fd) (uexit K 3)
         else
           ubind (uclose K fd) (\<lambda>c.
           if c < 0 then uexit K 4
           else if r mod 8 = 7 then uyield K
           else uret ())))))
     (uexit K 0)"

definition stressdisk_main :: "'w ucall \<Rightarrow> (unit, 'w) uprog" where
  "stressdisk_main K =
     uthen (say K ''[stressdisk] start\<newline>'' [])
     (uthen (ufor [0..<6] (\<lambda>i.
       ubind (ufork K) (\<lambda>p.
       if p < 0 then say_exit K ''[stressdisk] fork failed\<newline>'' 1
       else if p = 0 then stressdisk_worker K i
       else uret ())))
     (ubind (reap_workers K 6 ''[stressdisk] wait failed\<newline>'' 5) (\<lambda>failed.
     if failed then say_exit K ''[stressdisk] worker failed\<newline>'' 6
     else say_exit K ''[stressdisk] done\<newline>'' 0)))"

definition fstest_write :: "'w ucall \<Rightarrow> u8 list \<Rightarrow> u8 list \<Rightarrow> (unit, 'w) uprog" where
  "fstest_write K path msg =
     ubind (uopen K path 0x202) (\<lambda>fd.
     if fd < 0 then complain K ''[fstest] open create failed\<newline>'' 2
     else
       ubind (uwrite K fd msg (int (length msg))) (\<lambda>wn.
       if wn \<noteq> int (length msg) then
         uthen (ufprintf K 2 ''[fstest] first write failed\<newline>'' [])
         (uthen (uclose K fd)
         (uexit K 3))
       else uthen (uclose K fd) (uret ())))"

definition fstest_readback :: "'w ucall \<Rightarrow> u8 list \<Rightarrow> u8 list \<Rightarrow> (unit, 'w) uprog" where
  "fstest_readback K path msg =
     ubind (uopen K path 0) (\<lambda>fd.
     if fd < 0 then complain K ''[fstest] reopen failed\<newline>'' 4
     else
       ubind (uread K fd 32) (\<lambda>(rn, bs).
       let buf = bs @ replicate (32 - length bs) 0 in
       uthen (uclose K fd)
       (if rn \<noteq> int (length msg) \<or> take (nat rn) buf \<noteq> msg then complain K ''[fstest] readback mismatch\<newline>'' 5
        else uret ())))"

definition fstest_truncate :: "'w ucall \<Rightarrow> u8 list \<Rightarrow> (unit, 'w) uprog" where
  "fstest_truncate K path =
     ubind (uopen K path 0x401) (\<lambda>fd.
     if fd < 0 then complain K ''[fstest] open trunc failed\<newline>'' 6
     else
       ubind (uwrite K fd (chars ''x'') 1) (\<lambda>wn.
       if wn \<noteq> 1 then
         uthen (ufprintf K 2 ''[fstest] trunc write failed\<newline>'' [])
         (uthen (uclose K fd)
         (uexit K 7))
       else
         uthen (uclose K fd)
         (ubind (uopen K path 0) (\<lambda>fd.
         if fd < 0 then complain K ''[fstest] reopen2 failed\<newline>'' 8
         else
           ubind (uread K fd 32) (\<lambda>(rn, bs).
           uthen (uclose K fd)
           (if rn \<noteq> 1 \<or> first_char bs \<noteq> 120 then complain K ''[fstest] trunc readback mismatch\<newline>'' 9
            else uret ()))))))"

definition fstest_main :: "'w ucall \<Rightarrow> (unit, 'w) uprog" where
  "fstest_main K =
     (let dir = chars ''/tmpd''; path = chars ''/tmpd/hello''; msg = chars ''hello-write\<newline>'' in
      ubind (umkdir K dir) (\<lambda>r.
      if r < 0 then complain K ''[fstest] mkdir failed\<newline>'' 1
      else
        uthen (fstest_write K path msg)
        (uthen (fstest_readback K path msg)
        (uthen (fstest_truncate K path)
        (ubind (uunlink K path) (\<lambda>r.
        if r < 0 then complain K ''[fstest] unlink file failed\<newline>'' 10
        else
          ubind (uunlink K dir) (\<lambda>r.
          if r < 0 then complain K ''[fstest] unlink dir failed\<newline>'' 11
          else say_exit K ''[fstest] ok\<newline>'' 0)))))))"

definition typename1 :: "int \<Rightarrow> string" where
  "typename1 t = (if t = 1 then ''dir'' else if t = 2 then ''file'' else if t = 3 then ''dev'' else ''unknown'')"

definition fstat_main :: "'w ucall \<Rightarrow> (unit, 'w) uprog" where
  "fstat_main K =
     (let path = chars ''/TEST.TXT'' in
      ubind (uopen K path 0) (\<lambda>fd.
      if fd < 0 then
        uthen (say K ''[fstat] open failed: %s\<newline>'' [UStr (Some path)])
        (uexit K 1)
      else
        ubind (ufstat K fd) (\<lambda>(r, st).
        if r < 0 then
          uthen (say K ''[fstat] syscall failed\<newline>'' [])
          (uthen (uclose K fd)
          (uexit K 2))
        else
          uthen (uclose K fd)
          (uthen (say K ''[fstat] path=%s dev=%d ino=%u type=%s nlink=%d size=%lu\<newline>''
             [UStr (Some path), UInt (st_dev st), UNum (ucast (st_ino st)), UStr (Some (chars (typename1 (st_type st)))),
              UInt (st_nlink st), UNum (st_size st)])
          (uexit K 0)))))"

end
